(* ===== verification/Loom_Prelude.thy ===== *)
theory Loom_Prelude
  imports Complex_Main
begin

text \<open>
  Shared vocabulary of the development: identifiers, the result type used for code that raises,
  the Python string operations the sources use, stateful computations that may raise, and facts about
  searching lists.

  Python strings are modelled as \<^typ>\<open>string\<close> with one \<^typ>\<open>char\<close> per code point, so the model covers
  the code points 0 to 255 (Latin-1), which include every literal of the modelled sources.
\<close>

subsection \<open>Names\<close>

text \<open>A UUID is its canonical text, so that \<open>str(uuid)\<close> is the identity.\<close>

type_synonym uuid = string

text \<open>Instants are microseconds since an epoch (the resolution of Python's \<open>datetime\<close>).\<close>

type_synonym instant = int

text \<open>\<open>'e + 'a\<close> is a computation that raises \<open>'e\<close> (\<open>Inl\<close>) or returns \<open>'a\<close> (\<open>Inr\<close>).\<close>

definition res_bind :: "'e + 'a \<Rightarrow> ('a \<Rightarrow> 'e + 'b) \<Rightarrow> 'e + 'b" where
  "res_bind m f = (case m of Inl e \<Rightarrow> Inl e | Inr x \<Rightarrow> f x)"

lemma res_bind_simps [simp]:
  "res_bind (Inl e) f = Inl e"
  "res_bind (Inr x) f = f x"
  by (simp_all add: res_bind_def)

lemma res_bind_Inr_iff [simp]:
  "res_bind m f = Inr y \<longleftrightarrow> (\<exists>x. m = Inr x \<and> f x = Inr y)"
  by (cases m) auto

lemma res_bind_Inl_iff:
  "res_bind m f = Inl e \<longleftrightarrow> m = Inl e \<or> (\<exists>x. m = Inr x \<and> f x = Inl e)"
  by (cases m) auto

lemma res_bind_cong [fundef_cong]:
  "m = m' \<Longrightarrow> (\<And>x. m' = Inr x \<Longrightarrow> f x = f' x) \<Longrightarrow> res_bind m f = res_bind m' f'"
  by (cases m') auto

text \<open>\<open>if c: raise e\<close>.\<close>

definition raise_if :: "bool \<Rightarrow> 'e \<Rightarrow> 'e + unit" where
  "raise_if c e = (if c then Inl e else Inr ())"

lemma raise_if_Inr [simp]: "raise_if c e = Inr u \<longleftrightarrow> \<not> c"
  by (simp add: raise_if_def)

lemma raise_if_Inl [simp]: "raise_if c e = Inl e' \<longleftrightarrow> c \<and> e' = e"
  by (auto simp add: raise_if_def)

lemma raise_if_simps [simp]:
  "raise_if True e = Inl e"
  "raise_if False e = Inr ()"
  by (simp_all add: raise_if_def)

text \<open>
  A stateful computation that may raise: it returns or raises and leaves a state in either case.
  \<open>se_bind\<close> sequences two of them, \<open>se_lift\<close> runs code that does not touch the state, and
  \<open>se_atomic\<close> is a database transaction: a raise restores the part of the state the transaction covers.
\<close>

type_synonym ('s, 'e, 'a) sem = "'s \<Rightarrow> ('e + 'a) \<times> 's"

definition se_bind :: "('s, 'e, 'a) sem \<Rightarrow> ('a \<Rightarrow> ('s, 'e, 'b) sem) \<Rightarrow> ('s, 'e, 'b) sem" where
  "se_bind m f s = (case m s of (Inl e, s1) \<Rightarrow> (Inl e, s1) | (Inr x, s1) \<Rightarrow> f x s1)"

definition se_return :: "'a \<Rightarrow> ('s, 'e, 'a) sem" where
  "se_return x s = (Inr x, s)"

definition se_lift :: "'e + 'a \<Rightarrow> ('s, 'e, 'a) sem" where
  "se_lift r s = (r, s)"

definition se_modify :: "('s \<Rightarrow> 's) \<Rightarrow> ('s, 'e, unit) sem" where
  "se_modify f s = (Inr (), f s)"

definition se_gets :: "('s \<Rightarrow> 'a) \<Rightarrow> ('s, 'e, 'a) sem" where
  "se_gets f s = (Inr (f s), s)"

definition se_atomic :: "('s \<Rightarrow> 's \<Rightarrow> 's) \<Rightarrow> ('s, 'e, 'a) sem \<Rightarrow> ('s, 'e, 'a) sem" where
  "se_atomic restore m s = (case m s of (Inl e, s1) \<Rightarrow> (Inl e, restore s s1) | (Inr x, s1) \<Rightarrow> (Inr x, s1))"

lemma se_bind_Inr: "se_bind m f s = (Inr y, s2) \<longleftrightarrow> (\<exists>x s1. m s = (Inr x, s1) \<and> f x s1 = (Inr y, s2))"
  by (cases "m s"; cases "fst (m s)") (auto simp: se_bind_def)

lemma se_bind_Inl:
  "se_bind m f s = (Inl e, s2) \<longleftrightarrow>
     m s = (Inl e, s2) \<or> (\<exists>x s1. m s = (Inr x, s1) \<and> f x s1 = (Inl e, s2))"
  by (cases "m s"; cases "fst (m s)") (auto simp: se_bind_def)

lemma se_bind_eq [simp]:
  "m s = (Inr x, s1) \<Longrightarrow> se_bind m f s = f x s1"
  "m s = (Inl e, s1) \<Longrightarrow> se_bind m f s = (Inl e, s1)"
  by (simp_all add: se_bind_def)

lemma se_simps [simp]:
  "se_return x s = (Inr x, s)"
  "se_lift r s = (r, s)"
  "se_modify f s = (Inr (), f s)"
  "se_gets g s = (Inr (g s), s)"
  by (auto simp: se_return_def se_lift_def se_modify_def se_gets_def)

lemma se_atomic_Inl: "se_atomic restore m s = (Inl e, s2) \<longleftrightarrow> (\<exists>s1. m s = (Inl e, s1) \<and> s2 = restore s s1)"
  by (cases "m s"; cases "fst (m s)") (auto simp: se_atomic_def)

lemma se_atomic_Inr: "se_atomic restore m s = (Inr x, s2) \<longleftrightarrow> m s = (Inr x, s2)"
  by (cases "m s"; cases "fst (m s)") (auto simp: se_atomic_def)

subsection \<open>Python strings\<close>

definition py_space :: "char \<Rightarrow> bool" where
  "py_space c = ((of_char c :: nat) \<in> {9, 10, 11, 12, 13, 28, 29, 30, 31, 32, 133, 160})"

text \<open>\<open>s.strip()\<close> and the truth value of \<open>s.strip()\<close>.\<close>

definition py_strip :: "string \<Rightarrow> string" where
  "py_strip s = rev (dropWhile py_space (rev (dropWhile py_space s)))"

definition py_blank :: "string \<Rightarrow> bool" where
  "py_blank s = (py_strip s = [])"

definition lower_char :: "char \<Rightarrow> char" where
  "lower_char c =
     (let n = of_char c :: nat
      in if (65 \<le> n \<and> n \<le> 90) \<or> (192 \<le> n \<and> n \<le> 222 \<and> n \<noteq> 215) then char_of (n + 32) else c)"

definition py_lower :: "string \<Rightarrow> string" where
  "py_lower s = map lower_char s"

text \<open>\<open>s.isdigit()\<close>: also true of the superscript digits of Latin-1, false of the empty string.\<close>

definition py_isdigit :: "string \<Rightarrow> bool" where
  "py_isdigit s =
     (s \<noteq> [] \<and> list_all (\<lambda>c. let n = of_char c :: nat in (48 \<le> n \<and> n \<le> 57) \<or> n \<in> {178, 179, 185}) s)"

text \<open>\<open>f"'{s}'"\<close> and \<open>sub in s\<close>.\<close>

definition sq :: "string \<Rightarrow> string" where
  "sq s = CHR 39 # s @ [CHR 39]"

fun is_prefix :: "string \<Rightarrow> string \<Rightarrow> bool" where
  "is_prefix [] ys = True"
| "is_prefix (x # xs) [] = False"
| "is_prefix (x # xs) (y # ys) = (x = y \<and> is_prefix xs ys)"

fun py_in :: "string \<Rightarrow> string \<Rightarrow> bool" where
  "py_in sub [] = (sub = [])"
| "py_in sub (c # cs) = (is_prefix sub (c # cs) \<or> py_in sub cs)"

text \<open>\<open>a or b\<close> on strings.\<close>

definition py_or :: "string \<Rightarrow> string \<Rightarrow> string" where
  "py_or a b = (if a = [] then b else a)"

text \<open>\<open>sep.join(xs)\<close>, and \<open>repr\<close> of a list or tuple of strings without quotes or control characters.\<close>

fun py_join :: "string \<Rightarrow> string list \<Rightarrow> string" where
  "py_join sep [] = []"
| "py_join sep [x] = x"
| "py_join sep (x # y # ys) = x @ sep @ py_join sep (y # ys)"

definition py_list :: "string list \<Rightarrow> string" where
  "py_list xs = ''['' @ py_join '', '' (map sq xs) @ '']''"

definition py_tuple :: "string list \<Rightarrow> string" where
  "py_tuple xs = ''('' @ py_join '', '' (map sq xs) @ (if length xs = 1 then '',)'' else '')'')"

text \<open>\<open>str(n)\<close> of a natural number.\<close>

fun py_nat :: "nat \<Rightarrow> string" where
  "py_nat n = (if n < 10 then [char_of (48 + n)] else py_nat (n div 10) @ [char_of (48 + n mod 10)])"

declare py_nat.simps [simp del]

definition py_int :: "int \<Rightarrow> string" where
  "py_int n = (if n < 0 then CHR 45 # py_nat (nat (- n)) else py_nat (nat n))"

lemma py_blank_iff: "py_blank s \<longleftrightarrow> list_all py_space s"
proof -
  have "py_blank s \<longleftrightarrow> dropWhile py_space (rev (dropWhile py_space s)) = []"
    by (simp add: py_blank_def py_strip_def)
  also have "\<dots> \<longleftrightarrow> (\<forall>c\<in>set (dropWhile py_space s). py_space c)"
    by (simp add: dropWhile_eq_Nil_conv)
  also have "\<dots> \<longleftrightarrow> (\<forall>c\<in>set s. py_space c)"
    by (induction s) auto
  finally show ?thesis by (simp add: list_all_iff)
qed

lemma is_prefix_append [simp]: "is_prefix xs (xs @ ys)"
  by (induction xs) auto

lemma py_in_append: "py_in sub (xs @ sub @ ys)"
proof (induction xs)
  case Nil
  show ?case by (cases "sub @ ys") (auto, metis is_prefix_append)
next
  case (Cons x xs)
  then show ?case by simp
qed

subsection \<open>Lists\<close>

lemma find_None_set: "find P xs = None \<longleftrightarrow> (\<forall>x\<in>set xs. \<not> P x)"
  by (auto simp: find_None_iff)

lemma find_SomeD: "find P xs = Some x \<Longrightarrow> P x \<and> x \<in> set xs"
  by (auto simp: find_Some_iff)

lemma filter_singleton: "distinct xs \<Longrightarrow> x \<in> set xs \<Longrightarrow> filter (\<lambda>y. y = x) xs = [x]"
  by (induction xs) (auto simp: filter_empty_conv)

lemma find_map_keep:
  "(\<And>x. P (f x) = P x) \<Longrightarrow> find P (map f xs) = map_option f (find P xs)"
  by (induction xs) auto

end
