(* ===== verification/Circuit_Breaker.thy ===== *)
theory Circuit_Breaker
  imports Loom_Prelude
begin

text \<open>
  The resilience component, first half: the policy values and exception classes
  (\<^verbatim>\<open>resilience/policies.py\<close>), the audit forwarding (\<^verbatim>\<open>resilience/audit_logger.py\<close>) and the
  persisted per-target circuit breaker (\<^verbatim>\<open>resilience/circuit_breaker.py\<close>,
  \<^verbatim>\<open>resilience/models.py\<close>).

  The state is the table of breaker rows, keyed by (tenant, target) as the unique constraint of the
  model demands, and the list of audit events forwarded to the audit log. Every operation of the
  source runs in one transaction that holds the row lock, so one operation is one atomic step;
  clock readings (\<open>timezone.now()\<close>) are arguments. Float seconds are rationals, and
  \<open>timedelta(seconds=...)\<close> rounds them to microseconds as CPython does (half to even).
\<close>

subsection \<open>Policies and exceptions\<close>

datatype res_exc =
    ResilienceError string
  | TransientError string
  | NonRetryableError string
  | TimeoutError string
  | CircuitOpenError string

record policy =
  timeout_seconds :: rat
  max_retries :: int
  backoff_base_seconds :: rat
  backoff_factor :: rat
  backoff_max_seconds :: rat
  failure_threshold :: int
  recovery_timeout_seconds :: rat
  failure_window_seconds :: rat

definition default_policy :: policy where
  "default_policy =
     \<lparr>timeout_seconds = 5, max_retries = 2, backoff_base_seconds = 1 / 5, backoff_factor = 2,
      backoff_max_seconds = 10, failure_threshold = 5, recovery_timeout_seconds = 30,
      failure_window_seconds = 300\<rparr>"

definition backoff_delay :: "policy \<Rightarrow> int \<Rightarrow> rat" where
  "backoff_delay p attempt =
     (if attempt < 1 then 0
      else min (backoff_base_seconds p * backoff_factor p ^ nat (attempt - 1)) (backoff_max_seconds p))"

definition DEFAULT_POLICIES :: "string \<Rightarrow> policy option" where
  "DEFAULT_POLICIES =
     [''llm'' \<mapsto> default_policy\<lparr>timeout_seconds := 30, max_retries := 2, failure_threshold := 5\<rparr>,
      ''webhook'' \<mapsto> default_policy\<lparr>timeout_seconds := 10, max_retries := 3, failure_threshold := 5\<rparr>,
      ''github'' \<mapsto> default_policy\<lparr>timeout_seconds := 15, max_retries := 2, failure_threshold := 5\<rparr>]"

definition resolve_policy :: "string \<Rightarrow> policy option \<Rightarrow> policy" where
  "resolve_policy target override =
     (case override of
        Some p \<Rightarrow> p
      | None \<Rightarrow> (case DEFAULT_POLICIES target of Some p \<Rightarrow> p | None \<Rightarrow> default_policy))"

definition timedelta_us :: "rat \<Rightarrow> int" where
  "timedelta_us secs =
     (let x = secs * 1000000; f = \<lfloor>x\<rfloor>; d = x - of_int f
      in if d < 1 / 2 then f else if 1 / 2 < d then f + 1 else if even f then f else f + 1)"

subsection \<open>Persisted state and audit events\<close>

datatype breaker_state = CLOSED | OPEN | HALF_OPEN

fun state_str :: "breaker_state \<Rightarrow> string" where
  "state_str CLOSED = ''closed''"
| "state_str OPEN = ''open''"
| "state_str HALF_OPEN = ''half_open''"

record breaker_row =
  row_state :: breaker_state
  failure_count :: int
  last_failure_at :: "instant option"
  opened_at :: "instant option"

definition new_row :: breaker_row where
  "new_row = \<lparr>row_state = CLOSED, failure_count = 0, last_failure_at = None, opened_at = None\<rparr>"

datatype ctx_val = CStr string | CNone | CDict "(string \<times> string) list"

record audit_event =
  ae_actor :: string
  ae_actor_type :: string
  ae_operation :: string
  ae_entity_type :: string
  ae_entity_name :: string
  ae_change_reason :: string
  ae_ctx :: "(string \<times> ctx_val) list"

text \<open>
  \<^verbatim>\<open>op_calls\<close> counts the invocations of the outbound operation and \<^verbatim>\<open>sleeps\<close> records the
  backoff delays slept, in order: the two effects of the policy engine outside the database.
\<close>

record res_state =
  breaker_rows :: "uuid \<times> string \<Rightarrow> breaker_row option"
  audit_events :: "audit_event list"
  op_calls :: nat
  sleeps :: "rat list"

text \<open>
  The entity id of an event is \<open>uuid5(NAMESPACE_URL, name)\<close>, a function of the name recorded here.
  A failing audit write is swallowed by the source, so forwarding never raises.
\<close>

definition safe_write :: "string \<Rightarrow> string \<Rightarrow> (string \<times> ctx_val) list \<Rightarrow> res_state \<Rightarrow> res_state" where
  "safe_write change_reason target ctx s =
     s\<lparr>audit_events := audit_events s @
        [\<lparr>ae_actor = ''resilience-orchestrator'', ae_actor_type = ''agent'', ae_operation = ''transition'',
          ae_entity_type = ''ResilienceEvent'', ae_entity_name = ''resilience-target:'' @ target,
          ae_change_reason = change_reason,
          ae_ctx = (''source'', CStr ''resilience'') # ctx\<rparr>]\<rparr>"

definition log_state_change :: "string \<Rightarrow> breaker_state \<Rightarrow> breaker_state \<Rightarrow> res_state \<Rightarrow> res_state" where
  "log_state_change target old_state new_state =
     safe_write
       (''circuit_state_change:'' @ state_str old_state @ ''->'' @ state_str new_state)
       target
       [(''event'', CStr ''circuit_state_change''), (''target'', CStr target),
        (''old_state'', CStr (state_str old_state)), (''new_state'', CStr (state_str new_state))]"

definition log_degradation ::
  "string \<Rightarrow> string option \<Rightarrow> string \<Rightarrow> (string \<times> string) list \<Rightarrow> res_state \<Rightarrow> res_state" where
  "log_degradation target error_code reason detail =
     safe_write (''degradation:'' @ reason) target
       [(''event'', CStr ''degradation''), (''target'', CStr target),
        (''error_code'', case error_code of None \<Rightarrow> CNone | Some c \<Rightarrow> CStr c),
        (''reason'', CStr reason), (''detail'', CDict detail)]"

subsection \<open>Breaker operations\<close>

definition select_locked :: "uuid \<Rightarrow> string \<Rightarrow> res_state \<Rightarrow> breaker_row option" where
  "select_locked tn tg s = breaker_rows s (tn, tg)"

text \<open>\<open>row.save(update_fields=...)\<close>: write some fields of the locked row.\<close>

definition save_fields :: "(breaker_row \<Rightarrow> breaker_row) \<Rightarrow> uuid \<Rightarrow> string \<Rightarrow> res_state \<Rightarrow> res_state" where
  "save_fields upd tn tg s =
     s\<lparr>breaker_rows := (breaker_rows s)((tn, tg) := map_option upd (breaker_rows s (tn, tg)))\<rparr>"

text \<open>
  \<open>winner\<close> is the row a concurrent transaction committed for the same key between this
  transaction's SELECT and its INSERT, if any: then the INSERT violates the unique constraint and the
  winner's row is read again.
\<close>

definition locked_or_create ::
  "breaker_row option \<Rightarrow> uuid \<Rightarrow> string \<Rightarrow> res_state \<Rightarrow> breaker_row \<times> res_state" where
  "locked_or_create winner tn tg s =
     (case select_locked tn tg s of
        Some row \<Rightarrow> (row, s)
      | None \<Rightarrow>
          (case winner of
             None \<Rightarrow> (new_row, s\<lparr>breaker_rows := (breaker_rows s)((tn, tg) \<mapsto> new_row)\<rparr>)
           | Some w \<Rightarrow> (w, s\<lparr>breaker_rows := (breaker_rows s)((tn, tg) \<mapsto> w)\<rparr>)))"

definition failure_window_expired :: "policy \<Rightarrow> breaker_row \<Rightarrow> instant \<Rightarrow> bool" where
  "failure_window_expired p row now =
     (case last_failure_at row of
        None \<Rightarrow> False
      | Some t \<Rightarrow> now - t > timedelta_us (failure_window_seconds p))"

definition recovery_elapsed :: "policy \<Rightarrow> breaker_row \<Rightarrow> instant \<Rightarrow> bool" where
  "recovery_elapsed p row now =
     (case opened_at row of
        None \<Rightarrow> False
      | Some t \<Rightarrow> now \<ge> t + timedelta_us (recovery_timeout_seconds p))"

definition breaker_transition ::
  "uuid \<Rightarrow> string \<Rightarrow> breaker_row \<Rightarrow> breaker_state \<Rightarrow> instant option \<Rightarrow> instant \<Rightarrow> res_state
   \<Rightarrow> breaker_row \<times> res_state" where
  "breaker_transition tn tg row new_state oa now s =
     (let old_state = row_state row
      in if old_state = new_state then (row, s)
         else
           let row1 = row\<lparr>row_state := new_state\<rparr>;
               row2 = (if new_state = OPEN
                       then row1\<lparr>opened_at := Some (case oa of Some t \<Rightarrow> t | None \<Rightarrow> now)\<rparr>
                       else if new_state = CLOSED then row1\<lparr>opened_at := None\<rparr>
                       else row1);
               s1 = save_fields (\<lambda>r. r\<lparr>row_state := row_state row2, opened_at := opened_at row2\<rparr>) tn tg s
           in (row2, log_state_change tg old_state new_state s1))"

definition can_execute :: "policy \<Rightarrow> uuid \<Rightarrow> string \<Rightarrow> instant \<Rightarrow> res_state \<Rightarrow> bool \<times> res_state" where
  "can_execute p tn tg now s =
     (case locked_or_create None tn tg s of (row, s1) \<Rightarrow>
        (case row_state row of
           CLOSED \<Rightarrow> (True, s1)
         | HALF_OPEN \<Rightarrow> (False, s1)
         | OPEN \<Rightarrow>
             if recovery_elapsed p row now
             then (True, snd (breaker_transition tn tg row HALF_OPEN None now s1))
             else (False, s1)))"

definition peek_state :: "uuid \<Rightarrow> string \<Rightarrow> res_state \<Rightarrow> (breaker_state \<times> int \<times> instant option) option" where
  "peek_state tn tg s =
     map_option (\<lambda>row. (row_state row, failure_count row, opened_at row)) (breaker_rows s (tn, tg))"

definition report_success :: "uuid \<Rightarrow> string \<Rightarrow> instant \<Rightarrow> res_state \<Rightarrow> res_state" where
  "report_success tn tg now s =
     (case locked_or_create None tn tg s of (row, s1) \<Rightarrow>
        let s2 = (if row_state row \<noteq> CLOSED
                  then snd (breaker_transition tn tg row CLOSED None now s1) else s1)
        in save_fields (\<lambda>r. r\<lparr>failure_count := 0\<rparr>) tn tg s2)"

definition report_failure :: "policy \<Rightarrow> uuid \<Rightarrow> string \<Rightarrow> instant \<Rightarrow> res_state \<Rightarrow> res_state" where
  "report_failure p tn tg now s =
     (case locked_or_create None tn tg s of (row, s1) \<Rightarrow>
        let row1 = (if failure_window_expired p row now then row\<lparr>failure_count := 1\<rparr>
                    else row\<lparr>failure_count := failure_count row + 1\<rparr>);
            row2 = row1\<lparr>last_failure_at := Some now\<rparr>;
            s2 = save_fields
                   (\<lambda>r. r\<lparr>failure_count := failure_count row2, last_failure_at := last_failure_at row2\<rparr>)
                   tn tg s1
        in if row_state row2 = HALF_OPEN
           then snd (breaker_transition tn tg row2 OPEN (Some now) now s2)
           else if row_state row2 = CLOSED \<and> failure_count row2 \<ge> failure_threshold p
           then snd (breaker_transition tn tg row2 OPEN (Some now) now s2)
           else s2)"

subsection \<open>The effect of an operation on one row\<close>

text \<open>
  What each operation does to the row of its own key, with a target that has no row yet standing for a
  fresh, closed row: the intermediate step of the proofs, which sheds the table, the lock and the audit events.
  The specification in terms of the calls alone is in \<^verbatim>\<open>Breaker_History\<close>.
\<close>

definition row_of :: "uuid \<Rightarrow> string \<Rightarrow> res_state \<Rightarrow> breaker_row" where
  "row_of tn tg s = (case breaker_rows s (tn, tg) of Some r \<Rightarrow> r | None \<Rightarrow> new_row)"

definition row_probe :: "policy \<Rightarrow> instant \<Rightarrow> breaker_row \<Rightarrow> bool \<times> breaker_row" where
  "row_probe p now r =
     (case row_state r of
        CLOSED \<Rightarrow> (True, r)
      | HALF_OPEN \<Rightarrow> (False, r)
      | OPEN \<Rightarrow> if recovery_elapsed p r now then (True, r\<lparr>row_state := HALF_OPEN\<rparr>) else (False, r))"

definition row_success :: "breaker_row \<Rightarrow> breaker_row" where
  "row_success r =
     (if row_state r = CLOSED then r\<lparr>failure_count := 0\<rparr>
      else r\<lparr>row_state := CLOSED, opened_at := None, failure_count := 0\<rparr>)"

definition row_failure :: "policy \<Rightarrow> instant \<Rightarrow> breaker_row \<Rightarrow> breaker_row" where
  "row_failure p now r =
     (let c = (if failure_window_expired p r now then 1 else failure_count r + 1);
          r' = r\<lparr>failure_count := c, last_failure_at := Some now\<rparr>
      in if row_state r = HALF_OPEN \<or> row_state r = CLOSED \<and> c \<ge> failure_threshold p
         then r'\<lparr>row_state := OPEN, opened_at := Some now\<rparr> else r')"

named_theorems breaker_ops \<open>unfolding of the breaker operations down to table updates\<close>

lemmas [breaker_ops] =
  can_execute_def report_success_def report_failure_def locked_or_create_def select_locked_def
  breaker_transition_def save_fields_def log_state_change_def safe_write_def Let_def

lemma can_execute_rows:
  "fst (can_execute p tn tg now s) = fst (row_probe p now (row_of tn tg s))"
  "breaker_rows (snd (can_execute p tn tg now s)) =
     (breaker_rows s)((tn, tg) \<mapsto> snd (row_probe p now (row_of tn tg s)))"
  by (auto simp: breaker_ops row_of_def row_probe_def new_row_def fun_eq_iff
      split: option.splits breaker_state.splits)

lemma report_success_rows:
  "breaker_rows (report_success tn tg now s) =
     (breaker_rows s)((tn, tg) \<mapsto> row_success (row_of tn tg s))"
  by (auto simp: breaker_ops row_of_def row_success_def new_row_def fun_eq_iff
      split: option.splits)

lemma report_failure_rows:
  "breaker_rows (report_failure p tn tg now s) =
     (breaker_rows s)((tn, tg) \<mapsto> row_failure p now (row_of tn tg s))"
  by (auto simp: breaker_ops row_of_def row_failure_def new_row_def fun_eq_iff
      split: option.splits)

lemmas breaker_rows_simps [simp] = can_execute_rows report_success_rows report_failure_rows

lemma row_of_simps [simp]:
  "row_of tn tg (snd (can_execute p tn tg now s)) = snd (row_probe p now (row_of tn tg s))"
  "row_of tn tg (report_success tn tg now s) = row_success (row_of tn tg s)"
  "row_of tn tg (report_failure p tn tg now s) = row_failure p now (row_of tn tg s)"
  by (simp_all add: row_of_def [of tn tg "snd (can_execute p tn tg now s)"]
      row_of_def [of tn tg "report_success tn tg now s"]
      row_of_def [of tn tg "report_failure p tn tg now s"])

text \<open>The loser of a create race sees the winner's row, as if the winner had run first.\<close>

lemma locked_or_create_race:
  assumes "breaker_rows s (tn, tg) = None"
  shows "locked_or_create (Some w) tn tg s =
         locked_or_create None tn tg (s\<lparr>breaker_rows := (breaker_rows s)((tn, tg) \<mapsto> w)\<rparr>)"
  using assms by (simp add: locked_or_create_def select_locked_def)

subsection \<open>The contract the callers rely on\<close>

text \<open>
  What the dispatcher and the policy engine rely on: a rejecting breaker stays as it is while a probe
  is in flight, an admitted call leaves the breaker closed or probing, and a report resolves the probe.
\<close>

locale breaker_contract =
  fixes probe :: "instant \<Rightarrow> 's \<Rightarrow> bool \<times> 's"
    and succeed :: "instant \<Rightarrow> 's \<Rightarrow> 's"
    and fail :: "instant \<Rightarrow> 's \<Rightarrow> 's"
    and phase :: "'s \<Rightarrow> breaker_state"
  assumes half_open_rejects: "phase s = HALF_OPEN \<Longrightarrow> \<not> fst (probe t s)"
    and half_open_stays: "phase s = HALF_OPEN \<Longrightarrow> phase (snd (probe t s)) = HALF_OPEN"
    and open_admits_probe: "phase s = OPEN \<Longrightarrow> fst (probe t s) \<Longrightarrow> phase (snd (probe t s)) = HALF_OPEN"
    and open_rejects: "phase s = OPEN \<Longrightarrow> \<not> fst (probe t s) \<Longrightarrow> phase (snd (probe t s)) = OPEN"
    and closed_admits: "phase s = CLOSED \<Longrightarrow> fst (probe t s)"
    and closed_stays: "phase s = CLOSED \<Longrightarrow> phase (snd (probe t s)) = CLOSED"
    and success_closes: "phase (succeed t s) = CLOSED"
    and failure_reopens: "phase s = HALF_OPEN \<Longrightarrow> phase (fail t s) = OPEN"
    and failure_keeps_open: "phase s = OPEN \<Longrightarrow> phase (fail t s) = OPEN"
begin

primrec probes :: "instant list \<Rightarrow> 's \<Rightarrow> bool list \<times> 's" where
  "probes [] s = ([], s)"
| "probes (t # ts) s =
     (let (b, s1) = probe t s; (bs, s2) = probes ts s1 in (b # bs, s2))"

lemma probes_half_open:
  "phase s = HALF_OPEN \<Longrightarrow>
   (\<forall>b\<in>set (fst (probes ts s)). \<not> b) \<and> phase (snd (probes ts s)) = HALF_OPEN"
proof (induction ts arbitrary: s)
  case (Cons t ts)
  have "phase (snd (probe t s)) = HALF_OPEN" using Cons.prems by (rule half_open_stays)
  from Cons.IH [OF this] half_open_rejects [OF Cons.prems, of t]
  show ?case by (auto simp: split: prod.splits)
qed simp

lemma probes_single_admission:
  "phase s \<noteq> CLOSED \<Longrightarrow> length (filter (\<lambda>b. b) (fst (probes ts s))) \<le> 1"
proof (induction ts arbitrary: s)
  case (Cons t ts)
  obtain b s1 where p: "probe t s = (b, s1)" by (cases "probe t s")
  show ?case
  proof (cases b)
    case True
    with p Cons.prems have "phase s1 = HALF_OPEN"
      using half_open_rejects [of s t] open_admits_probe [of s t] by (cases "phase s") auto
    then have "filter (\<lambda>b. b) (fst (probes ts s1)) = []"
      using probes_half_open [of s1 ts] by (auto simp: filter_empty_conv)
    with p True show ?thesis by (auto split: prod.splits)
  next
    case False
    with p Cons.prems have "phase s1 \<noteq> CLOSED"
      using half_open_stays [of s t] open_rejects [of s t] by (cases "phase s") auto
    from Cons.IH [OF this] p False show ?thesis by (auto split: prod.splits)
  qed
qed simp

lemma admitted_phase:
  assumes "fst (probe t s)"
  shows "phase (snd (probe t s)) \<noteq> OPEN"
  using assms half_open_rejects [of s t] open_admits_probe [of s t] closed_stays [of s t]
  by (cases "phase s") auto

end

interpretation cb: breaker_contract
  "can_execute p tn tg" "report_success tn tg" "report_failure p tn tg"
  "\<lambda>s. row_state (row_of tn tg s)"
  for p tn tg
  by unfold_locales
    (auto simp: row_probe_def row_success_def row_failure_def Let_def
      split: breaker_state.splits if_splits)

subsection \<open>Sequences of calls\<close>

text \<open>Admission decisions of a sequence of calls, from whichever workers, at the given instants.\<close>

primrec can_executes ::
  "policy \<Rightarrow> uuid \<Rightarrow> string \<Rightarrow> instant list \<Rightarrow> res_state \<Rightarrow> bool list \<times> res_state" where
  "can_executes p tn tg [] s = ([], s)"
| "can_executes p tn tg (t # ts) s =
     (let (b, s1) = can_execute p tn tg t s; (bs, s2) = can_executes p tn tg ts s1 in (b # bs, s2))"

lemma can_executes_probes: "can_executes p tn tg ts s = cb.probes p tn tg ts s"
  by (induction ts arbitrary: s) (auto split: prod.splits)

definition report_failures :: "policy \<Rightarrow> uuid \<Rightarrow> string \<Rightarrow> instant list \<Rightarrow> res_state \<Rightarrow> res_state" where
  "report_failures p tn tg ts s = fold (report_failure p tn tg) ts s"

lemma row_of_report_failures:
  "row_of tn tg (report_failures p tn tg ts s) = fold (row_failure p) ts (row_of tn tg s)"
  by (induction ts arbitrary: s) (simp_all add: report_failures_def)

text \<open>Failures keep an open breaker open, and within the window a closed one counts them all.\<close>

lemma row_failures_open:
  "row_state r = OPEN \<Longrightarrow> row_state (fold (row_failure p) ts r) = OPEN"
  by (induction ts arbitrary: r) (auto simp: row_failure_def Let_def)

definition window_us :: "policy \<Rightarrow> int" where
  "window_us p = timedelta_us (failure_window_seconds p)"

lemma row_failures_burst:
  assumes "row_state r = CLOSED" "failure_count r < failure_threshold p"
    and "\<And>t0. last_failure_at r = Some t0 \<Longrightarrow> ts \<noteq> [] \<Longrightarrow> hd ts - t0 \<le> window_us p"
    and "successively (\<lambda>a b. b - a \<le> window_us p) ts"
  shows "row_state (fold (row_failure p) ts r) =
         (if failure_count r + int (length ts) \<ge> failure_threshold p then OPEN else CLOSED)"
  using assms
proof (induction ts arbitrary: r)
  case (Cons t ts)
  let ?r = "row_failure p t r"
  have count: "\<not> failure_window_expired p r t"
    using Cons.prems(3) by (auto simp: failure_window_expired_def window_us_def split: option.splits)
  show ?case
  proof (cases "failure_count r + 1 \<ge> failure_threshold p")
    case True
    then have "row_state ?r = OPEN"
      using Cons.prems count by (simp add: row_failure_def Let_def)
    with True show ?thesis by (simp add: row_failures_open)
  next
    case False
    then have r: "row_state ?r = CLOSED" "failure_count ?r = failure_count r + 1"
        "last_failure_at ?r = Some t"
      using Cons.prems count by (simp_all add: row_failure_def Let_def)
    have "row_state (fold (row_failure p) ts ?r) =
          (if failure_count ?r + int (length ts) \<ge> failure_threshold p then OPEN else CLOSED)"
      using Cons.prems(4) r False
      by (intro Cons.IH) (auto simp: successively_Cons)
    with r show ?thesis by (simp add: algebra_simps)
  qed
qed simp

lemma row_failures_sparse:
  assumes "row_state r = CLOSED" "failure_count r < failure_threshold p" "1 < failure_threshold p"
    and "failure_count r = 0 \<or> (\<forall>t0. last_failure_at r = Some t0 \<longrightarrow> ts \<noteq> [] \<longrightarrow> hd ts - t0 > window_us p)"
    and "last_failure_at r = None \<longrightarrow> failure_count r = 0"
    and "successively (\<lambda>a b. b - a > window_us p) ts"
  shows "row_state (fold (row_failure p) ts r) = CLOSED"
  using assms
proof (induction ts arbitrary: r)
  case (Cons t ts)
  let ?r = "row_failure p t r"
  have "(if failure_window_expired p r t then 1 else failure_count r + 1) = 1"
    using Cons.prems(4,5) by (auto simp: failure_window_expired_def window_us_def split: option.splits)
  then have r: "row_state ?r = CLOSED" "failure_count ?r = 1" "last_failure_at ?r = Some t"
    using Cons.prems(1,3) by (auto simp: row_failure_def Let_def split: if_splits)
  show ?case
    using Cons.prems(3,6) r
    by (simp, intro Cons.IH) (auto simp: successively_Cons)
qed simp

subsection \<open>Reachable tables\<close>

text \<open>
  Workers call the operations in any order, for any tenant and target; the policy of a target is
  fixed (the defaults of the source).
\<close>

inductive res_step :: "(string \<Rightarrow> policy) \<Rightarrow> res_state \<Rightarrow> res_state \<Rightarrow> bool" for pol where
  step_probe: "res_step pol s (snd (can_execute (pol tg) tn tg now s))"
| step_success: "res_step pol s (report_success tn tg now s)"
| step_failure: "res_step pol s (report_failure (pol tg) tn tg now s)"

inductive res_reachable :: "(string \<Rightarrow> policy) \<Rightarrow> res_state \<Rightarrow> bool" for pol where
  reach_init: "breaker_rows s = (\<lambda>_. None) \<Longrightarrow> res_reachable pol s"
| reach_step: "res_reachable pol s \<Longrightarrow> res_step pol s s' \<Longrightarrow> res_reachable pol s'"

definition row_ok :: "policy \<Rightarrow> breaker_row \<Rightarrow> bool" where
  "row_ok p r =
     (0 \<le> failure_count r \<and>
      (case row_state r of
         CLOSED \<Rightarrow> opened_at r = None \<and> (failure_count r = 0 \<or> failure_count r < failure_threshold p)
       | _ \<Rightarrow> opened_at r \<noteq> None))"

lemma row_ok_new_row: "row_ok p new_row"
  by (simp add: row_ok_def new_row_def)

lemma row_ok_row_probe: "row_ok p r \<Longrightarrow> row_ok p (snd (row_probe q now r))"
  by (auto simp: row_ok_def row_probe_def split: breaker_state.splits)

lemma row_ok_row_success: "row_ok p r \<Longrightarrow> row_ok p (row_success r)"
  by (auto simp: row_ok_def row_success_def split: breaker_state.splits)

lemma row_ok_row_failure: "row_ok p r \<Longrightarrow> row_ok p (row_failure p now r)"
  by (cases "row_state r") (auto simp: row_ok_def row_failure_def Let_def)

definition table_ok :: "(string \<Rightarrow> policy) \<Rightarrow> res_state \<Rightarrow> bool" where
  "table_ok pol s = (\<forall>tn tg. row_ok (pol tg) (row_of tn tg s))"

lemma table_ok_step:
  assumes "res_step pol s s'" "table_ok pol s"
  shows "table_ok pol s'"
  unfolding table_ok_def
proof (intro allI)
  fix tn tg
  have ok: "row_ok (pol tg) (row_of tn tg s)" using assms(2) by (simp add: table_ok_def)
  have other: "breaker_rows s' (tn, tg) = breaker_rows s (tn, tg) \<or>
      row_ok (pol tg) (row_of tn tg s')"
    using assms(1)
  proof cases
    case (step_probe tg' tn' now)
    then show ?thesis
      using ok by (cases "(tn', tg') = (tn, tg)") (auto intro: row_ok_row_probe)
  next
    case (step_success tn' tg' now)
    then show ?thesis
      using ok by (cases "(tn', tg') = (tn, tg)") (auto intro: row_ok_row_success)
  next
    case (step_failure tg' tn' now)
    then show ?thesis
      using ok by (cases "(tn', tg') = (tn, tg)") (auto intro: row_ok_row_failure)
  qed
  then show "row_ok (pol tg) (row_of tn tg s')"
    using ok by (auto simp: row_of_def)
qed

lemma reachable_table_ok: "res_reachable pol s \<Longrightarrow> table_ok pol s"
proof (induction rule: res_reachable.induct)
  case (reach_init s)
  then show ?case by (simp add: table_ok_def row_of_def row_ok_new_row)
next
  case (reach_step s s')
  then show ?case by (blast intro: table_ok_step)
qed

subsection \<open>Properties\<close>

text \<open>
  A burst of failures trips a closed breaker exactly at the threshold. Starting from a target with
  no recorded failure, failures whose distance never exceeds the policy's window open the circuit if and
  only if there are at least \<open>failure_threshold\<close> of them.
\<close>

theorem breaker_trips_at_threshold:
  assumes "row_of tn tg s = new_row" "1 \<le> failure_threshold p"
    and "successively (\<lambda>a b. b - a \<le> window_us p) ts"
  shows "row_state (row_of tn tg (report_failures p tn tg ts s)) =
         (if int (length ts) \<ge> failure_threshold p then OPEN else CLOSED)"
  using row_failures_burst [of new_row p ts] assms
  by (simp add: row_of_report_failures new_row_def)

theorem breaker_trips_at_threshold_witness:
  "row_state (row_of ''t'' ''llm''
     (report_failures default_policy ''t'' ''llm'' [0, 1000000, 2000000, 3000000, 4000000]
        \<lparr>breaker_rows = Map.empty, audit_events = [], op_calls = 0, sleeps = []\<rparr>)) = OPEN"
  by (subst breaker_trips_at_threshold)
    (simp_all add: row_of_def default_policy_def window_us_def timedelta_us_def)

text \<open>
  Isolated failures never trip the breaker. When every failure arrives more than the policy's window
  after the previous one, a breaker with a threshold of at least two stays closed, however many failures
  are reported over the row's lifetime.
\<close>

theorem isolated_failures_never_trip:
  assumes "row_of tn tg s = new_row" "2 \<le> failure_threshold p"
    and "successively (\<lambda>a b. b - a > window_us p) ts"
  shows "row_state (row_of tn tg (report_failures p tn tg ts s)) = CLOSED"
  using row_failures_sparse [of new_row p ts] assms
  by (simp add: row_of_report_failures new_row_def)

theorem isolated_failures_never_trip_witness:
  "row_state (row_of ''t'' ''llm''
     (report_failures default_policy ''t'' ''llm'' [0, 400000000, 800000000, 1200000000, 1600000000]
        \<lparr>breaker_rows = Map.empty, audit_events = [], op_calls = 0, sleeps = []\<rparr>)) = CLOSED"
  by (rule isolated_failures_never_trip)
    (simp_all add: row_of_def default_policy_def window_us_def timedelta_us_def)

text \<open>
  C28: single probe. Whatever the instants of the calls and however many workers make them, a breaker
  that is not closed admits at most one call until some call reports its outcome.
\<close>

theorem single_probe:
  assumes "row_state (row_of tn tg s) \<noteq> CLOSED"
  shows "length (filter (\<lambda>b. b) (fst (can_executes p tn tg ts s))) \<le> 1"
  using cb.probes_single_admission [OF assms, of p ts] by (simp add: can_executes_probes)

definition open_example :: res_state where
  "open_example =
     \<lparr>breaker_rows = [(''t'', ''llm'') \<mapsto>
        \<lparr>row_state = OPEN, failure_count = 5, last_failure_at = Some 0, opened_at = Some 0\<rparr>],
      audit_events = [], op_calls = 0, sleeps = []\<rparr>"

theorem single_probe_witness:
  "fst (can_executes default_policy ''t'' ''llm'' [1000000, 30000000, 30000001, 90000000] open_example)
     = [False, True, False, False] \<and>
   length (filter (\<lambda>b. b)
     (fst (can_executes default_policy ''t'' ''llm'' [1000000, 30000000, 30000001, 90000000] open_example))) \<le> 1"
proof
  show "fst (can_executes default_policy ''t'' ''llm'' [1000000, 30000000, 30000001, 90000000] open_example)
     = [False, True, False, False]"
    by (simp add: breaker_ops open_example_def default_policy_def recovery_elapsed_def timedelta_us_def)
  show "length (filter (\<lambda>b. b)
     (fst (can_executes default_policy ''t'' ''llm'' [1000000, 30000000, 30000001, 90000000] open_example))) \<le> 1"
    by (rule single_probe) (simp add: open_example_def row_of_def)
qed

text \<open>
  Invariant of the breaker table. In every reachable table a closed row has no \<open>opened_at\<close> and a
  failure count that is zero or below the threshold, and an open or half-open row records when it opened.
\<close>

theorem reachable_row_ok:
  assumes "res_reachable pol s" "breaker_rows s (tn, tg) = Some row"
  shows "row_ok (pol tg) row"
proof -
  have "row_ok (pol tg) (row_of tn tg s)"
    using reachable_table_ok [OF assms(1)] by (simp add: table_ok_def)
  then show ?thesis using assms(2) by (simp add: row_of_def)
qed

definition empty_res :: res_state where
  "empty_res = \<lparr>breaker_rows = Map.empty, audit_events = [], op_calls = 0, sleeps = []\<rparr>"

theorem reachable_row_ok_witness:
  "row_ok default_policy (row_failure default_policy 7 new_row)"
proof -
  let ?s = "report_failure default_policy ''t'' ''llm'' 7 empty_res"
  have "res_reachable (\<lambda>_. default_policy) empty_res"
    by (rule reach_init) (simp add: empty_res_def)
  then have "res_reachable (\<lambda>_. default_policy) ?s"
    by (rule reach_step) (rule step_failure)
  moreover have "breaker_rows ?s (''t'', ''llm'') = Some (row_failure default_policy 7 new_row)"
    by (simp add: row_of_def empty_res_def)
  ultimately show ?thesis by (rule reachable_row_ok)
qed

text \<open>
  C29: an open circuit recovers. In every reachable table an open breaker has a deadline from which on
  the next call is admitted as the probe, and before which calls are rejected without any change.
\<close>

theorem open_breaker_recovers:
  assumes "res_reachable pol s" "row_state (row_of tn tg s) = OPEN"
  shows "\<exists>deadline. \<forall>now. fst (can_execute (pol tg) tn tg now s) = (now \<ge> deadline)"
proof -
  have "row_ok (pol tg) (row_of tn tg s)"
    using reachable_table_ok [OF assms(1)] by (simp add: table_ok_def)
  then obtain t where "opened_at (row_of tn tg s) = Some t"
    using assms(2) by (auto simp: row_ok_def)
  then show ?thesis
    using assms(2) by (auto simp: row_probe_def recovery_elapsed_def)
qed

theorem open_breaker_recovers_witness:
  "\<exists>deadline. \<forall>now.
     fst (can_execute (default_policy\<lparr>failure_threshold := 1\<rparr>) ''t'' ''llm'' now
            (report_failure (default_policy\<lparr>failure_threshold := 1\<rparr>) ''t'' ''llm'' 7 empty_res))
     = (now \<ge> deadline)"
proof (rule open_breaker_recovers [of "\<lambda>_. default_policy\<lparr>failure_threshold := 1\<rparr>"])
  have "res_reachable (\<lambda>_. default_policy\<lparr>failure_threshold := 1\<rparr>) empty_res"
    by (rule reach_init) (simp add: empty_res_def)
  then show "res_reachable (\<lambda>_. default_policy\<lparr>failure_threshold := 1\<rparr>)
      (report_failure (default_policy\<lparr>failure_threshold := 1\<rparr>) ''t'' ''llm'' 7 empty_res)"
    by (rule reach_step) (rule step_failure)
  show "row_state (row_of ''t'' ''llm''
      (report_failure (default_policy\<lparr>failure_threshold := 1\<rparr>) ''t'' ''llm'' 7 empty_res)) = OPEN"
    by (simp add: empty_res_def row_of_def [of _ _ "\<lparr>breaker_rows = _, audit_events = _, op_calls = _, sleeps = _\<rparr>"]
        row_failure_def new_row_def failure_window_expired_def)
qed

end
