(* ===== verification/Policy_Engine.thy ===== *)
theory Policy_Engine
  imports Circuit_Breaker
begin

text \<open>
  The resilience component, second half: graceful degradation
  (\<^verbatim>\<open>resilience/degradation.py\<close>), the retry engine (\<^verbatim>\<open>resilience/policy_engine.py\<close>), the
  dispatcher (\<^verbatim>\<open>resilience/dispatcher.py\<close>), the Celery entry point (\<^verbatim>\<open>resilience/tasks.py\<close>)
  and the facade (\<^verbatim>\<open>resilience/services.py\<close>).

  The outbound operation is any function from the attempt number to an outcome. Python's float
  formatting, which only shows up inside messages, is the parameter \<open>fmt\<close>.
\<close>

subsection \<open>Outcomes\<close>

text \<open>
  What one invocation of the operation does: it returns, it raises one of the resilience exceptions, it
  raises some other \<open>Exception\<close>, it raises a \<open>BaseException\<close> that is no \<open>Exception\<close> (such as
  \<open>SystemExit\<close>), or the future's timeout fires first (also the case of an operation that raises the
  builtin \<open>TimeoutError\<close>, which is the same class).
\<close>

datatype 'v outcome =
    Returns 'v
  | RaisesRes res_exc
  | RaisesOther string
  | RaisesBase string
  | Overruns

datatype 'v call_result = CallReturned 'v | CallRaised res_exc | CallEscaped string

fun exc_type :: "res_exc \<Rightarrow> string" where
  "exc_type (ResilienceError m) = ''ResilienceError''"
| "exc_type (TransientError m) = ''TransientError''"
| "exc_type (NonRetryableError m) = ''NonRetryableError''"
| "exc_type (TimeoutError m) = ''TimeoutError''"
| "exc_type (CircuitOpenError m) = ''CircuitOpenError''"

fun exc_str :: "res_exc \<Rightarrow> string" where
  "exc_str (ResilienceError m) = m"
| "exc_str (TransientError m) = m"
| "exc_str (NonRetryableError m) = m"
| "exc_str (TimeoutError m) = m"
| "exc_str (CircuitOpenError m) = m"

subsection \<open>Degradation\<close>

record fallback =
  fb_degraded :: bool
  fb_target_subsystem :: string
  fb_reason :: string
  fb_error_code :: "string option"
  fb_detail :: "(string \<times> string) list"

fun error_code :: "res_exc \<Rightarrow> string" where
  "error_code (CircuitOpenError m) = ''circuit_open''"
| "error_code (TimeoutError m) = ''timeout''"
| "error_code (NonRetryableError m) = ''non_retryable''"
| "error_code _ = ''transient_exhausted''"

definition handle_failure :: "res_exc \<Rightarrow> string \<Rightarrow> res_state \<Rightarrow> fallback \<times> res_state" where
  "handle_failure e target s =
     (let code = error_code e;
          reason = (if exc_str e \<noteq> [] then exc_type e @ '': '' @ exc_str e else code);
          response = \<lparr>fb_degraded = True, fb_target_subsystem = target, fb_reason = reason,
                      fb_error_code = Some code, fb_detail = [(''exception_type'', exc_type e)]\<rparr>
      in (response, log_degradation target (Some code) reason (fb_detail response) s))"

subsection \<open>The policy engine\<close>

fun call_with_timeout :: "(rat \<Rightarrow> string) \<Rightarrow> policy \<Rightarrow> string \<Rightarrow> 'v outcome \<Rightarrow> 'v call_result" where
  "call_with_timeout fmt p tg (Returns v) = CallReturned v"
| "call_with_timeout fmt p tg Overruns =
     CallRaised (TimeoutError
       (''operation on '' @ sq tg @ '' exceeded '' @ fmt (timeout_seconds p) @ ''s timeout''))"
| "call_with_timeout fmt p tg (RaisesRes e) =
     (case e of
        NonRetryableError m \<Rightarrow> CallRaised e
      | TransientError m \<Rightarrow> CallRaised e
      | TimeoutError m \<Rightarrow> CallRaised e
      | _ \<Rightarrow> CallRaised (TransientError (exc_str e)))"
| "call_with_timeout fmt p tg (RaisesOther m) = CallRaised (TransientError m)"
| "call_with_timeout fmt p tg (RaisesBase m) = CallEscaped m"

datatype 'v engine_value = Value 'v | Fallback fallback

datatype 'v loop_result = LoopReturn 'v | LoopFailed res_exc | LoopEscaped string

text \<open>
  The retry loop: \<open>n\<close> attempts are left, \<open>k\<close> is the number of the next one. The breaker learns of a
  success inside the loop; a \<open>BaseException\<close> leaves the loop, and the function, without any report.
\<close>

fun attempt_loop ::
  "(rat \<Rightarrow> string) \<Rightarrow> policy \<Rightarrow> uuid \<Rightarrow> string \<Rightarrow> (nat \<Rightarrow> 'v outcome) \<Rightarrow> instant \<Rightarrow> nat \<Rightarrow> nat \<Rightarrow> res_exc
   \<Rightarrow> res_state \<Rightarrow> 'v loop_result \<times> res_state" where
  "attempt_loop fmt p tn tg opn now 0 k last_exc s = (LoopFailed last_exc, s)"
| "attempt_loop fmt p tn tg opn now (Suc n) k last_exc s =
     (let s1 = (if k > 0 then s\<lparr>sleeps := sleeps s @ [backoff_delay p (int k)]\<rparr> else s);
          s2 = s1\<lparr>op_calls := Suc (op_calls s1)\<rparr>
      in (case call_with_timeout fmt p tg (opn k) of
            CallReturned v \<Rightarrow> (LoopReturn v, report_success tn tg now s2)
          | CallEscaped m \<Rightarrow> (LoopEscaped m, s2)
          | CallRaised e \<Rightarrow>
              (case e of
                 NonRetryableError m \<Rightarrow> (LoopFailed e, s2)
               | _ \<Rightarrow> attempt_loop fmt p tn tg opn now n (Suc k) e s2)))"

text \<open>\<open>Inl\<close> is a \<open>BaseException\<close> that propagates to the caller.\<close>

definition execute_with_policy ::
  "(rat \<Rightarrow> string) \<Rightarrow> policy \<Rightarrow> uuid \<Rightarrow> string \<Rightarrow> (nat \<Rightarrow> 'v outcome) \<Rightarrow> instant \<Rightarrow> res_state
   \<Rightarrow> (string + 'v engine_value) \<times> res_state" where
  "execute_with_policy fmt p tn tg opn now s =
     (case attempt_loop fmt p tn tg opn now (nat (max_retries p + 1)) 0
             (ResilienceError ''no attempt executed'') s of
        (LoopReturn v, s1) \<Rightarrow> (Inr (Value v), s1)
      | (LoopEscaped m, s1) \<Rightarrow> (Inl m, s1)
      | (LoopFailed e, s1) \<Rightarrow>
          (case handle_failure e tg (report_failure p tn tg now s1) of
             (f, s2) \<Rightarrow> (Inr (Fallback f), s2)))"

subsection \<open>The dispatcher and the facade\<close>

record 'v dispatch_result =
  accepted :: bool
  result :: "'v engine_value option"
  async_handle :: "string option"

definition reject :: "string \<Rightarrow> res_state \<Rightarrow> 'v dispatch_result \<times> res_state" where
  "reject tg s =
     (case handle_failure (CircuitOpenError (''circuit open for target '' @ sq tg)) tg s of
        (f, s1) \<Rightarrow> (\<lparr>accepted = False, result = Some (Fallback f), async_handle = None\<rparr>, s1))"

text \<open>\<open>t0\<close> is the instant of the pre-flight check, \<open>t1\<close> that of the report at the end.\<close>

definition dispatch ::
  "(rat \<Rightarrow> string) \<Rightarrow> policy option \<Rightarrow> uuid \<Rightarrow> string \<Rightarrow> (nat \<Rightarrow> 'v outcome) \<Rightarrow> instant \<Rightarrow> instant
   \<Rightarrow> res_state \<Rightarrow> (string + 'v dispatch_result) \<times> res_state" where
  "dispatch fmt override tn tg opn t0 t1 s =
     (let p = resolve_policy tg override
      in case can_execute p tn tg t0 s of (ok, s1) \<Rightarrow>
           if \<not> ok then map_prod Inr id (reject tg s1)
           else (case execute_with_policy fmt p tn tg opn t1 s1 of
                   (Inl m, s2) \<Rightarrow> (Inl m, s2)
                 | (Inr r, s2) \<Rightarrow>
                     (Inr \<lparr>accepted = True, result = Some r, async_handle = None\<rparr>, s2)))"

text \<open>
  \<open>import_string\<close> (Django) resolves a dotted path to an operation, or raises; the parameter
  \<open>imports\<close> is its result.
\<close>

definition execute_optional_task ::
  "(rat \<Rightarrow> string) \<Rightarrow> (string \<Rightarrow> ('p \<Rightarrow> nat \<Rightarrow> 'v outcome) option) \<Rightarrow> uuid \<Rightarrow> string \<Rightarrow> string \<Rightarrow> 'p
   \<Rightarrow> instant \<Rightarrow> res_state \<Rightarrow> (string + 'v engine_value) \<times> res_state" where
  "execute_optional_task fmt imports tn tg path payload now s =
     (case imports path of
        None \<Rightarrow> (Inl ''ImportError'', s)
      | Some fn \<Rightarrow> execute_with_policy fmt (resolve_policy tg None) tn tg (fn payload) now s)"

text \<open>
  \<open>broker\<close> is the outcome of \<open>execute_optional_task.delay\<close> when Celery is importable: \<open>Some h\<close> the
  handle of the queued task, \<open>None\<close> an exception or no Celery, after which the task runs in place.
\<close>

definition dispatch_async ::
  "(rat \<Rightarrow> string) \<Rightarrow> (string \<Rightarrow> ('p \<Rightarrow> nat \<Rightarrow> 'v outcome) option) \<Rightarrow> string option \<Rightarrow> policy option \<Rightarrow> uuid
   \<Rightarrow> string \<Rightarrow> string \<Rightarrow> 'p \<Rightarrow> instant \<Rightarrow> instant \<Rightarrow> res_state
   \<Rightarrow> (string + 'v dispatch_result) \<times> res_state" where
  "dispatch_async fmt imports broker override tn tg path payload t0 t1 s =
     (let p = resolve_policy tg override
      in case can_execute p tn tg t0 s of (ok, s1) \<Rightarrow>
           if \<not> ok then map_prod Inr id (reject tg s1)
           else (case broker of
                   Some h \<Rightarrow> (Inr \<lparr>accepted = True, result = None, async_handle = Some h\<rparr>, s1)
                 | None \<Rightarrow>
                     (case execute_optional_task fmt imports tn tg path payload t1 s1 of
                        (Inl m, s2) \<Rightarrow> (Inl m, s2)
                      | (Inr r, s2) \<Rightarrow>
                          (Inr \<lparr>accepted = True, result = Some r, async_handle = None\<rparr>, s2))))"

definition execute_optional ::
  "(rat \<Rightarrow> string) \<Rightarrow> ('p \<Rightarrow> nat \<Rightarrow> 'v outcome) \<Rightarrow> uuid \<Rightarrow> string \<Rightarrow> 'p \<Rightarrow> policy option \<Rightarrow> instant
   \<Rightarrow> instant \<Rightarrow> res_state \<Rightarrow> (string + 'v engine_value option) \<times> res_state" where
  "execute_optional fmt operation tn tg payload override t0 t1 s =
     (case dispatch fmt override tn tg (operation payload) t0 t1 s of
        (Inl m, s1) \<Rightarrow> (Inl m, s1)
      | (Inr d, s1) \<Rightarrow> (Inr (result d), s1))"

subsection \<open>Effects of the retry loop\<close>

text \<open>
  An outcome is final when no retry follows it: a value, a \<open>NonRetryableError\<close>, or an escaping
  \<open>BaseException\<close>. The attempts made are those up to and including the first final one, within the
  budget of \<open>n\<close>.
\<close>

fun final_outcome :: "'v outcome \<Rightarrow> bool" where
  "final_outcome (Returns v) = True"
| "final_outcome (RaisesRes (NonRetryableError m)) = True"
| "final_outcome (RaisesBase m) = True"
| "final_outcome _ = False"

fun attempts_made :: "(nat \<Rightarrow> 'v outcome) \<Rightarrow> nat \<Rightarrow> nat \<Rightarrow> nat" where
  "attempts_made opn 0 k = 0"
| "attempts_made opn (Suc n) k = (if final_outcome (opn k) then 1 else Suc (attempts_made opn n (Suc k)))"

definition retry_budget :: "policy \<Rightarrow> nat" where
  "retry_budget p = nat (max_retries p + 1)"

lemma report_effects [simp]:
  "op_calls (report_success tn tg now s) = op_calls s"
  "op_calls (report_failure p tn tg now s) = op_calls s"
  "op_calls (snd (can_execute p tn tg now s)) = op_calls s"
  "sleeps (report_success tn tg now s) = sleeps s"
  "sleeps (report_failure p tn tg now s) = sleeps s"
  "sleeps (snd (can_execute p tn tg now s)) = sleeps s"
  by (auto simp: breaker_ops split: option.splits breaker_state.splits)

lemma handle_failure_effects [simp]:
  "op_calls (snd (handle_failure e tg s)) = op_calls s"
  "sleeps (snd (handle_failure e tg s)) = sleeps s"
  "breaker_rows (snd (handle_failure e tg s)) = breaker_rows s"
  by (auto simp: handle_failure_def log_degradation_def safe_write_def Let_def)

lemma call_with_timeout_final:
  "(case call_with_timeout fmt p tg oc of
      CallReturned v \<Rightarrow> oc = Returns v
    | CallEscaped m \<Rightarrow> oc = RaisesBase m
    | CallRaised e \<Rightarrow> (final_outcome oc \<longleftrightarrow> (\<exists>m. e = NonRetryableError m)) \<and>
                      (\<forall>v. oc \<noteq> Returns v) \<and> (\<forall>m. oc \<noteq> RaisesBase m))"
  by (cases "(fmt, p, tg, oc)" rule: call_with_timeout.cases) (auto split: res_exc.splits)

lemma attempt_loop_effects:
  "op_calls (snd (attempt_loop fmt p tn tg opn now n k e s)) = op_calls s + attempts_made opn n k \<and>
   sleeps (snd (attempt_loop fmt p tn tg opn now n k e s)) =
     sleeps s @ map (\<lambda>j. backoff_delay p (int j)) (filter (\<lambda>j. 0 < j) [k..<k + attempts_made opn n k])"
proof (induction n arbitrary: k e s)
  case (Suc n)
  have upt: "[k..<Suc (k + m)] = k # [Suc k..<Suc (k + m)]" for m
    by (simp add: upt_conv_Cons)
  show ?case
    by (cases "opn k" rule: final_outcome.cases) (simp_all add: Let_def upt Suc.IH upt_conv_Cons del: upt_Suc)
qed simp

lemma attempts_made_le: "attempts_made opn n k \<le> n"
  by (induction opn n k rule: attempts_made.induct) auto

lemma attempts_made_pos: "0 < n \<Longrightarrow> 0 < attempts_made opn n k"
  by (cases n) auto

lemma attempts_made_retried:
  "k \<le> j \<Longrightarrow> Suc j < k + attempts_made opn n k \<Longrightarrow> \<not> final_outcome (opn j)"
  by (induction opn n k rule: attempts_made.induct) (auto split: if_splits simp: le_Suc_eq less_Suc_eq_le,
      (metis Suc_leI le_neq_implies_less add_Suc_right)+)

lemma attempts_made_stops:
  "attempts_made opn n k < n \<Longrightarrow> \<exists>j. k + attempts_made opn n k = Suc j \<and> final_outcome (opn j)"
  by (induction opn n k rule: attempts_made.induct) (auto split: if_splits)

subsection \<open>Results of the retry loop\<close>

text \<open>The exception the engine degrades with after the attempts \<open>k\<close>, \<open>k + 1\<close>, ...\<close>

fun last_error ::
  "(rat \<Rightarrow> string) \<Rightarrow> policy \<Rightarrow> string \<Rightarrow> (nat \<Rightarrow> 'v outcome) \<Rightarrow> nat \<Rightarrow> res_exc" where
  "last_error fmt p tg opn 0 = ResilienceError ''no attempt executed''"
| "last_error fmt p tg opn (Suc j) =
     (case call_with_timeout fmt p tg (opn j) of CallRaised e \<Rightarrow> e | _ \<Rightarrow> ResilienceError [])"

fun first_final :: "(nat \<Rightarrow> 'v outcome) \<Rightarrow> nat \<Rightarrow> nat \<Rightarrow> nat option" where
  "first_final opn 0 k = None"
| "first_final opn (Suc n) k = (if final_outcome (opn k) then Some k else first_final opn n (Suc k))"

lemma first_final_find: "first_final opn n k = find (\<lambda>j. final_outcome (opn j)) [k..<n + k]"
  by (induction opn n k rule: first_final.induct) (simp_all add: upt_conv_Cons del: upt_Suc)

lemma attempt_loop_result:
  assumes "e = last_error fmt p tg opn k"
  shows "fst (attempt_loop fmt p tn tg opn now n k e s) =
     (case first_final opn n k of
        Some j \<Rightarrow> (case opn j of
            Returns v \<Rightarrow> LoopReturn v
          | RaisesBase m \<Rightarrow> LoopEscaped m
          | _ \<Rightarrow> LoopFailed (last_error fmt p tg opn (Suc j)))
      | None \<Rightarrow> LoopFailed (last_error fmt p tg opn (n + k)))"
  using assms
proof (induction n arbitrary: k e s)
  case (Suc n)
  show ?case
    by (cases "opn k" rule: final_outcome.cases) (simp_all add: Let_def Suc.IH split: option.split)
qed simp

lemma row_of_effects [simp]:
  "row_of tn tg (s\<lparr>sleeps := x\<rparr>) = row_of tn tg s"
  "row_of tn tg (s\<lparr>op_calls := n\<rparr>) = row_of tn tg s"
  by (simp_all add: row_of_def)


lemma handle_failure_code:
  "fb_degraded (fst (handle_failure e tg s)) \<and> fb_target_subsystem (fst (handle_failure e tg s)) = tg \<and>
   fb_error_code (fst (handle_failure e tg s)) = Some (error_code e)"
  by (simp add: handle_failure_def Let_def)

lemma execute_effects:
  "op_calls (snd (execute_with_policy fmt p tn tg opn now s)) =
     op_calls s + attempts_made opn (retry_budget p) 0"
  "sleeps (snd (execute_with_policy fmt p tn tg opn now s)) =
     sleeps s @ map (\<lambda>j. backoff_delay p (int j)) [1..<attempts_made opn (retry_budget p) 0]"
proof -
  have pos: "filter (\<lambda>j. 0 < j) [0..<a] = [1..<a]" for a :: nat
    by (cases a) (simp_all add: upt_conv_Cons filter_id_conv del: upt_Suc)
  let ?l = "attempt_loop fmt p tn tg opn now (retry_budget p) 0 (ResilienceError ''no attempt executed'') s"
  note eff = attempt_loop_effects [where k = 0 and n = "retry_budget p", unfolded add_0 pos]
  obtain r s1 where l: "?l = (r, s1)" by fastforce
  show "op_calls (snd (execute_with_policy fmt p tn tg opn now s)) =
      op_calls s + attempts_made opn (retry_budget p) 0"
    "sleeps (snd (execute_with_policy fmt p tn tg opn now s)) =
      sleeps s @ map (\<lambda>j. backoff_delay p (int j)) [1..<attempts_made opn (retry_budget p) 0]"
    using eff [of fmt p tn tg opn now "ResilienceError ''no attempt executed''" s] l
      handle_failure_effects
    by (auto simp: execute_with_policy_def retry_budget_def split: loop_result.splits prod.splits)
      (metis handle_failure_effects report_effects snd_conv)+
qed

lemma execute_result:
  "fst (execute_with_policy fmt p tn tg opn now s) =
     (case find (\<lambda>j. final_outcome (opn j)) [0..<retry_budget p] of
        Some j \<Rightarrow> (case opn j of
            Returns v \<Rightarrow> Inr (Value v)
          | RaisesBase m \<Rightarrow> Inl m
          | _ \<Rightarrow> Inr (Fallback (fst (handle_failure (last_error fmt p tg opn (Suc j)) tg s))))
      | None \<Rightarrow> Inr (Fallback (fst (handle_failure (last_error fmt p tg opn (retry_budget p)) tg s))))"
proof -
  have same: "fst (handle_failure e tg (report_failure p tn tg now s')) = fst (handle_failure e tg s)" for e s'
    by (simp add: handle_failure_def Let_def)
  let ?l = "attempt_loop fmt p tn tg opn now (retry_budget p) 0 (ResilienceError ''no attempt executed'') s"
  have "fst (execute_with_policy fmt p tn tg opn now s) =
      (case fst ?l of LoopReturn v \<Rightarrow> Inr (Value v) | LoopEscaped m \<Rightarrow> Inl m
       | LoopFailed e \<Rightarrow> Inr (Fallback (fst (handle_failure e tg s))))"
    by (simp add: execute_with_policy_def retry_budget_def split_beta same split: loop_result.split)
  moreover have "fst ?l = (case find (\<lambda>j. final_outcome (opn j)) [0..<retry_budget p] of
        Some j \<Rightarrow> (case opn j of
            Returns v \<Rightarrow> LoopReturn v
          | RaisesBase m \<Rightarrow> LoopEscaped m
          | _ \<Rightarrow> LoopFailed (last_error fmt p tg opn (Suc j)))
      | None \<Rightarrow> LoopFailed (last_error fmt p tg opn (retry_budget p)))"
    by (simp add: attempt_loop_result first_final_find cong: option.case_cong)
  ultimately show ?thesis
    by (cases "find (\<lambda>j. final_outcome (opn j)) [0..<retry_budget p]")
      (simp_all split: outcome.split)
qed


lemma reject_effects:
  "accepted (fst (reject tg s)) = False \<and> breaker_rows (snd (reject tg s)) = breaker_rows s \<and>
   op_calls (snd (reject tg s)) = op_calls s \<and> sleeps (snd (reject tg s)) = sleeps s"
  by (simp add: reject_def split_beta)

lemma row_probe_rejects: "\<not> fst (row_probe p now r) \<Longrightarrow> snd (row_probe p now r) = r"
  by (auto simp: row_probe_def split: breaker_state.splits if_splits)

lemma rejected_row:
  assumes "\<not> fst (can_execute p tn tg now s)"
  shows "snd (can_execute p tn tg now s) = s"
  using assms
  by (auto simp: can_execute_def locked_or_create_def select_locked_def new_row_def
      split: option.splits breaker_state.splits if_splits)


lemma audit_events_transition:
  "audit_events (snd (breaker_transition tn tg row b oa now s)) =
     (if row_state row = b then audit_events s
      else audit_events (log_state_change tg (row_state row) b s))"
  by (simp add: breaker_transition_def save_fields_def log_state_change_def safe_write_def Let_def)

subsection \<open>Properties\<close>

text \<open>
  C32: retry budget and backoff schedule. One guarded call invokes the operation some number \<open>a\<close> of
  times that never exceeds \<open>max_retries + 1\<close>; every invocation before the last one failed transiently, a
  run shorter than the budget ended in a final outcome (a value, a non-retryable error or an escaping
  exception), and the delays slept are exactly the policy's backoff for the retries \<open>1, ..., a - 1\<close>.
\<close>

theorem retry_schedule:
  "\<exists>a \<le> nat (max_retries p + 1).
     op_calls (snd (execute_with_policy fmt p tn tg opn now s)) = op_calls s + a \<and>
     sleeps (snd (execute_with_policy fmt p tn tg opn now s)) =
       sleeps s @ map (\<lambda>j. backoff_delay p (int j)) [1..<a] \<and>
     (\<forall>j. Suc j < a \<longrightarrow> \<not> final_outcome (opn j)) \<and>
     (a < nat (max_retries p + 1) \<longrightarrow> (\<exists>j. a = Suc j \<and> final_outcome (opn j)))"
  using execute_effects [of fmt p tn tg opn now s] attempts_made_le [of opn "retry_budget p" 0]
    attempts_made_retried [of 0 _ opn "retry_budget p"] attempts_made_stops [of opn "retry_budget p" 0]
  by (intro exI [of _ "attempts_made opn (retry_budget p) 0"]) (auto simp: retry_budget_def)

theorem retry_schedule_witness:
  "let s' = snd (execute_with_policy (\<lambda>_. []) default_policy ''t'' ''llm''
                   (\<lambda>k. if k = 0 then RaisesOther ''boom'' else Returns (1 :: nat)) 0 empty_res)
   in op_calls s' = 2 \<and> sleeps s' = [1 / 5]"
proof -
  let ?op = "\<lambda>k. if k = 0 then RaisesOther ''boom'' else Returns (1 :: nat)"
  obtain a where a: "a \<le> 3"
      "op_calls (snd (execute_with_policy (\<lambda>_. []) default_policy ''t'' ''llm'' ?op 0 empty_res)) = a"
      "sleeps (snd (execute_with_policy (\<lambda>_. []) default_policy ''t'' ''llm'' ?op 0 empty_res)) =
         map (\<lambda>j. backoff_delay default_policy (int j)) [1..<a]"
      "\<forall>j. Suc j < a \<longrightarrow> \<not> final_outcome (?op j)" "a < 3 \<longrightarrow> (\<exists>j. a = Suc j \<and> final_outcome (?op j))"
    using retry_schedule [of default_policy "\<lambda>_. []" "''t''" "''llm''" ?op 0 empty_res]
    by (auto simp: default_policy_def empty_res_def)
  have "a \<noteq> 3" using a(4) [rule_format, of 1] by auto
  moreover have "a \<noteq> 0" "a \<noteq> 1" using a(5) by auto
  ultimately have "a = 2" using a(1) by auto
  with a(2,3) show ?thesis
    by (simp add: backoff_delay_def default_policy_def upt_conv_Cons)
qed

text \<open>
  C33: what a guarded call returns. The first final outcome within the budget decides: its value is
  returned, an escaping exception propagates, a non-retryable error yields the degraded fallback with code
  \<open>non_retryable\<close>; when every attempt of the budget failed transiently the fallback carries the code of
  the last attempt's error.
\<close>

theorem execute_with_policy_result:
  "case find (\<lambda>j. final_outcome (opn j)) [0..<nat (max_retries p + 1)] of
     Some j \<Rightarrow> (case opn j of
         Returns v \<Rightarrow> fst (execute_with_policy fmt p tn tg opn now s) = Inr (Value v)
       | RaisesBase m \<Rightarrow> fst (execute_with_policy fmt p tn tg opn now s) = Inl m
       | _ \<Rightarrow> (\<exists>f. fst (execute_with_policy fmt p tn tg opn now s) = Inr (Fallback f) \<and>
                  fb_degraded f \<and> fb_error_code f = Some ''non_retryable''))
   | None \<Rightarrow> (\<exists>f. fst (execute_with_policy fmt p tn tg opn now s) = Inr (Fallback f) \<and>
                  fb_degraded f \<and>
                  fb_error_code f = Some (error_code (last_error fmt p tg opn (nat (max_retries p + 1)))))"
proof (cases "find (\<lambda>j. final_outcome (opn j)) [0..<retry_budget p]")
  case None
  with execute_result [of fmt p tn tg opn now s] show ?thesis
    by (simp add: retry_budget_def handle_failure_code)
next
  case (Some j)
  then have "final_outcome (opn j)" by (blast dest: find_SomeD)
  with Some execute_result [of fmt p tn tg opn now s] show ?thesis
    by (cases "opn j" rule: final_outcome.cases) (simp_all add: retry_budget_def handle_failure_code)
qed

text \<open>
  An open circuit protects the target. A call the breaker does not admit is not accepted, gets a
  degraded result with code \<open>circuit_open\<close>, never invokes the operation, never sleeps and leaves the
  breaker table as it was.
\<close>

theorem rejected_dispatch:
  assumes "\<not> fst (can_execute (resolve_policy tg override) tn tg t0 s)"
  shows "\<exists>f d. fst (dispatch fmt override tn tg opn t0 t1 s) = Inr d \<and> \<not> accepted d \<and>
           result d = Some (Fallback f) \<and> fb_error_code f = Some ''circuit_open'' \<and>
           op_calls (snd (dispatch fmt override tn tg opn t0 t1 s)) = op_calls s \<and>
           sleeps (snd (dispatch fmt override tn tg opn t0 t1 s)) = sleeps s \<and>
           breaker_rows (snd (dispatch fmt override tn tg opn t0 t1 s)) = breaker_rows s"
  using assms rejected_row [OF assms]
  by (simp add: dispatch_def Let_def split_beta reject_def handle_failure_code)

theorem rejected_dispatch_witness:
  "\<exists>f d. fst (dispatch (\<lambda>_. []) None ''t'' ''llm'' (\<lambda>_. Returns (1 :: nat)) 5 9 open_example) = Inr d \<and>
     \<not> accepted d \<and> result d = Some (Fallback f) \<and> fb_error_code f = Some ''circuit_open''"
  using rejected_dispatch [of "''llm''" None "''t''" 5 open_example "\<lambda>_. []" "\<lambda>_. Returns (1 :: nat)" 9]
  by (force simp: row_probe_def row_of_def open_example_def recovery_elapsed_def resolve_policy_def
      DEFAULT_POLICIES_def default_policy_def timedelta_us_def)

text \<open>
  The audit trail of a breaker. Every operation appends exactly one \<open>circuit_state_change\<close> event,
  carrying the old and the new state, when the state of the row changes, and no event when it does not.
\<close>

theorem state_changes_audited:
  "audit_events (snd (can_execute p tn tg now s)) =
     (if row_state (row_of tn tg (snd (can_execute p tn tg now s))) = row_state (row_of tn tg s)
      then audit_events s
      else audit_events (log_state_change tg (row_state (row_of tn tg s))
             (row_state (row_of tn tg (snd (can_execute p tn tg now s)))) s)) \<and>
   audit_events (report_success tn tg now s) =
     (if row_state (row_of tn tg (report_success tn tg now s)) = row_state (row_of tn tg s)
      then audit_events s
      else audit_events (log_state_change tg (row_state (row_of tn tg s))
             (row_state (row_of tn tg (report_success tn tg now s))) s)) \<and>
   audit_events (report_failure p tn tg now s) =
     (if row_state (row_of tn tg (report_failure p tn tg now s)) = row_state (row_of tn tg s)
      then audit_events s
      else audit_events (log_state_change tg (row_state (row_of tn tg s))
             (row_state (row_of tn tg (report_failure p tn tg now s))) s))"
proof (intro conjI)
  note ops = locked_or_create_def select_locked_def save_fields_def log_state_change_def safe_write_def
    Let_def audit_events_transition new_row_def
  show "audit_events (snd (can_execute p tn tg now s)) =
     (if row_state (row_of tn tg (snd (can_execute p tn tg now s))) = row_state (row_of tn tg s)
      then audit_events s
      else audit_events (log_state_change tg (row_state (row_of tn tg s))
             (row_state (row_of tn tg (snd (can_execute p tn tg now s)))) s))"
    unfolding row_of_simps
    by (cases "breaker_rows s (tn, tg)")
      (auto simp: can_execute_def row_of_def [of tn tg s] row_probe_def ops split: breaker_state.splits)
  show "audit_events (report_success tn tg now s) =
     (if row_state (row_of tn tg (report_success tn tg now s)) = row_state (row_of tn tg s)
      then audit_events s
      else audit_events (log_state_change tg (row_state (row_of tn tg s))
             (row_state (row_of tn tg (report_success tn tg now s))) s))"
    unfolding row_of_simps
    by (cases "breaker_rows s (tn, tg)")
      (auto simp: report_success_def row_of_def [of tn tg s] row_success_def ops)
  show "audit_events (report_failure p tn tg now s) =
     (if row_state (row_of tn tg (report_failure p tn tg now s)) = row_state (row_of tn tg s)
      then audit_events s
      else audit_events (log_state_change tg (row_state (row_of tn tg s))
             (row_state (row_of tn tg (report_failure p tn tg now s))) s))"
    unfolding row_of_simps
    by (cases "breaker_rows s (tn, tg)")
      (auto simp: report_failure_def row_of_def [of tn tg s] row_failure_def failure_window_expired_def ops)
qed



end
