(* ===== verification/Breaker_History.thy ===== *)
theory Breaker_History
  imports Circuit_Breaker
begin

text \<open>
  What the circuit breaker of \<^verbatim>\<open>resilience/circuit_breaker.py\<close> promises, in terms of the calls a target has seen and nothing
  else: no row, no counter, no stored state. The persisted breaker, shared by all tenants and targets, is shown to decide every
  call exactly as this specification does on the calls of the same tenant and target.
\<close>

subsection \<open>Calls and logs\<close>

datatype breaker_call = Probe instant | Success instant | Failure instant

text \<open>The log of one target: its calls with their answers, newest first. Only a probe has an answer; a report has \<open>False\<close>.\<close>

type_synonym breaker_log = "(breaker_call \<times> bool) list"

text \<open>The failures since the last success, newest first.\<close>

fun failures :: "breaker_log \<Rightarrow> instant list" where
  "failures [] = []"
| "failures ((Probe t, b) # l) = failures l"
| "failures ((Success t, b) # l) = []"
| "failures ((Failure t, b) # l) = t # failures l"

text \<open>Was a probe admitted since the last report?\<close>

fun probe_out :: "breaker_log \<Rightarrow> bool" where
  "probe_out [] = False"
| "probe_out ((Probe t, b) # l) = (b \<or> probe_out l)"
| "probe_out ((Success t, b) # l) = False"
| "probe_out ((Failure t, b) # l) = False"

subsection \<open>The specification\<close>

text \<open>
  \<open>burst\<close> is the length of the newest run of failures whose distances stay within the window. The breaker has tripped when some
  run of failures since the last success has reached the threshold.
\<close>

fun burst :: "policy \<Rightarrow> instant list \<Rightarrow> int" where
  "burst p [] = 0"
| "burst p [t] = 1"
| "burst p (t # u # fs) = (if t - u \<le> window_us p then burst p (u # fs) + 1 else 1)"

fun tripped :: "policy \<Rightarrow> instant list \<Rightarrow> bool" where
  "tripped p [] = False"
| "tripped p (t # fs) = (failure_threshold p \<le> burst p (t # fs) \<or> tripped p fs)"

text \<open>
  The breaker opened at the failure that tripped it, and opens anew at a failure of an admitted probe.
\<close>

fun opened :: "policy \<Rightarrow> breaker_log \<Rightarrow> instant option" where
  "opened p [] = None"
| "opened p ((Probe t, b) # l) = opened p l"
| "opened p ((Success t, b) # l) = None"
| "opened p ((Failure t, b) # l) =
     (if tripped p (failures l) \<and> \<not> probe_out l then opened p l
      else if tripped p (t # failures l) then Some t else None)"

definition admits :: "policy \<Rightarrow> breaker_log \<Rightarrow> instant \<Rightarrow> bool" where
  "admits p l t \<longleftrightarrow> \<not> tripped p (failures l) \<or>
     \<not> probe_out l \<and> (case opened p l of None \<Rightarrow> False | Some t0 \<Rightarrow> t0 + timedelta_us (recovery_timeout_seconds p) \<le> t)"

definition log_state :: "policy \<Rightarrow> breaker_log \<Rightarrow> breaker_state" where
  "log_state p l = (if \<not> tripped p (failures l) then CLOSED else if probe_out l then HALF_OPEN else OPEN)"

text \<open>Tripping, without recursion: a contiguous run of enough failures, each within the window of the one before.\<close>

lemma burst_run:
  assumes "ys \<noteq> []" "successively (\<lambda>a b. a - b \<le> window_us p) ys"
  shows "int (length ys) \<le> burst p (ys @ zs)"
  using assms
proof (induction ys)
  case (Cons y ys)
  have pos: "1 \<le> burst p (x # fs)" for x fs
    by (induction p "x # fs" arbitrary: x fs rule: burst.induct) auto
  show ?case
  proof (cases ys)
    case Nil
    then show ?thesis using pos by simp
  next
    case (Cons u us)
    with Cons.IH Cons.prems show ?thesis by simp
  qed
qed simp

lemma run_of_burst: "fs \<noteq> [] \<Longrightarrow> \<exists>ys zs. fs = ys @ zs \<and> ys \<noteq> [] \<and> int (length ys) = burst p fs \<and> successively (\<lambda>a b. a - b \<le> window_us p) ys"
proof (induction p fs rule: burst.induct)
  case (2 p t)
  have "[t] = [t] @ []" "int (length [t]) = burst p [t]" by simp_all
  then show ?case by (metis list.distinct(1) successively.simps(2))
next
  case (3 p t u fs)
  show ?case
  proof (cases "t - u \<le> window_us p")
    case True
    with 3 obtain ys zs where y: "u # fs = ys @ zs" "ys \<noteq> []" "int (length ys) = burst p (u # fs)"
      "successively (\<lambda>a b. a - b \<le> window_us p) ys" by blast
    then obtain vs where "ys = u # vs" by (cases ys) auto
    with y True have "t # u # fs = (t # ys) @ zs" "int (length (t # ys)) = burst p (t # u # fs)"
      "successively (\<lambda>a b. a - b \<le> window_us p) (t # ys)" by simp_all
    then show ?thesis by blast
  next
    case False
    have "t # u # fs = [t] @ u # fs" "successively (\<lambda>a b. a - b \<le> window_us p) [t]" by simp_all
    with False show ?thesis by (metis burst.simps(3) length_Cons list.distinct(1) list.size(3) of_nat_1 One_nat_def)
  qed
qed simp

lemma tripped_iff:
  "tripped p fs \<longleftrightarrow> (\<exists>xs ys zs. fs = xs @ ys @ zs \<and> ys \<noteq> [] \<and> failure_threshold p \<le> int (length ys) \<and>
     successively (\<lambda>a b. a - b \<le> window_us p) ys)" (is "_ \<longleftrightarrow> ?run fs")
proof (induction fs)
  case (Cons t fs)
  have "?run (t # fs)" if "failure_threshold p \<le> burst p (t # fs)"
    using run_of_burst [of "t # fs" p] that by (metis append_Nil list.distinct(1))
  moreover have "?run (t # fs)" if "?run fs" using that by (metis append_Cons)
  moreover have "failure_threshold p \<le> burst p (t # fs) \<or> ?run fs" if "?run (t # fs)"
  proof -
    from that obtain xs ys zs where r: "t # fs = xs @ ys @ zs" "ys \<noteq> []" "failure_threshold p \<le> int (length ys)"
      "successively (\<lambda>a b. a - b \<le> window_us p) ys" by blast
    show ?thesis
    proof (cases xs)
      case Nil
      with burst_run [OF r(2,4), of zs] r(1,3) show ?thesis by simp
    next
      case (Cons x xs')
      with r show ?thesis by auto
    qed
  qed
  ultimately show ?case unfolding tripped.simps Cons.IH by blast
qed simp

subsection \<open>The row and the log\<close>

definition tracks :: "policy \<Rightarrow> breaker_row \<Rightarrow> breaker_log \<Rightarrow> bool" where
  "tracks p r l \<longleftrightarrow> row_state r = log_state p l \<and>
     (row_state r = CLOSED \<longrightarrow> failure_count r = burst p (failures l) \<and> (failures l \<noteq> [] \<longrightarrow> last_failure_at r = Some (hd (failures l)))) \<and>
     (row_state r = OPEN \<longrightarrow> opened_at r = opened p l \<and> opened p l \<noteq> None)"

lemma tracks_new: "tracks p new_row []"
  by (simp add: tracks_def log_state_def new_row_def)

lemma tracks_probe:
  assumes "tracks p r l"
  shows "fst (row_probe p t r) = admits p l t" "tracks p (snd (row_probe p t r)) ((Probe t, admits p l t) # l)"
  using assms by (auto simp: tracks_def log_state_def row_probe_def admits_def recovery_elapsed_def split: if_splits option.splits)

lemma tracks_success: "tracks p r l \<Longrightarrow> tracks p (row_success r) ((Success t, b) # l)"
  by (simp add: tracks_def log_state_def row_success_def)

lemma closed_count:
  assumes "tracks p r l" "row_state r = CLOSED"
  shows "(if failure_window_expired p r t then 1 else failure_count r + 1) = burst p (t # failures l)"
  using assms by (cases "failures l") (auto simp: tracks_def failure_window_expired_def window_us_def split: option.splits)

lemma tracks_failure:
  assumes "tracks p r l"
  shows "tracks p (row_failure p t r) ((Failure t, b) # l)"
proof (cases "row_state r")
  case CLOSED
  then have "\<not> tripped p (failures l)" using assms by (auto simp: tracks_def log_state_def split: if_splits)
  then show ?thesis using closed_count [OF assms CLOSED, of t] CLOSED by (auto simp: tracks_def log_state_def row_failure_def Let_def)
next
  case OPEN
  then show ?thesis using assms by (auto simp: tracks_def log_state_def row_failure_def Let_def split: if_splits)
next
  case HALF_OPEN
  then show ?thesis using assms by (auto simp: tracks_def log_state_def row_failure_def Let_def split: if_splits)
qed

subsection \<open>Runs\<close>

fun call_breaker :: "policy \<Rightarrow> uuid \<Rightarrow> string \<Rightarrow> breaker_call \<Rightarrow> res_state \<Rightarrow> bool \<times> res_state" where
  "call_breaker p tn tg (Probe t) s = can_execute p tn tg t s"
| "call_breaker p tn tg (Success t) s = (False, report_success tn tg t s)"
| "call_breaker p tn tg (Failure t) s = (False, report_failure p tn tg t s)"

fun run_breakers :: "(string \<Rightarrow> policy) \<Rightarrow> (uuid \<times> string \<times> breaker_call) list \<Rightarrow> res_state \<Rightarrow> bool list \<times> res_state" where
  "run_breakers pol [] s = ([], s)"
| "run_breakers pol ((tn, tg, c) # calls) s =
     (case call_breaker (pol tg) tn tg c s of (b, s1) \<Rightarrow> (case run_breakers pol calls s1 of (bs, s2) \<Rightarrow> (b # bs, s2)))"

text \<open>The log of one tenant and target out of a run of all of them.\<close>

definition own_log :: "uuid \<Rightarrow> string \<Rightarrow> (uuid \<times> string \<times> breaker_call) list \<Rightarrow> bool list \<Rightarrow> breaker_log" where
  "own_log tn tg calls bs = rev (map (\<lambda>((_, _, c), b). (c, b)) (filter (\<lambda>((n, g, _), _). n = tn \<and> g = tg) (zip calls bs)))"

lemma own_log_simps [simp]:
  "own_log tn tg [] bs = []" "own_log tn tg calls [] = []"
  "own_log tn tg ((n, g, c) # calls) (b # bs) = own_log tn tg calls bs @ (if n = tn \<and> g = tg then [(c, b)] else [])"
  by (simp_all add: own_log_def)

lemma breaker_call_tracks:
  assumes "\<And>n g. tracks (pol g) (row_of n g s) (L n g)" "call_breaker (pol tg) tn tg c s = (b, s1)"
  shows "\<And>t. c = Probe t \<Longrightarrow> b = admits (pol tg) (L tn tg) t"
    "tracks (pol g) (row_of n g s1) ((if n = tn \<and> g = tg then [(c, b)] else []) @ L n g)"
proof -
  have other: "row_of n g s1 = row_of n g s" if "\<not> (n = tn \<and> g = tg)"
  proof (cases c)
    case (Probe t)
    then have "s1 = snd (can_execute (pol tg) tn tg t s)" using assms(2) by simp
    then show ?thesis using that by (auto simp: row_of_def)
  qed (use assms(2) that in \<open>auto simp: row_of_def\<close>)
  show "\<And>t. c = Probe t \<Longrightarrow> b = admits (pol tg) (L tn tg) t"
    using tracks_probe(1) [OF assms(1)] assms(2) can_execute_rows(1) by (metis call_breaker.simps(1) fst_conv)
  show "tracks (pol g) (row_of n g s1) ((if n = tn \<and> g = tg then [(c, b)] else []) @ L n g)"
  proof (cases "n = tn \<and> g = tg")
    case True
    show ?thesis
    proof (cases c)
      case (Probe t)
      then have "s1 = snd (can_execute (pol tg) tn tg t s)" "b = fst (can_execute (pol tg) tn tg t s)" using assms(2) by simp_all
      then have "row_of tn tg s1 = snd (row_probe (pol tg) t (row_of tn tg s))" "b = admits (pol tg) (L tn tg) t"
        using tracks_probe(1) [OF assms(1)] by simp_all
      with tracks_probe(2) [OF assms(1)] True Probe show ?thesis by simp
    next
      case (Success t)
      with assms(2) have "s1 = report_success tn tg t s" by simp
      with tracks_success [OF assms(1)] True Success show ?thesis by simp
    next
      case (Failure t)
      with assms(2) have "s1 = report_failure (pol tg) tn tg t s" by simp
      with tracks_failure [OF assms(1)] True Failure show ?thesis by simp
    qed
  qed (use assms(1) other in auto)
qed

lemma run_breakers_tracks:
  assumes "\<And>n g. tracks (pol g) (row_of n g s) (L n g)" "run_breakers pol calls s = (bs, s')"
  shows "length bs = length calls \<and>
    (\<forall>i tn tg t. i < length calls \<longrightarrow> calls ! i = (tn, tg, Probe t) \<longrightarrow> bs ! i = admits (pol tg) (own_log tn tg (take i calls) bs @ L tn tg) t) \<and>
    (\<forall>tn tg. tracks (pol tg) (row_of tn tg s') (own_log tn tg calls bs @ L tn tg))"
  using assms
proof (induction calls arbitrary: s L bs)
  case (Cons call calls)
  obtain n g c where call: "call = (n, g, c)" by (cases call)
  obtain b s1 where b: "call_breaker (pol g) n g c s = (b, s1)" by fastforce
  obtain cs where cs: "run_breakers pol calls s1 = (cs, s')" "bs = b # cs"
    using Cons.prems(2) b by (auto simp: call split: prod.splits)
  let ?L = "\<lambda>tn tg. (if tn = n \<and> tg = g then [(c, b)] else []) @ L tn tg"
  note t = breaker_call_tracks [OF Cons.prems(1) b]
  have "tracks (pol tg) (row_of tn tg s1) (?L tn tg)" for tn tg by (rule t(2))
  from Cons.IH [OF this cs(1)] have ih: "length cs = length calls"
    "\<And>i tn tg t. i < length calls \<Longrightarrow> calls ! i = (tn, tg, Probe t) \<Longrightarrow> cs ! i = admits (pol tg) (own_log tn tg (take i calls) cs @ ?L tn tg) t"
    "\<And>tn tg. tracks (pol tg) (row_of tn tg s') (own_log tn tg calls cs @ ?L tn tg)" by blast+
  have "(b # cs) ! i = admits (pol tg) (own_log tn tg (take i (call # calls)) (b # cs) @ L tn tg) t"
    if i: "i < length (call # calls)" "(call # calls) ! i = (tn, tg, Probe t)" for i tn tg t
  proof (cases i)
    case 0
    then show ?thesis using i(2) t(1) by (simp add: call)
  next
    case (Suc j)
    then show ?thesis using i ih(2) [of j tn tg t] by (auto simp: call)
  qed
  moreover have "tracks (pol tg) (row_of tn tg s') (own_log tn tg (call # calls) (b # cs) @ L tn tg)" for tn tg
    using ih(3) [of tg tn] by (cases "n = tn \<and> g = tg") (auto simp: call)
  ultimately show ?case using ih(1) unfolding cs(2) by simp
qed simp

text \<open>
  C27: the persisted breaker implements the specification. Whatever calls arrive for any tenants and targets in any order,
  starting from an empty table, each probe is admitted exactly when the specification admits it after the calls of its own
  tenant and target: always unless a run of failures within the window has reached the threshold since the last success, and
  then only once per recovery timeout, until a report. The stored state is the one the calls imply.
\<close>

theorem breaker_refines_history:
  assumes "breaker_rows s = (\<lambda>_. None)" "run_breakers pol calls s = (bs, s')"
  shows "length bs = length calls \<and>
    (\<forall>i tn tg t. i < length calls \<longrightarrow> calls ! i = (tn, tg, Probe t) \<longrightarrow> bs ! i = admits (pol tg) (own_log tn tg (take i calls) bs) t) \<and>
    (\<forall>tn tg. (case peek_state tn tg s' of None \<Rightarrow> CLOSED | Some (st, _, _) \<Rightarrow> st) = log_state (pol tg) (own_log tn tg calls bs))"
proof -
  have "tracks (pol g) (row_of n g s) []" for n g using tracks_new by (simp add: row_of_def assms(1))
  from run_breakers_tracks [OF this assms(2)] have r: "length bs = length calls"
    "\<forall>i tn tg t. i < length calls \<longrightarrow> calls ! i = (tn, tg, Probe t) \<longrightarrow> bs ! i = admits (pol tg) (own_log tn tg (take i calls) bs) t"
    "\<And>tn tg. tracks (pol tg) (row_of tn tg s') (own_log tn tg calls bs)" by simp_all
  have "(case peek_state tn tg s' of None \<Rightarrow> CLOSED | Some (st, _, _) \<Rightarrow> st) = row_state (row_of tn tg s')" for tn tg
    by (simp add: peek_state_def row_of_def new_row_def split: option.split)
  then show ?thesis using r unfolding tracks_def by simp
qed

definition calls_example :: "(uuid \<times> string \<times> breaker_call) list" where
  "calls_example =
     [(''t'', ''llm'', Failure 0), (''t'', ''llm'', Failure 1), (''u'', ''llm'', Failure 1), (''t'', ''llm'', Probe 2),
      (''u'', ''llm'', Probe 2), (''t'', ''llm'', Probe 30000001), (''t'', ''llm'', Probe 30000002), (''t'', ''llm'', Failure 30000003),
      (''t'', ''llm'', Probe 60000002), (''t'', ''llm'', Probe 60000003), (''t'', ''llm'', Success 60000004), (''t'', ''llm'', Probe 60000005)]"

definition policy_two :: "string \<Rightarrow> policy" where
  "policy_two = (\<lambda>_. default_policy\<lparr>failure_threshold := 2\<rparr>)"

definition no_breakers :: res_state where
  "no_breakers = \<lparr>breaker_rows = (\<lambda>_. None), audit_events = [], op_calls = 0, sleeps = []\<rparr>"

theorem breaker_refines_history_witness:
  "fst (run_breakers policy_two calls_example no_breakers) =
     [False, False, False, False, True, True, False, False, False, True, False, True] \<and>
   admits (policy_two ''llm'') (own_log ''t'' ''llm'' (take 9 calls_example) (fst (run_breakers policy_two calls_example no_breakers))) 60000003"
proof -
  let ?bs = "[False, False, False, False, True, True, False, False, False, True, False, True]"
  have f: "fst (run_breakers policy_two calls_example no_breakers) = ?bs" by code_simp
  then have r: "run_breakers policy_two calls_example no_breakers = (?bs, snd (run_breakers policy_two calls_example no_breakers))"
    by (metis prod.collapse)
  have c: "calls_example ! 9 = (''t'', ''llm'', Probe 60000003)" "9 < length calls_example" by (simp_all add: calls_example_def)
  have "breaker_rows no_breakers = (\<lambda>_. None)" by (simp add: no_breakers_def)
  from breaker_refines_history [OF this r, THEN conjunct2, THEN conjunct1, rule_format, OF c(2,1)]
  have "admits (policy_two ''llm'') (own_log ''t'' ''llm'' (take 9 calls_example) ?bs) 60000003" by simp
  then show ?thesis unfolding f by simp
qed

end
