(* ===== verification/Presets.thy ===== *)
theory Presets
  imports Loom_Prelude
begin

text \<open>
  The preset registry (\<^verbatim>\<open>presets/registry.py\<close>, \<^verbatim>\<open>presets/exceptions.py\<close>) and the terminology
  profiles (\<^verbatim>\<open>presets/terminology.py\<close>): the static configuration that decides which rules and
  features a workspace is subject to.

  A frozen dataclass is a record, a dict literal an association list, a tuple a list. Constructing a
  \<open>PresetConfig\<close> runs its validation, so \<open>mk_preset_config\<close> may raise.
\<close>

subsection \<open>Errors and tiers\<close>

datatype preset_error =
    ConfigurationError string
  | ImmutablePresetError string
  | ScopeNotAvailableError string
  | UnknownFeatureKeyError string
  | DowngradeBlockedError string
  | IncompleteProfileError string
  | CustomPresetNotAllowedError string
  | CrossTenantWorkspaceError string
  | WorkspaceDoesNotExist
  | ProfileKeyError string

definition TIER_MINIMAL :: string where "TIER_MINIMAL = ''minimal''"
definition TIER_STANDARD :: string where "TIER_STANDARD = ''standard''"
definition TIER_EXTENDED :: string where "TIER_EXTENDED = ''extended''"

definition TIER_ORDER :: "string list" where
  "TIER_ORDER = [TIER_MINIMAL, TIER_STANDARD, TIER_EXTENDED]"

definition DEFAULT_TIERS :: "string set" where
  "DEFAULT_TIERS = {TIER_MINIMAL, TIER_STANDARD, TIER_EXTENDED}"

lemmas tier_defs = TIER_MINIMAL_def TIER_STANDARD_def TIER_EXTENDED_def TIER_ORDER_def DEFAULT_TIERS_def

text \<open>The feature keys, in sorted order.\<close>

definition FEATURE_KEYS :: "string list" where
  "FEATURE_KEYS =
     [''approval_workflows'', ''baselines'', ''change_reason_mandatory'', ''custom_workflows'',
      ''global_baselines'', ''require_verification_on_approval'']"

subsection \<open>Preset configurations\<close>

record preset_config =
  pc_tier :: string
  pc_mandatory_fields :: "string list"
  pc_features :: "(string \<times> bool) list"
  pc_baseline_scopes :: "string list"
  pc_workflow_configurability :: string
  pc_change_reason :: string
  pc_document_mandatory_fields_by_kind :: "(string \<times> string list) list"
  pc_work_item_stale_after_days :: int
  pc_is_default :: bool
  pc_parent_tier :: "string option"

definition validate_preset :: "preset_config \<Rightarrow> preset_error + unit" where
  "validate_preset c =
     (let missing = filter (\<lambda>k. k \<notin> fst ` set (pc_features c)) FEATURE_KEYS
      in if missing \<noteq> [] then
           Inl (ConfigurationError (''PresetConfig for tier '' @ sq (pc_tier c) @
                '' is missing feature keys: '' @ py_list missing))
         else if pc_workflow_configurability c \<notin> {''fixed'', ''partial'', ''full''} then
           Inl (ConfigurationError (''workflow_configurability must be '' @ sq ''fixed'' @ '', '' @
                sq ''partial'' @ '', or '' @ sq ''full'' @ ''; got '' @ sq (pc_workflow_configurability c)))
         else if pc_change_reason c \<notin> {''optional'', ''mandatory''} then
           Inl (ConfigurationError (''change_reason must be '' @ sq ''optional'' @ '' or '' @
                sq ''mandatory'' @ ''; got '' @ sq (pc_change_reason c)))
         else if pc_work_item_stale_after_days c < 1 then
           Inl (ConfigurationError (''work_item_stale_after_days must be a positive integer; got '' @
                py_int (pc_work_item_stale_after_days c)))
         else Inr ())"

definition mk_preset_config :: "preset_config \<Rightarrow> preset_error + preset_config" where
  "mk_preset_config c = res_bind (validate_preset c) (\<lambda>_. Inr c)"

definition config_is_scope_allowed :: "preset_config \<Rightarrow> string \<Rightarrow> preset_error + bool" where
  "config_is_scope_allowed c scope =
     (let known_scopes = [''document'', ''project'', ''global'']
      in if scope \<notin> set known_scopes
         then Inl (ScopeNotAvailableError
                (''Unknown scope '' @ sq scope @ ''. Valid scopes: '' @ py_tuple known_scopes))
         else Inr (scope \<in> set (pc_baseline_scopes c)))"

definition MINIMAL :: preset_config where
  "MINIMAL =
     \<lparr>pc_tier = TIER_MINIMAL,
      pc_mandatory_fields = [''title''],
      pc_features =
        [(''baselines'', False), (''global_baselines'', False), (''approval_workflows'', False),
         (''custom_workflows'', False), (''change_reason_mandatory'', False),
         (''require_verification_on_approval'', False)],
      pc_baseline_scopes = [],
      pc_workflow_configurability = ''fixed'',
      pc_change_reason = ''optional'',
      pc_document_mandatory_fields_by_kind = [(''*'', [''title''])],
      pc_work_item_stale_after_days = 7,
      pc_is_default = True,
      pc_parent_tier = None\<rparr>"

definition STANDARD :: preset_config where
  "STANDARD =
     \<lparr>pc_tier = TIER_STANDARD,
      pc_mandatory_fields = [''title'', ''description'', ''acceptance_criteria'', ''priority''],
      pc_features =
        [(''baselines'', True), (''global_baselines'', False), (''approval_workflows'', False),
         (''custom_workflows'', False), (''change_reason_mandatory'', False),
         (''require_verification_on_approval'', False)],
      pc_baseline_scopes = [''document'', ''project''],
      pc_workflow_configurability = ''partial'',
      pc_change_reason = ''optional'',
      pc_document_mandatory_fields_by_kind = [(''*'', [''title'', ''body''])],
      pc_work_item_stale_after_days = 7,
      pc_is_default = True,
      pc_parent_tier = None\<rparr>"

definition EXTENDED :: preset_config where
  "EXTENDED =
     \<lparr>pc_tier = TIER_EXTENDED,
      pc_mandatory_fields =
        [''title'', ''description'', ''acceptance_criteria'', ''verification_method'', ''priority'',
         ''classification'', ''traceability_target'', ''change_reason''],
      pc_features =
        [(''baselines'', True), (''global_baselines'', True), (''approval_workflows'', True),
         (''custom_workflows'', True), (''change_reason_mandatory'', True),
         (''require_verification_on_approval'', True)],
      pc_baseline_scopes = [''document'', ''project'', ''global''],
      pc_workflow_configurability = ''full'',
      pc_change_reason = ''mandatory'',
      pc_document_mandatory_fields_by_kind = [(''*'', [''title'', ''body''])],
      pc_work_item_stale_after_days = 7,
      pc_is_default = True,
      pc_parent_tier = None\<rparr>"

definition DEFAULT_REGISTRY :: "(string \<times> preset_config) list" where
  "DEFAULT_REGISTRY = [(TIER_MINIMAL, MINIMAL), (TIER_STANDARD, STANDARD), (TIER_EXTENDED, EXTENDED)]"

subsection \<open>The registry\<close>

definition get_preset_config :: "string \<Rightarrow> preset_error + preset_config" where
  "get_preset_config tier =
     (case map_of DEFAULT_REGISTRY tier of
        Some c \<Rightarrow> Inr c
      | None \<Rightarrow> Inl (ConfigurationError (''Unknown preset tier '' @ sq tier @ ''. Valid tiers: '' @
                  py_list [TIER_EXTENDED, TIER_MINIMAL, TIER_STANDARD])))"

definition modify_preset :: "string \<Rightarrow> preset_error + unit" where
  "modify_preset tier =
     raise_if (tier \<in> DEFAULT_TIERS) (ImmutablePresetError ''Default presets are immutable'')"

definition delete_preset :: "string \<Rightarrow> preset_error + unit" where
  "delete_preset tier =
     raise_if (tier \<in> DEFAULT_TIERS) (ImmutablePresetError ''Default presets cannot be deleted'')"

definition registry_is_scope_allowed :: "string \<Rightarrow> string \<Rightarrow> preset_error + bool" where
  "registry_is_scope_allowed tier scope =
     res_bind (get_preset_config tier) (\<lambda>config. config_is_scope_allowed config scope)"

text \<open>\<open>list.index\<close>: the first position, or a \<open>ValueError\<close> (\<open>None\<close>).\<close>

fun py_index :: "'a list \<Rightarrow> 'a \<Rightarrow> nat option" where
  "py_index [] y = None"
| "py_index (x # xs) y = (if x = y then Some 0 else map_option Suc (py_index xs y))"

definition tier_index :: "string \<Rightarrow> preset_error + nat" where
  "tier_index tier =
     (case py_index TIER_ORDER tier of
        Some i \<Rightarrow> Inr i
      | None \<Rightarrow> Inl (ConfigurationError (sq tier @ '' is not a known default tier. Valid tiers: '' @
                  py_list TIER_ORDER)))"

text \<open>\<open>None\<close> is the \<open>ValueError\<close> of \<open>list.index\<close>.\<close>

definition is_upgrade :: "string \<Rightarrow> string \<Rightarrow> bool option" where
  "is_upgrade current target =
     (case (py_index TIER_ORDER target, py_index TIER_ORDER current) of
        (Some t, Some c) \<Rightarrow> Some (t > c)
      | _ \<Rightarrow> None)"

text \<open>The dash of the message is an em dash in the source, outside Latin-1.\<close>

definition create_custom_preset ::
  "uuid \<Rightarrow> string \<Rightarrow> string \<Rightarrow> string \<Rightarrow> (string \<times> string) list option \<Rightarrow> preset_error + preset_config" where
  "create_custom_preset workspace_id name base_tier workspace_current_tier overrides =
     Inl (CustomPresetNotAllowedError
       (''Custom presets are not yet supported - planned for a future release. Use one of the built-in tiers: '' @
        py_list [TIER_EXTENDED, TIER_MINIMAL, TIER_STANDARD] @ ''.''))"

subsection \<open>Terminology profiles\<close>

record terminology_mapping =
  profile_name :: string
  labels :: "(string \<times> string) list"

definition PROFILE_DEV_MODE :: string where "PROFILE_DEV_MODE = ''dev_mode''"
definition PROFILE_SE_MODE :: string where "PROFILE_SE_MODE = ''se_mode''"

text \<open>The mandatory keys, in sorted order.\<close>

definition MANDATORY_PROFILE_KEYS :: "string list" where
  "MANDATORY_PROFILE_KEYS =
     [''architecture_element'', ''artifact_l1'', ''artifact_l2'', ''baseline'', ''requirement'',
      ''trace_link'', ''workflow'', ''workspace'']"

definition DEV_MODE_LABELS :: "(string \<times> string) list" where
  "DEV_MODE_LABELS =
     [(''artifact_l1'', ''Epic''), (''artifact_l2'', ''Story''), (''requirement'', ''Acceptance Criterion''),
      (''architecture_element'', ''Component''), (''workspace'', ''Project''), (''baseline'', ''Snapshot''),
      (''workflow'', ''Process''), (''trace_link'', ''Dependency'')]"

definition SE_MODE_LABELS :: "(string \<times> string) list" where
  "SE_MODE_LABELS =
     [(''artifact_l1'', ''System Requirement''), (''artifact_l2'', ''Function''),
      (''requirement'', ''Requirement''), (''architecture_element'', ''Subsystem''),
      (''workspace'', ''System''), (''baseline'', ''Baseline''), (''workflow'', ''Lifecycle''),
      (''trace_link'', ''Trace Link'')]"

definition BUILT_IN_PROFILES :: "(string \<times> (string \<times> string) list) list" where
  "BUILT_IN_PROFILES = [(PROFILE_DEV_MODE, DEV_MODE_LABELS), (PROFILE_SE_MODE, SE_MODE_LABELS)]"

definition terminology_get :: "terminology_mapping \<Rightarrow> string \<Rightarrow> string" where
  "terminology_get m key = (case map_of (labels m) key of Some l \<Rightarrow> l | None \<Rightarrow> key)"

definition validate_profile :: "string \<Rightarrow> (string \<times> string) list \<Rightarrow> preset_error + unit" where
  "validate_profile name lbls =
     (let missing = filter (\<lambda>k. k \<notin> fst ` set lbls) MANDATORY_PROFILE_KEYS
      in raise_if (missing \<noteq> []) (IncompleteProfileError
           (''Terminology profile '' @ sq name @ '' is missing mandatory keys: '' @ py_list missing)))"

definition get_terminology_profile :: "string \<Rightarrow> preset_error + terminology_mapping" where
  "get_terminology_profile name =
     (case map_of BUILT_IN_PROFILES name of
        None \<Rightarrow> Inl (ProfileKeyError (''Terminology profile '' @ sq name @
                  '' is not registered. Available: '' @ py_list [PROFILE_DEV_MODE, PROFILE_SE_MODE]))
      | Some lbls \<Rightarrow> res_bind (validate_profile name lbls)
                      (\<lambda>_. Inr \<lparr>profile_name = name, labels = lbls\<rparr>))"

definition list_profiles :: "string list" where
  "list_profiles = [PROFILE_DEV_MODE, PROFILE_SE_MODE]"

subsection \<open>Lemmas\<close>

lemma tiers_distinct [simp]:
  "TIER_MINIMAL \<noteq> TIER_STANDARD" "TIER_STANDARD \<noteq> TIER_MINIMAL" "TIER_MINIMAL \<noteq> TIER_EXTENDED"
  "TIER_EXTENDED \<noteq> TIER_MINIMAL" "TIER_STANDARD \<noteq> TIER_EXTENDED" "TIER_EXTENDED \<noteq> TIER_STANDARD"
  by (simp_all add: tier_defs)

lemma default_registry_cases:
  "get_preset_config t = Inr c \<longleftrightarrow>
     t = TIER_MINIMAL \<and> c = MINIMAL \<or> t = TIER_STANDARD \<and> c = STANDARD \<or> t = TIER_EXTENDED \<and> c = EXTENDED"
  by (auto simp: get_preset_config_def DEFAULT_REGISTRY_def split: if_splits)

lemma get_preset_config_total:
  "(\<exists>c. get_preset_config t = Inr c) \<longleftrightarrow> t \<in> DEFAULT_TIERS"
  by (auto simp: default_registry_cases DEFAULT_TIERS_def)

lemma get_preset_config_tier:
  "get_preset_config t = Inr c \<Longrightarrow> pc_tier c = t"
  by (auto simp: default_registry_cases MINIMAL_def STANDARD_def EXTENDED_def)

lemma tier_index_cases:
  "tier_index t = Inr i \<longleftrightarrow>
     t = TIER_MINIMAL \<and> i = 0 \<or> t = TIER_STANDARD \<and> i = 1 \<or> t = TIER_EXTENDED \<and> i = 2"
  by (auto simp: tier_index_def TIER_ORDER_def split: if_splits)

lemma tier_index_total: "(\<exists>i. tier_index t = Inr i) \<longleftrightarrow> t \<in> DEFAULT_TIERS"
  by (auto simp: tier_index_cases DEFAULT_TIERS_def)

lemma profiles_distinct [simp]: "PROFILE_DEV_MODE \<noteq> PROFILE_SE_MODE" "PROFILE_SE_MODE \<noteq> PROFILE_DEV_MODE"
  by (simp_all add: PROFILE_DEV_MODE_def PROFILE_SE_MODE_def)

lemma validate_profile_complete:
  "validate_profile n DEV_MODE_LABELS = Inr ()" "validate_profile n SE_MODE_LABELS = Inr ()"
  by (simp_all add: validate_profile_def MANDATORY_PROFILE_KEYS_def DEV_MODE_LABELS_def SE_MODE_LABELS_def)

lemma default_presets_valid:
  "mk_preset_config MINIMAL = Inr MINIMAL" "mk_preset_config STANDARD = Inr STANDARD"
  "mk_preset_config EXTENDED = Inr EXTENDED"
  by (simp_all add: mk_preset_config_def validate_preset_def FEATURE_KEYS_def MINIMAL_def STANDARD_def
      EXTENDED_def)

text \<open>\<open>c\<close> demands and enables no more than \<open>t\<close>.\<close>

definition no_stricter :: "preset_config \<Rightarrow> preset_config \<Rightarrow> bool" where
  "no_stricter c t \<longleftrightarrow>
     set (pc_mandatory_fields c) \<subseteq> set (pc_mandatory_fields t) \<and>
     (\<forall>f\<in>set (pc_features c). snd f \<longrightarrow> f \<in> set (pc_features t)) \<and>
     set (pc_baseline_scopes c) \<subseteq> set (pc_baseline_scopes t) \<and>
     (\<forall>d\<in>set (pc_document_mandatory_fields_by_kind c).
        \<exists>d'\<in>set (pc_document_mandatory_fields_by_kind t). fst d' = fst d \<and> set (snd d) \<subseteq> set (snd d'))"

lemma no_stricter_tiers:
  "no_stricter MINIMAL STANDARD" "no_stricter STANDARD EXTENDED" "no_stricter MINIMAL EXTENDED"
  by (simp_all add: no_stricter_def MINIMAL_def STANDARD_def EXTENDED_def)

lemma terminology_total: "name \<in> set list_profiles \<Longrightarrow>
  \<exists>m. get_terminology_profile name = Inr m \<and> profile_name m = name"
  by (auto simp: list_profiles_def get_terminology_profile_def BUILT_IN_PROFILES_def
      validate_profile_complete)

subsection \<open>Properties\<close>

text \<open>
  The tiers are ordered by rigor. Whenever the registry calls a switch an upgrade, both tiers have a
  configuration that passes its own validation, and the target demands every mandatory field, enables every
  feature, allows every baseline scope and requires every document field that the current tier does.
\<close>

theorem upgrade_is_monotone:
  assumes "is_upgrade current target = Some True"
  shows "\<exists>c t. get_preset_config current = Inr c \<and> get_preset_config target = Inr t \<and>
           mk_preset_config c = Inr c \<and> mk_preset_config t = Inr t \<and> no_stricter c t"
proof -
  consider "current = TIER_MINIMAL" "target = TIER_STANDARD" | "current = TIER_MINIMAL" "target = TIER_EXTENDED"
    | "current = TIER_STANDARD" "target = TIER_EXTENDED"
    using assms by (auto simp: is_upgrade_def TIER_ORDER_def split: if_splits)
  moreover have "get_preset_config TIER_MINIMAL = Inr MINIMAL" "get_preset_config TIER_STANDARD = Inr STANDARD"
      "get_preset_config TIER_EXTENDED = Inr EXTENDED"
    by (simp_all add: default_registry_cases)
  ultimately show ?thesis
    using default_presets_valid no_stricter_tiers by cases blast+
qed

theorem upgrade_is_monotone_witness:
  "\<exists>c t. get_preset_config ''minimal'' = Inr c \<and> get_preset_config ''extended'' = Inr t \<and>
     no_stricter c t"
proof -
  have "is_upgrade ''minimal'' ''extended'' = Some True"
    by (simp add: is_upgrade_def tier_defs)
  from upgrade_is_monotone [OF this] show ?thesis by blast
qed

end
