(* ===== verification/Preset_Gate.thy ===== *)
theory Preset_Gate
  imports Presets
begin

text \<open>
  The feature gate: shared cache generations (\<^verbatim>\<open>persistence/cache_generation.py\<close>), the
  per-process caches, the tenant guard and the switching operations (\<^verbatim>\<open>presets/gate.py\<close>,
  \<^verbatim>\<open>presets/models.py\<close>) with their facade (\<^verbatim>\<open>presets/services.py\<close>).

  The world has one database, one shared cache holding the generation counters, and any number of worker
  processes, each with its own module-level caches. \<open>time.monotonic()\<close> readings are arguments. A
  function that raises keeps what it did to the caches; a raise inside \<open>transaction.atomic()\<close> restores
  the database.
\<close>

subsection \<open>State\<close>

record workspace_row =
  ws_tenant :: uuid
  ws_preset_name :: "string option"

record preset_row =
  active_tier :: string
  terminology_profile :: string
  downgrade_policy :: string

text \<open>
  \<open>global_baselines\<close> is the result of counting the workspace's global baseline snapshots, or the name
  of the exception the query raises.
\<close>

record gate_db =
  workspaces :: "uuid \<Rightarrow> workspace_row option"
  preset_rows :: "uuid \<Rightarrow> preset_row option"
  global_baselines :: "uuid \<Rightarrow> string + nat"

record worker =
  read_memo :: "string \<times> string \<Rightarrow> (int \<times> rat) option"
  tier_cache :: "uuid \<Rightarrow> (int \<times> preset_config) option"
  profile_cache :: "uuid \<Rightarrow> (int \<times> terminology_mapping) option"
  workspace_tenant_cache :: "(uuid \<times> uuid) list"

record gate_world =
  gdb :: gate_db
  counters :: "string \<Rightarrow> int option"
  cache_up :: bool
  workers :: "nat \<Rightarrow> worker"

definition upd_worker :: "nat \<Rightarrow> (worker \<Rightarrow> worker) \<Rightarrow> gate_world \<Rightarrow> gate_world" where
  "upd_worker i f W = W\<lparr>workers := (workers W)(i := f (workers W i))\<rparr>"

subsection \<open>Cache generations\<close>

definition GENERATION_READ_TTL_SECONDS :: rat where
  "GENERATION_READ_TTL_SECONDS = 1"

definition generation_key :: "string \<Rightarrow> string \<Rightarrow> string" where
  "generation_key namespace scope_id = ''reqogniloom:cachegen:'' @ namespace @ '':'' @ scope_id"

definition cache_generation ::
  "nat \<Rightarrow> string \<Rightarrow> string \<Rightarrow> rat \<Rightarrow> gate_world \<Rightarrow> int \<times> gate_world" where
  "cache_generation i namespace scope_id now W =
     (let memo_key = (namespace, scope_id);
          memo = read_memo (workers W i) memo_key
      in case memo of
           Some m \<Rightarrow>
             if now - snd m < GENERATION_READ_TTL_SECONDS then (fst m, W)
             else if \<not> cache_up W then (fst m, W)
             else let generation = (case counters W (generation_key namespace scope_id) of
                                      Some g \<Rightarrow> g | None \<Rightarrow> 0)
                  in (generation,
                      upd_worker i (\<lambda>w. w\<lparr>read_memo := (read_memo w)(memo_key \<mapsto> (generation, now))\<rparr>) W)
         | None \<Rightarrow>
             if \<not> cache_up W then (0, W)
             else let generation = (case counters W (generation_key namespace scope_id) of
                                      Some g \<Rightarrow> g | None \<Rightarrow> 0)
                  in (generation,
                      upd_worker i (\<lambda>w. w\<lparr>read_memo := (read_memo w)(memo_key \<mapsto> (generation, now))\<rparr>) W))"

text \<open>
  \<open>vanished\<close>: the key disappears between \<open>add\<close> and \<open>incr\<close>, which then raises \<open>ValueError\<close>.
\<close>

definition bump_cache_generation ::
  "bool \<Rightarrow> nat \<Rightarrow> string \<Rightarrow> string \<Rightarrow> rat \<Rightarrow> gate_world \<Rightarrow> gate_world" where
  "bump_cache_generation vanished i namespace scope_id now W =
     (let key = generation_key namespace scope_id
      in if \<not> cache_up W then W
         else let added = (case counters W key of Some g \<Rightarrow> g | None \<Rightarrow> 0);
                  generation = (if vanished then 1 else added + 1)
              in upd_worker i
                   (\<lambda>w. w\<lparr>read_memo := (read_memo w)((namespace, scope_id) \<mapsto> (generation, now))\<rparr>)
                   (W\<lparr>counters := (counters W)(key \<mapsto> generation)\<rparr>))"

subsection \<open>Process-local caches\<close>

definition CACHE_NAMESPACE :: string where
  "CACHE_NAMESPACE = ''preset''"

definition invalidate_workspace :: "bool \<Rightarrow> nat \<Rightarrow> uuid \<Rightarrow> rat \<Rightarrow> gate_world \<Rightarrow> gate_world" where
  "invalidate_workspace vanished i ws now W =
     bump_cache_generation vanished i CACHE_NAMESPACE ws now
       (upd_worker i (\<lambda>w. w\<lparr>tier_cache := (tier_cache w)(ws := None),
                            profile_cache := (profile_cache w)(ws := None)\<rparr>) W)"

text \<open>The lookup returns the value served, and the store without a superseded entry.\<close>

definition cached_for_generation ::
  "(uuid \<Rightarrow> (int \<times> 'v) option) \<Rightarrow> uuid \<Rightarrow> int \<Rightarrow> 'v option \<times> (uuid \<Rightarrow> (int \<times> 'v) option)" where
  "cached_for_generation store ws_key generation =
     (case store ws_key of
        None \<Rightarrow> (None, store)
      | Some (entry_generation, value) \<Rightarrow>
          if entry_generation \<noteq> generation then (None, store(ws_key := None))
          else (Some value, store))"

definition store_for_generation ::
  "(uuid \<Rightarrow> (int \<times> 'v) option) \<Rightarrow> uuid \<Rightarrow> 'v \<Rightarrow> int \<Rightarrow> (uuid \<Rightarrow> (int \<times> 'v) option)" where
  "store_for_generation store ws_key value generation = store(ws_key \<mapsto> (generation, value))"

subsection \<open>The tenant guard\<close>

definition WORKSPACE_TENANT_CACHE_MAX :: nat where
  "WORKSPACE_TENANT_CACHE_MAX = 10000"

definition resolve_workspace_tenant ::
  "nat \<Rightarrow> uuid \<Rightarrow> gate_world \<Rightarrow> (preset_error + uuid) \<times> gate_world" where
  "resolve_workspace_tenant i ws W =
     (case map_of (workspace_tenant_cache (workers W i)) ws of
        Some t \<Rightarrow> (Inr t, W)
      | None \<Rightarrow>
          (case workspaces (gdb W) ws of
             None \<Rightarrow> (Inl WorkspaceDoesNotExist, W)
           | Some row \<Rightarrow>
               (Inr (ws_tenant row),
                upd_worker i
                  (\<lambda>w. let c = workspace_tenant_cache w;
                           c' = (if length c \<ge> WORKSPACE_TENANT_CACHE_MAX then [] else c)
                       in w\<lparr>workspace_tenant_cache := (ws, ws_tenant row) # c'\<rparr>) W)))"

text \<open>\<open>tenant\<close> is the active tenant context of the caller, if one is set.\<close>

definition assert_workspace_in_tenant ::
  "uuid option \<Rightarrow> nat \<Rightarrow> uuid \<Rightarrow> gate_world \<Rightarrow> (preset_error + unit) \<times> gate_world" where
  "assert_workspace_in_tenant tenant i ws W =
     (case tenant of
        None \<Rightarrow> (Inr (), W)
      | Some active \<Rightarrow>
          (case resolve_workspace_tenant i ws W of
             (Inl e, W1) \<Rightarrow> (Inl e, W1)
           | (Inr owner, W1) \<Rightarrow>
               (if owner \<noteq> active
                then Inl (CrossTenantWorkspaceError ''Workspace does not belong to the active tenant.'')
                else Inr (), W1)))"

definition initial_tier_of :: "workspace_row \<Rightarrow> string" where
  "initial_tier_of workspace =
     (case ws_preset_name workspace of
        Some preset_name \<Rightarrow>
          if preset_name \<in> {TIER_MINIMAL, TIER_STANDARD, TIER_EXTENDED} then preset_name else TIER_MINIMAL
      | None \<Rightarrow> TIER_MINIMAL)"

definition get_or_create_preset_config ::
  "uuid option \<Rightarrow> nat \<Rightarrow> uuid \<Rightarrow> bool \<Rightarrow> gate_world \<Rightarrow> (preset_error + preset_row) \<times> gate_world" where
  "get_or_create_preset_config tenant i ws for_update W =
     (case assert_workspace_in_tenant tenant i ws W of
        (Inl e, W1) \<Rightarrow> (Inl e, W1)
      | (Inr _, W1) \<Rightarrow>
          (case workspaces (gdb W1) ws of
             None \<Rightarrow> (Inl WorkspaceDoesNotExist, W1)
           | Some workspace \<Rightarrow>
               (case (if for_update then preset_rows (gdb W1) ws else None) of
                  Some locked \<Rightarrow> (Inr locked, W1)
                | None \<Rightarrow>
                    (case preset_rows (gdb W1) ws of
                       Some row \<Rightarrow> (Inr row, W1)
                     | None \<Rightarrow>
                         let row = \<lparr>active_tier = initial_tier_of workspace,
                                    terminology_profile = PROFILE_DEV_MODE,
                                    downgrade_policy = ''block''\<rparr>
                         in (Inr row,
                             W1\<lparr>gdb := (gdb W1)\<lparr>preset_rows := (preset_rows (gdb W1))(ws \<mapsto> row)\<rparr>\<rparr>)))))"

subsection \<open>Queries\<close>

text \<open>
  The cache miss path of \<open>get_preset\<close>: read the row, resolve its tier, write the entry back under
  the generation captured before.
\<close>

definition load_preset ::
  "uuid option \<Rightarrow> nat \<Rightarrow> uuid \<Rightarrow> int \<Rightarrow> gate_world \<Rightarrow> (preset_error + preset_config) \<times> gate_world" where
  "load_preset tenant i ws generation W =
     (case get_or_create_preset_config tenant i ws False W of
        (Inl e, W1) \<Rightarrow> (Inl e, W1)
      | (Inr config, W1) \<Rightarrow>
          (case get_preset_config (active_tier config) of
             Inl e \<Rightarrow> (Inl e, W1)
           | Inr preset \<Rightarrow>
               (Inr preset,
                upd_worker i
                  (\<lambda>w. w\<lparr>tier_cache := store_for_generation (tier_cache w) ws preset generation\<rparr>) W1)))"

definition get_preset ::
  "uuid option \<Rightarrow> nat \<Rightarrow> rat \<Rightarrow> uuid \<Rightarrow> gate_world \<Rightarrow> (preset_error + preset_config) \<times> gate_world" where
  "get_preset tenant i now ws W =
     (case assert_workspace_in_tenant tenant i ws W of
        (Inl e, W1) \<Rightarrow> (Inl e, W1)
      | (Inr _, W1) \<Rightarrow>
          (case cache_generation i CACHE_NAMESPACE ws now W1 of (generation, W2) \<Rightarrow>
             (case cached_for_generation (tier_cache (workers W2 i)) ws generation of (cached, store) \<Rightarrow>
                let W3 = upd_worker i (\<lambda>w. w\<lparr>tier_cache := store\<rparr>) W2
                in case cached of
                     Some preset \<Rightarrow> (Inr preset, W3)
                   | None \<Rightarrow> load_preset tenant i ws generation W3)))"

definition is_feature_enabled ::
  "uuid option \<Rightarrow> nat \<Rightarrow> rat \<Rightarrow> string \<Rightarrow> uuid \<Rightarrow> gate_world \<Rightarrow> (preset_error + bool) \<times> gate_world" where
  "is_feature_enabled tenant i now feature_key ws W =
     (if feature_key \<notin> set FEATURE_KEYS
      then (Inl (UnknownFeatureKeyError (''Unknown feature key '' @ sq feature_key @ ''. Valid keys: '' @
                   py_list FEATURE_KEYS)), W)
      else (case get_preset tenant i now ws W of
              (Inl e, W1) \<Rightarrow> (Inl e, W1)
            | (Inr preset, W1) \<Rightarrow>
                (Inr (case map_of (pc_features preset) feature_key of Some b \<Rightarrow> b | None \<Rightarrow> False), W1)))"

definition get_workflow_configurability ::
  "uuid option \<Rightarrow> nat \<Rightarrow> rat \<Rightarrow> uuid \<Rightarrow> gate_world \<Rightarrow> (preset_error + string) \<times> gate_world" where
  "get_workflow_configurability tenant i now ws W =
     (case get_preset tenant i now ws W of (r, W1) \<Rightarrow>
        (res_bind r (\<lambda>c. Inr (pc_workflow_configurability c)), W1))"

definition is_scope_allowed ::
  "uuid option \<Rightarrow> nat \<Rightarrow> rat \<Rightarrow> uuid \<Rightarrow> string \<Rightarrow> gate_world \<Rightarrow> (preset_error + bool) \<times> gate_world" where
  "is_scope_allowed tenant i now ws scope W =
     (case get_preset tenant i now ws W of (r, W1) \<Rightarrow>
        (res_bind r (\<lambda>c. config_is_scope_allowed c scope), W1))"

subsection \<open>Switching\<close>

definition collect_downgrade_incompatibilities :: "uuid \<Rightarrow> string \<Rightarrow> gate_db \<Rightarrow> string list" where
  "collect_downgrade_incompatibilities ws target_tier d =
     (if target_tier \<in> {''minimal'', ''standard''} then
        (case global_baselines d ws of
           Inr count \<Rightarrow>
             if count \<noteq> 0
             then [''Downgrade blocked: '' @ py_nat count @ '' global baseline'' @
                   (if count > 1 then ''s exist'' else '' exists'')]
             else []
         | Inl exc_name \<Rightarrow>
             [''Downgrade blocked: could not verify global baselines ('' @ exc_name @ '')''])
      else [])"

definition validate_downgrade ::
  "uuid option \<Rightarrow> nat \<Rightarrow> uuid \<Rightarrow> string \<Rightarrow> gate_world \<Rightarrow> (preset_error + string list) \<times> gate_world" where
  "validate_downgrade tenant i ws target_tier W =
     (case get_or_create_preset_config tenant i ws False W of
        (Inl e, W1) \<Rightarrow> (Inl e, W1)
      | (Inr config, W1) \<Rightarrow>
          (let incompatibilities = collect_downgrade_incompatibilities ws target_tier (gdb W1)
           in if incompatibilities = [] then (Inr [], W1)
              else if downgrade_policy config = ''block''
              then (Inl (DowngradeBlockedError (py_join ''; '' incompatibilities)), W1)
              else if downgrade_policy config = ''warn'' then (Inr incompatibilities, W1)
              else (Inr [], W1)))"

text \<open>\<open>config.save(update_fields=...)\<close> on the workspace's row.\<close>

definition save_preset_row :: "(preset_row \<Rightarrow> preset_row) \<Rightarrow> uuid \<Rightarrow> gate_world \<Rightarrow> gate_world" where
  "save_preset_row f ws W =
     W\<lparr>gdb := (gdb W)\<lparr>preset_rows := (preset_rows (gdb W))(ws := map_option f (preset_rows (gdb W) ws))\<rparr>\<rparr>"

text \<open>\<open>transaction.atomic()\<close>: an exception restores the database.\<close>

abbreviation atomic_tx :: "(gate_world, 'e, 'a) sem \<Rightarrow> (gate_world, 'e, 'a) sem" where
  "atomic_tx \<equiv> se_atomic (\<lambda>W W1. W1\<lparr>gdb := gdb W\<rparr>)"

text \<open>The decide-and-persist transaction of \<open>switch_preset\<close>, which holds the row lock.\<close>

definition switch_preset_tx :: "uuid option \<Rightarrow> nat \<Rightarrow> uuid \<Rightarrow> string \<Rightarrow> (gate_world, preset_error, preset_config) sem" where
  "switch_preset_tx tenant i ws target_tier =
     atomic_tx
       (se_bind (get_or_create_preset_config tenant i ws True) (\<lambda>config.
        se_bind (se_lift (get_preset_config target_tier)) (\<lambda>new_preset.
        se_bind (se_lift (tier_index target_tier)) (\<lambda>t.
        se_bind (se_lift (tier_index (active_tier config))) (\<lambda>c.
        se_bind (if t < c then validate_downgrade tenant i ws target_tier else se_return []) (\<lambda>warnings.
        se_bind (se_modify (save_preset_row (\<lambda>r. r\<lparr>active_tier := target_tier\<rparr>) ws)) (\<lambda>_.
        se_return new_preset)))))))"

definition switch_preset ::
  "bool \<Rightarrow> uuid option \<Rightarrow> nat \<Rightarrow> rat \<Rightarrow> uuid \<Rightarrow> string \<Rightarrow> gate_world
   \<Rightarrow> (preset_error + preset_config) \<times> gate_world" where
  "switch_preset vanished tenant i now ws target_tier W =
     (case switch_preset_tx tenant i ws target_tier W of
        (Inl e, W1) \<Rightarrow> (Inl e, W1)
      | (Inr new_preset, W1) \<Rightarrow> (Inr new_preset, invalidate_workspace vanished i ws now W1))"

subsection \<open>Terminology\<close>

definition load_terminology ::
  "uuid option \<Rightarrow> nat \<Rightarrow> uuid \<Rightarrow> int \<Rightarrow> gate_world \<Rightarrow> (preset_error + terminology_mapping) \<times> gate_world" where
  "load_terminology tenant i ws generation W =
     (case get_or_create_preset_config tenant i ws False W of
        (Inl e, W1) \<Rightarrow> (Inl e, W1)
      | (Inr config, W1) \<Rightarrow>
          (case get_terminology_profile (terminology_profile config) of
             Inl e \<Rightarrow> (Inl e, W1)
           | Inr mapping \<Rightarrow>
               (Inr mapping,
                upd_worker i
                  (\<lambda>w. w\<lparr>profile_cache := store_for_generation (profile_cache w) ws mapping generation\<rparr>) W1)))"

definition get_terminology ::
  "uuid option \<Rightarrow> nat \<Rightarrow> rat \<Rightarrow> uuid \<Rightarrow> gate_world \<Rightarrow> (preset_error + terminology_mapping) \<times> gate_world" where
  "get_terminology tenant i now ws W =
     (case assert_workspace_in_tenant tenant i ws W of
        (Inl e, W1) \<Rightarrow> (Inl e, W1)
      | (Inr _, W1) \<Rightarrow>
          (case cache_generation i CACHE_NAMESPACE ws now W1 of (generation, W2) \<Rightarrow>
             (case cached_for_generation (profile_cache (workers W2 i)) ws generation of (cached, store) \<Rightarrow>
                let W3 = upd_worker i (\<lambda>w. w\<lparr>profile_cache := store\<rparr>) W2
                in case cached of
                     Some mapping \<Rightarrow> (Inr mapping, W3)
                   | None \<Rightarrow> load_terminology tenant i ws generation W3)))"

definition switch_terminology_profile ::
  "bool \<Rightarrow> uuid option \<Rightarrow> nat \<Rightarrow> rat \<Rightarrow> uuid \<Rightarrow> string \<Rightarrow> gate_world
   \<Rightarrow> (preset_error + terminology_mapping) \<times> gate_world" where
  "switch_terminology_profile vanished tenant i now ws target_profile W =
     (case get_terminology_profile target_profile of
        Inl e \<Rightarrow> (Inl e, W)
      | Inr new_mapping \<Rightarrow>
          (case atomic_tx
                  (se_bind (get_or_create_preset_config tenant i ws True) (\<lambda>config.
                   se_bind (se_modify (save_preset_row (\<lambda>r. r\<lparr>terminology_profile := target_profile\<rparr>) ws))
                     (\<lambda>_. se_return new_mapping))) W of
             (Inl e, W1) \<Rightarrow> (Inl e, W1)
           | (Inr m, W1) \<Rightarrow> (Inr m, invalidate_workspace vanished i ws now W1)))"

subsection \<open>Frame lemmas\<close>

lemma upd_worker_simps [simp]:
  "gdb (upd_worker i f W) = gdb W"
  "counters (upd_worker i f W) = counters W"
  "cache_up (upd_worker i f W) = cache_up W"
  "workers (upd_worker i f W) = (workers W)(i := f (workers W i))"
  by (simp_all add: upd_worker_def)

text \<open>Two worlds that differ at most in the database and the owner caches.\<close>

definition same_caches :: "gate_world \<Rightarrow> gate_world \<Rightarrow> bool" where
  "same_caches W W' \<longleftrightarrow> counters W' = counters W \<and> cache_up W' = cache_up W \<and>
     (\<forall>j. read_memo (workers W' j) = read_memo (workers W j) \<and>
          tier_cache (workers W' j) = tier_cache (workers W j) \<and>
          profile_cache (workers W' j) = profile_cache (workers W j))"

lemma same_caches_refl [simp]: "same_caches W W"
  by (simp add: same_caches_def)

lemma same_caches_trans [trans]: "same_caches W W' \<Longrightarrow> same_caches W' W'' \<Longrightarrow> same_caches W W''"
  by (simp add: same_caches_def)

lemma same_caches_gdb [simp]:
  "same_caches W (W'\<lparr>gdb := d\<rparr>) = same_caches W W'"
  "same_caches (W\<lparr>gdb := d\<rparr>) W' = same_caches W W'"
  by (simp_all add: same_caches_def)

lemma assert_frame:
  assumes "assert_workspace_in_tenant tenant i ws W = (r, W1)"
  shows "gdb W1 = gdb W \<and> same_caches W W1"
  using assms
  by (auto simp: assert_workspace_in_tenant_def resolve_workspace_tenant_def same_caches_def Let_def
      split: option.splits sum.splits prod.splits)

lemma get_or_create_frame:
  assumes "get_or_create_preset_config tenant i ws fu W = (r, W1)"
  shows "same_caches W W1"
    and "workspaces (gdb W1) = workspaces (gdb W)" "global_baselines (gdb W1) = global_baselines (gdb W)"
    and "preset_rows (gdb W1) = preset_rows (gdb W) \<or>
         preset_rows (gdb W) ws = None \<and> (\<exists>row. preset_rows (gdb W1) = (preset_rows (gdb W))(ws \<mapsto> row))"
    and "r = Inr row \<Longrightarrow> preset_rows (gdb W1) ws = Some row"
    and "r = Inr row \<Longrightarrow> workspaces (gdb W) ws \<noteq> None"
proof -
  obtain g W0 where g: "assert_workspace_in_tenant tenant i ws W = (g, W0)" by fastforce
  note frame = assert_frame [OF g]
  from assms g frame show "same_caches W W1"
    "workspaces (gdb W1) = workspaces (gdb W)" "global_baselines (gdb W1) = global_baselines (gdb W)"
    "preset_rows (gdb W1) = preset_rows (gdb W) \<or>
     preset_rows (gdb W) ws = None \<and> (\<exists>row. preset_rows (gdb W1) = (preset_rows (gdb W))(ws \<mapsto> row))"
    "r = Inr row \<Longrightarrow> preset_rows (gdb W1) ws = Some row"
    "r = Inr row \<Longrightarrow> workspaces (gdb W) ws \<noteq> None"
    by (auto simp: get_or_create_preset_config_def Let_def split: sum.splits option.splits if_splits)
qed

lemma get_or_create_existing:
  assumes "get_or_create_preset_config tenant i ws fu W = (Inr row, W1)" "preset_rows (gdb W) ws = Some x"
  shows "row = x" "preset_rows (gdb W1) = preset_rows (gdb W)"
  using get_or_create_frame(4,5) [OF assms(1)] assms(2) by auto

lemma validate_downgrade_frame:
  assumes "validate_downgrade tenant i ws t W = (r, W1)"
  shows "same_caches W W1" "workspaces (gdb W1) = workspaces (gdb W)"
    "preset_rows (gdb W1) = preset_rows (gdb W) \<or>
     preset_rows (gdb W) ws = None \<and> (\<exists>row. preset_rows (gdb W1) = (preset_rows (gdb W))(ws \<mapsto> row))"
proof -
  obtain c W0 where g: "get_or_create_preset_config tenant i ws False W = (c, W0)" by fastforce
  from assms g get_or_create_frame [OF g] show
    "same_caches W W1" "workspaces (gdb W1) = workspaces (gdb W)"
    "preset_rows (gdb W1) = preset_rows (gdb W) \<or>
     preset_rows (gdb W) ws = None \<and> (\<exists>row. preset_rows (gdb W1) = (preset_rows (gdb W))(ws \<mapsto> row))"
    by (auto simp: validate_downgrade_def Let_def split: sum.splits if_splits)
qed

lemma switch_tx_success:
  assumes "switch_preset_tx tenant i ws t W = (Inr c, W1)"
  shows "same_caches W W1" "workspaces (gdb W1) = workspaces (gdb W)" "get_preset_config t = Inr c"
    and "\<exists>row. active_tier row = t \<and> preset_rows (gdb W1) = (preset_rows (gdb W))(ws \<mapsto> row)"
    and "workspaces (gdb W) ws \<noteq> None"
proof -
  obtain row W0 v W2 where g: "get_or_create_preset_config tenant i ws True W = (Inr row, W0)"
      and c: "get_preset_config t = Inr c"
      and v: "validate_downgrade tenant i ws t W0 = (Inr v, W2) \<or> W2 = W0"
      and w1: "W1 = save_preset_row (\<lambda>r. r\<lparr>active_tier := t\<rparr>) ws W2"
    using assms by (clarsimp simp: switch_preset_tx_def se_atomic_Inr se_bind_Inr split: if_splits) blast+
  note frame = get_or_create_frame [OF g]
  have w2: "same_caches W0 W2 \<and> workspaces (gdb W2) = workspaces (gdb W0) \<and>
      preset_rows (gdb W2) = preset_rows (gdb W0)"
    using v
  proof
    assume "validate_downgrade tenant i ws t W0 = (Inr v, W2)"
    from validate_downgrade_frame [OF this] frame(5) show ?thesis by simp
  qed simp
  show "same_caches W W1"
    using frame(1) w2 w1 same_caches_trans by (auto simp: save_preset_row_def)
  show "workspaces (gdb W1) = workspaces (gdb W)"
    using frame(2) w2 w1 by (simp add: save_preset_row_def)
  show "get_preset_config t = Inr c" by (fact c)
  show "workspaces (gdb W) ws \<noteq> None" using frame(6) by simp
  show "\<exists>row. active_tier row = t \<and> preset_rows (gdb W1) = (preset_rows (gdb W))(ws \<mapsto> row)"
    using frame(4,5) w2 w1
    by (intro exI [of _ "row\<lparr>active_tier := t\<rparr>"]) (auto simp: save_preset_row_def)
qed

lemma switch_tx_failure:
  assumes "switch_preset_tx tenant i ws t W = (Inl e, W1)"
  shows "gdb W1 = gdb W"
  using assms by (auto simp: switch_preset_tx_def se_atomic_Inl)

subsection \<open>Interleaved reads and switches\<close>

text \<open>
  A run of the system. The steps of \<open>get_preset\<close> on a cache miss (capture the generation, read the
  row, store the entry) and the two halves of a switch (commit, invalidate) interleave freely across
  workers. \<open>inflight\<close> holds the reads that have captured a generation, with the value once it is read;
  \<open>pending\<close> the committed switches that have not invalidated yet.
\<close>

record gate_run =
  world :: gate_world
  inflight :: "(nat \<times> uuid \<times> int \<times> preset_config option) list"
  pending :: "(nat \<times> uuid) list"

inductive gate_step :: "gate_run \<Rightarrow> gate_run \<Rightarrow> bool" where
  guard: "assert_workspace_in_tenant tenant i ws (world R) = (r, W1) \<Longrightarrow> gate_step R (R\<lparr>world := W1\<rparr>)"
| begin_read:
    "cache_generation i CACHE_NAMESPACE ws now (world R) = (g, W1) \<Longrightarrow>
     cached_for_generation (tier_cache (workers W1 i)) ws g = (cached, store) \<Longrightarrow>
     gate_step R (R\<lparr>world := upd_worker i (\<lambda>w. w\<lparr>tier_cache := store\<rparr>) W1,
                    inflight := (if cached = None then [(i, ws, g, None)] else []) @ inflight R\<rparr>)"
| read_row:
    "(i, ws, g, None) \<in> set (inflight R) \<Longrightarrow>
     get_or_create_preset_config tenant i ws False (world R) = (Inr row, W1) \<Longrightarrow>
     get_preset_config (active_tier row) = Inr c \<Longrightarrow>
     gate_step R (R\<lparr>world := W1, inflight := (i, ws, g, Some c) # remove1 (i, ws, g, None) (inflight R)\<rparr>)"
| store_entry:
    "(i, ws, g, Some c) \<in> set (inflight R) \<Longrightarrow>
     gate_step R (R\<lparr>world := upd_worker i
                      (\<lambda>w. w\<lparr>tier_cache := store_for_generation (tier_cache w) ws c g\<rparr>) (world R),
                    inflight := remove1 (i, ws, g, Some c) (inflight R)\<rparr>)"
| commit:
    "switch_preset_tx tenant i ws t (world R) = (Inr c, W1) \<Longrightarrow>
     gate_step R (R\<lparr>world := W1, pending := (i, ws) # pending R\<rparr>)"
| invalidate:
    "gate_step R (R\<lparr>world := invalidate_workspace False i ws now (world R),
                    pending := remove1 (i, ws) (pending R)\<rparr>)"

inductive_cases gate_stepE: "gate_step R R'"

inductive gate_reachable :: "gate_run \<Rightarrow> bool" where
  init: "cache_up W \<Longrightarrow> counters W = (\<lambda>_. None) \<Longrightarrow>
         (\<forall>i. tier_cache (workers W i) = (\<lambda>_. None) \<and> read_memo (workers W i) = (\<lambda>_. None)) \<Longrightarrow>
         gate_reachable \<lparr>world = W, inflight = [], pending = []\<rparr>"
| step: "gate_reachable R \<Longrightarrow> gate_step R R' \<Longrightarrow> gate_reachable R'"

definition generation_of :: "gate_world \<Rightarrow> uuid \<Rightarrow> int" where
  "generation_of W ws = (case counters W (generation_key CACHE_NAMESPACE ws) of Some g \<Rightarrow> g | None \<Rightarrow> 0)"

definition is_current :: "gate_world \<Rightarrow> uuid \<Rightarrow> preset_config \<Rightarrow> bool" where
  "is_current W ws c \<longleftrightarrow>
     (\<exists>row. preset_rows (gdb W) ws = Some row \<and> get_preset_config (active_tier row) = Inr c)"

text \<open>
  A tagged value is sound when its tag is not ahead of the counter, and the value is the current one
  if the tag is the counter's and no switch of the workspace awaits its invalidation.
\<close>

definition sound_tag :: "gate_run \<Rightarrow> uuid \<Rightarrow> int \<Rightarrow> preset_config option \<Rightarrow> bool" where
  "sound_tag R ws g v \<longleftrightarrow> g \<le> generation_of (world R) ws \<and>
     (\<forall>c. v = Some c \<longrightarrow> g = generation_of (world R) ws \<longrightarrow> ws \<notin> snd ` set (pending R) \<longrightarrow>
          is_current (world R) ws c)"

definition gate_inv :: "gate_run \<Rightarrow> bool" where
  "gate_inv R \<longleftrightarrow> cache_up (world R) \<and>
     (\<forall>i ws g t. read_memo (workers (world R) i) (CACHE_NAMESPACE, ws) = Some (g, t) \<longrightarrow>
        g \<le> generation_of (world R) ws) \<and>
     (\<forall>i ws g c. tier_cache (workers (world R) i) ws = Some (g, c) \<longrightarrow> sound_tag R ws g (Some c)) \<and>
     (\<forall>i ws g v. (i, ws, g, v) \<in> set (inflight R) \<longrightarrow> sound_tag R ws g v)"

lemma generation_key_inj [simp]:
  "generation_key n a = generation_key n b \<longleftrightarrow> a = b"
  by (simp add: generation_key_def)

lemma generation_of_frame:
  "same_caches W W1 \<Longrightarrow> generation_of W1 = generation_of W"
  by (simp add: fun_eq_iff generation_of_def same_caches_def)

lemma is_current_unique: "is_current W ws c \<Longrightarrow> is_current W ws c' \<Longrightarrow> c = c'"
  by (auto simp: is_current_def)

lemma is_current_grow:
  assumes "preset_rows (gdb W1) = preset_rows (gdb W) \<or>
           preset_rows (gdb W) ws = None \<and> (\<exists>row. preset_rows (gdb W1) = (preset_rows (gdb W))(ws \<mapsto> row))"
    and "is_current W v c"
  shows "is_current W1 v c"
  using assms by (auto simp: is_current_def)

lemma cache_generation_value:
  assumes "cache_generation i CACHE_NAMESPACE ws now W = (g, W1)" "cache_up W"
    and "\<forall>g' t. read_memo (workers W i) (CACHE_NAMESPACE, ws) = Some (g', t) \<longrightarrow> g' \<le> generation_of W ws"
  shows "g \<le> generation_of W ws"
    and "(\<forall>g' t. read_memo (workers W i) (CACHE_NAMESPACE, ws) = Some (g', t) \<longrightarrow>
            GENERATION_READ_TTL_SECONDS \<le> now - t) \<Longrightarrow> g = generation_of W ws"
    and "gdb W1 = gdb W" "counters W1 = counters W" "cache_up W1 = cache_up W"
    and "tier_cache (workers W1 j) = tier_cache (workers W j)"
    and "read_memo (workers W1 j) = read_memo (workers W j) \<or>
         (\<exists>t. read_memo (workers W1 j) =
            (read_memo (workers W j))((CACHE_NAMESPACE, ws) \<mapsto> (generation_of W ws, t)))"
    and "workspace_tenant_cache (workers W1 j) = workspace_tenant_cache (workers W j)"
  using assms
  by (auto simp: cache_generation_def generation_of_def Let_def split: option.splits if_splits)

lemma cached_lookup:
  assumes "cached_for_generation store ws g = (cached, store')"
  shows "cached = Some c \<longleftrightarrow> store ws = Some (g, c)"
    and "store' v = Some x \<Longrightarrow> store v = Some x"
  using assms by (auto simp: cached_for_generation_def split: option.splits if_splits)

lemma bump_generation:
  assumes "cache_up W"
  shows "generation_of (invalidate_workspace False i ws now W) v =
           generation_of W v + (if v = ws then 1 else 0)"
    and "is_current (invalidate_workspace False i ws now W) v c = is_current W v c"
    and "cache_up (invalidate_workspace False i ws now W)"
  using assms
  by (auto simp: invalidate_workspace_def bump_cache_generation_def generation_of_def is_current_def Let_def
      split: option.splits)

lemma invalidate_caches:
  assumes "cache_up W"
  shows "tier_cache (workers (invalidate_workspace False i ws now W) j) v = Some x \<Longrightarrow>
           tier_cache (workers W j) v = Some x"
    and "read_memo (workers (invalidate_workspace False i ws now W) j) (CACHE_NAMESPACE, v) = Some (g, t) \<Longrightarrow>
           g = generation_of W v + 1 \<and> v = ws \<or> read_memo (workers W j) (CACHE_NAMESPACE, v) = Some (g, t)"
  using assms
  by (auto simp: invalidate_workspace_def bump_cache_generation_def generation_of_def Let_def
      split: if_splits option.splits)

lemma gate_inv_tag:
  "gate_inv R \<Longrightarrow> (i, ws, g, v) \<in> set (inflight R) \<Longrightarrow> sound_tag R ws g v"
  "gate_inv R \<Longrightarrow> tier_cache (workers (world R) i) ws = Some (g, c) \<Longrightarrow> sound_tag R ws g (Some c)"
  "gate_inv R \<Longrightarrow> read_memo (workers (world R) i) (CACHE_NAMESPACE, ws) = Some (g, t) \<Longrightarrow>
     g \<le> generation_of (world R) ws"
  "gate_inv R \<Longrightarrow> cache_up (world R)"
  by (auto simp: gate_inv_def)

text \<open>Steps that keep the counters and grow the table at most by a fresh row keep soundness.\<close>

lemma sound_tag_mono:
  assumes "sound_tag R ws g v" "generation_of (world R') ws = generation_of (world R) ws"
    and "snd ` set (pending R) \<subseteq> snd ` set (pending R')"
    and "\<And>c. ws \<notin> snd ` set (pending R') \<Longrightarrow> is_current (world R) ws c \<Longrightarrow> is_current (world R') ws c"
  shows "sound_tag R' ws g v"
proof -
  have "ws \<notin> snd ` set (pending R') \<Longrightarrow> ws \<notin> snd ` set (pending R)" using assms(3) by blast
  with assms(1,2,4) show ?thesis unfolding sound_tag_def by metis
qed

lemma sound_tag_newer:
  assumes "sound_tag R ws g v" "generation_of (world R') ws > generation_of (world R) ws"
  shows "sound_tag R' ws g v"
  using assms by (auto simp: sound_tag_def)

lemma gate_inv_intro:
  assumes inv: "gate_inv R" and "cache_up (world R')"
    and sound: "\<And>ws g v. sound_tag R ws g v \<Longrightarrow> sound_tag R' ws g v"
    and memo: "\<And>i ws g t. read_memo (workers (world R') i) (CACHE_NAMESPACE, ws) = Some (g, t) \<Longrightarrow>
                 g \<le> generation_of (world R') ws"
    and tier: "\<And>i ws g c. tier_cache (workers (world R') i) ws = Some (g, c) \<Longrightarrow>
                 tier_cache (workers (world R) i) ws = Some (g, c) \<or> sound_tag R' ws g (Some c)"
    and fl: "\<And>i ws g v. (i, ws, g, v) \<in> set (inflight R') \<Longrightarrow>
               (i, ws, g, v) \<in> set (inflight R) \<or> sound_tag R' ws g v"
  shows "gate_inv R'"
  unfolding gate_inv_def
proof (intro conjI allI impI)
  show "cache_up (world R')" by fact
  show "g \<le> generation_of (world R') ws"
    if "read_memo (workers (world R') i) (CACHE_NAMESPACE, ws) = Some (g, t)" for i ws g t
    by (rule memo [OF that])
  show "sound_tag R' ws g (Some c)" if "tier_cache (workers (world R') i) ws = Some (g, c)" for i ws g c
    using tier [OF that] gate_inv_tag(2) [OF inv] sound by blast
  show "sound_tag R' ws g v" if "(i, ws, g, v) \<in> set (inflight R')" for i ws g v
    using fl [OF that] gate_inv_tag(1) [OF inv] sound by blast
qed

lemma gate_inv_frame:
  assumes inv: "gate_inv R" and caches: "same_caches (world R) (world R')"
    and sound: "\<And>ws g v. sound_tag R ws g v \<Longrightarrow> sound_tag R' ws g v"
    and fl: "\<And>i ws g v. (i, ws, g, v) \<in> set (inflight R') \<Longrightarrow>
               (i, ws, g, v) \<in> set (inflight R) \<or> sound_tag R' ws g v"
  shows "gate_inv R'"
proof (rule gate_inv_intro [OF inv])
  from caches have eq: "cache_up (world R') = cache_up (world R)"
      "\<And>j. read_memo (workers (world R') j) = read_memo (workers (world R) j)"
      "\<And>j. tier_cache (workers (world R') j) = tier_cache (workers (world R) j)"
    by (simp_all add: same_caches_def)
  then show "cache_up (world R')" using gate_inv_tag(4) [OF inv] by simp
  show "g \<le> generation_of (world R') ws"
    if "read_memo (workers (world R') i) (CACHE_NAMESPACE, ws) = Some (g, t)" for i ws g t
    using that gate_inv_tag(3) [OF inv] by (simp add: eq generation_of_frame [OF caches])
  show "tier_cache (workers (world R) i) ws = Some (g, c) \<or> sound_tag R' ws g (Some c)"
    if "tier_cache (workers (world R') i) ws = Some (g, c)" for i ws g c
    using that by (simp add: eq)
qed (use sound fl in blast)+

lemma gate_inv_step:
  assumes "gate_step R R'" "gate_inv R"
  shows "gate_inv R'"
  using assms(1)
proof cases
  case (guard tenant i ws r W1)
  note f = assert_frame [OF guard(2)]
  have cur: "is_current W1 v c = is_current (world R) v c" for v c using f by (simp add: is_current_def)
  show ?thesis
    using guard f generation_of_frame
    by (intro gate_inv_frame [OF assms(2)]) (auto intro!: sound_tag_mono [of R] simp: cur)
next
  case (begin_read i ws now g W1 cached store)
  have memo: "\<forall>g' t. read_memo (workers (world R) i) (CACHE_NAMESPACE, ws) = Some (g', t) \<longrightarrow>
      g' \<le> generation_of (world R) ws"
    using gate_inv_tag(3) [OF assms(2)] by blast
  note val = cache_generation_value [OF begin_read(2) gate_inv_tag(4) [OF assms(2)] memo]
  have gen: "generation_of (world R') = generation_of (world R)"
    using begin_read val(4) by (simp add: generation_of_def fun_eq_iff)
  have cur: "is_current (world R') v c = is_current (world R) v c" for v c
    using begin_read val(3) by (simp add: is_current_def)
  have sound: "sound_tag R v h x \<Longrightarrow> sound_tag R' v h x" for v h x
    using begin_read(1) gen cur by (simp add: sound_tag_def)
  have "sound_tag R' ws g None" using val(1) gen by (simp add: sound_tag_def)
  moreover have "tier_cache (workers (world R') j) v = Some x \<Longrightarrow> tier_cache (workers (world R) j) v = Some x"
    for j v x using begin_read(1) cached_lookup(2) [OF begin_read(3)] val(6) by (auto split: if_splits)
  moreover have "read_memo (workers (world R') j) (CACHE_NAMESPACE, v) = Some (h, t) \<Longrightarrow>
      h \<le> generation_of (world R) v" for j v h t
    using begin_read(1) val(7) [where j = j] gate_inv_tag(3) [OF assms(2)]
    by (auto split: if_splits)
  moreover have "(j, v, h, x) \<in> set (inflight R') \<Longrightarrow>
      (j, v, h, x) \<in> set (inflight R) \<or> sound_tag R' v h x" for j v h x
    using begin_read(1) calculation(1) by (auto split: if_splits)
  moreover have "cache_up (world R')" using begin_read(1) val(5) gate_inv_tag(4) [OF assms(2)] by simp
  ultimately show ?thesis
    using sound by (intro gate_inv_intro [OF assms(2)]) (auto simp: gen)
next
  case (read_row i ws g tenant row W1 c)
  note f = get_or_create_frame [OF read_row(3)]
  have sound: "sound_tag R v h x \<Longrightarrow> sound_tag R' v h x" for v h x
    using read_row(1) generation_of_frame [OF f(1)] is_current_grow [OF f(4)]
    by (simp add: sound_tag_def)
  have "is_current W1 ws c" using f(5) read_row(4) by (simp add: is_current_def)
  moreover have "g \<le> generation_of W1 ws"
    using gate_inv_tag(1) [OF assms(2) read_row(2)] generation_of_frame [OF f(1)] by (simp add: sound_tag_def)
  ultimately have "sound_tag R' ws g (Some c)" using read_row(1) by (simp add: sound_tag_def)
  then show ?thesis
    using read_row(1) f(1) sound
    by (intro gate_inv_frame [OF assms(2)]) (auto dest: set_mp [OF set_remove1_subset])
next
  case (store_entry i ws g c)
  have eq: "generation_of (world R') = generation_of (world R)" "gdb (world R') = gdb (world R)"
      "pending R' = pending R" "cache_up (world R') = cache_up (world R)"
      "\<And>j. read_memo (workers (world R') j) = read_memo (workers (world R) j)"
    using store_entry(1) by (auto simp: generation_of_def)
  have sound: "sound_tag R' v h x = sound_tag R v h x" for v h x
    using eq by (simp add: sound_tag_def is_current_def)
  have "tier_cache (workers (world R') j) v = Some (h, d) \<Longrightarrow> sound_tag R v h (Some d)" for j v h d
    using store_entry gate_inv_tag [OF assms(2)]
    by (auto simp: store_for_generation_def split: if_splits)
  moreover have "(j, v, h, x) \<in> set (inflight R') \<Longrightarrow> (j, v, h, x) \<in> set (inflight R)" for j v h x
    using store_entry(1) by (auto dest: set_mp [OF set_remove1_subset])
  ultimately show ?thesis
    using gate_inv_tag(3,4) [OF assms(2)]
    by (intro gate_inv_intro [OF assms(2)]) (auto simp: sound eq)
next
  case (commit tenant i ws t c W1)
  note f = switch_tx_success [OF commit(2)]
  have cur: "v \<noteq> ws \<Longrightarrow> is_current W1 v d = is_current (world R) v d" for v d
    using f(4) by (auto simp: is_current_def)
  show ?thesis
    using commit f(1) generation_of_frame [OF f(1)]
    by (intro gate_inv_frame [OF assms(2)]) (auto intro!: sound_tag_mono [of R] simp: cur)
next
  case (invalidate i ws now)
  note up = gate_inv_tag(4) [OF assms(2)]
  note b = bump_generation [OF up, of i ws now]
  have sound: "sound_tag R v h x \<Longrightarrow> sound_tag R' v h x" for v h x
  proof (cases "v = ws")
    case True
    assume *: "sound_tag R v h x"
    have "generation_of (world R) v < generation_of (world R') v" using True invalidate b(1) by simp
    with * show ?thesis by (rule sound_tag_newer)
  next
    case False
    assume *: "sound_tag R v h x"
    have "v \<in> snd ` set (pending R) \<longrightarrow> v \<in> snd ` set (remove1 (i, ws) (pending R))"
      using False by (auto simp: image_iff)
    then show ?thesis
      using * False invalidate b(1,2) by (simp add: sound_tag_def) metis
  qed
  have "tier_cache (workers (world R') j) v = Some x \<Longrightarrow> tier_cache (workers (world R) j) v = Some x" for j v x
    using invalidate invalidate_caches(1) [OF up] by simp
  moreover have "read_memo (workers (world R') j) (CACHE_NAMESPACE, v) = Some (h, t) \<Longrightarrow>
      h \<le> generation_of (world R') v" for j v h t
    using invalidate invalidate_caches(2) [OF up, of i ws now j v h t] b(1) [of v] gate_inv_tag(3) [OF assms(2), of j v h t]
    by (auto split: if_splits)
  moreover have "(j, v, h, x) \<in> set (inflight R') \<Longrightarrow> (j, v, h, x) \<in> set (inflight R)" for j v h x
    using invalidate by simp
  moreover have "cache_up (world R')" using invalidate b(3) by simp
  ultimately show ?thesis
    using sound by (intro gate_inv_intro [OF assms(2)]) auto
qed

lemma reachable_gate_inv: "gate_reachable R \<Longrightarrow> gate_inv R"
proof (induction rule: gate_reachable.induct)
  case (init W)
  then show ?case by (simp add: gate_inv_def)
next
  case (step R R')
  then show ?case by (blast intro: gate_inv_step)
qed

text \<open>What an uncached query computes: the configuration of the row, created on demand.\<close>

definition uncached_preset :: "uuid option \<Rightarrow> nat \<Rightarrow> uuid \<Rightarrow> gate_world \<Rightarrow> preset_error + preset_config" where
  "uncached_preset tenant i ws W =
     res_bind (fst (get_or_create_preset_config tenant i ws False W))
       (\<lambda>row. get_preset_config (active_tier row))"

lemma load_preset_result: "fst (load_preset tenant i ws g W) = uncached_preset tenant i ws W"
  by (auto simp: load_preset_def uncached_preset_def split: prod.splits sum.splits)

lemma assert_frame_again:
  assumes "gdb W1 = gdb W" "workspace_tenant_cache (workers W1 i) = workspace_tenant_cache (workers W i)"
  shows "fst (assert_workspace_in_tenant tenant i ws W1) = fst (assert_workspace_in_tenant tenant i ws W)"
  using assms
  by (auto simp: assert_workspace_in_tenant_def resolve_workspace_tenant_def split: option.splits)

lemma assert_idem:
  assumes "assert_workspace_in_tenant tenant i ws W = (r, W1)"
  shows "fst (assert_workspace_in_tenant tenant i ws W1) = r"
  using assms
  by (auto simp: assert_workspace_in_tenant_def resolve_workspace_tenant_def Let_def split: option.splits)

lemma uncached_preset_frame:
  assumes "gdb W1 = gdb W"
    and "fst (assert_workspace_in_tenant tenant i ws W1) = fst (assert_workspace_in_tenant tenant i ws W)"
  shows "uncached_preset tenant i ws W1 = uncached_preset tenant i ws W"
proof -
  obtain r V where r: "assert_workspace_in_tenant tenant i ws W = (r, V)" by fastforce
  obtain r1 V1 where r1: "assert_workspace_in_tenant tenant i ws W1 = (r1, V1)" by fastforce
  show ?thesis
    using assms r r1 assert_frame [OF r] assert_frame [OF r1]
    by (simp add: uncached_preset_def get_or_create_preset_config_def Let_def split: sum.splits option.splits)
qed

lemma uncached_is_current:
  assumes "is_current W ws c" "assert_workspace_in_tenant tenant i ws W = (Inr (), W1)"
    and "workspaces (gdb W) ws \<noteq> None"
  shows "uncached_preset tenant i ws W = Inr c"
  using assms assert_frame [OF assms(2)]
  by (auto simp: uncached_preset_def get_or_create_preset_config_def is_current_def split: option.splits)

lemma get_preset_result:
  assumes g: "assert_workspace_in_tenant tenant i ws W = (Inr (), W1)"
    and gen: "cache_generation i CACHE_NAMESPACE ws now W1 = (gn, W2)"
    and eq: "gdb W2 = gdb W1" "workspace_tenant_cache (workers W2 i) = workspace_tenant_cache (workers W1 i)"
  shows "fst (get_preset tenant i now ws W) =
    (case tier_cache (workers W2 i) ws of
       Some (g', c) \<Rightarrow> if g' = gn then Inr c else uncached_preset tenant i ws W
     | None \<Rightarrow> uncached_preset tenant i ws W)"
proof -
  have "uncached_preset tenant i ws (upd_worker i (\<lambda>w. w\<lparr>tier_cache := st\<rparr>) W2) = uncached_preset tenant i ws W" for st
  proof (rule uncached_preset_frame)
    show "gdb (upd_worker i (\<lambda>w. w\<lparr>tier_cache := st\<rparr>) W2) = gdb W" using eq assert_frame [OF g] by simp
    show "fst (assert_workspace_in_tenant tenant i ws (upd_worker i (\<lambda>w. w\<lparr>tier_cache := st\<rparr>) W2)) =
        fst (assert_workspace_in_tenant tenant i ws W)"
      using assert_frame_again [of "upd_worker i (\<lambda>w. w\<lparr>tier_cache := st\<rparr>) W2" W1 i tenant ws] assert_idem [OF g]
        eq g by simp
  qed
  then show ?thesis
    by (simp add: get_preset_def g gen cached_for_generation_def load_preset_result Let_def
        split: option.split prod.split)
qed

subsection \<open>Properties\<close>

text \<open>
  C35: a worker with an expired memo sees the current preset. In any interleaving of reads and switches by any
  number of workers, in which the shared cache stays up and loses no counter: while no committed switch of the
  workspace awaits its invalidation, a query by a worker whose generation memo for it is absent or at least
  \<open>GENERATION_READ_TTL_SECONDS\<close> old returns what an uncached query returns, an error of the guard included, whatever
  the worker's cache holds. (The row of a workspace has its workspace, by foreign key.) Between the commit of a
  switch and its invalidation, and within the life of a memo, a query may return the previous preset.
\<close>

theorem preset_reads_are_fresh:
  assumes "gate_reachable R" "ws \<notin> snd ` set (pending R)"
    and "\<forall>g t. read_memo (workers (world R) i) (CACHE_NAMESPACE, ws) = Some (g, t) \<longrightarrow>
           GENERATION_READ_TTL_SECONDS \<le> now - t"
    and "preset_rows (gdb (world R)) ws \<noteq> None \<longrightarrow> workspaces (gdb (world R)) ws \<noteq> None"
  shows "fst (get_preset tenant i now ws (world R)) = uncached_preset tenant i ws (world R)"
proof (cases "fst (assert_workspace_in_tenant tenant i ws (world R))")
  case (Inl e)
  then obtain W1 where "assert_workspace_in_tenant tenant i ws (world R) = (Inl e, W1)" by (metis prod.collapse)
  then show ?thesis by (simp add: get_preset_def uncached_preset_def get_or_create_preset_config_def)
next
  case (Inr u)
  then obtain W1 where guard: "assert_workspace_in_tenant tenant i ws (world R) = (Inr (), W1)"
    by (metis (full_types) prod.collapse unit.exhaust)
  note inv = reachable_gate_inv [OF assms(1)]
  note f = assert_frame [OF guard]
  obtain g W2 where gen: "cache_generation i CACHE_NAMESPACE ws now W1 = (g, W2)" by fastforce
  have same: "read_memo (workers W1 i) = read_memo (workers (world R) i)"
      "tier_cache (workers W1 i) = tier_cache (workers (world R) i)"
      "generation_of W1 = generation_of (world R)" "cache_up W1"
    using f generation_of_frame gate_inv_tag(4) [OF inv] by (auto simp: same_caches_def)
  have memo: "\<forall>g' t. read_memo (workers W1 i) (CACHE_NAMESPACE, ws) = Some (g', t) \<longrightarrow> g' \<le> generation_of W1 ws"
    using gate_inv_tag(3) [OF inv] same by simp
  note val = cache_generation_value [OF gen same(4) memo]
  have "g = generation_of (world R) ws" using val(2) assms(3) same by simp
  then have "is_current (world R) ws c" if "tier_cache (workers W2 i) ws = Some (g, c)" for c
    using gate_inv_tag(2) [OF inv, of i ws g c] val(6) [where j = i] same assms(2) that by (simp add: sound_tag_def)
  moreover have "workspaces (gdb (world R)) ws \<noteq> None" if "is_current (world R) ws c" for c
    using that assms(4) by (auto simp: is_current_def)
  ultimately show ?thesis
    using get_preset_result [OF guard gen val(3) val(8)] uncached_is_current [OF _ guard]
    by (auto split: option.splits)
qed

definition world_example :: gate_world where
  "world_example =
     \<lparr>gdb = \<lparr>workspaces = [''w'' \<mapsto> \<lparr>ws_tenant = ''t'', ws_preset_name = Some ''standard''\<rparr>],
             preset_rows = Map.empty, global_baselines = (\<lambda>_. Inr 0)\<rparr>,
      counters = Map.empty, cache_up = True,
      workers = (\<lambda>_. \<lparr>read_memo = Map.empty, tier_cache = Map.empty, profile_cache = Map.empty,
                     workspace_tenant_cache = []\<rparr>)\<rparr>"

text \<open>
  Worker 0 reads the standard tier and caches it; worker 1 commits a switch to the extended tier and invalidates.
  Worker 0 keeps its entry, but its next query after the memo has expired returns the extended tier.
\<close>

definition read_run :: gate_run where
  "read_run =
     (let W0 = snd (cache_generation 0 CACHE_NAMESPACE ''w'' 0 world_example);
          W1 = upd_worker 0 (\<lambda>w. w\<lparr>tier_cache := tier_cache (workers W0 0)\<rparr>) W0;
          W2 = snd (get_or_create_preset_config None 0 ''w'' False W1)
      in \<lparr>world = upd_worker 0 (\<lambda>w. w\<lparr>tier_cache := store_for_generation (tier_cache w) ''w'' STANDARD 0\<rparr>) W2,
          inflight = [], pending = []\<rparr>)"

definition switched_run :: gate_run where
  "switched_run =
     \<lparr>world = invalidate_workspace False 1 ''w'' 5 (snd (switch_preset_tx None 1 ''w'' ''extended'' (world read_run))),
      inflight = [], pending = []\<rparr>"

lemmas gate_example_defs = cache_generation_def cached_for_generation_def store_for_generation_def
  get_or_create_preset_config_def assert_workspace_in_tenant_def initial_tier_of_def tier_defs Let_def upd_worker_def
  CACHE_NAMESPACE_def world_example_def

lemma read_run_reachable: "gate_reachable read_run"
proof -
  let ?W0 = "snd (cache_generation 0 CACHE_NAMESPACE ''w'' 0 world_example)"
  let ?W1 = "upd_worker 0 (\<lambda>w. w\<lparr>tier_cache := tier_cache (workers ?W0 0)\<rparr>) ?W0"
  let ?W2 = "snd (get_or_create_preset_config None 0 ''w'' False ?W1)"
  let ?row = "\<lparr>active_tier = ''standard'', terminology_profile = PROFILE_DEV_MODE, downgrade_policy = ''block''\<rparr>"
  let ?R0 = "\<lparr>world = world_example, inflight = [], pending = []\<rparr>"
  let ?R1 = "?R0\<lparr>world := ?W1, inflight := [(0, ''w'', 0, None)]\<rparr>"
  let ?R2 = "?R1\<lparr>world := ?W2, inflight := [(0, ''w'', 0, Some STANDARD)]\<rparr>"
  have r0: "gate_reachable ?R0"
    by (rule gate_reachable.init) (simp_all add: world_example_def)
  have g: "cache_generation 0 CACHE_NAMESPACE ''w'' 0 (world ?R0) = (0, ?W0)" by (simp add: gate_example_defs)
  have c: "cached_for_generation (tier_cache (workers ?W0 0)) ''w'' 0 = (None, tier_cache (workers ?W0 0))"
    by (simp add: gate_example_defs)
  have "gate_step ?R0 ?R1" using gate_step.begin_read [OF g c] by simp
  then have r1: "gate_reachable ?R1" by (rule gate_reachable.step [OF r0])
  have i: "(0, ''w'', 0, None) \<in> set (inflight ?R1)" by simp
  have row: "get_or_create_preset_config None 0 ''w'' False (world ?R1) = (Inr ?row, ?W2)" by (simp add: gate_example_defs)
  have t: "get_preset_config (active_tier ?row) = Inr STANDARD" by (simp add: default_registry_cases tier_defs)
  have "gate_step ?R1 ?R2" using gate_step.read_row [OF i row t] by simp
  then have r2: "gate_reachable ?R2" by (rule gate_reachable.step [OF r1])
  have i: "(0, ''w'', 0, Some STANDARD) \<in> set (inflight ?R2)" by simp
  have "gate_step ?R2 read_run" using gate_step.store_entry [OF i] by (simp add: read_run_def Let_def)
  then show ?thesis by (rule gate_reachable.step [OF r2])
qed

lemma switched_run_reachable: "gate_reachable switched_run"
proof -
  let ?W = "snd (switch_preset_tx None 1 ''w'' ''extended'' (world read_run))"
  let ?R = "read_run\<lparr>world := ?W, pending := [(1, ''w'')]\<rparr>"
  have "fst (switch_preset_tx None 1 ''w'' ''extended'' (world read_run)) = Inr EXTENDED"
    by (simp add: read_run_def gate_example_defs switch_preset_tx_def se_atomic_def se_bind_def get_preset_config_def DEFAULT_REGISTRY_def tier_index_def)
  then have "switch_preset_tx None 1 ''w'' ''extended'' (world read_run) = (Inr EXTENDED, ?W)" by (metis prod.collapse)
  from gate_step.commit [OF this] have "gate_step read_run ?R" by (simp add: read_run_def Let_def)
  then have r: "gate_reachable ?R" by (rule gate_reachable.step [OF read_run_reachable])
  have "gate_step ?R switched_run"
    using gate_step.invalidate [of ?R 1 "''w''" 5] by (simp add: switched_run_def read_run_def Let_def)
  then show ?thesis by (rule gate_reachable.step [OF r])
qed

theorem preset_reads_are_fresh_witness:
  "tier_cache (workers (world switched_run) 0) ''w'' = Some (0, STANDARD) \<and>
   fst (get_preset None 0 1000 ''w'' (world switched_run)) = Inr EXTENDED"
proof -
  note defs = gate_example_defs switched_run_def read_run_def invalidate_workspace_def bump_cache_generation_def
    switch_preset_tx_def se_atomic_def se_bind_def save_preset_row_def get_preset_config_def DEFAULT_REGISTRY_def tier_index_def
  have p: "''w'' \<notin> snd ` set (pending switched_run)" by (simp add: switched_run_def)
  have m: "read_memo (workers (world switched_run) 0) (CACHE_NAMESPACE, ''w'') = Some (0, 0)" by (simp add: defs)
  then have m: "\<forall>g t. read_memo (workers (world switched_run) 0) (CACHE_NAMESPACE, ''w'') = Some (g, t) \<longrightarrow>
      GENERATION_READ_TTL_SECONDS \<le> 1000 - t" by (simp add: GENERATION_READ_TTL_SECONDS_def)
  have w: "preset_rows (gdb (world switched_run)) ''w'' \<noteq> None \<longrightarrow> workspaces (gdb (world switched_run)) ''w'' \<noteq> None"
    by (simp add: defs)
  have "uncached_preset None 0 ''w'' (world switched_run) = Inr EXTENDED" by (simp add: defs uncached_preset_def)
  moreover have "tier_cache (workers (world switched_run) 0) ''w'' = Some (0, STANDARD)" by (simp add: defs)
  ultimately show ?thesis
    using preset_reads_are_fresh [OF switched_run_reachable p m w, of None] by (simp only: simp_thms)
qed

text \<open>
  Read your own switch. After a successful \<open>switch_preset\<close> the row of the workspace holds the target
  tier, and the same worker's next query returns the new configuration at every later instant, even when
  the shared cache is down.
\<close>

theorem switch_then_read:
  assumes "switch_preset vanished tenant i now ws t W = (Inr c, W')"
  shows "get_preset_config t = Inr c \<and> map_option active_tier (preset_rows (gdb W') ws) = Some t \<and>
         fst (get_preset None i now' ws W') = Inr c"
proof -
  obtain W1 where tx: "switch_preset_tx tenant i ws t W = (Inr c, W1)"
      and W': "W' = invalidate_workspace vanished i ws now W1"
    using assms by (auto simp: switch_preset_def split: sum.splits prod.splits)
  note s = switch_tx_success [OF tx]
  have gdb: "gdb W' = gdb W1"
    by (simp add: W' invalidate_workspace_def bump_cache_generation_def Let_def)
  have empty: "tier_cache (workers W' i) ws = None"
    by (simp add: W' invalidate_workspace_def bump_cache_generation_def Let_def)
  have wsp: "workspaces (gdb W') ws \<noteq> None" using gdb s(2,5) by simp
  have cur: "is_current W' ws c" using s(3,4) gdb by (auto simp: is_current_def)
  have g: "assert_workspace_in_tenant None i ws W' = (Inr (), W')" by (simp add: assert_workspace_in_tenant_def)
  obtain gn W2 where gen: "cache_generation i CACHE_NAMESPACE ws now' W' = (gn, W2)" by fastforce
  then have w2: "gdb W2 = gdb W'" "workspace_tenant_cache (workers W2 i) = workspace_tenant_cache (workers W' i)"
      "tier_cache (workers W2 i) = tier_cache (workers W' i)"
    by (auto simp: cache_generation_def Let_def split: option.splits if_splits)
  have "fst (get_preset None i now' ws W') = uncached_preset None i ws W'"
    using get_preset_result [OF g gen w2(1,2)] w2(3) empty by simp
  also have "\<dots> = Inr c" by (rule uncached_is_current [OF cur g wsp])
  finally show ?thesis using s(3,4) gdb by auto
qed

theorem switch_then_read_witness:
  "fst (get_preset None 0 9 ''w'' (snd (switch_preset False (Some ''t'') 0 5 ''w'' ''extended'' world_example)))
     = Inr EXTENDED"
proof -
  have "fst (switch_preset False (Some ''t'') 0 5 ''w'' ''extended'' world_example) = Inr EXTENDED"
    by (simp add: switch_preset_def switch_preset_tx_def se_atomic_def se_bind_def get_or_create_preset_config_def
        assert_workspace_in_tenant_def resolve_workspace_tenant_def world_example_def initial_tier_of_def
        get_preset_config_def DEFAULT_REGISTRY_def tier_index_def tier_defs Let_def upd_worker_def
        WORKSPACE_TENANT_CACHE_MAX_def)
  then have "switch_preset False (Some ''t'') 0 5 ''w'' ''extended'' world_example =
      (Inr EXTENDED, snd (switch_preset False (Some ''t'') 0 5 ''w'' ''extended'' world_example))"
    by (metis prod.collapse)
  from switch_then_read [OF this] show ?thesis by blast
qed

text \<open>
  Tenant isolation comes before the caches. A caller whose active tenant does not own the workspace
  gets \<open>CrossTenantWorkspaceError\<close> from every query and switch, whatever the tier and profile caches hold,
  and the database stays as it was, provided the owner cache agrees with the workspace table.
\<close>

theorem cross_tenant_rejected:
  assumes "workspaces (gdb W) ws = Some row" "ws_tenant row \<noteq> active"
    and "\<forall>t. map_of (workspace_tenant_cache (workers W i)) ws = Some t \<longrightarrow> t = ws_tenant row"
    and "get_terminology_profile p = Inr m"
  shows "(\<exists>msg. fst (get_preset (Some active) i now ws W) = Inl (CrossTenantWorkspaceError msg)) \<and>
         gdb (snd (get_preset (Some active) i now ws W)) = gdb W \<and>
         (\<exists>msg. fst (get_terminology (Some active) i now ws W) = Inl (CrossTenantWorkspaceError msg)) \<and>
         (\<exists>msg. fst (switch_preset vanished (Some active) i now ws t W) = Inl (CrossTenantWorkspaceError msg)) \<and>
         gdb (snd (switch_preset vanished (Some active) i now ws t W)) = gdb W \<and>
         (\<exists>msg. fst (switch_terminology_profile vanished (Some active) i now ws p W) =
            Inl (CrossTenantWorkspaceError msg)) \<and>
         gdb (snd (switch_terminology_profile vanished (Some active) i now ws p W)) = gdb W"
proof -
  obtain r W1 where g: "assert_workspace_in_tenant (Some active) i ws W = (r, W1)" by fastforce
  have r: "\<exists>msg. r = Inl (CrossTenantWorkspaceError msg)"
    using g assms(1-3)
    by (auto simp: assert_workspace_in_tenant_def resolve_workspace_tenant_def split: option.splits)
  then obtain msg where r: "r = Inl (CrossTenantWorkspaceError msg)" by blast
  have goc: "get_or_create_preset_config (Some active) i ws fu W = (Inl (CrossTenantWorkspaceError msg), W1)" for fu
    by (simp add: get_or_create_preset_config_def g r)
  have tx: "switch_preset_tx (Some active) i ws t W = (Inl (CrossTenantWorkspaceError msg), W1\<lparr>gdb := gdb W\<rparr>)"
    by (simp add: switch_preset_tx_def se_atomic_def goc)
  show ?thesis
    using assert_frame [OF g]
    by (simp add: get_preset_def get_terminology_def switch_preset_def switch_terminology_profile_def
        g r tx goc assms(4) se_atomic_def)
qed

theorem cross_tenant_rejected_witness:
  "\<exists>msg. fst (get_preset (Some ''other'') 0 3 ''w'' world_example) = Inl (CrossTenantWorkspaceError msg)"
  by (rule cross_tenant_rejected [where p = PROFILE_DEV_MODE
        and row = "\<lparr>ws_tenant = ''t'', ws_preset_name = Some ''standard''\<rparr>", THEN conjunct1])
    (simp_all add: world_example_def get_terminology_profile_def BUILT_IN_PROFILES_def validate_profile_complete)

text \<open>
  Downgrades are checked. A switch to a lower tier succeeds only if the workspace's policy is not
  \<open>block\<close> or no incompatibility was found, where a failing check counts as an incompatibility; a blocked switch
  raises \<open>DowngradeBlockedError\<close> and leaves the database unchanged.
\<close>

theorem blocked_downgrade:
  assumes "preset_rows (gdb W) ws = Some row" "workspaces (gdb W) ws \<noteq> None"
    and "get_preset_config t = Inr c" "tier_index t = Inr a" "tier_index (active_tier row) = Inr b" "a < b"
  shows "if downgrade_policy row = ''block'' \<and> global_baselines (gdb W) ws \<noteq> Inr 0
         then (\<exists>msg. fst (switch_preset vanished None i now ws t W) = Inl (DowngradeBlockedError msg)) \<and>
              gdb (snd (switch_preset vanished None i now ws t W)) = gdb W
         else fst (switch_preset vanished None i now ws t W) = Inr c"
proof -
  have goc: "get_or_create_preset_config None i ws fu W = (Inr row, W)" for fu
    using assms(1,2) by (auto simp: get_or_create_preset_config_def assert_workspace_in_tenant_def)
  have "t \<in> {''minimal'', ''standard''}"
    using assms(4-6) by (auto simp: tier_index_cases tier_defs)
  then have inc: "collect_downgrade_incompatibilities ws t (gdb W) = [] \<longleftrightarrow> global_baselines (gdb W) ws = Inr 0"
    by (auto simp: collect_downgrade_incompatibilities_def split: sum.splits)
  show ?thesis
    using assms(3-6) inc
    by (auto simp: switch_preset_def switch_preset_tx_def se_atomic_def goc validate_downgrade_def se_bind_def Let_def)
qed

theorem blocked_downgrade_witness:
  "\<exists>msg. fst (switch_preset False None 0 3 ''w'' ''minimal''
      (world_example\<lparr>gdb := (gdb world_example)\<lparr>
         preset_rows := [''w'' \<mapsto> \<lparr>active_tier = ''extended'', terminology_profile = ''dev_mode'', downgrade_policy = ''block''\<rparr>],
         global_baselines := (\<lambda>_. Inl ''OperationalError'')\<rparr>\<rparr>)) = Inl (DowngradeBlockedError msg)"
  using blocked_downgrade [where ws = "''w''" and t = "''minimal''" and a = 0 and b = 2 and c = MINIMAL
      and vanished = False and i = 0 and now = 3
      and row = "\<lparr>active_tier = ''extended'', terminology_profile = ''dev_mode'', downgrade_policy = ''block''\<rparr>"
      and W = "world_example\<lparr>gdb := (gdb world_example)\<lparr>
         preset_rows := [''w'' \<mapsto> \<lparr>active_tier = ''extended'', terminology_profile = ''dev_mode'', downgrade_policy = ''block''\<rparr>],
         global_baselines := (\<lambda>_. Inl ''OperationalError'')\<rparr>\<rparr>"]
  by (simp add: world_example_def default_registry_cases tier_index_cases tier_defs)

text \<open>
  An evicted counter can serve a stale preset. A worker holds the entry of generation 1; the counter
  is evicted from the shared cache; another worker switches the workspace, which brings the counter back to 1.
  Long after, the first worker's memo has expired, and its query still returns the configuration from before
  the switch, although the module promises that an evicted counter costs a recompute and never a stale read.
\<close>

definition evicted_world :: gate_world where
  "evicted_world = world_example\<lparr>
     gdb := (gdb world_example)\<lparr>preset_rows := [''w'' \<mapsto> \<lparr>active_tier = ''extended'', terminology_profile = ''dev_mode'', downgrade_policy = ''block''\<rparr>]\<rparr>,
     workers := (workers world_example)(1 :=
       (workers world_example 1)\<lparr>read_memo := [(''preset'', ''w'') \<mapsto> (1, 10)], tier_cache := [''w'' \<mapsto> (1, EXTENDED)]\<rparr>)\<rparr>"

theorem evicted_counter_serves_stale:
  "let W = snd (switch_preset False None 0 20 ''w'' ''minimal'' evicted_world)
   in map_option active_tier (preset_rows (gdb W) ''w'') = Some ''minimal'' \<and>
      fst (get_preset None 1 1000 ''w'' W) = Inr EXTENDED"
proof -
  note defs = switch_preset_def switch_preset_tx_def se_atomic_def se_bind_def get_or_create_preset_config_def
    assert_workspace_in_tenant_def evicted_world_def world_example_def get_preset_config_def
    DEFAULT_REGISTRY_def tier_index_def tier_defs Let_def upd_worker_def validate_downgrade_def
    collect_downgrade_incompatibilities_def save_preset_row_def invalidate_workspace_def
    bump_cache_generation_def CACHE_NAMESPACE_def
  define W where "W = snd (switch_preset False None 0 20 ''w'' ''minimal'' evicted_world)"
  have W: "map_option active_tier (preset_rows (gdb W) ''w'') = Some ''minimal''"
      "read_memo (workers W 1) = [(''preset'', ''w'') \<mapsto> (1, 10)]" "tier_cache (workers W 1) = [''w'' \<mapsto> (1, EXTENDED)]"
      "counters W (generation_key ''preset'' ''w'') = Some 1" "cache_up W"
    unfolding W_def by (simp_all add: defs)
  then have "fst (get_preset None 1 1000 ''w'' W) = Inr EXTENDED"
    by (simp add: get_preset_def assert_workspace_in_tenant_def cache_generation_def CACHE_NAMESPACE_def
        GENERATION_READ_TTL_SECONDS_def cached_for_generation_def Let_def)
  with W(1) show ?thesis by (simp add: W_def Let_def)
qed

end
