(* ===== verification/Workflow_Schemas.thy ===== *)
theory Workflow_Schemas
  imports Loom_Prelude
begin

text \<open>
  The shipped workflow graphs (\<^verbatim>\<open>workflow/definition_store.py\<close>, \<^verbatim>\<open>workflow/item_types.py\<close>): the
  definition DTOs, the transition builders, the preset schemas and the injection of the proposal state.

  The JSON blob of a definition is the record \<open>workflow_json\<close>. The keys of a transition dict that the
  code reads with a default (\<open>allowed_roles\<close>, \<open>requires_change_reason\<close>, \<open>signature_gate\<close>) are options; the
  two endpoints are always present. \<open>state_meta\<close> maps a state to its flags and is empty when the key is
  absent, which every reader treats alike.
\<close>

subsection \<open>Definitions as data\<close>

record raw_transition =
  rt_from :: string
  rt_to :: string
  rt_roles :: "string list option"
  rt_reason :: "bool option"
  rt_sig :: "bool option"

type_synonym state_meta = "string \<Rightarrow> (string \<Rightarrow> bool option) option"

record workflow_json =
  wf_states :: "string list"
  wf_transitions :: "raw_transition list"
  wf_state_meta :: state_meta

record transition_dto =
  from_state :: string
  to_state :: string
  allowed_roles :: "string list"
  requires_change_reason :: bool
  signature_gate :: bool

record definition_dto =
  dto_states :: "string list"
  dto_transitions :: "transition_dto list"
  dto_workspace_id :: uuid
  dto_item_type :: string
  dto_preset :: string
  dto_is_custom :: bool
  dto_is_customized :: bool
  dto_source_global_id :: "nat option"

definition get_transition :: "definition_dto \<Rightarrow> string \<Rightarrow> string \<Rightarrow> transition_dto option" where
  "get_transition d f t = find (\<lambda>x. from_state x = f \<and> to_state x = t) (dto_transitions d)"

definition initial_state :: "definition_dto \<Rightarrow> string" where
  "initial_state d = (case dto_states d of [] \<Rightarrow> ''draft'' | s # _ \<Rightarrow> s)"

text \<open>A transition dict with all five keys.\<close>

definition mk_transition :: "string \<Rightarrow> string \<Rightarrow> string list \<Rightarrow> bool \<Rightarrow> bool \<Rightarrow> raw_transition" where
  "mk_transition f t roles reason sig =
     \<lparr>rt_from = f, rt_to = t, rt_roles = Some roles, rt_reason = Some reason, rt_sig = Some sig\<rparr>"

text \<open>The two state names with an umlaut.\<close>

definition In_Pruefung :: string where
  "In_Pruefung = ''In Pr'' @ CHR 0xFC # ''fung''"

definition Abgeloest :: string where
  "Abgeloest = ''Abgel'' @ CHR 0xF6 # ''st''"

subsection \<open>Transition builders\<close>

definition minimal_transitions :: "raw_transition list" where
  "minimal_transitions =
     [mk_transition ''draft'' ''done'' [''editor'', ''admin''] False False]"

definition standard_transitions :: "raw_transition list" where
  "standard_transitions =
     [mk_transition ''draft'' ''approved'' [''approver'', ''admin''] False False,
      mk_transition ''approved'' ''deprecated'' [''approver'', ''admin''] False False,
      mk_transition ''draft'' ''deprecated'' [''admin''] False False]"

definition extended_transitions :: "raw_transition list" where
  "extended_transitions =
     [mk_transition ''draft'' ''in_review'' [''editor'', ''approver'', ''admin''] True False,
      mk_transition ''in_review'' ''approved'' [''approver'', ''admin''] True False,
      mk_transition ''approved'' ''deprecated'' [''approver'', ''admin''] True False,
      mk_transition ''in_review'' ''draft'' [''editor'', ''approver'', ''admin''] True False,
      mk_transition ''approved'' ''implemented'' [''editor'', ''admin''] True False,
      mk_transition ''implemented'' ''verified'' [''approver'', ''admin''] True False,
      mk_transition ''verified'' ''deprecated'' [''approver'', ''admin''] True False]"

definition need_transitions :: "raw_transition list" where
  "need_transitions =
     [mk_transition ''draft'' ''in_review'' [''editor'', ''approver'', ''admin''] False False,
      mk_transition ''in_review'' ''approved'' [''approver'', ''admin''] True False,
      mk_transition ''in_review'' ''draft'' [''editor'', ''approver'', ''admin''] True False,
      mk_transition ''approved'' ''deprecated'' [''approver'', ''admin''] False False]"

definition architecture_transitions :: "raw_transition list" where
  "architecture_transitions =
     [mk_transition ''draft'' ''in_review'' [''editor'', ''approver'', ''admin''] False False,
      mk_transition ''in_review'' ''approved'' [''approver'', ''admin''] True False,
      mk_transition ''in_review'' ''draft'' [''editor'', ''approver'', ''admin''] True False,
      mk_transition ''approved'' ''deprecated'' [''approver'', ''admin''] False False]"

definition design_lifecycle_transitions :: "raw_transition list" where
  "design_lifecycle_transitions =
     [mk_transition ''draft'' ''in_review'' [''editor'', ''approver'', ''admin''] False False,
      mk_transition ''in_review'' ''approved'' [''approver'', ''admin''] True False,
      mk_transition ''in_review'' ''draft'' [''editor'', ''approver'', ''admin''] True False,
      mk_transition ''approved'' ''deprecated'' [''approver'', ''admin''] False False]"

definition adr_transitions :: "raw_transition list" where
  "adr_transitions =
     [mk_transition ''Draft'' ''In Review'' [''editor'', ''approver'', ''admin''] False False,
      mk_transition ''In Review'' ''Approved'' [''approver'', ''admin''] True False,
      mk_transition ''In Review'' ''Rejected'' [''approver'', ''admin''] True False,
      mk_transition ''In Review'' ''Draft'' [''editor'', ''approver'', ''admin''] False False,
      mk_transition ''Approved'' ''Superseded'' [''approver'', ''admin''] True False]"

definition goal_transitions :: "raw_transition list" where
  "goal_transitions =
     [mk_transition ''Entwurf'' ''Freigegeben'' [''approver'', ''admin''] True False,
      mk_transition ''Freigegeben'' ''Archiviert'' [''approver'', ''admin''] False False,
      mk_transition ''Entwurf'' ''Archiviert'' [''approver'', ''admin''] False False,
      mk_transition ''Freigegeben'' ''Entwurf'' [''editor'', ''approver'', ''admin''] False False,
      mk_transition ''Archiviert'' ''Entwurf'' [''approver'', ''admin''] True False]"

definition document_transitions :: "raw_transition list" where
  "document_transitions =
     [mk_transition ''Entwurf'' In_Pruefung [''editor'', ''approver'', ''admin''] False False,
      mk_transition In_Pruefung ''Freigegeben'' [''approver'', ''admin''] True False,
      mk_transition In_Pruefung ''Entwurf'' [''editor'', ''approver'', ''admin''] False False,
      mk_transition ''Freigegeben'' In_Pruefung [''editor'', ''approver'', ''admin''] True False,
      mk_transition ''Freigegeben'' Abgeloest [''approver'', ''admin''] True False,
      mk_transition ''Freigegeben'' ''Archiviert'' [''approver'', ''admin''] False False,
      mk_transition Abgeloest ''Archiviert'' [''approver'', ''admin''] False False]"

definition work_item_minimal_transitions :: "raw_transition list" where
  "work_item_minimal_transitions =
     [mk_transition ''todo'' ''in_progress'' [''editor'', ''admin''] False False,
      mk_transition ''in_progress'' ''done'' [''editor'', ''admin''] False False,
      mk_transition ''todo'' ''dropped'' [''editor'', ''admin''] False False,
      mk_transition ''in_progress'' ''dropped'' [''editor'', ''admin''] False False]"

definition work_item_standard_transitions :: "raw_transition list" where
  "work_item_standard_transitions =
     work_item_minimal_transitions @
     [mk_transition ''in_progress'' ''blocked'' [''editor'', ''admin''] False False,
      mk_transition ''blocked'' ''in_progress'' [''editor'', ''admin''] False False,
      mk_transition ''blocked'' ''dropped'' [''editor'', ''admin''] False False]"

definition work_item_extended_transitions :: "raw_transition list" where
  "work_item_extended_transitions =
     filter (\<lambda>t. (rt_from t, rt_to t) \<noteq> (''in_progress'', ''done'')) work_item_standard_transitions @
     [mk_transition ''in_progress'' ''in_review'' [''editor'', ''approver'', ''admin''] False False,
      mk_transition ''in_review'' ''in_progress'' [''editor'', ''admin''] False False,
      mk_transition ''in_review'' ''done'' [''approver'', ''admin''] False False,
      mk_transition ''in_review'' ''dropped'' [''editor'', ''admin''] False False]"

definition risk_transitions :: "raw_transition list" where
  "risk_transitions =
     [mk_transition ''Identified'' ''Monitored'' [''editor'', ''admin''] False False,
      mk_transition ''Identified'' ''Accepted'' [''approver'', ''admin''] True False,
      mk_transition ''Monitored'' ''Mitigated'' [''editor'', ''admin''] False False,
      mk_transition ''Monitored'' ''Accepted'' [''approver'', ''admin''] True False,
      mk_transition ''Mitigated'' ''Closed'' [''approver'', ''admin''] False False,
      mk_transition ''Accepted'' ''Closed'' [''approver'', ''admin''] False False]"

definition issue_transitions :: "raw_transition list" where
  "issue_transitions =
     [mk_transition ''Open'' ''In Progress'' [''editor'', ''admin''] False False,
      mk_transition ''In Progress'' ''Resolved'' [''editor'', ''admin''] False False,
      mk_transition ''In Progress'' ''Wontfix'' [''approver'', ''admin''] True False,
      mk_transition ''Resolved'' ''Closed'' [''approver'', ''admin''] False False,
      mk_transition ''Resolved'' ''In Progress'' [''editor'', ''admin''] False False,
      mk_transition ''Open'' ''Wontfix'' [''approver'', ''admin''] True False]"

definition interview_transitions :: "raw_transition list" where
  "interview_transitions =
     [mk_transition ''in_progress'' ''completed'' [''editor'', ''admin''] False False,
      mk_transition ''in_progress'' ''abandoned'' [''editor'', ''admin''] False False]"

definition testcase_transitions :: "raw_transition list" where
  "testcase_transitions =
     [mk_transition ''draft'' ''ready'' [''editor'', ''admin''] False False,
      mk_transition ''ready'' ''approved'' [''approver'', ''admin''] True False,
      mk_transition ''ready'' ''draft'' [''editor'', ''admin''] False False,
      mk_transition ''approved'' ''deprecated'' [''approver'', ''admin''] False False]"


subsection \<open>The proposal state\<close>

definition PROPOSED_STATE :: string where
  "PROPOSED_STATE = ''proposed''"

definition PROPOSED_ROLES :: "string list" where
  "PROPOSED_ROLES = [''editor'', ''approver'', ''admin'']"

definition SCHEMAS_WITHOUT_PROPOSED :: "string list" where
  "SCHEMAS_WITHOUT_PROPOSED =
     [''minimal'', ''interview_default'', ''work_item_minimal'', ''work_item_standard'', ''work_item_extended'']"

definition PROPOSED_REJECT_STATE :: "(string \<times> string) list" where
  "PROPOSED_REJECT_STATE =
     [(''adr_default'', ''Rejected''), (''ccb_approval'', ''rejected''), (''goal_default'', ''Archiviert''),
      (''main_goal_default'', ''Archiviert''), (''document_default'', ''Archiviert'')]"

definition DEFAULT_REJECT_STATE :: string where
  "DEFAULT_REJECT_STATE = ''rejected''"

text \<open>One pass of the loop over the two outgoing transitions: \<open>existing\<close> is computed once, before it.\<close>

definition add_proposal_exit ::
  "raw_transition list \<Rightarrow> string \<times> bool \<Rightarrow> raw_transition list \<Rightarrow> raw_transition list" where
  "add_proposal_exit existing e ts =
     (if (PROPOSED_STATE, fst e) \<in> (\<lambda>t. (rt_from t, rt_to t)) ` set existing then ts
      else ts @ [mk_transition PROPOSED_STATE (fst e) PROPOSED_ROLES (snd e) False])"

definition inject_proposed_state :: "workflow_json \<Rightarrow> string \<Rightarrow> workflow_json" where
  "inject_proposed_state schema reject_state =
     (case wf_states schema of
        [] \<Rightarrow> schema
      | initial # rest \<Rightarrow>
          (let states1 = (if PROPOSED_STATE \<notin> set (initial # rest) then initial # PROPOSED_STATE # rest
                          else initial # rest);
               states2 = (if reject_state \<notin> set states1 then states1 @ [reject_state] else states1);
               meta = (if reject_state \<notin> set states1
                       then (wf_state_meta schema)(reject_state \<mapsto>
                              (case wf_state_meta schema reject_state of Some m \<Rightarrow> m | None \<Rightarrow> Map.empty)
                                (''is_outdated_equivalent'' \<mapsto> True))
                       else wf_state_meta schema);
               ts = wf_transitions schema
           in \<lparr>wf_states = states2,
               wf_transitions =
                 add_proposal_exit ts (reject_state, True) (add_proposal_exit ts (initial, False) ts),
               wf_state_meta = meta\<rparr>))"

subsection \<open>The preset schemas\<close>

definition schema_minimal :: workflow_json where
  "schema_minimal =
     \<lparr>wf_states = [''draft'', ''done''],
      wf_transitions =
        minimal_transitions,
      wf_state_meta = Map.empty\<rparr>"

definition schema_standard :: workflow_json where
  "schema_standard =
     \<lparr>wf_states = [''draft'', ''approved'', ''deprecated''],
      wf_transitions =
        standard_transitions,
      wf_state_meta = [''deprecated'' \<mapsto> [''is_outdated_equivalent'' \<mapsto> True]]\<rparr>"

definition schema_extended :: workflow_json where
  "schema_extended =
     \<lparr>wf_states = [''draft'', ''in_review'', ''approved'', ''implemented'', ''verified'', ''deprecated''],
      wf_transitions =
        extended_transitions,
      wf_state_meta = [''deprecated'' \<mapsto> [''is_outdated_equivalent'' \<mapsto> True]]\<rparr>"

definition schema_ccb_approval :: workflow_json where
  "schema_ccb_approval =
     \<lparr>wf_states = [''draft'', ''submitted'', ''under_review'', ''approved'', ''rejected'', ''implemented''],
      wf_transitions =
        [mk_transition ''draft'' ''submitted'' [''editor'', ''admin''] True False,
         mk_transition ''submitted'' ''under_review'' [''approver'', ''admin''] False False,
         mk_transition ''under_review'' ''approved'' [''approver'', ''admin''] True False,
         mk_transition ''under_review'' ''rejected'' [''approver'', ''admin''] True False,
         mk_transition ''approved'' ''implemented'' [''editor'', ''admin''] False False,
         mk_transition ''rejected'' ''draft'' [''editor'', ''admin''] False False],
      wf_state_meta = [''rejected'' \<mapsto> [''is_outdated_equivalent'' \<mapsto> True]]\<rparr>"

definition schema_need_default :: workflow_json where
  "schema_need_default =
     \<lparr>wf_states = [''draft'', ''in_review'', ''approved'', ''deprecated''],
      wf_transitions =
        need_transitions,
      wf_state_meta = [''deprecated'' \<mapsto> [''is_outdated_equivalent'' \<mapsto> True]]\<rparr>"

definition schema_adr_default :: workflow_json where
  "schema_adr_default =
     \<lparr>wf_states = [''Draft'', ''In Review'', ''Approved'', ''Rejected'', ''Superseded''],
      wf_transitions =
        adr_transitions,
      wf_state_meta = [''Approved'' \<mapsto> [''auto_approve_target'' \<mapsto> True], ''Rejected'' \<mapsto> [''is_outdated_equivalent'' \<mapsto> True], ''Superseded'' \<mapsto> [''is_outdated_equivalent'' \<mapsto> True]]\<rparr>"

definition schema_risk_default :: workflow_json where
  "schema_risk_default =
     \<lparr>wf_states = [''Identified'', ''Monitored'', ''Mitigated'', ''Accepted'', ''Closed''],
      wf_transitions =
        risk_transitions,
      wf_state_meta = [''Mitigated'' \<mapsto> [''auto_approve_target'' \<mapsto> True], ''Closed'' \<mapsto> [''is_outdated_equivalent'' \<mapsto> True]]\<rparr>"

definition schema_issue_default :: workflow_json where
  "schema_issue_default =
     \<lparr>wf_states = [''Open'', ''In Progress'', ''Resolved'', ''Closed'', ''Wontfix''],
      wf_transitions =
        issue_transitions,
      wf_state_meta = [''Wontfix'' \<mapsto> [''is_outdated_equivalent'' \<mapsto> True], ''Resolved'' \<mapsto> [''auto_approve_target'' \<mapsto> True]]\<rparr>"

definition schema_interview_default :: workflow_json where
  "schema_interview_default =
     \<lparr>wf_states = [''in_progress'', ''completed'', ''abandoned''],
      wf_transitions =
        interview_transitions,
      wf_state_meta = [''abandoned'' \<mapsto> [''is_outdated_equivalent'' \<mapsto> True]]\<rparr>"

definition schema_testcase_default :: workflow_json where
  "schema_testcase_default =
     \<lparr>wf_states = [''draft'', ''ready'', ''approved'', ''deprecated''],
      wf_transitions =
        testcase_transitions,
      wf_state_meta = [''deprecated'' \<mapsto> [''is_outdated_equivalent'' \<mapsto> True]]\<rparr>"

definition schema_architecture_default :: workflow_json where
  "schema_architecture_default =
     \<lparr>wf_states = [''draft'', ''in_review'', ''approved'', ''deprecated''],
      wf_transitions =
        architecture_transitions,
      wf_state_meta = [''deprecated'' \<mapsto> [''is_outdated_equivalent'' \<mapsto> True]]\<rparr>"

definition schema_icd_default :: workflow_json where
  "schema_icd_default =
     \<lparr>wf_states = [''draft'', ''in_review'', ''approved'', ''deprecated''],
      wf_transitions =
        design_lifecycle_transitions,
      wf_state_meta = [''deprecated'' \<mapsto> [''is_outdated_equivalent'' \<mapsto> True]]\<rparr>"

definition schema_diagram_default :: workflow_json where
  "schema_diagram_default =
     \<lparr>wf_states = [''draft'', ''in_review'', ''approved'', ''deprecated''],
      wf_transitions =
        design_lifecycle_transitions,
      wf_state_meta = [''deprecated'' \<mapsto> [''is_outdated_equivalent'' \<mapsto> True]]\<rparr>"

definition schema_glossary_term_default :: workflow_json where
  "schema_glossary_term_default =
     \<lparr>wf_states = [''draft'', ''in_review'', ''approved'', ''deprecated''],
      wf_transitions =
        design_lifecycle_transitions,
      wf_state_meta = [''deprecated'' \<mapsto> [''is_outdated_equivalent'' \<mapsto> True]]\<rparr>"

definition schema_goal_default :: workflow_json where
  "schema_goal_default =
     \<lparr>wf_states = [''Entwurf'', ''Freigegeben'', ''Archiviert''],
      wf_transitions =
        goal_transitions,
      wf_state_meta = [''Archiviert'' \<mapsto> [''is_outdated_equivalent'' \<mapsto> True]]\<rparr>"

definition schema_main_goal_default :: workflow_json where
  "schema_main_goal_default =
     \<lparr>wf_states = [''Entwurf'', ''Freigegeben'', ''Archiviert''],
      wf_transitions =
        goal_transitions,
      wf_state_meta = [''Archiviert'' \<mapsto> [''is_outdated_equivalent'' \<mapsto> True]]\<rparr>"

definition schema_document_default :: workflow_json where
  "schema_document_default =
     \<lparr>wf_states = [''Entwurf'', In_Pruefung, ''Freigegeben'', Abgeloest, ''Archiviert''],
      wf_transitions =
        document_transitions,
      wf_state_meta = [''Freigegeben'' \<mapsto> [''freeze_on_enter'' \<mapsto> True], Abgeloest \<mapsto> [''is_outdated_equivalent'' \<mapsto> True], ''Archiviert'' \<mapsto> [''is_outdated_equivalent'' \<mapsto> True]]\<rparr>"

definition schema_work_item_minimal :: workflow_json where
  "schema_work_item_minimal =
     \<lparr>wf_states = [''todo'', ''in_progress'', ''done'', ''dropped''],
      wf_transitions =
        work_item_minimal_transitions,
      wf_state_meta = [''dropped'' \<mapsto> [''is_outdated_equivalent'' \<mapsto> True]]\<rparr>"

definition schema_work_item_standard :: workflow_json where
  "schema_work_item_standard =
     \<lparr>wf_states = [''todo'', ''in_progress'', ''blocked'', ''done'', ''dropped''],
      wf_transitions =
        work_item_standard_transitions,
      wf_state_meta = [''dropped'' \<mapsto> [''is_outdated_equivalent'' \<mapsto> True]]\<rparr>"

definition schema_work_item_extended :: workflow_json where
  "schema_work_item_extended =
     \<lparr>wf_states = [''todo'', ''in_progress'', ''blocked'', ''in_review'', ''done'', ''dropped''],
      wf_transitions =
        work_item_extended_transitions,
      wf_state_meta = [''done'' \<mapsto> [''requires_approval'' \<mapsto> True], ''dropped'' \<mapsto> [''is_outdated_equivalent'' \<mapsto> True]]\<rparr>"

definition BASE_SCHEMAS :: "(string \<times> workflow_json) list" where
  "BASE_SCHEMAS =
     [(''minimal'', schema_minimal),
      (''standard'', schema_standard),
      (''extended'', schema_extended),
      (''ccb_approval'', schema_ccb_approval),
      (''need_default'', schema_need_default),
      (''adr_default'', schema_adr_default),
      (''risk_default'', schema_risk_default),
      (''issue_default'', schema_issue_default),
      (''interview_default'', schema_interview_default),
      (''testcase_default'', schema_testcase_default),
      (''architecture_default'', schema_architecture_default),
      (''icd_default'', schema_icd_default),
      (''diagram_default'', schema_diagram_default),
      (''glossary_term_default'', schema_glossary_term_default),
      (''goal_default'', schema_goal_default),
      (''main_goal_default'', schema_main_goal_default),
      (''document_default'', schema_document_default),
      (''work_item_minimal'', schema_work_item_minimal),
      (''work_item_standard'', schema_work_item_standard),
      (''work_item_extended'', schema_work_item_extended)]"


definition PRESET_SCHEMAS :: "(string \<times> workflow_json) list" where
  "PRESET_SCHEMAS =
     map (\<lambda>(key, schema).
       (key, if key \<in> set SCHEMAS_WITHOUT_PROPOSED then schema
             else inject_proposed_state schema
                    (case map_of PROPOSED_REJECT_STATE key of
                       Some r \<Rightarrow> r | None \<Rightarrow> DEFAULT_REJECT_STATE)))
       BASE_SCHEMAS"

text \<open>\<open>{"is_outdated_equivalent": False, "auto_approve_target": False, **entry}\<close>.\<close>

definition get_state_meta :: "workflow_json \<Rightarrow> string \<Rightarrow> string \<Rightarrow> bool option" where
  "get_state_meta wj state_name =
     [''is_outdated_equivalent'' \<mapsto> False, ''auto_approve_target'' \<mapsto> False] ++
     (case wf_state_meta wj state_name of Some entry \<Rightarrow> entry | None \<Rightarrow> Map.empty)"

text \<open>\<open>get_state_meta(...).get(flag)\<close> as a truth value.\<close>

definition state_flag :: "workflow_json \<Rightarrow> string \<Rightarrow> string \<Rightarrow> bool" where
  "state_flag wj state_name flag = (get_state_meta wj state_name flag = Some True)"

subsection \<open>Item types\<close>

definition WORKFLOW_ITEM_TYPES :: "(string \<times> string) list" where
  "WORKFLOW_ITEM_TYPES =
     [(''StakeholderNeed'', ''need_default''), (''Adr'', ''adr_default''), (''Risk'', ''risk_default''),
      (''Issue'', ''issue_default''), (''TestCase'', ''testcase_default''), (''ChangeRequest'', ''ccb_approval''),
      (''ArchitectureElement'', ''architecture_default''), (''Icd'', ''icd_default''),
      (''Diagram'', ''diagram_default''), (''GlossaryTerm'', ''glossary_term_default''),
      (''Goal'', ''goal_default''), (''MainGoal'', ''main_goal_default''), (''Interview'', ''interview_default''),
      (''Document'', ''document_default'')]"

definition TIER_DRIVEN_ITEM_TYPES :: "string list" where
  "TIER_DRIVEN_ITEM_TYPES = [''Requirement'', ''WorkItem'']"

definition work_item_preset_key :: "string \<Rightarrow> string" where
  "work_item_preset_key tier = ''work_item_'' @ tier"

definition KNOWN_WORKFLOW_ITEM_TYPES :: "string list" where
  "KNOWN_WORKFLOW_ITEM_TYPES = TIER_DRIVEN_ITEM_TYPES @ map fst WORKFLOW_ITEM_TYPES"

subsection \<open>Well-formed schemas\<close>

definition RBAC_ROLES :: "string list" where
  "RBAC_ROLES = [''admin'', ''editor'', ''viewer'', ''approver'']"

text \<open>
  A schema is well-formed when it has states without duplicates, at most one transition per pair of states,
  every transition joins two different states of the schema and names at least one role, only known ones.
\<close>

definition edge :: "raw_transition \<Rightarrow> string \<times> string" where
  "edge t = (rt_from t, rt_to t)"

definition schema_ok :: "workflow_json \<Rightarrow> bool" where
  "schema_ok w \<longleftrightarrow> wf_states w \<noteq> [] \<and> distinct (wf_states w) \<and> distinct (map edge (wf_transitions w)) \<and>
     list_all (\<lambda>t. rt_from t \<in> set (wf_states w) \<and> rt_to t \<in> set (wf_states w) \<and> rt_from t \<noteq> rt_to t \<and>
       (case rt_roles t of Some rs \<Rightarrow> rs \<noteq> [] \<and> list_all (\<lambda>r. r \<in> set RBAC_ROLES) rs | None \<Rightarrow> False))
       (wf_transitions w)"

text \<open>States reached from a set of states in at most \<open>n\<close> rounds of following transitions.\<close>

primrec reach_rounds :: "raw_transition list \<Rightarrow> nat \<Rightarrow> string list \<Rightarrow> string list" where
  "reach_rounds ts 0 xs = xs"
| "reach_rounds ts (Suc n) xs =
     reach_rounds ts n (xs @ remdups (filter (\<lambda>s. s \<notin> set xs)
       (map rt_to (filter (\<lambda>t. rt_from t \<in> set xs) ts))))"

lemma base_schemas_ok: "list_all (\<lambda>(k, w). schema_ok w) BASE_SCHEMAS"
  by code_simp

subsection \<open>Injection in general\<close>

lemma add_proposal_exit_edges:
  "edge ` set (add_proposal_exit ex e ts) =
     edge ` set ts \<union> (if (PROPOSED_STATE, fst e) \<in> edge ` set ex then {} else {(PROPOSED_STATE, fst e)})"
  by (auto simp: add_proposal_exit_def edge_def mk_transition_def)

lemma add_proposal_exit_done:
  "(PROPOSED_STATE, fst e) \<in> edge ` set ex \<Longrightarrow> add_proposal_exit ex e ts = ts"
  by (auto simp: add_proposal_exit_def edge_def)

lemma inject_states:
  assumes "wf_states w = i # rest"
  shows "wf_states (inject_proposed_state w r) =
           (let ss = (if PROPOSED_STATE \<in> set (i # rest) then i # rest else i # PROPOSED_STATE # rest)
            in if r \<in> set ss then ss else ss @ [r])"
  using assms by (simp add: inject_proposed_state_def Let_def)

lemma inject_transitions:
  assumes "wf_states w = i # rest"
  shows "wf_transitions (inject_proposed_state w r) =
           add_proposal_exit (wf_transitions w) (r, True)
             (add_proposal_exit (wf_transitions w) (i, False) (wf_transitions w))"
  using assms by (simp add: inject_proposed_state_def Let_def)

lemma inject_idem_step:
  assumes "wf_states w = i # rest" "PROPOSED_STATE \<in> set (wf_states w)" "r \<in> set (wf_states w)"
    and "(PROPOSED_STATE, i) \<in> edge ` set (wf_transitions w)" "(PROPOSED_STATE, r) \<in> edge ` set (wf_transitions w)"
  shows "inject_proposed_state w r = w"
  using assms by (cases w) (auto simp: inject_proposed_state_def Let_def add_proposal_exit_done)

lemma inject_idempotent:
  "inject_proposed_state (inject_proposed_state w r) r = inject_proposed_state w r"
proof (cases "wf_states w")
  case Nil
  then show ?thesis by (simp add: inject_proposed_state_def)
next
  case (Cons i rest)
  let ?w = "inject_proposed_state w r"
  obtain rest' where st: "wf_states ?w = i # rest'"
    using inject_states [OF Cons, of r] by (auto simp: Let_def split: if_splits)
  have mem: "PROPOSED_STATE \<in> set (wf_states ?w)" "r \<in> set (wf_states ?w)"
    using inject_states [OF Cons, of r] by (auto simp: Let_def)
  have "(PROPOSED_STATE, i) \<in> edge ` set (wf_transitions ?w)" "(PROPOSED_STATE, r) \<in> edge ` set (wf_transitions ?w)"
    unfolding inject_transitions [OF Cons] by (simp_all add: add_proposal_exit_edges)
  then show ?thesis using inject_idem_step [OF st mem] by simp
qed

lemma inject_schema_ok:
  assumes "schema_ok w" "wf_states w = i # rest" "PROPOSED_STATE \<notin> set (wf_states w)"
    and "r \<noteq> i" "r \<noteq> PROPOSED_STATE"
  shows "schema_ok (inject_proposed_state w r) \<and>
         wf_transitions (inject_proposed_state w r) = wf_transitions w @
           [mk_transition PROPOSED_STATE i PROPOSED_ROLES False False,
            mk_transition PROPOSED_STATE r PROPOSED_ROLES True False]"
proof -
  have fresh: "(PROPOSED_STATE, x) \<notin> (\<lambda>t. (rt_from t, rt_to t)) ` set (wf_transitions w)" for x
    using assms(1,3) by (auto simp: schema_ok_def list_all_iff)
  then have ts: "wf_transitions (inject_proposed_state w r) = wf_transitions w @
           [mk_transition PROPOSED_STATE i PROPOSED_ROLES False False,
            mk_transition PROPOSED_STATE r PROPOSED_ROLES True False]"
    using inject_transitions [OF assms(2)] by (simp add: add_proposal_exit_def)
  have set: "set (wf_states (inject_proposed_state w r)) = set (wf_states w) \<union> {PROPOSED_STATE, r}"
    using assms(2,3) by (auto simp: inject_states [OF assms(2)] Let_def)
  have "distinct (wf_states (inject_proposed_state w r))" "wf_states (inject_proposed_state w r) \<noteq> []"
    using assms by (auto simp: inject_states [OF assms(2)] schema_ok_def Let_def)
  moreover have "distinct (map edge (wf_transitions (inject_proposed_state w r)))"
    using assms(1,4) fresh by (auto simp: ts schema_ok_def edge_def mk_transition_def)
  moreover have "list_all (\<lambda>x. x \<in> set RBAC_ROLES) PROPOSED_ROLES" "PROPOSED_ROLES \<noteq> []"
    by (simp_all add: RBAC_ROLES_def PROPOSED_ROLES_def)
  ultimately show ?thesis
    using assms unfolding ts schema_ok_def set
    by (auto simp: list_all_iff mk_transition_def split: option.splits)
qed

subsection \<open>Properties\<close>

text \<open>
  Every shipped workflow graph is usable. Each preset schema is well-formed (distinct states, at most
  one transition per pair, endpoints declared, known roles), every state can be reached from the initial state
  or from the proposal state, and no transition leads into the proposal state, so an item is only ever put
  there when it is created.
\<close>

theorem preset_schemas_usable:
  "list_all (\<lambda>(k, w). schema_ok w \<and>
      set (wf_states w) \<subseteq> set (reach_rounds (wf_transitions w) 6
        (hd (wf_states w) # (if k \<in> set SCHEMAS_WITHOUT_PROPOSED then [] else [PROPOSED_STATE]))) \<and>
      PROPOSED_STATE \<notin> set (map rt_to (wf_transitions w))) PRESET_SCHEMAS"
  by code_simp

text \<open>
  Injecting the proposal state. On any well-formed schema without it, the injection keeps the initial
  state and every existing transition, adds exactly the confirm edge to the initial state and the discard edge
  (which requires a reason), keeps the schema well-formed, and doing it again changes nothing.
\<close>

theorem inject_proposed_state_correct:
  assumes "schema_ok w" "PROPOSED_STATE \<notin> set (wf_states w)"
    and "r \<noteq> hd (wf_states w)" "r \<noteq> PROPOSED_STATE"
  shows "schema_ok (inject_proposed_state w r) \<and>
         hd (wf_states (inject_proposed_state w r)) = hd (wf_states w) \<and>
         wf_transitions (inject_proposed_state w r) = wf_transitions w @
           [mk_transition PROPOSED_STATE (hd (wf_states w)) PROPOSED_ROLES False False,
            mk_transition PROPOSED_STATE r PROPOSED_ROLES True False] \<and>
         inject_proposed_state (inject_proposed_state w r) r = inject_proposed_state w r"
proof -
  obtain i rest where st: "wf_states w = i # rest"
    using assms(1) by (cases "wf_states w") (auto simp: schema_ok_def)
  with inject_schema_ok [OF assms(1) st assms(2)] assms(3,4) show ?thesis
    by (auto simp: inject_idempotent inject_states [OF st] Let_def)
qed

theorem inject_proposed_state_correct_witness:
  "schema_ok (inject_proposed_state schema_extended ''rejected'')"
proof -
  have "schema_ok schema_extended" by code_simp
  then show ?thesis
    by (rule inject_proposed_state_correct [THEN conjunct1])
      (simp_all add: schema_extended_def PROPOSED_STATE_def)
qed

end
