(* ===== verification/Workflow_Store.thy ===== *)
theory Workflow_Store
  imports Workflow_Schemas Presets
begin

text \<open>
  The workflow tables (\<^verbatim>\<open>workflow/models.py\<close>) and the definition store
  (\<^verbatim>\<open>workflow/definition_store.py\<close>, classes \<open>_PresetDefaultFactory\<close> and \<open>WorkflowDefinitionStore\<close>).

  The state is the rows the tenant-scoped managers of the active tenant see, and the definition cache of the
  process (\<open>db_cache\<close>, oldest entry first); primary keys are drawn from a counter. An operation is a computation of type \<open>sem\<close> over the tables. The preset gate is consulted
  through \<open>conf\<close>, the result of \<open>get_workflow_configurability\<close>. Where the source iterates over a Python
  set, whose order is unspecified, the model uses the order of the state list.
\<close>

subsection \<open>Tables and errors\<close>

record def_row =
  d_id :: nat
  d_ws :: uuid
  d_type :: string
  d_preset :: string
  d_json :: workflow_json
  d_is_custom :: bool
  d_is_customized :: bool
  d_source_global :: "nat option"

record global_row =
  g_id :: nat
  g_type :: string
  g_preset :: string
  g_json :: workflow_json

record item_row =
  i_id :: nat
  i_item :: uuid
  i_type :: string
  i_ws :: uuid
  i_def :: nat
  i_state :: string
  i_version :: int

record history_row =
  h_id :: nat
  h_item_state :: nat
  h_from :: string
  h_to :: string
  h_by :: string
  h_at :: instant
  h_reason :: string
  h_seal :: string
  h_ws :: uuid

record wf_db =
  db_defs :: "def_row list"
  db_globals :: "global_row list"
  db_items :: "item_row list"
  db_history :: "history_row list"
  db_next :: nat
  db_cache :: "((uuid \<times> string) \<times> definition_dto) list"

datatype def_error =
    WorkflowDefinitionError string
  | OrphanedStateError string nat "uuid list"
  | PresetDowngradeBlockedError "string list" nat
  | NoGlobalSourceError string
  | StateReferencedError string "string list"
  | PresetFailure preset_error

subsection \<open>Reading definitions\<close>

definition dto_from_orm :: "def_row \<Rightarrow> definition_dto" where
  "dto_from_orm r =
     \<lparr>dto_states = wf_states (d_json r),
      dto_transitions =
        map (\<lambda>t. \<lparr>from_state = rt_from t, to_state = rt_to t,
                 allowed_roles = (case rt_roles t of Some rs \<Rightarrow> rs | None \<Rightarrow> []),
                 requires_change_reason = (rt_reason t = Some True),
                 signature_gate = (rt_sig t = Some True)\<rparr>) (wf_transitions (d_json r)),
      dto_workspace_id = d_ws r, dto_item_type = d_type r, dto_preset = d_preset r,
      dto_is_custom = d_is_custom r, dto_is_customized = d_is_customized r,
      dto_source_global_id = d_source_global r\<rparr>"

definition find_def :: "uuid \<Rightarrow> string \<Rightarrow> wf_db \<Rightarrow> def_row option" where
  "find_def ws ty db = find (\<lambda>r. d_ws r = ws \<and> d_type r = ty) (db_defs db)"

definition no_definition :: "uuid \<Rightarrow> string \<Rightarrow> def_error" where
  "no_definition ws ty =
     WorkflowDefinitionError (''No WorkflowDefinition found for workspace='' @ ws @ '', item_type='' @ ty)"

text \<open>\<open>None\<close> is the empty dict of a missing definition.\<close>

definition get_workflow_json :: "uuid \<Rightarrow> string \<Rightarrow> wf_db \<Rightarrow> workflow_json option" where
  "get_workflow_json ws ty db = map_option d_json (find_def ws ty db)"

definition get_definition :: "uuid \<Rightarrow> string \<Rightarrow> wf_db \<Rightarrow> def_error + definition_dto" where
  "get_definition ws ty db =
     (case find_def ws ty db of
        None \<Rightarrow> Inl (no_definition ws ty)
      | Some r \<Rightarrow> Inr (dto_from_orm r))"

text \<open>\<open>casefold\<close> is Python's \<open>str.casefold\<close>; \<open>None\<close> is a caller that passes no type.\<close>

definition resolve_item_type :: "(string \<Rightarrow> string) \<Rightarrow> uuid \<Rightarrow> string option \<Rightarrow> wf_db \<Rightarrow> string option" where
  "resolve_item_type casefold ws ty db =
     (let wanted = (case ty of Some t \<Rightarrow> py_strip t | None \<Rightarrow> [])
      in if wanted = [] then None
         else let rows = filter (\<lambda>r. d_ws r = ws) (db_defs db)
              in case find (\<lambda>r. d_type r = wanted) rows of
                   Some r \<Rightarrow> Some (d_type r)
                 | None \<Rightarrow> map_option d_type (find (\<lambda>r. casefold (d_type r) = casefold wanted) rows))"

subsection \<open>Provisioning and reset\<close>

text \<open>\<open>has_tenant\<close>: an explicit tenant or an active tenant context is available.\<close>

definition create_default :: "bool \<Rightarrow> uuid \<Rightarrow> string \<Rightarrow> string \<Rightarrow> (wf_db, def_error, definition_dto) sem" where
  "create_default has_tenant ws preset ty db =
     (case map_of PRESET_SCHEMAS preset of
        None \<Rightarrow> (Inl (WorkflowDefinitionError (''Unknown preset: '' @ sq preset)), db)
      | Some schema \<Rightarrow>
          (let (gid, json, db1) =
             (if \<not> has_tenant then (None, schema, db)
              else case find (\<lambda>g. g_type g = ty \<and> g_preset g = preset) (db_globals db) of
                     Some g \<Rightarrow> (Some (g_id g), g_json g, db)
                   | None \<Rightarrow>
                       (Some (db_next db), schema,
                        db\<lparr>db_globals := db_globals db @
                             [\<lparr>g_id = db_next db, g_type = ty, g_preset = preset, g_json = schema\<rparr>],
                           db_next := Suc (db_next db)\<rparr>))
           in case find_def ws ty db1 of
                Some r \<Rightarrow> (Inr (dto_from_orm r), db1)
              | None \<Rightarrow>
                  let r = \<lparr>d_id = db_next db1, d_ws = ws, d_type = ty, d_preset = preset, d_json = json,
                           d_is_custom = False, d_is_customized = False, d_source_global = gid\<rparr>
                  in (Inr (dto_from_orm r),
                      db1\<lparr>db_defs := db_defs db1 @ [r], db_next := Suc (db_next db1)\<rparr>)))"

text \<open>\<open>record.save(...)\<close>: replace the row with the same primary key.\<close>

definition save_def :: "def_row \<Rightarrow> wf_db \<Rightarrow> wf_db" where
  "save_def r db = db\<lparr>db_defs := map (\<lambda>x. if d_id x = d_id r then r else x) (db_defs db)\<rparr>"

definition reset_to_global :: "uuid \<Rightarrow> string \<Rightarrow> (wf_db, def_error, definition_dto) sem" where
  "reset_to_global ws ty db =
     (let no_source = NoGlobalSourceError
            ''Workspace workflow definition has no linked global default to reset to.''
      in case find_def ws ty db of
           None \<Rightarrow> (Inl (no_definition ws ty), db)
         | Some r \<Rightarrow>
             (case d_source_global r of
                None \<Rightarrow> (Inl no_source, db)
              | Some gid \<Rightarrow>
                  (case find (\<lambda>g. g_id g = gid) (db_globals db) of
                     None \<Rightarrow> (Inl no_source, db)
                   | Some g \<Rightarrow>
                       let r' = r\<lparr>d_json := g_json g, d_is_customized := False\<rparr>
                       in (Inr (dto_from_orm r'), save_def r' db))))"

subsection \<open>Custom definitions\<close>

text \<open>A transition dict as a caller supplies it: any key may be missing.\<close>

record input_transition =
  in_from :: "string option"
  in_to :: "string option"
  in_roles :: "string list option"
  in_reason :: "bool option"
  in_sig :: "bool option"

definition py_opt :: "string option \<Rightarrow> string" where
  "py_opt s = (case s of Some x \<Rightarrow> x | None \<Rightarrow> ''None'')"

definition stored_transition :: "input_transition \<Rightarrow> raw_transition" where
  "stored_transition t =
     \<lparr>rt_from = py_opt (in_from t), rt_to = py_opt (in_to t), rt_roles = in_roles t,
      rt_reason = in_reason t, rt_sig = in_sig t\<rparr>"

definition as_input :: "raw_transition \<Rightarrow> input_transition" where
  "as_input t =
     \<lparr>in_from = Some (rt_from t), in_to = Some (rt_to t), in_roles = rt_roles t, in_reason = rt_reason t,
      in_sig = rt_sig t\<rparr>"

type_synonym conf = "uuid \<Rightarrow> preset_error + string"

definition assert_workflow_configurable :: "conf \<Rightarrow> uuid \<Rightarrow> def_error + unit" where
  "assert_workflow_configurable conf ws =
     (case conf ws of
        Inl e \<Rightarrow> Inl (PresetFailure e)
      | Inr configurability \<Rightarrow>
          if configurability = ''fixed''
          then Inl (WorkflowDefinitionError ''Workflow not configurable in minimal preset'')
          else raise_if (configurability = ''partial'')
                 (WorkflowDefinitionError ''Custom workflows only allowed in extended preset''))"

definition validate_custom_schema :: "string list \<Rightarrow> input_transition list \<Rightarrow> def_error + unit" where
  "validate_custom_schema states transitions =
     (if length states < 2
      then Inl (WorkflowDefinitionError ''Custom workflow requires at least 2 states'')
      else raise_if (length transitions < 1)
             (WorkflowDefinitionError ''Custom workflow requires at least 1 transition''))"

definition unknown_state :: "string option \<Rightarrow> def_error" where
  "unknown_state s = WorkflowDefinitionError (''Invalid transition: unknown state '' @ sq (py_opt s))"

fun validate_transition_states :: "string list \<Rightarrow> input_transition list \<Rightarrow> def_error + unit" where
  "validate_transition_states states [] = Inr ()"
| "validate_transition_states states (t # ts) =
     (if in_from t \<notin> Some ` set states then Inl (unknown_state (in_from t))
      else if in_to t \<notin> Some ` set states then Inl (unknown_state (in_to t))
      else validate_transition_states states ts)"

definition items_in_state :: "uuid \<Rightarrow> string \<Rightarrow> string \<Rightarrow> wf_db \<Rightarrow> item_row list" where
  "items_in_state ws ty state db =
     filter (\<lambda>i. i_ws i = ws \<and> i_type i = ty \<and> i_state i = state) (db_items db)"

definition check_orphaned_state :: "uuid \<Rightarrow> string \<Rightarrow> string \<Rightarrow> wf_db \<Rightarrow> def_error + unit" where
  "check_orphaned_state ws ty state db =
     (let qs = items_in_state ws ty state db; n = length qs
      in raise_if (n \<noteq> 0) (OrphanedStateError state n (map i_item (take 100 qs))))"

fun reject_orphaned_states :: "uuid \<Rightarrow> string \<Rightarrow> string list \<Rightarrow> wf_db \<Rightarrow> def_error + unit" where
  "reject_orphaned_states ws ty [] db = Inr ()"
| "reject_orphaned_states ws ty (s # ss) db =
     res_bind (check_orphaned_state ws ty s db) (\<lambda>_. reject_orphaned_states ws ty ss db)"

definition validate_and_persist_custom ::
  "conf \<Rightarrow> uuid \<Rightarrow> string \<Rightarrow> string list \<Rightarrow> input_transition list \<Rightarrow> (wf_db, def_error, definition_dto) sem" where
  "validate_and_persist_custom conf ws ty states transitions =
     se_bind (se_lift (assert_workflow_configurable conf ws)) (\<lambda>_.
     se_bind (se_lift (validate_custom_schema states transitions)) (\<lambda>_.
     se_bind (se_lift (validate_transition_states states transitions)) (\<lambda>_.
     se_bind (se_gets (find_def ws ty)) (\<lambda>existing.
     se_bind (\<lambda>db. (case existing of
                      None \<Rightarrow> Inr ()
                    | Some r \<Rightarrow> reject_orphaned_states ws ty
                        (filter (\<lambda>s. s \<notin> set states) (wf_states (d_json r))) db, db)) (\<lambda>_.
     let json = \<lparr>wf_states = states, wf_transitions = map stored_transition transitions,
                 wf_state_meta = Map.empty\<rparr>
     in case existing of
          Some r \<Rightarrow>
            (let r' = r\<lparr>d_json := json, d_is_custom := True, d_is_customized := True\<rparr>
             in se_bind (se_modify (save_def r')) (\<lambda>_. se_return (dto_from_orm r')))
        | None \<Rightarrow>
            (\<lambda>db. let r = \<lparr>d_id = db_next db, d_ws = ws, d_type = ty, d_preset = ''extended'', d_json = json,
                          d_is_custom = True, d_is_customized = True, d_source_global = None\<rparr>
                  in (Inr (dto_from_orm r),
                      db\<lparr>db_defs := db_defs db @ [r], db_next := Suc (db_next db)\<rparr>)))))))"

subsection \<open>Downgrade check\<close>

definition incompatible_state_counts :: "uuid \<Rightarrow> string \<Rightarrow> string set \<Rightarrow> wf_db \<Rightarrow> (string \<times> nat) list" where
  "incompatible_state_counts ws ty target_states db =
     map (\<lambda>s. (s, length (items_in_state ws ty s db)))
       (filter (\<lambda>s. s \<notin> target_states)
          (remdups (map i_state (filter (\<lambda>i. i_ws i = ws \<and> i_type i = ty) (db_items db)))))"

definition check_downgrade_compatibility :: "uuid \<Rightarrow> string \<Rightarrow> string \<Rightarrow> wf_db \<Rightarrow> def_error + unit" where
  "check_downgrade_compatibility ws target_preset ty db =
     (case map_of PRESET_SCHEMAS target_preset of
        None \<Rightarrow> Inl (WorkflowDefinitionError (''Unknown target preset: '' @ sq target_preset))
      | Some schema \<Rightarrow>
          (let counts = incompatible_state_counts ws ty (set (wf_states schema)) db;
               incompatible = map fst (filter (\<lambda>c. snd c > 0) counts)
           in raise_if (incompatible \<noteq> [])
                (PresetDowngradeBlockedError incompatible
                   (sum_list (map snd (filter (\<lambda>c. snd c > 0) counts))))))"

subsection \<open>Edit mode\<close>

definition validate_state_name :: "string \<Rightarrow> def_error + string" where
  "validate_state_name name =
     (let clean = py_strip name
      in if clean = [] then Inl (WorkflowDefinitionError ''State name must not be empty'')
         else if py_in ''__'' clean
         then Inl (WorkflowDefinitionError
                (''State name must not contain '' @ sq ''__'' @ '' (reserved separator)''))
         else Inr clean)"

definition editable :: "uuid \<Rightarrow> string \<Rightarrow> wf_db \<Rightarrow> def_error + (string list \<times> raw_transition list)" where
  "editable ws ty db =
     res_bind (get_definition ws ty db) (\<lambda>dto.
       Inr (dto_states dto,
            map (\<lambda>t. mk_transition (from_state t) (to_state t) (allowed_roles t) (requires_change_reason t)
                      (signature_gate t)) (dto_transitions dto)))"

definition find_transition :: "raw_transition list \<Rightarrow> string \<Rightarrow> string \<Rightarrow> raw_transition option" where
  "find_transition ts f t = find (\<lambda>x. rt_from x = f \<and> rt_to x = t) ts"

definition rewire_transitions :: "raw_transition list \<Rightarrow> string \<Rightarrow> string \<Rightarrow> raw_transition list" where
  "rewire_transitions ts old_name new_name =
     map (\<lambda>t. t\<lparr>rt_from := (if rt_from t = old_name then new_name else rt_from t),
               rt_to := (if rt_to t = old_name then new_name else rt_to t)\<rparr>) ts"

definition normalized_roles :: "string list option \<Rightarrow> string list" where
  "normalized_roles roles =
     (let cleaned = filter (\<lambda>r. r \<noteq> [] \<and> \<not> py_blank r) (case roles of Some rs \<Rightarrow> rs | None \<Rightarrow> [])
      in if ''admin'' \<notin> set cleaned then cleaned @ [''admin''] else cleaned)"

definition arrow :: "string \<Rightarrow> string \<Rightarrow> string" where
  "arrow f t = f @ '' -> '' @ t"

definition persist_edit ::
  "conf \<Rightarrow> uuid \<Rightarrow> string \<Rightarrow> string list \<Rightarrow> raw_transition list \<Rightarrow> (wf_db, def_error, definition_dto) sem" where
  "persist_edit conf ws ty states ts = validate_and_persist_custom conf ws ty states (map as_input ts)"

definition add_state :: "conf \<Rightarrow> uuid \<Rightarrow> string \<Rightarrow> string \<Rightarrow> (wf_db, def_error, definition_dto) sem" where
  "add_state conf ws ty name =
     se_bind (se_lift (validate_state_name name)) (\<lambda>clean.
     se_bind (\<lambda>db. (editable ws ty db, db)) (\<lambda>(states, ts).
     se_bind (se_lift (raise_if (clean \<in> set states)
                (WorkflowDefinitionError (''State '' @ sq clean @ '' already exists'')))) (\<lambda>_.
     persist_edit conf ws ty (states @ [clean]) ts)))"

definition rename_state :: "conf \<Rightarrow> uuid \<Rightarrow> string \<Rightarrow> string \<Rightarrow> string \<Rightarrow> (wf_db, def_error, definition_dto) sem" where
  "rename_state conf ws ty old_name new_name =
     se_bind (se_lift (validate_state_name new_name)) (\<lambda>clean.
     se_bind (\<lambda>db. (editable ws ty db, db)) (\<lambda>(states, ts).
     se_bind (se_lift (raise_if (old_name \<notin> set states)
                (WorkflowDefinitionError (''Unknown state '' @ sq old_name)))) (\<lambda>_.
     if clean = old_name then (\<lambda>db. (get_definition ws ty db, db))
     else
       se_bind (se_lift (raise_if (clean \<in> set states)
                  (WorkflowDefinitionError (''State '' @ sq clean @ '' already exists'')))) (\<lambda>_.
       se_bind (\<lambda>db. (check_orphaned_state ws ty old_name db, db)) (\<lambda>_.
       persist_edit conf ws ty (map (\<lambda>s. if s = old_name then clean else s) states)
         (rewire_transitions ts old_name clean))))))"

definition delete_state :: "conf \<Rightarrow> uuid \<Rightarrow> string \<Rightarrow> string \<Rightarrow> (wf_db, def_error, definition_dto) sem" where
  "delete_state conf ws ty name =
     se_bind (\<lambda>db. (editable ws ty db, db)) (\<lambda>(states, ts).
     se_bind (se_lift (raise_if (name \<notin> set states)
                (WorkflowDefinitionError (''Unknown state '' @ sq name)))) (\<lambda>_.
     let referencing = map (\<lambda>t. arrow (rt_from t) (rt_to t)) (filter (\<lambda>t. rt_from t = name \<or> rt_to t = name) ts)
     in se_bind (se_lift (raise_if (referencing \<noteq> []) (StateReferencedError name referencing))) (\<lambda>_.
        se_bind (\<lambda>db. (check_orphaned_state ws ty name db, db)) (\<lambda>_.
        persist_edit conf ws ty (filter (\<lambda>s. s \<noteq> name) states) ts))))"

definition add_transition ::
  "conf \<Rightarrow> uuid \<Rightarrow> string \<Rightarrow> string \<Rightarrow> string \<Rightarrow> string list option \<Rightarrow> bool \<Rightarrow> bool
   \<Rightarrow> (wf_db, def_error, definition_dto) sem" where
  "add_transition conf ws ty f t roles reason sig =
     se_bind (\<lambda>db. (editable ws ty db, db)) (\<lambda>(states, ts).
     se_bind (se_lift (raise_if (f \<notin> set states)
                (WorkflowDefinitionError (''Unknown from_state '' @ sq f)))) (\<lambda>_.
     se_bind (se_lift (raise_if (t \<notin> set states)
                (WorkflowDefinitionError (''Unknown to_state '' @ sq t)))) (\<lambda>_.
     se_bind (se_lift (raise_if (find_transition ts f t \<noteq> None)
                (WorkflowDefinitionError (''Transition '' @ sq (arrow f t) @ '' already exists'')))) (\<lambda>_.
     persist_edit conf ws ty states (ts @ [mk_transition f t (normalized_roles roles) reason sig])))))"

text \<open>The first matching transition is the one edited in place.\<close>

fun update_first :: "('a \<Rightarrow> bool) \<Rightarrow> ('a \<Rightarrow> 'a) \<Rightarrow> 'a list \<Rightarrow> 'a list" where
  "update_first p f [] = []"
| "update_first p f (x # xs) = (if p x then f x # xs else x # update_first p f xs)"

definition update_transition ::
  "conf \<Rightarrow> uuid \<Rightarrow> string \<Rightarrow> string \<Rightarrow> string \<Rightarrow> string list option \<Rightarrow> bool option \<Rightarrow> bool option
   \<Rightarrow> (wf_db, def_error, definition_dto) sem" where
  "update_transition conf ws ty f t roles reason sig =
     se_bind (\<lambda>db. (editable ws ty db, db)) (\<lambda>(states, ts).
     se_bind (se_lift (raise_if (find_transition ts f t = None)
                (WorkflowDefinitionError (''Unknown transition '' @ sq (arrow f t))))) (\<lambda>_.
     persist_edit conf ws ty states
       (update_first (\<lambda>x. rt_from x = f \<and> rt_to x = t)
          (\<lambda>x. x\<lparr>rt_roles := (if roles \<noteq> None then Some (normalized_roles roles) else rt_roles x),
                 rt_reason := (case reason of Some b \<Rightarrow> Some b | None \<Rightarrow> rt_reason x),
                 rt_sig := (case sig of Some b \<Rightarrow> Some b | None \<Rightarrow> rt_sig x)\<rparr>) ts)))"

definition delete_transition ::
  "conf \<Rightarrow> uuid \<Rightarrow> string \<Rightarrow> string \<Rightarrow> string \<Rightarrow> (wf_db, def_error, definition_dto) sem" where
  "delete_transition conf ws ty f t =
     se_bind (\<lambda>db. (editable ws ty db, db)) (\<lambda>(states, ts).
     let remaining = filter (\<lambda>x. \<not> (rt_from x = f \<and> rt_to x = t)) ts
     in se_bind (se_lift (raise_if (length remaining = length ts)
                   (WorkflowDefinitionError (''Unknown transition '' @ sq (arrow f t))))) (\<lambda>_.
        persist_edit conf ws ty states remaining))"

subsection \<open>Table lemmas\<close>

definition defs_ok :: "wf_db \<Rightarrow> bool" where
  "defs_ok db \<longleftrightarrow> distinct (map d_id (db_defs db)) \<and> (\<forall>r\<in>set (db_defs db). d_id r < db_next db) \<and>
     distinct (map (\<lambda>r. (d_ws r, d_type r)) (db_defs db))"

lemma find_defD: "find_def ws ty db = Some r \<Longrightarrow> r \<in> set (db_defs db) \<and> d_ws r = ws \<and> d_type r = ty"
  by (auto simp: find_def_def dest: find_SomeD)

lemma save_def_fields [simp]:
  "db_items (save_def r db) = db_items db" "db_history (save_def r db) = db_history db"
  "db_globals (save_def r db) = db_globals db" "db_next (save_def r db) = db_next db"
  by (simp_all add: save_def_def)

lemma find_replace:
  assumes "find P xs = Some x" "distinct (map k xs)" "k y = k x" "P y"
  shows "find P (map (\<lambda>z. if k z = k y then y else z) xs) = Some y"
  using assms
proof (induction xs)
  case (Cons z zs)
  show ?case
  proof (cases "P z")
    case True
    then show ?thesis using Cons.prems by simp
  next
    case False
    then have "find P zs = Some x" using Cons.prems(1) by simp
    moreover from this have "k z \<noteq> k y"
      using Cons.prems(2,3) find_SomeD by fastforce
    ultimately show ?thesis using False Cons by simp
  qed
qed simp

lemma find_replace_other:
  assumes "\<And>z. z \<in> set xs \<Longrightarrow> k z = k y \<Longrightarrow> \<not> P z" "\<not> P y"
  shows "find P (map (\<lambda>z. if k z = k y then y else z) xs) = find P xs"
  using assms by (induction xs) auto

lemma find_def_save:
  assumes "defs_ok db" "find_def ws ty db = Some r0" "d_id r = d_id r0" "d_ws r = ws" "d_type r = ty"
  shows "find_def v u (save_def r db) = (if v = ws \<and> u = ty then Some r else find_def v u db)"
proof (cases "v = ws \<and> u = ty")
  case True
  then show ?thesis
    using assms find_replace [of "\<lambda>r. d_ws r = ws \<and> d_type r = ty" "db_defs db" r0 d_id r]
    by (simp add: find_def_def save_def_def defs_ok_def)
next
  case False
  have r0: "r0 \<in> set (db_defs db)" "d_ws r0 = ws" "d_type r0 = ty" using find_defD [OF assms(2)] by auto
  have "z = r0" if "z \<in> set (db_defs db)" "d_id z = d_id r" for z
    using that r0 assms(1,3) by (auto simp: defs_ok_def distinct_map dest: inj_onD)
  with r0 False assms(4,5) show ?thesis
    using find_replace_other [of "db_defs db" d_id r "\<lambda>r. d_ws r = v \<and> d_type r = u"]
    by (auto simp: find_def_def save_def_def)
qed

lemma defs_ok_save:
  assumes "defs_ok db" "find_def ws ty db = Some r0" "d_id r = d_id r0" "d_ws r = ws" "d_type r = ty"
  shows "defs_ok (save_def r db)"
proof -
  have r0: "r0 \<in> set (db_defs db)" "d_ws r0 = ws" "d_type r0 = ty" using find_defD [OF assms(2)] by auto
  have same: "z = r0" if "z \<in> set (db_defs db)" "d_id z = d_id r" for z
    using that r0 assms(1,3) by (auto simp: defs_ok_def distinct_map dest: inj_onD)
  have "map d_id (db_defs (save_def r db)) = map d_id (db_defs db)"
    by (simp add: save_def_def)
  moreover have "map (\<lambda>r. (d_ws r, d_type r)) (db_defs (save_def r db)) = map (\<lambda>r. (d_ws r, d_type r)) (db_defs db)"
    using same r0 assms(4,5) by (auto simp: save_def_def)
  moreover have "\<forall>x\<in>set (db_defs (save_def r db)). d_id x < db_next db"
    using assms(1,3) r0 by (auto simp: save_def_def defs_ok_def)
  ultimately show ?thesis using assms(1) by (simp add: defs_ok_def)
qed

text \<open>Adding a row with a fresh key and primary key.\<close>

definition insert_def :: "def_row \<Rightarrow> wf_db \<Rightarrow> wf_db" where
  "insert_def r db = db\<lparr>db_defs := db_defs db @ [r], db_next := Suc (db_next db)\<rparr>"

lemma find_append: "find P (xs @ ys) = (case find P xs of Some x \<Rightarrow> Some x | None \<Rightarrow> find P ys)"
  by (induction xs) auto

lemma find_def_insert:
  assumes "find_def (d_ws r) (d_type r) db = None"
  shows "find_def v u (insert_def r db) = (if v = d_ws r \<and> u = d_type r then Some r else find_def v u db)"
  using assms by (auto simp: find_def_def insert_def_def find_append split: option.splits)

lemma defs_ok_insert:
  assumes "defs_ok db" "find_def (d_ws r) (d_type r) db = None" "d_id r = db_next db"
  shows "defs_ok (insert_def r db)"
  using assms
  by (auto simp: defs_ok_def insert_def_def find_def_def find_None_set less_Suc_eq)

lemma insert_def_fields [simp]:
  "db_items (insert_def r db) = db_items db" "db_history (insert_def r db) = db_history db"
  "db_globals (insert_def r db) = db_globals db"
  by (simp_all add: insert_def_def)

subsection \<open>What persisting a custom definition does\<close>

lemma validate_transition_states_Inr:
  "validate_transition_states states ts = Inr u \<longleftrightarrow>
     (\<forall>t\<in>set ts. in_from t \<in> Some ` set states \<and> in_to t \<in> Some ` set states)"
  by (induction states ts rule: validate_transition_states.induct) auto

lemma check_orphaned_Inr: "check_orphaned_state ws ty s db = Inr u \<longleftrightarrow> items_in_state ws ty s db = []"
  by (simp add: check_orphaned_state_def Let_def)

lemma reject_orphaned_Inr:
  "reject_orphaned_states ws ty ss db = Inr u \<longleftrightarrow> (\<forall>s\<in>set ss. items_in_state ws ty s db = [])"
  by (induction ws ty ss db rule: reject_orphaned_states.induct) (auto simp: check_orphaned_Inr)

definition custom_json :: "string list \<Rightarrow> input_transition list \<Rightarrow> workflow_json" where
  "custom_json states ts =
     \<lparr>wf_states = states, wf_transitions = map stored_transition ts, wf_state_meta = Map.empty\<rparr>"

lemma persist_failure:
  "validate_and_persist_custom conf ws ty states ts db = (Inl e, db') \<Longrightarrow> db' = db"
  by (auto simp: validate_and_persist_custom_def se_bind_Inl Let_def split: option.splits)

lemma persist_success:
  assumes "validate_and_persist_custom conf ws ty states ts db = (Inr dto, db')"
  shows "\<exists>row. dto = dto_from_orm row \<and> d_ws row = ws \<and> d_type row = ty \<and> d_json row = custom_json states ts \<and>
           d_is_customized row \<and>
           (case find_def ws ty db of
              Some r0 \<Rightarrow> d_id row = d_id r0 \<and> d_source_global row = d_source_global r0 \<and> db' = save_def row db
            | None \<Rightarrow> d_id row = db_next db \<and> d_source_global row = None \<and> db' = insert_def row db)"
    and "conf ws \<noteq> Inr ''fixed'' \<and> conf ws \<noteq> Inr ''partial''"
    and "2 \<le> length states \<and> ts \<noteq> []"
    and "\<forall>t\<in>set ts. in_from t \<in> Some ` set states \<and> in_to t \<in> Some ` set states"
    and "\<forall>r s. find_def ws ty db = Some r \<longrightarrow> s \<in> set (wf_states (d_json r)) \<longrightarrow> s \<notin> set states \<longrightarrow>
           items_in_state ws ty s db = []"
proof -
  from assms have c: "assert_workflow_configurable conf ws = Inr ()"
      "validate_custom_schema states ts = Inr ()" "validate_transition_states states ts = Inr ()"
      "case find_def ws ty db of None \<Rightarrow> True
       | Some r \<Rightarrow> reject_orphaned_states ws ty (filter (\<lambda>s. s \<notin> set states) (wf_states (d_json r))) db = Inr ()"
    by (auto simp: validate_and_persist_custom_def se_bind_Inr split: option.splits)
  show "conf ws \<noteq> Inr ''fixed'' \<and> conf ws \<noteq> Inr ''partial''"
    using c(1) by (auto simp: assert_workflow_configurable_def)
  show "2 \<le> length states \<and> ts \<noteq> []"
    using c(2) by (auto simp: validate_custom_schema_def split: if_splits)
  show "\<forall>t\<in>set ts. in_from t \<in> Some ` set states \<and> in_to t \<in> Some ` set states"
    using c(3) by (simp add: validate_transition_states_Inr)
  show "\<forall>r s. find_def ws ty db = Some r \<longrightarrow> s \<in> set (wf_states (d_json r)) \<longrightarrow> s \<notin> set states \<longrightarrow>
           items_in_state ws ty s db = []"
    using c(4) by (auto simp: reject_orphaned_Inr)
  show "\<exists>row. dto = dto_from_orm row \<and> d_ws row = ws \<and> d_type row = ty \<and> d_json row = custom_json states ts \<and>
           d_is_customized row \<and>
           (case find_def ws ty db of
              Some r0 \<Rightarrow> d_id row = d_id r0 \<and> d_source_global row = d_source_global r0 \<and> db' = save_def row db
            | None \<Rightarrow> d_id row = db_next db \<and> d_source_global row = None \<and> db' = insert_def row db)"
    using assms find_defD [of ws ty db]
    by (cases "find_def ws ty db")
      (auto simp: validate_and_persist_custom_def se_bind_Inr Let_def custom_json_def insert_def_def)
qed

subsection \<open>The contract of a definition edit\<close>

text \<open>
  What every edit of the definition of one workspace and item type promises: a failure changes nothing; a
  success touches nothing but that definition, returns what is stored, and never removes a state that still
  holds items.
\<close>

definition no_stranded :: "wf_db \<Rightarrow> bool" where
  "no_stranded db \<longleftrightarrow> (\<forall>i\<in>set (db_items db). \<exists>r. find_def (i_ws i) (i_type i) db = Some r \<and>
     i_state i \<in> set (wf_states (d_json r)))"

locale definition_edit =
  fixes edit :: "(wf_db, def_error, definition_dto) sem" and ws ty
  assumes failure: "edit db = (Inl e, db') \<Longrightarrow> db' = db"
    and frame: "edit db = (Inr dto, db') \<Longrightarrow> defs_ok db \<Longrightarrow>
      db_items db' = db_items db \<and> db_history db' = db_history db \<and> db_globals db' = db_globals db \<and>
      defs_ok db' \<and> (\<forall>v u. (v, u) \<noteq> (ws, ty) \<longrightarrow> find_def v u db' = find_def v u db)"
    and stored: "edit db = (Inr dto, db') \<Longrightarrow> defs_ok db \<Longrightarrow>
      \<exists>row. find_def ws ty db' = Some row \<and> dto = dto_from_orm row"
    and keeps: "edit db = (Inr dto, db') \<Longrightarrow> find_def ws ty db = Some r \<Longrightarrow>
      s \<in> set (wf_states (d_json r)) \<Longrightarrow> s \<notin> set (dto_states dto) \<Longrightarrow> items_in_state ws ty s db = []"
begin

lemma edit_frame:
  assumes "defs_ok db"
  shows "defs_ok (snd (edit db))" "db_items (snd (edit db)) = db_items db"
    "db_history (snd (edit db)) = db_history db" "db_globals (snd (edit db)) = db_globals db"
    "(v, u) \<noteq> (ws, ty) \<Longrightarrow> find_def v u (snd (edit db)) = find_def v u db"
proof -
  obtain r db' where e: "edit db = (r, db')" by fastforce
  show "defs_ok (snd (edit db))" "db_items (snd (edit db)) = db_items db"
    "db_history (snd (edit db)) = db_history db" "db_globals (snd (edit db)) = db_globals db"
    "(v, u) \<noteq> (ws, ty) \<Longrightarrow> find_def v u (snd (edit db)) = find_def v u db"
    using e assms failure frame by (cases r; auto)+
qed

lemma edit_no_stranded:
  assumes "defs_ok db" "no_stranded db"
  shows "no_stranded (snd (edit db))"
proof (cases "edit db")
  case (Pair res db')
  show ?thesis
  proof (cases res)
    case (Inl e)
    then show ?thesis using failure Pair assms(2) by auto
  next
    case (Inr dto)
    note e = Pair [unfolded Inr]
    obtain row where row: "find_def ws ty db' = Some row" "dto = dto_from_orm row"
      using stored [OF e assms(1)] by blast
    have "\<exists>r. find_def (i_ws i) (i_type i) db' = Some r \<and> i_state i \<in> set (wf_states (d_json r))"
      if i: "i \<in> set (db_items db)" for i
    proof -
      obtain r where r: "find_def (i_ws i) (i_type i) db = Some r" "i_state i \<in> set (wf_states (d_json r))"
        using assms(2) i by (auto simp: no_stranded_def)
      show ?thesis
      proof (cases "(i_ws i, i_type i) = (ws, ty)")
        case True
        then have "items_in_state ws ty (i_state i) db \<noteq> []"
          using i by (auto simp: items_in_state_def filter_empty_conv)
        then have "i_state i \<in> set (dto_states dto)" using keeps [OF e] r True by auto
        then show ?thesis using row True by (auto simp: dto_from_orm_def)
      next
        case False
        then have "find_def (i_ws i) (i_type i) db' = find_def (i_ws i) (i_type i) db"
          using frame [OF e assms(1)] by blast
        then show ?thesis using r by simp
      qed
    qed
    then show ?thesis using frame [OF e assms(1)] by (simp add: Pair no_stranded_def)
  qed
qed

end

lemma persist_keeps:
  assumes "validate_and_persist_custom conf ws ty states ts db = (Inr dto, db')"
    and "find_def ws ty db = Some r" "s \<in> set (wf_states (d_json r))" "s \<notin> set (dto_states dto)"
  shows "items_in_state ws ty s db = []"
proof -
  have "set (dto_states dto) = set states"
    using persist_success(1) [OF assms(1)] by (auto simp: dto_from_orm_def custom_json_def)
  then show ?thesis using persist_success(5) [OF assms(1)] assms(2-4) by blast
qed

lemma persist_frame:
  assumes "validate_and_persist_custom conf ws ty states ts db = (Inr dto, db')" "defs_ok db"
  shows "db_items db' = db_items db \<and> db_history db' = db_history db \<and> db_globals db' = db_globals db \<and>
      defs_ok db' \<and> (\<forall>v u. (v, u) \<noteq> (ws, ty) \<longrightarrow> find_def v u db' = find_def v u db)"
    and "\<exists>row. find_def ws ty db' = Some row \<and> dto = dto_from_orm row \<and> d_json row = custom_json states ts"
proof -
  obtain row where row: "dto = dto_from_orm row" "d_ws row = ws" "d_type row = ty"
      "d_json row = custom_json states ts"
      "case find_def ws ty db of
         Some r0 \<Rightarrow> d_id row = d_id r0 \<and> d_source_global row = d_source_global r0 \<and> db' = save_def row db
       | None \<Rightarrow> d_id row = db_next db \<and> d_source_global row = None \<and> db' = insert_def row db"
    using persist_success(1) [OF assms(1)] by blast
  have "db_items db' = db_items db \<and> db_history db' = db_history db \<and> db_globals db' = db_globals db \<and>
      defs_ok db' \<and> (\<forall>v u. find_def v u db' = (if v = ws \<and> u = ty then Some row else find_def v u db))"
  proof (cases "find_def ws ty db")
    case None
    with row assms(2) show ?thesis by (auto simp: find_def_insert defs_ok_insert)
  next
    case (Some r0)
    with row(5) have r0: "d_id row = d_id r0" and db': "db' = save_def row db" by auto
    show ?thesis
      unfolding db' using find_def_save [OF assms(2) Some r0 row(2,3)] defs_ok_save [OF assms(2) Some r0 row(2,3)]
      by simp
  qed
  then show "db_items db' = db_items db \<and> db_history db' = db_history db \<and> db_globals db' = db_globals db \<and>
      defs_ok db' \<and> (\<forall>v u. (v, u) \<noteq> (ws, ty) \<longrightarrow> find_def v u db' = find_def v u db)"
    "\<exists>row. find_def ws ty db' = Some row \<and> dto = dto_from_orm row \<and> d_json row = custom_json states ts"
    using row(1,4) by auto
qed

interpretation custom: definition_edit "validate_and_persist_custom conf ws ty states ts" ws ty
  for conf ws ty states ts
proof
  fix db e db' dto r s
  show "validate_and_persist_custom conf ws ty states ts db = (Inl e, db') \<Longrightarrow> db' = db"
    by (rule persist_failure)
  show "validate_and_persist_custom conf ws ty states ts db = (Inr dto, db') \<Longrightarrow> defs_ok db \<Longrightarrow>
      db_items db' = db_items db \<and> db_history db' = db_history db \<and> db_globals db' = db_globals db \<and>
      defs_ok db' \<and> (\<forall>v u. (v, u) \<noteq> (ws, ty) \<longrightarrow> find_def v u db' = find_def v u db)"
    by (rule persist_frame(1))
  show "validate_and_persist_custom conf ws ty states ts db = (Inr dto, db') \<Longrightarrow> defs_ok db \<Longrightarrow>
      \<exists>row. find_def ws ty db' = Some row \<and> dto = dto_from_orm row"
    using persist_frame(2) by blast
  show "validate_and_persist_custom conf ws ty states ts db = (Inr dto, db') \<Longrightarrow> find_def ws ty db = Some r \<Longrightarrow>
      s \<in> set (wf_states (d_json r)) \<Longrightarrow> s \<notin> set (dto_states dto) \<Longrightarrow> items_in_state ws ty s db = []"
    by (rule persist_keeps)
qed

subsection \<open>The granular edits satisfy the contract\<close>

definition graph_ok :: "string list \<Rightarrow> raw_transition list \<Rightarrow> bool" where
  "graph_ok states ts \<longleftrightarrow> distinct states \<and> distinct (map edge ts) \<and>
     (\<forall>t\<in>set ts. rt_from t \<in> set states \<and> rt_to t \<in> set states)"

lemma stored_as_input [simp]: "stored_transition (as_input t) = t"
  by (cases t) (simp add: stored_transition_def as_input_def py_opt_def)

lemma custom_json_as_input [simp]:
  "custom_json states (map as_input ts) = \<lparr>wf_states = states, wf_transitions = ts, wf_state_meta = Map.empty\<rparr>"
  by (simp add: custom_json_def comp_def)

text \<open>The transition dicts \<open>_editable\<close> rebuilds from the DTO: the same edges, with defaults filled in.\<close>

definition filled :: "raw_transition \<Rightarrow> raw_transition" where
  "filled t = mk_transition (rt_from t) (rt_to t) (case rt_roles t of Some rs \<Rightarrow> rs | None \<Rightarrow> [])
     (rt_reason t = Some True) (rt_sig t = Some True)"

lemma edge_filled [simp]: "edge (filled t) = edge t" "rt_from (filled t) = rt_from t" "rt_to (filled t) = rt_to t"
  by (simp_all add: filled_def edge_def mk_transition_def)

lemma editable_Inr:
  "editable ws ty db = Inr (ss, ts) \<longleftrightarrow>
     (\<exists>r. find_def ws ty db = Some r \<and> ss = wf_states (d_json r) \<and> ts = map filled (wf_transitions (d_json r)))"
  by (auto simp: editable_def get_definition_def dto_from_orm_def filled_def comp_def
      split: option.splits)

lemma graph_ok_filled [simp]: "graph_ok ss (map filled ts) = graph_ok ss ts"
  by (auto simp: graph_ok_def comp_def)

lemma graph_ok_rename:
  assumes "graph_ok ss ts" "new_name \<notin> set ss" "old_name \<in> set ss"
  shows "graph_ok (map (\<lambda>s. if s = old_name then new_name else s) ss) (rewire_transitions ts old_name new_name)"
proof -
  let ?f = "\<lambda>s. if s = old_name then new_name else s"
  have inj: "inj_on ?f (set ss)" using assms(2) by (auto simp: inj_on_def)
  have ends: "\<forall>t\<in>set ts. rt_from t \<in> set ss \<and> rt_to t \<in> set ss" using assms(1) by (simp add: graph_ok_def)
  have edges: "map edge (rewire_transitions ts old_name new_name) = map (map_prod ?f ?f) (map edge ts)"
    by (auto simp: rewire_transitions_def edge_def)
  have "inj_on (map_prod ?f ?f) (set ss \<times> set ss)"
    using inj by (rule map_prod_inj_on [OF inj])
  moreover have "set (map edge ts) \<subseteq> set ss \<times> set ss" using ends by (auto simp: edge_def)
  ultimately have "distinct (map (map_prod ?f ?f) (map edge ts))"
    using assms(1) unfolding graph_ok_def distinct_map [of "map_prod ?f ?f"] by (blast intro: inj_on_subset)
  moreover have "distinct (map ?f ss)" using assms(1) inj by (auto simp: graph_ok_def distinct_map)
  ultimately show ?thesis
    using ends unfolding graph_ok_def edges by (auto simp: rewire_transitions_def)
qed

lemma update_first_edges:
  assumes "\<And>x. edge (f x) = edge x"
  shows "map edge (update_first p f ts) = map edge ts"
  by (induction ts) (auto simp: assms)

lemma graph_ok_edges: "map edge ts' = map edge ts \<Longrightarrow> graph_ok ss ts' = graph_ok ss ts"
proof -
  assume "map edge ts' = map edge ts"
  moreover from this have "edge ` set ts' = edge ` set ts" by (metis list.set_map)
  moreover have "(\<forall>t\<in>set xs. rt_from t \<in> set ss \<and> rt_to t \<in> set ss) \<longleftrightarrow> edge ` set xs \<subseteq> set ss \<times> set ss" for xs
    by (auto simp: edge_def)
  ultimately show ?thesis by (simp add: graph_ok_def)
qed

text \<open>
  An edit is sound when it fails without effect, or returns the unchanged definition, or persists a changed
  copy of the current graph that is well-formed if the current one is.
\<close>

definition sound_edit :: "conf \<Rightarrow> uuid \<Rightarrow> string \<Rightarrow> (wf_db, def_error, definition_dto) sem \<Rightarrow> bool" where
  "sound_edit conf ws ty edit \<longleftrightarrow> (\<forall>db r db'. edit db = (r, db') \<longrightarrow>
     db' = db \<and> (\<forall>dto. r = Inr dto \<longrightarrow> get_definition ws ty db = Inr dto) \<or>
     (\<exists>ss ts ss' ts'. editable ws ty db = Inr (ss, ts) \<and> (graph_ok ss ts \<longrightarrow> graph_ok ss' ts') \<and>
        persist_edit conf ws ty ss' ts' db = (r, db')))"

lemma sound_editI:
  assumes "\<And>db r db'. edit db = (r, db') \<Longrightarrow>
     db' = db \<and> (\<forall>dto. r = Inr dto \<longrightarrow> get_definition ws ty db = Inr dto) \<or>
     (\<exists>ss ts ss' ts'. editable ws ty db = Inr (ss, ts) \<and> (graph_ok ss ts \<longrightarrow> graph_ok ss' ts') \<and>
        persist_edit conf ws ty ss' ts' db = (r, db'))"
  shows "sound_edit conf ws ty edit"
  using assms unfolding sound_edit_def by blast

lemma graph_ok_add_transition:
  assumes "graph_ok ss ts" "f \<in> set ss" "t \<in> set ss" "find_transition ts f t = None"
  shows "graph_ok ss (ts @ [mk_transition f t roles reason sig])"
  using assms by (auto simp: graph_ok_def edge_def mk_transition_def find_transition_def find_None_set)

lemma graph_ok_filter: "graph_ok ss ts \<Longrightarrow> graph_ok ss (filter p ts)"
  by (auto simp: graph_ok_def intro: distinct_map_filter)

lemma graph_ok_delete_state:
  "graph_ok ss ts \<Longrightarrow> filter (\<lambda>t. rt_from t = n \<or> rt_to t = n) ts = [] \<Longrightarrow> graph_ok (filter (\<lambda>s. s \<noteq> n) ss) ts"
  by (auto simp: graph_ok_def filter_empty_conv)

lemma se_bind_cases:
  "se_bind m f s = (r, s2) \<longleftrightarrow>
     (\<exists>e. m s = (Inl e, s2) \<and> r = Inl e) \<or> (\<exists>x s1. m s = (Inr x, s1) \<and> f x s1 = (r, s2))"
  by (cases "m s"; cases "fst (m s)") (auto simp: se_bind_def)

lemma sound_add_state: "sound_edit conf ws ty (add_state conf ws ty n)"
proof (rule sound_editI)
  fix db r db'
  assume "add_state conf ws ty n db = (r, db')"
  then consider "db' = db" "\<exists>e. r = Inl e"
    | ss ts clean where "editable ws ty db = Inr (ss, ts)" "clean \<notin> set ss"
        "persist_edit conf ws ty (ss @ [clean]) ts db = (r, db')"
    by (auto simp: add_state_def se_bind_cases)
  then show "db' = db \<and> (\<forall>dto. r = Inr dto \<longrightarrow> get_definition ws ty db = Inr dto) \<or>
     (\<exists>ss ts ss' ts'. editable ws ty db = Inr (ss, ts) \<and> (graph_ok ss ts \<longrightarrow> graph_ok ss' ts') \<and>
        persist_edit conf ws ty ss' ts' db = (r, db'))"
  proof cases
    case 2
    then have "graph_ok ss ts \<longrightarrow> graph_ok (ss @ [clean]) ts" by (auto simp: graph_ok_def)
    with 2 show ?thesis by blast
  qed auto
qed

lemma sound_rename_state: "sound_edit conf ws ty (rename_state conf ws ty old_name n)"
proof (rule sound_editI)
  fix db r db'
  assume "rename_state conf ws ty old_name n db = (r, db')"
  then consider "db' = db" "(\<exists>e. r = Inl e) \<or> r = get_definition ws ty db"
    | ss ts clean where "editable ws ty db = Inr (ss, ts)" "clean \<notin> set ss" "old_name \<in> set ss"
        "persist_edit conf ws ty (map (\<lambda>s. if s = old_name then clean else s) ss)
           (rewire_transitions ts old_name clean) db = (r, db')"
    by (auto simp: rename_state_def se_bind_cases split: if_splits)
  then show "db' = db \<and> (\<forall>dto. r = Inr dto \<longrightarrow> get_definition ws ty db = Inr dto) \<or>
     (\<exists>ss ts ss' ts'. editable ws ty db = Inr (ss, ts) \<and> (graph_ok ss ts \<longrightarrow> graph_ok ss' ts') \<and>
        persist_edit conf ws ty ss' ts' db = (r, db'))"
  proof cases
    case 2
    from 2(2,3) have "graph_ok ss ts \<longrightarrow>
        graph_ok (map (\<lambda>s. if s = old_name then clean else s) ss) (rewire_transitions ts old_name clean)"
      by (blast intro: graph_ok_rename)
    with 2 show ?thesis by blast
  qed auto
qed

lemma sound_delete_state: "sound_edit conf ws ty (delete_state conf ws ty n)"
proof (rule sound_editI)
  fix db r db'
  assume "delete_state conf ws ty n db = (r, db')"
  then consider "db' = db" "\<exists>e. r = Inl e"
    | ss ts where "editable ws ty db = Inr (ss, ts)" "filter (\<lambda>t. rt_from t = n \<or> rt_to t = n) ts = []"
        "persist_edit conf ws ty (filter (\<lambda>s. s \<noteq> n) ss) ts db = (r, db')"
    by (auto simp: delete_state_def se_bind_cases Let_def)
  then show "db' = db \<and> (\<forall>dto. r = Inr dto \<longrightarrow> get_definition ws ty db = Inr dto) \<or>
     (\<exists>ss ts ss' ts'. editable ws ty db = Inr (ss, ts) \<and> (graph_ok ss ts \<longrightarrow> graph_ok ss' ts') \<and>
        persist_edit conf ws ty ss' ts' db = (r, db'))"
    by cases (blast, metis graph_ok_delete_state)
qed

lemma sound_add_transition: "sound_edit conf ws ty (add_transition conf ws ty f t roles reason sig)"
proof (rule sound_editI)
  fix db r db'
  assume "add_transition conf ws ty f t roles reason sig db = (r, db')"
  then consider "db' = db" "\<exists>e. r = Inl e"
    | ss ts where "editable ws ty db = Inr (ss, ts)" "f \<in> set ss" "t \<in> set ss" "find_transition ts f t = None"
        "persist_edit conf ws ty ss (ts @ [mk_transition f t (normalized_roles roles) reason sig]) db = (r, db')"
    by (auto simp: add_transition_def se_bind_cases)
  then show "db' = db \<and> (\<forall>dto. r = Inr dto \<longrightarrow> get_definition ws ty db = Inr dto) \<or>
     (\<exists>ss ts ss' ts'. editable ws ty db = Inr (ss, ts) \<and> (graph_ok ss ts \<longrightarrow> graph_ok ss' ts') \<and>
        persist_edit conf ws ty ss' ts' db = (r, db'))"
    by cases (blast, metis graph_ok_add_transition)
qed

lemma sound_update_transition: "sound_edit conf ws ty (update_transition conf ws ty f t roles reason sig)"
proof (rule sound_editI)
  fix db r db'
  let ?u = "\<lambda>x. x\<lparr>rt_roles := (if roles \<noteq> None then Some (normalized_roles roles) else rt_roles x),
                 rt_reason := (case reason of Some b \<Rightarrow> Some b | None \<Rightarrow> rt_reason x),
                 rt_sig := (case sig of Some b \<Rightarrow> Some b | None \<Rightarrow> rt_sig x)\<rparr>"
  assume "update_transition conf ws ty f t roles reason sig db = (r, db')"
  then consider "db' = db" "\<exists>e. r = Inl e"
    | ss ts where "editable ws ty db = Inr (ss, ts)"
        "persist_edit conf ws ty ss (update_first (\<lambda>x. rt_from x = f \<and> rt_to x = t) ?u ts) db = (r, db')"
    by (auto simp: update_transition_def se_bind_cases)
  then show "db' = db \<and> (\<forall>dto. r = Inr dto \<longrightarrow> get_definition ws ty db = Inr dto) \<or>
     (\<exists>ss ts ss' ts'. editable ws ty db = Inr (ss, ts) \<and> (graph_ok ss ts \<longrightarrow> graph_ok ss' ts') \<and>
        persist_edit conf ws ty ss' ts' db = (r, db'))"
  proof cases
    case 2
    have "graph_ok ss (update_first (\<lambda>x. rt_from x = f \<and> rt_to x = t) ?u ts) = graph_ok ss ts"
      by (rule graph_ok_edges, rule update_first_edges) (simp add: edge_def)
    with 2 show ?thesis by blast
  qed auto
qed

lemma sound_delete_transition: "sound_edit conf ws ty (delete_transition conf ws ty f t)"
proof (rule sound_editI)
  fix db r db'
  assume "delete_transition conf ws ty f t db = (r, db')"
  then consider "db' = db" "\<exists>e. r = Inl e"
    | ss ts where "editable ws ty db = Inr (ss, ts)"
        "persist_edit conf ws ty ss (filter (\<lambda>x. \<not> (rt_from x = f \<and> rt_to x = t)) ts) db = (r, db')"
    by (auto simp: delete_transition_def se_bind_cases Let_def)
  then show "db' = db \<and> (\<forall>dto. r = Inr dto \<longrightarrow> get_definition ws ty db = Inr dto) \<or>
     (\<exists>ss ts ss' ts'. editable ws ty db = Inr (ss, ts) \<and> (graph_ok ss ts \<longrightarrow> graph_ok ss' ts') \<and>
        persist_edit conf ws ty ss' ts' db = (r, db'))"
    by cases (blast, metis graph_ok_filter)
qed

definition graphs_ok :: "wf_db \<Rightarrow> bool" where
  "graphs_ok db \<longleftrightarrow> (\<forall>v u r. find_def v u db = Some r \<longrightarrow>
     graph_ok (wf_states (d_json r)) (wf_transitions (d_json r)))"

text \<open>A graph edit keeps, in addition, the well-formedness of the graph it edits.\<close>

locale graph_edit = definition_edit +
  assumes keeps_graph: "edit db = (Inr dto, db') \<Longrightarrow> defs_ok db \<Longrightarrow> find_def ws ty db = Some r \<Longrightarrow>
    graph_ok (wf_states (d_json r)) (wf_transitions (d_json r)) \<Longrightarrow> find_def ws ty db' = Some r' \<Longrightarrow>
    graph_ok (wf_states (d_json r')) (wf_transitions (d_json r'))"
    and defined: "edit db = (Inr dto, db') \<Longrightarrow> find_def ws ty db \<noteq> None"
begin

lemma edit_graphs_ok:
  assumes "defs_ok db" "graphs_ok db"
  shows "graphs_ok (snd (edit db))"
proof (cases "edit db")
  case (Pair res db')
  show ?thesis
  proof (cases res)
    case (Inl e)
    then show ?thesis using failure Pair assms(2) by auto
  next
    case (Inr dto)
    note e = Pair [unfolded Inr]
    obtain r where r: "find_def ws ty db = Some r" using defined [OF e] by auto
    have "graph_ok (wf_states (d_json r')) (wf_transitions (d_json r'))" if "find_def v u db' = Some r'" for v u r'
      using that keeps_graph [OF e assms(1) r] frame [OF e assms(1)] assms(2) r
      unfolding graphs_ok_def by (metis prod.inject)
    then show ?thesis by (simp add: Pair graphs_ok_def)
  qed
qed

end

lemma sound_edit_contract:
  assumes "sound_edit conf ws ty edit"
  shows "graph_edit edit ws ty"
proof -
  have persist: "persist_edit conf ws ty ss ts db = (Inr dto, db') \<Longrightarrow> defs_ok db \<Longrightarrow> find_def ws ty db' = Some r \<Longrightarrow>
      d_json r = \<lparr>wf_states = ss, wf_transitions = ts, wf_state_meta = Map.empty\<rparr>" for ss ts db dto db' r
    using persist_frame(2) [of conf ws ty ss "map as_input ts" db dto db'] by (auto simp: persist_edit_def)
  have cases: "(db' = db \<and> (\<forall>dto. r = Inr dto \<longrightarrow> get_definition ws ty db = Inr dto)) \<or>
     (\<exists>ss ts ss' ts'. editable ws ty db = Inr (ss, ts) \<and> (graph_ok ss ts \<longrightarrow> graph_ok ss' ts') \<and>
        persist_edit conf ws ty ss' ts' db = (r, db'))" if "edit db = (r, db')" for db r db'
    using assms that unfolding sound_edit_def by blast
  show ?thesis
  proof
    fix db e db'
    show "edit db = (Inl e, db') \<Longrightarrow> db' = db"
      using cases persist_failure unfolding persist_edit_def by blast
  next
    fix db dto db'
    assume "edit db = (Inr dto, db')" "defs_ok db"
    then show "db_items db' = db_items db \<and> db_history db' = db_history db \<and> db_globals db' = db_globals db \<and>
      defs_ok db' \<and> (\<forall>v u. (v, u) \<noteq> (ws, ty) \<longrightarrow> find_def v u db' = find_def v u db)"
      using cases persist_frame(1) unfolding persist_edit_def by (metis (no_types, lifting))
  next
    fix db dto db'
    assume "edit db = (Inr dto, db')" "defs_ok db"
    then show "\<exists>row. find_def ws ty db' = Some row \<and> dto = dto_from_orm row"
      using cases [of db "Inr dto" db'] persist_frame(2) unfolding persist_edit_def
      by (auto simp: get_definition_def split: option.splits) blast+
  next
    fix db dto db' r s
    assume e: "edit db = (Inr dto, db')" and r: "find_def ws ty db = Some r" "s \<in> set (wf_states (d_json r))"
      "s \<notin> set (dto_states dto)"
    have "\<not> (db' = db \<and> get_definition ws ty db = Inr dto)"
      using r by (auto simp: get_definition_def dto_from_orm_def)
    with cases [OF e] obtain ss ts where "validate_and_persist_custom conf ws ty ss (map as_input ts) db = (Inr dto, db')"
      unfolding persist_edit_def by blast
    from persist_keeps [OF this r] show "items_in_state ws ty s db = []" .
  next
    fix db dto db' r r'
    assume e: "edit db = (Inr dto, db')" "defs_ok db" "find_def ws ty db = Some r"
      "graph_ok (wf_states (d_json r)) (wf_transitions (d_json r))" "find_def ws ty db' = Some r'"
    from cases [OF e(1)] show "graph_ok (wf_states (d_json r')) (wf_transitions (d_json r'))"
    proof (elim disjE exE conjE)
      assume "db' = db"
      with e show ?thesis by simp
    next
      fix ss ts ss' ts'
      assume "editable ws ty db = Inr (ss, ts)" "graph_ok ss ts \<longrightarrow> graph_ok ss' ts'"
        "persist_edit conf ws ty ss' ts' db = (Inr dto, db')"
      with persist [OF _ e(2,5)] e(3,4) show ?thesis by (auto simp: editable_Inr)
    qed
  next
    fix db dto db'
    assume "edit db = (Inr dto, db')"
    from cases [OF this] show "find_def ws ty db \<noteq> None"
      by (auto simp: editable_Inr get_definition_def split: option.splits)
  qed
qed

interpretation add_st: graph_edit "add_state conf ws ty n" ws ty for conf ws ty n
  by (rule sound_edit_contract, rule sound_add_state)

interpretation ren_st: graph_edit "rename_state conf ws ty old_name n" ws ty for conf ws ty old_name n
  by (rule sound_edit_contract, rule sound_rename_state)

interpretation del_st: graph_edit "delete_state conf ws ty n" ws ty for conf ws ty n
  by (rule sound_edit_contract, rule sound_delete_state)

interpretation add_tr: graph_edit "add_transition conf ws ty f t roles reason sig" ws ty
  for conf ws ty f t roles reason sig
  by (rule sound_edit_contract, rule sound_add_transition)

interpretation upd_tr: graph_edit "update_transition conf ws ty f t roles reason sig" ws ty
  for conf ws ty f t roles reason sig
  by (rule sound_edit_contract, rule sound_update_transition)

interpretation del_tr: graph_edit "delete_transition conf ws ty f t" ws ty for conf ws ty f t
  by (rule sound_edit_contract, rule sound_delete_transition)

subsection \<open>Sequences of edits\<close>

datatype edit_op =
    AddState string
  | RenameState string string
  | DeleteState string
  | AddTransition string string "string list option" bool bool
  | UpdateTransition string string "string list option" "bool option" "bool option"
  | DeleteTransition string string

fun run_edit :: "conf \<Rightarrow> uuid \<Rightarrow> string \<Rightarrow> edit_op \<Rightarrow> (wf_db, def_error, definition_dto) sem" where
  "run_edit conf ws ty (AddState n) = add_state conf ws ty n"
| "run_edit conf ws ty (RenameState a b) = rename_state conf ws ty a b"
| "run_edit conf ws ty (DeleteState n) = delete_state conf ws ty n"
| "run_edit conf ws ty (AddTransition f t rs r g) = add_transition conf ws ty f t rs r g"
| "run_edit conf ws ty (UpdateTransition f t rs r g) = update_transition conf ws ty f t rs r g"
| "run_edit conf ws ty (DeleteTransition f t) = delete_transition conf ws ty f t"

definition run_edits :: "conf \<Rightarrow> (uuid \<times> string \<times> edit_op) list \<Rightarrow> wf_db \<Rightarrow> wf_db" where
  "run_edits conf ops db = fold (\<lambda>(ws, ty, op) d. snd (run_edit conf ws ty op d)) ops db"

lemma sound_run_edit: "sound_edit conf ws ty (run_edit conf ws ty op)"
  by (cases op) (simp_all add: sound_add_state sound_rename_state sound_delete_state sound_add_transition
      sound_update_transition sound_delete_transition)

interpretation any_edit: graph_edit "run_edit conf ws ty op" ws ty for conf ws ty op
  by (rule sound_edit_contract, rule sound_run_edit)

lemma run_edits_inv:
  assumes "defs_ok db" "no_stranded db" "graphs_ok db"
  shows "defs_ok (run_edits conf ops db) \<and> no_stranded (run_edits conf ops db) \<and>
         graphs_ok (run_edits conf ops db) \<and> db_items (run_edits conf ops db) = db_items db \<and>
         db_history (run_edits conf ops db) = db_history db"
  using assms unfolding run_edits_def
proof (induction ops arbitrary: db)
  case (Cons x ops)
  obtain ws ty op where x: "x = (ws, ty, op)" by (cases x)
  let ?d = "snd (run_edit conf ws ty op db)"
  have "defs_ok ?d" "no_stranded ?d" "graphs_ok ?d"
    using Cons.prems any_edit.edit_frame(1) any_edit.edit_no_stranded any_edit.edit_graphs_ok by blast+
  moreover have "db_items ?d = db_items db" "db_history ?d = db_history db"
    using Cons.prems(1) any_edit.edit_frame by blast+
  ultimately show ?case using Cons.IH [of ?d] by (simp add: x)
qed simp

lemma persist_fixed:
  assumes "conf ws = Inr ''fixed'' \<or> conf ws = Inr ''partial''"
  shows "\<exists>e. validate_and_persist_custom conf ws ty ss ts db = (Inl e, db)"
  using assms
  by (auto simp: validate_and_persist_custom_def assert_workflow_configurable_def se_bind_def)

lemma get_definition_save:
  "defs_ok db \<Longrightarrow> find_def ws ty db = Some r0 \<Longrightarrow> d_id r = d_id r0 \<Longrightarrow> d_ws r = ws \<Longrightarrow> d_type r = ty \<Longrightarrow>
   get_definition ws ty (save_def r db) = Inr (dto_from_orm r)"
  by (simp add: get_definition_def find_def_save)

lemma persist_existing:
  assumes "defs_ok db" "find_def ws ty db = Some r" "conf ws = Inr ''full''" "2 \<le> length ss" "ts \<noteq> []"
    and "\<forall>t\<in>set ts. rt_from t \<in> set ss \<and> rt_to t \<in> set ss"
    and "\<forall>s\<in>set (wf_states (d_json r)) - set ss. items_in_state ws ty s db = []"
  shows "\<exists>r'. persist_edit conf ws ty ss ts db = (Inr (dto_from_orm r'), save_def r' db) \<and>
     d_id r' = d_id r \<and> d_ws r' = ws \<and> d_type r' = ty \<and>
     d_json r' = \<lparr>wf_states = ss, wf_transitions = ts, wf_state_meta = Map.empty\<rparr>"
proof -
  have c: "assert_workflow_configurable conf ws = Inr ()" using assms(3) by (simp add: assert_workflow_configurable_def)
  have v: "validate_custom_schema ss (map as_input ts) = Inr ()"
    using assms(4,5) by (simp add: validate_custom_schema_def raise_if_def Suc_le_eq)
  have t: "validate_transition_states ss (map as_input ts) = Inr ()"
    using assms(6) by (simp add: validate_transition_states_Inr as_input_def)
  have o: "reject_orphaned_states ws ty (filter (\<lambda>s. s \<notin> set ss) (wf_states (d_json r))) db = Inr ()"
    using assms(7) by (simp add: reject_orphaned_Inr)
  let ?r = "r\<lparr>d_json := \<lparr>wf_states = ss, wf_transitions = ts, wf_state_meta = Map.empty\<rparr>, d_is_custom := True,
              d_is_customized := True\<rparr>"
  have "persist_edit conf ws ty ss ts db = (Inr (dto_from_orm ?r), save_def ?r db)"
    using c v t o assms(2)
    by (simp add: persist_edit_def validate_and_persist_custom_def se_bind_def Let_def comp_def)
  moreover have "d_ws ?r = ws" "d_type ?r = ty" using find_defD [OF assms(2)] by auto
  ultimately show ?thesis by (intro exI [of _ ?r]) auto
qed

subsection \<open>Properties\<close>

text \<open>
  C36: edits never strand items and never break a graph. Starting from tables in which every definition is a
  well-formed graph and every item sits in a declared state, any sequence of editor operations, on any
  workspaces and item types, successful or rejected, leaves tables with the same property, the same items and
  the same history.
\<close>

theorem edits_never_strand:
  assumes "defs_ok db" "no_stranded db" "graphs_ok db"
  shows "defs_ok (run_edits conf ops db) \<and> no_stranded (run_edits conf ops db) \<and>
         graphs_ok (run_edits conf ops db) \<and> db_items (run_edits conf ops db) = db_items db \<and>
         db_history (run_edits conf ops db) = db_history db"
  by (rule run_edits_inv [OF assms])

definition db_example :: wf_db where
  "db_example =
     \<lparr>db_defs = [\<lparr>d_id = 1, d_ws = ''w'', d_type = ''Requirement'', d_preset = ''standard'',
                  d_json = schema_standard, d_is_custom = False, d_is_customized = False,
                  d_source_global = Some 0\<rparr>],
      db_globals = [\<lparr>g_id = 0, g_type = ''Requirement'', g_preset = ''standard'', g_json = schema_standard\<rparr>],
      db_items = [\<lparr>i_id = 2, i_item = ''i'', i_type = ''Requirement'', i_ws = ''w'', i_def = 1,
                   i_state = ''draft'', i_version = 0\<rparr>],
      db_history = [], db_next = 3, db_cache = []\<rparr>"

lemma db_example_ok: "defs_ok db_example" "no_stranded db_example" "graphs_ok db_example"
  by (auto simp: db_example_def defs_ok_def no_stranded_def graphs_ok_def graph_ok_def find_def_def
      schema_standard_def standard_transitions_def mk_transition_def edge_def split: if_splits)

theorem edits_never_strand_witness:
  "no_stranded (run_edits (\<lambda>_. Inr ''full'')
     [(''w'', ''Requirement'', AddState ''archived''), (''w'', ''Requirement'', DeleteState ''draft''),
      (''w'', ''Requirement'', RenameState ''draft'' ''new'')] db_example)"
  using edits_never_strand [OF db_example_ok] by blast

text \<open>
  Fixed workflows stay fixed. In a workspace whose preset is not fully configurable no editor operation
  changes any table.
\<close>

theorem fixed_presets_reject_edits:
  assumes "conf ws = Inr ''fixed'' \<or> conf ws = Inr ''partial''"
  shows "snd (run_edit conf ws ty op db) = db"
proof (cases "run_edit conf ws ty op db")
  case (Pair r db')
  from sound_run_edit [of conf ws ty op] Pair
  have "db' = db \<or> (\<exists>ss' ts'. persist_edit conf ws ty ss' ts' db = (r, db'))"
    unfolding sound_edit_def by blast
  moreover have "db' = db" if "persist_edit conf ws ty ss' ts' db = (r, db')" for ss' ts'
    using persist_fixed [of conf ws ty ss' "map as_input ts'" db] assms that by (auto simp: persist_edit_def)
  ultimately show ?thesis using Pair by auto
qed

theorem fixed_presets_reject_edits_witness:
  "snd (run_edit (\<lambda>_. Inr ''fixed'') ''w'' ''Requirement'' (AddState ''archived'') db_example) = db_example"
  by (rule fixed_presets_reject_edits) simp

text \<open>
  Adding a state and deleting it again is a round trip. When the addition succeeds in a consistent
  database, the deletion of the new state succeeds too, and the definition has its old states and its old
  edges again.
\<close>

theorem add_delete_state_roundtrip:
  assumes "defs_ok db" "no_stranded db" "graphs_ok db" "conf ws = Inr ''full''" "find_def ws ty db = Some r"
    and "wf_transitions (d_json r) \<noteq> []" "2 \<le> length (wf_states (d_json r))"
    and "add_state conf ws ty n db = (Inr dto, db1)"
  shows "\<exists>db2 dto2. delete_state conf ws ty (py_strip n) db1 = (Inr dto2, db2) \<and>
           dto_states dto2 = wf_states (d_json r) \<and>
           map (\<lambda>t. (from_state t, to_state t)) (dto_transitions dto2) = map edge (wf_transitions (d_json r))"
proof -
  let ?ss = "wf_states (d_json r)" and ?ts = "map filled (wf_transitions (d_json r))" and ?n = "py_strip n"
  from assms(5,8) have n: "?n \<notin> set ?ss" and p: "persist_edit conf ws ty (?ss @ [?n]) ?ts db = (Inr dto, db1)"
    by (auto simp: add_state_def se_bind_Inr editable_Inr validate_state_name_def Let_def split: if_splits)
  note f = persist_frame [OF p [unfolded persist_edit_def] assms(1)]
  obtain r1 where r1: "find_def ws ty db1 = Some r1"
      "d_json r1 = \<lparr>wf_states = ?ss @ [?n], wf_transitions = ?ts, wf_state_meta = Map.empty\<rparr>"
    using f(2) unfolding custom_json_as_input by blast
  have g: "graph_ok ?ss ?ts" using assms(3,5) by (auto simp: graphs_ok_def)
  have none: "items_in_state ws ty ?n db1 = []"
  proof -
    have "i_state i \<in> set ?ss" if "i \<in> set (db_items db)" "i_ws i = ws" "i_type i = ty" for i
      using that assms(2,5) by (auto simp: no_stranded_def)
    then show ?thesis using f(1) n by (auto simp: items_in_state_def filter_empty_conv) metis
  qed
  have ff: "map filled ?ts = ?ts"
    by (simp add: filled_def mk_transition_def comp_def)
  have "\<exists>r'. persist_edit conf ws ty ?ss ?ts db1 = (Inr (dto_from_orm r'), save_def r' db1) \<and>
     d_id r' = d_id r1 \<and> d_ws r' = ws \<and> d_type r' = ty \<and>
     d_json r' = \<lparr>wf_states = ?ss, wf_transitions = ?ts, wf_state_meta = Map.empty\<rparr>"
    using f(1) r1 assms(4,6,7) g none
    by (intro persist_existing) (auto simp: graph_ok_def)
  then obtain r' where r': "persist_edit conf ws ty ?ss ?ts db1 = (Inr (dto_from_orm r'), save_def r' db1)"
      "d_json r' = \<lparr>wf_states = ?ss, wf_transitions = ?ts, wf_state_meta = Map.empty\<rparr>" by blast
  have "editable ws ty db1 = Inr (?ss @ [?n], ?ts)"
    using r1 ff by (simp add: editable_Inr)
  moreover have "filter (\<lambda>t. rt_from t = ?n \<or> rt_to t = ?n) ?ts = []"
    using g n by (auto simp: graph_ok_def filter_empty_conv)
  moreover have "filter (\<lambda>s. s \<noteq> ?n) (?ss @ [?n]) = ?ss" using n by (auto simp: filter_id_conv)
  ultimately have "delete_state conf ws ty ?n db1 = (Inr (dto_from_orm r'), save_def r' db1)"
    using r'(1) none by (simp add: delete_state_def se_bind_def Let_def check_orphaned_state_def)
  moreover have "map (\<lambda>t. (from_state t, to_state t)) (dto_transitions (dto_from_orm r')) =
      map edge (wf_transitions (d_json r))"
    by (simp add: dto_from_orm_def r'(2) edge_def)
  ultimately show ?thesis by (auto simp: dto_from_orm_def r'(2))
qed

lemma add_state_example: "\<exists>dto db1. add_state (\<lambda>_. Inr ''full'') ''w'' ''Requirement'' ''archived'' db_example = (Inr dto, db1)"
  by (simp add: add_state_def se_bind_def validate_state_name_def py_strip_def py_space_def editable_def
      get_definition_def find_def_def db_example_def dto_from_orm_def schema_standard_def
      standard_transitions_def mk_transition_def persist_edit_def validate_and_persist_custom_def
      assert_workflow_configurable_def validate_custom_schema_def as_input_def Let_def)

theorem add_delete_state_roundtrip_witness:
  "\<exists>db1 db2 dto2. delete_state (\<lambda>_. Inr ''full'') ''w'' ''Requirement'' (py_strip ''archived'') db1 = (Inr dto2, db2) \<and>
     dto_states dto2 = wf_states schema_standard"
proof -
  obtain dto db1 where "add_state (\<lambda>_. Inr ''full'') ''w'' ''Requirement'' ''archived'' db_example = (Inr dto, db1)"
    using add_state_example by blast
  moreover have "find_def ''w'' ''Requirement'' db_example = Some (hd (db_defs db_example))"
    "wf_states (d_json (hd (db_defs db_example))) = wf_states schema_standard"
    "wf_transitions (d_json (hd (db_defs db_example))) \<noteq> []"
    "2 \<le> length (wf_states (d_json (hd (db_defs db_example))))"
    by (simp_all add: db_example_def find_def_def schema_standard_def standard_transitions_def)
  ultimately have "\<exists>db2 dto2. delete_state (\<lambda>_. Inr ''full'') ''w'' ''Requirement'' (py_strip ''archived'') db1 =
      (Inr dto2, db2) \<and> dto_states dto2 = wf_states (d_json (hd (db_defs db_example)))"
    using add_delete_state_roundtrip [OF db_example_ok, of "\<lambda>_. Inr ''full''" "''w''" "''Requirement''"
        "hd (db_defs db_example)" "''archived''" dto db1] by blast
  then show ?thesis by (auto simp: db_example_def)
qed

lemma sum_by_value:
  "(\<Sum>s\<leftarrow>remdups ss. length (filter (\<lambda>x. f x = s) xs)) = length (filter (\<lambda>x. f x \<in> set ss) xs)"
proof (induction xs)
  case (Cons x xs)
  have one: "(\<Sum>s\<leftarrow>remdups ss. (if s = f x then 1 else 0)) = (if f x \<in> set ss then 1 else (0::nat))"
    by (simp add: sum_list_distinct_conv_sum_set)
  have "(\<Sum>s\<leftarrow>remdups ss. length (filter (\<lambda>y. f y = s) (x # xs))) =
      (\<Sum>s\<leftarrow>remdups ss. (if s = f x then 1 else 0) + length (filter (\<lambda>y. f y = s) xs))"
    by (rule arg_cong [of _ _ sum_list]) auto
  also have "\<dots> = (\<Sum>s\<leftarrow>remdups ss. (if s = f x then 1 else 0)) +
      (\<Sum>s\<leftarrow>remdups ss. length (filter (\<lambda>y. f y = s) xs))"
    by (rule sum_list_addf)
  finally show ?case using Cons.IH by (simp only: one) simp
qed simp

text \<open>
  The downgrade check is exact. For a known target preset the check passes if and only if every item
  of the workspace and type sits in a state of the target schema; otherwise it raises with exactly the
  offending states and the number of items in them.
\<close>

theorem downgrade_check_exact:
  assumes "map_of PRESET_SCHEMAS p = Some schema"
  shows "(check_downgrade_compatibility ws p ty db = Inr () \<longleftrightarrow>
            (\<forall>i\<in>set (db_items db). i_ws i = ws \<longrightarrow> i_type i = ty \<longrightarrow> i_state i \<in> set (wf_states schema))) \<and>
         (\<forall>e. check_downgrade_compatibility ws p ty db = Inl e \<longrightarrow>
            (\<exists>ss. e = PresetDowngradeBlockedError ss (length (filter (\<lambda>i. i_ws i = ws \<and> i_type i = ty \<and>
                      i_state i \<notin> set (wf_states schema)) (db_items db))) \<and>
               set ss = {i_state i |i. i \<in> set (db_items db) \<and> i_ws i = ws \<and> i_type i = ty} - set (wf_states schema)))"
proof -
  let ?I = "filter (\<lambda>i. i_ws i = ws \<and> i_type i = ty) (db_items db)"
  let ?ss = "filter (\<lambda>s. s \<notin> set (wf_states schema)) (remdups (map i_state ?I))"
  have pos: "items_in_state ws ty s db \<noteq> []" if "s \<in> set ?ss" for s
    using that by (auto simp: items_in_state_def filter_empty_conv)
  then have all: "filter (\<lambda>c. snd c > 0) (map (\<lambda>s. (s, length (items_in_state ws ty s db))) ?ss) =
      map (\<lambda>s. (s, length (items_in_state ws ty s db))) ?ss"
    by (auto simp: filter_id_conv)
  have chk: "check_downgrade_compatibility ws p ty db =
      raise_if (?ss \<noteq> []) (PresetDowngradeBlockedError ?ss (\<Sum>s\<leftarrow>?ss. length (items_in_state ws ty s db)))"
    unfolding check_downgrade_compatibility_def incompatible_state_counts_def assms option.case Let_def all
    by (simp add: comp_def)
  have "(\<Sum>s\<leftarrow>?ss. length (items_in_state ws ty s db)) =
      (\<Sum>s\<leftarrow>remdups ?ss. length (filter (\<lambda>i. i_state i = s) ?I))"
    by (simp add: items_in_state_def conj_assoc distinct_remdups_id)
  also have "\<dots> = length (filter (\<lambda>i. i_state i \<in> set ?ss) ?I)" by (rule sum_by_value)
  also have "filter (\<lambda>i. i_state i \<in> set ?ss) ?I =
      filter (\<lambda>i. i_ws i = ws \<and> i_type i = ty \<and> i_state i \<notin> set (wf_states schema)) (db_items db)"
    by (auto intro!: filter_cong)
  finally have count: "(\<Sum>s\<leftarrow>?ss. length (items_in_state ws ty s db)) = length (filter (\<lambda>i. i_ws i = ws \<and>
      i_type i = ty \<and> i_state i \<notin> set (wf_states schema)) (db_items db))" .
  have sset: "set ?ss = {i_state i |i. i \<in> set (db_items db) \<and> i_ws i = ws \<and> i_type i = ty} - set (wf_states schema)"
    by auto
  have nil: "?ss = [] \<longleftrightarrow> (\<forall>i\<in>set (db_items db). i_ws i = ws \<longrightarrow> i_type i = ty \<longrightarrow> i_state i \<in> set (wf_states schema))"
    by (auto simp: filter_empty_conv)
  show ?thesis
    unfolding chk count using nil sset by (auto simp: raise_if_def)
qed

theorem downgrade_check_exact_witness:
  "check_downgrade_compatibility ''w'' ''minimal'' ''Requirement'' db_example = Inr ()"
proof -
  have "map_of PRESET_SCHEMAS ''minimal'' = Some schema_minimal"
    by (simp add: PRESET_SCHEMAS_def BASE_SCHEMAS_def SCHEMAS_WITHOUT_PROPOSED_def)
  from downgrade_check_exact [OF this, of "''w''" "''Requirement''" db_example] show ?thesis
    by (simp add: db_example_def schema_minimal_def)
qed

text \<open>
  Edits and custom definitions drop the state flags. Whatever per-state flags a definition carried
  (the document freeze flag, the outdated-equivalent flags), after a successful edit the stored definition has
  none, while its states and edges were kept.
\<close>

theorem edits_drop_state_meta:
  assumes "defs_ok db" "run_edit conf ws ty (UpdateTransition f t rs reason sig) db = (Inr dto, db')"
  shows "\<exists>r r'. find_def ws ty db = Some r \<and> find_def ws ty db' = Some r' \<and>
           wf_states (d_json r') = wf_states (d_json r) \<and>
           map edge (wf_transitions (d_json r')) = map edge (wf_transitions (d_json r)) \<and>
           wf_state_meta (d_json r') = Map.empty"
proof -
  let ?u = "\<lambda>x. x\<lparr>rt_roles := (if rs \<noteq> None then Some (normalized_roles rs) else rt_roles x),
                 rt_reason := (case reason of Some b \<Rightarrow> Some b | None \<Rightarrow> rt_reason x),
                 rt_sig := (case sig of Some b \<Rightarrow> Some b | None \<Rightarrow> rt_sig x)\<rparr>"
  obtain ss ts where e: "editable ws ty db = Inr (ss, ts)"
      "persist_edit conf ws ty ss (update_first (\<lambda>x. rt_from x = f \<and> rt_to x = t) ?u ts) db = (Inr dto, db')"
    using assms(2) by (auto simp: update_transition_def se_bind_Inr)
  have "map edge (update_first (\<lambda>x. rt_from x = f \<and> rt_to x = t) ?u ts) = map edge ts"
    by (rule update_first_edges) (simp add: edge_def)
  then show ?thesis
    using persist_frame(2) [OF e(2) [unfolded persist_edit_def] assms(1)] e(1)
    by (fastforce simp: editable_Inr comp_def)
qed

theorem edits_drop_state_meta_witness:
  "wf_state_meta schema_standard ''deprecated'' \<noteq> None \<and>
   (\<exists>db' r'. find_def ''w'' ''Requirement'' db' = Some r' \<and>
      wf_states (d_json r') = wf_states schema_standard \<and> wf_state_meta (d_json r') = Map.empty)"
proof
  show "wf_state_meta schema_standard ''deprecated'' \<noteq> None" by (simp add: schema_standard_def)
  have "\<exists>dto db'. run_edit (\<lambda>_. Inr ''full'') ''w'' ''Requirement''
      (UpdateTransition ''draft'' ''approved'' None (Some True) None) db_example = (Inr dto, db')"
    by (simp add: update_transition_def se_bind_def editable_def find_transition_def
        get_definition_def find_def_def db_example_def dto_from_orm_def schema_standard_def
        standard_transitions_def mk_transition_def persist_edit_def validate_and_persist_custom_def
        assert_workflow_configurable_def validate_custom_schema_def as_input_def Let_def)
  then obtain dto db' where "run_edit (\<lambda>_. Inr ''full'') ''w'' ''Requirement''
      (UpdateTransition ''draft'' ''approved'' None (Some True) None) db_example = (Inr dto, db')" by blast
  from edits_drop_state_meta [OF db_example_ok(1) this]
  show "\<exists>db' r'. find_def ''w'' ''Requirement'' db' = Some r' \<and>
      wf_states (d_json r') = wf_states schema_standard \<and> wf_state_meta (d_json r') = Map.empty"
    by (auto simp: db_example_def find_def_def split: if_splits)
qed

text \<open>
  A reset can strand items. Resetting a customised definition to its global default checks no items:
  after adding a state, moving an item there and resetting, the item sits in a state its definition does
  not have.
\<close>

theorem reset_strands_items:
  "\<exists>db ws ty. defs_ok db \<and> no_stranded db \<and> graphs_ok db \<and>
     (\<exists>dto. fst (reset_to_global ws ty db) = Inr dto) \<and> \<not> no_stranded (snd (reset_to_global ws ty db))"
proof -
  let ?r = "hd (db_defs db_example)"
  let ?i = "hd (db_items db_example)"
  let ?db = "db_example\<lparr>db_defs := [?r\<lparr>d_json := (d_json ?r)\<lparr>wf_states := [''draft'', ''approved'', ''deprecated'', ''parked'']\<rparr>\<rparr>],
                        db_items := [?i\<lparr>i_state := ''parked''\<rparr>]\<rparr>"
  have "defs_ok ?db" "no_stranded ?db" "graphs_ok ?db"
    by (auto simp: db_example_def defs_ok_def no_stranded_def graphs_ok_def graph_ok_def find_def_def
        schema_standard_def standard_transitions_def mk_transition_def edge_def split: if_splits)
  moreover have "\<exists>dto. fst (reset_to_global ''w'' ''Requirement'' ?db) = Inr dto"
    by (simp add: reset_to_global_def db_example_def find_def_def Let_def)
  moreover have "\<not> no_stranded (snd (reset_to_global ''w'' ''Requirement'' ?db))"
    by (simp add: reset_to_global_def db_example_def find_def_def Let_def no_stranded_def save_def_def
        schema_standard_def)
  ultimately show ?thesis by blast
qed

end
