(* ===== verification/Definition_Cache.thy ===== *)
theory Definition_Cache
  imports Workflow_Store
begin

text \<open>
  The in-process definition cache of the transition validator (\<^verbatim>\<open>workflow/transition_validator.py\<close>, class
  \<open>_DefinitionCache\<close> and \<open>TransitionValidator._load_definition\<close>). A Python dict is an association list in
  insertion order: assigning an existing key keeps its position.
\<close>

type_synonym def_cache = "((uuid \<times> string) \<times> definition_dto) list"

definition MAX_ENTRIES :: nat where
  "MAX_ENTRIES = 256"

definition cache_get :: "uuid \<Rightarrow> string \<Rightarrow> def_cache \<Rightarrow> definition_dto option" where
  "cache_get ws ty c = map_of c (ws, ty)"

fun dict_assign :: "'k \<Rightarrow> 'v \<Rightarrow> ('k \<times> 'v) list \<Rightarrow> ('k \<times> 'v) list" where
  "dict_assign k v [] = [(k, v)]"
| "dict_assign k v ((k', v') # c) = (if k' = k then (k', v) # c else (k', v') # dict_assign k v c)"

definition cache_put :: "uuid \<Rightarrow> string \<Rightarrow> definition_dto \<Rightarrow> def_cache \<Rightarrow> def_cache" where
  "cache_put ws ty dto c =
     dict_assign (ws, ty) dto (if length c \<ge> MAX_ENTRIES then tl c else c)"

definition cache_invalidate :: "uuid \<Rightarrow> string \<Rightarrow> def_cache \<Rightarrow> def_cache" where
  "cache_invalidate ws ty c = filter (\<lambda>e. fst e \<noteq> (ws, ty)) c"

definition cache_clear :: "def_cache \<Rightarrow> def_cache" where
  "cache_clear c = []"

definition invalidate_cache :: "uuid \<Rightarrow> string \<Rightarrow> wf_db \<Rightarrow> wf_db" where
  "invalidate_cache ws ty db = db\<lparr>db_cache := cache_invalidate ws ty (db_cache db)\<rparr>"

definition load_definition :: "uuid \<Rightarrow> string \<Rightarrow> wf_db \<Rightarrow> definition_dto option \<times> wf_db" where
  "load_definition ws ty db =
     (case cache_get ws ty (db_cache db) of
        Some dto \<Rightarrow> (Some dto, db)
      | None \<Rightarrow>
          (case get_definition ws ty db of
             Inr dto \<Rightarrow> (Some dto, db\<lparr>db_cache := cache_put ws ty dto (db_cache db)\<rparr>)
           | Inl e \<Rightarrow> (None, db)))"

subsection \<open>The contract of a cache\<close>

text \<open>
  A cache over a source of truth: an entry read back after a store is the stored value, nothing is
  served after an invalidation, and neither operation makes up an entry for another key. A cache is
  coherent with a source when everything it serves is what the source would return.
\<close>

locale keyed_cache =
  fixes lookup :: "'c \<Rightarrow> 'k \<Rightarrow> 'v option"
    and store :: "'k \<Rightarrow> 'v \<Rightarrow> 'c \<Rightarrow> 'c"
    and drop_key :: "'k \<Rightarrow> 'c \<Rightarrow> 'c"
    and wf :: "'c \<Rightarrow> bool"
  assumes store_same: "wf c \<Longrightarrow> lookup (store k v c) k = Some v"
    and store_other: "wf c \<Longrightarrow> k' \<noteq> k \<Longrightarrow> lookup (store k v c) k' = Some w \<Longrightarrow> lookup c k' = Some w"
    and drop_same: "wf c \<Longrightarrow> lookup (drop_key k c) k = None"
    and drop_other: "wf c \<Longrightarrow> k' \<noteq> k \<Longrightarrow> lookup (drop_key k c) k' = lookup c k'"
    and wf_store: "wf c \<Longrightarrow> wf (store k v c)"
    and wf_drop: "wf c \<Longrightarrow> wf (drop_key k c)"
begin

definition coherent :: "('k \<Rightarrow> 'v option) \<Rightarrow> 'c \<Rightarrow> bool" where
  "coherent source c \<longleftrightarrow> (\<forall>k v. lookup c k = Some v \<longrightarrow> source k = Some v)"

lemma coherent_store:
  "wf c \<Longrightarrow> coherent source c \<Longrightarrow> source k = Some v \<Longrightarrow> coherent source (store k v c)"
  unfolding coherent_def by (metis option.inject store_other store_same)

text \<open>Dropping the key of a changed entry restores coherence with the changed source.\<close>

lemma coherent_drop:
  assumes "wf c" "coherent source c" "\<And>k'. k' \<noteq> k \<Longrightarrow> source' k' = source k'"
  shows "coherent source' (drop_key k c)"
  using assms unfolding coherent_def by (metis drop_other drop_same option.distinct(1))

end

definition cache_ok :: "def_cache \<Rightarrow> bool" where
  "cache_ok c \<longleftrightarrow> distinct (map fst c)"

lemma dict_assign_keys: "fst ` set (dict_assign k v c) = insert k (fst ` set c)"
  by (induction k v c rule: dict_assign.induct) auto

lemma dict_assign_distinct: "distinct (map fst c) \<Longrightarrow> distinct (map fst (dict_assign k v c))"
  by (induction k v c rule: dict_assign.induct) (auto simp: dict_assign_keys)

lemma dict_assign_lookup: "map_of (dict_assign k v c) k' = (if k' = k then Some v else map_of c k')"
  by (induction k v c rule: dict_assign.induct) auto

lemma map_of_tl:
  assumes "distinct (map fst c)" "map_of (tl c) k = Some v"
  shows "map_of c k = Some v"
  using assms by (cases c) (auto split: if_splits dest: map_of_SomeD intro: rev_image_eqI)

lemma map_of_filter_key:
  "map_of (filter (\<lambda>e. fst e \<noteq> k) c) k' = (if k' = k then None else map_of c k')"
  by (induction c) auto

interpretation dc: keyed_cache "\<lambda>c (ws, ty). cache_get ws ty c" "\<lambda>(ws, ty). cache_put ws ty"
  "\<lambda>(ws, ty). cache_invalidate ws ty" cache_ok
proof
  fix c :: def_cache and k k' :: "uuid \<times> string" and v w :: definition_dto
  obtain ws ty where k: "k = (ws, ty)" by (cases k)
  obtain ws' ty' where k': "k' = (ws', ty')" by (cases k')
  assume ok: "cache_ok c"
  show "(case k of (ws, ty) \<Rightarrow> cache_get ws ty ((case k of (ws, ty) \<Rightarrow> cache_put ws ty) v c)) = Some v"
    by (simp add: k cache_get_def cache_put_def dict_assign_lookup)
  show "(case k' of (ws, ty) \<Rightarrow> cache_get ws ty c) = Some w"
    if "k' \<noteq> k" "(case k' of (ws, ty) \<Rightarrow> cache_get ws ty ((case k of (ws, ty) \<Rightarrow> cache_put ws ty) v c)) = Some w"
    using that ok map_of_tl [of c k' w]
    by (auto simp: k k' cache_get_def cache_put_def dict_assign_lookup cache_ok_def split: if_splits)
  show "(case k of (ws, ty) \<Rightarrow> cache_get ws ty ((case k of (ws, ty) \<Rightarrow> cache_invalidate ws ty) c)) = None"
    by (simp add: k cache_get_def cache_invalidate_def map_of_filter_key)
  show "(case k' of (ws, ty) \<Rightarrow> cache_get ws ty ((case k of (ws, ty) \<Rightarrow> cache_invalidate ws ty) c)) =
      (case k' of (ws, ty) \<Rightarrow> cache_get ws ty c)" if "k' \<noteq> k"
    using that by (auto simp: k k' cache_get_def cache_invalidate_def map_of_filter_key)
  show "cache_ok ((case k of (ws, ty) \<Rightarrow> cache_put ws ty) v c)"
    using ok by (cases c) (auto simp: k cache_ok_def cache_put_def intro: dict_assign_distinct)
  show "cache_ok ((case k of (ws, ty) \<Rightarrow> cache_invalidate ws ty) c)"
    using ok by (simp add: k cache_ok_def cache_invalidate_def distinct_map_filter)
qed

subsection \<open>Coherence of the process with its database\<close>

definition stored_def :: "wf_db \<Rightarrow> uuid \<times> string \<Rightarrow> definition_dto option" where
  "stored_def db k = map_option dto_from_orm (find_def (fst k) (snd k) db)"

definition cache_coherent :: "wf_db \<Rightarrow> bool" where
  "cache_coherent db \<longleftrightarrow> cache_ok (db_cache db) \<and>
     (\<forall>ws ty dto. cache_get ws ty (db_cache db) = Some dto \<longrightarrow> get_definition ws ty db = Inr dto)"

lemma get_definition_stored: "get_definition ws ty db = Inr dto \<longleftrightarrow> stored_def db (ws, ty) = Some dto"
  by (auto simp: get_definition_def stored_def_def split: option.splits)

lemma cache_coherent_dc: "cache_coherent db \<longleftrightarrow> cache_ok (db_cache db) \<and> dc.coherent (stored_def db) (db_cache db)"
  by (simp add: cache_coherent_def dc.coherent_def get_definition_stored)

lemma load_definition_fields [simp]:
  "db_defs (snd (load_definition ws ty db)) = db_defs db" "db_items (snd (load_definition ws ty db)) = db_items db"
  "db_history (snd (load_definition ws ty db)) = db_history db"
  "db_globals (snd (load_definition ws ty db)) = db_globals db" "db_next (snd (load_definition ws ty db)) = db_next db"
  by (auto simp: load_definition_def split: option.splits sum.splits)

lemma find_def_load [simp]: "find_def v u (snd (load_definition ws ty db)) = find_def v u db"
  by (simp add: find_def_def)

lemma load_definition_coherent:
  assumes "cache_coherent db"
  shows "fst (load_definition ws ty db) = map_option dto_from_orm (find_def ws ty db)"
    and "cache_coherent (snd (load_definition ws ty db))"
proof -
  have src: "stored_def (snd (load_definition ws ty db)) = stored_def db"
    by (simp add: fun_eq_iff stored_def_def)
  have ok: "cache_ok (db_cache db)" "dc.coherent (stored_def db) (db_cache db)"
    using assms by (simp_all add: cache_coherent_dc)
  show "fst (load_definition ws ty db) = map_option dto_from_orm (find_def ws ty db)"
  proof (cases "cache_get ws ty (db_cache db)")
    case None
    then show ?thesis by (simp add: load_definition_def get_definition_def split: option.split)
  next
    case (Some dto)
    then have "get_definition ws ty db = Inr dto" using assms by (auto simp: cache_coherent_def)
    with Some show ?thesis
      by (auto simp: load_definition_def get_definition_stored stored_def_def)
  qed
  show "cache_coherent (snd (load_definition ws ty db))"
  proof (cases "cache_get ws ty (db_cache db) = None \<and> find_def ws ty db \<noteq> None")
    case True
    then obtain r where r: "find_def ws ty db = Some r" by blast
    have "snd (load_definition ws ty db) = db\<lparr>db_cache := cache_put ws ty (dto_from_orm r) (db_cache db)\<rparr>"
      using True r by (simp add: load_definition_def get_definition_def)
    moreover have "stored_def db (ws, ty) = Some (dto_from_orm r)" using r by (simp add: stored_def_def)
    ultimately show ?thesis
      using dc.coherent_store [OF ok, of "(ws, ty)" "dto_from_orm r"]
        dc.wf_store [OF ok(1), of "(ws, ty)" "dto_from_orm r"] src
      by (simp add: cache_coherent_dc)
  next
    case False
    then have "snd (load_definition ws ty db) = db"
      by (auto simp: load_definition_def get_definition_def split: option.splits)
    then show ?thesis using assms by simp
  qed
qed

lemma invalidate_coherent:
  assumes "cache_ok (db_cache db)" "dc.coherent (stored_def db) (db_cache db)"
    and "db_cache db' = db_cache db" "\<And>v u. (v, u) \<noteq> (ws, ty) \<Longrightarrow> find_def v u db' = find_def v u db"
  shows "cache_coherent (invalidate_cache ws ty db')"
proof -
  have "dc.coherent (stored_def db') (cache_invalidate ws ty (db_cache db))"
    using dc.coherent_drop [of "db_cache db" "stored_def db" "(ws, ty)" "stored_def db'"] assms(1,2,4)
    by (auto simp: stored_def_def)
  moreover have "stored_def (invalidate_cache ws ty db') = stored_def db'"
    by (simp add: fun_eq_iff stored_def_def invalidate_cache_def find_def_def)
  ultimately show ?thesis
    using dc.wf_drop [of "db_cache db" "(ws, ty)"] assms(1,3)
    by (simp add: cache_coherent_dc invalidate_cache_def)
qed

end
