(* ===== verification/State_Reader.thy ===== *)
theory State_Reader
  imports Definition_Cache "HOL-Library.List_Lexorder" "HOL-Library.Char_ord" "HOL-Library.Product_Lexorder"
begin

text \<open>
  The tables the workflow rules read besides the workflow tables, the status projection over them
  (\<^verbatim>\<open>workflow/state_reader.py\<close>) and the evidence helpers of the coverage calculator
  (\<^verbatim>\<open>traceability/coverage_calculator.py\<close>) that the rules call.

  An \<open>entity\<close> is a row of one of the specialised tables (\<open>e_type\<close> names the table); its columns other than
  the keys are a map from attribute names. Rows belong to the active tenant.
\<close>

subsection \<open>Tables\<close>

datatype attr = VNone | VStr string | VSeq nat | VBool bool | VInt int

record entity =
  e_type :: string
  e_pk :: uuid
  e_artifact :: "uuid option"
  e_tenant :: "uuid option"
  e_attrs :: "string \<Rightarrow> attr option"

record artifact_row =
  a_id :: uuid
  a_ws :: uuid
  a_lifecycle :: string

record trace_link =
  l_type :: string
  l_source :: uuid
  l_target :: uuid

text \<open>A test run result; \<open>r_test_case\<close> is the primary key of the test case, \<open>r_executed\<close> may be NULL.\<close>

record run_row =
  r_id :: nat
  r_test_case :: "uuid option"
  r_status :: string
  r_executed :: "instant option"

text \<open>\<open>w_notified\<close> records the calls of \<open>notify_transition_pending\<close>.\<close>

record notification =
  nt_item :: uuid
  nt_type :: string
  nt_ws :: uuid
  nt_state :: string
  nt_actor :: uuid

record world =
  w_db :: wf_db
  w_entities :: "entity list"
  w_artifacts :: "artifact_row list"
  w_links :: "trace_link list"
  w_runs :: "run_row list"
  w_notified :: "notification list"

text \<open>A text column holds text or NULL: \<open>getattr(e, n, "") or ""\<close>.\<close>

definition text_attr :: "entity \<Rightarrow> string \<Rightarrow> string" where
  "text_attr e n = (case e_attrs e n of Some (VStr s) \<Rightarrow> s | _ \<Rightarrow> [])"

definition flag_attr :: "entity \<Rightarrow> string \<Rightarrow> bool" where
  "flag_attr e n = (e_attrs e n = Some (VBool True))"

text \<open>\<open>Model.objects.filter(pk=...).first()\<close>.\<close>

definition find_entity :: "string \<Rightarrow> uuid \<Rightarrow> world \<Rightarrow> entity option" where
  "find_entity ty i w = find (\<lambda>e. e_type e = ty \<and> e_pk e = i) (w_entities w)"

definition find_artifact :: "uuid \<Rightarrow> world \<Rightarrow> artifact_row option" where
  "find_artifact a w = find (\<lambda>r. a_id r = a) (w_artifacts w)"

subsection \<open>Soft deletion and the status projection\<close>

definition OUTDATED_STATUS :: string where
  "OUTDATED_STATUS = ''outdated''"

definition ACTIVE_STATUS :: string where
  "ACTIVE_STATUS = ''active''"

text \<open>The keys of \<open>ARTIFACT_TYPE_MODELS\<close> (\<^verbatim>\<open>persistence/artifact_backing.py\<close>).\<close>

definition ARTIFACT_TYPES :: "string list" where
  "ARTIFACT_TYPES =
     [''Requirement'', ''StakeholderNeed'', ''ArchitectureElement'', ''TestCase'', ''GlossaryTerm'', ''Adr'',
      ''Risk'', ''Issue'', ''Goal'', ''MainGoal'', ''ChangeRequest'', ''Diagram'', ''Icd'', ''Document'',
      ''WorkItem'']"

definition soft_deleted :: "world \<Rightarrow> entity \<Rightarrow> bool" where
  "soft_deleted w e =
     (case e_artifact e of
        None \<Rightarrow> False
      | Some a \<Rightarrow> (case find_artifact a w of None \<Rightarrow> False | Some r \<Rightarrow> a_lifecycle r = OUTDATED_STATUS))"

definition outdated_ids :: "string \<Rightarrow> world \<Rightarrow> uuid list" where
  "outdated_ids ty w =
     (if ty \<in> set ARTIFACT_TYPES
      then map e_pk (filter (\<lambda>e. e_type e = ty \<and> soft_deleted w e) (w_entities w)) else [])"

definition current_states :: "string \<Rightarrow> uuid list \<Rightarrow> world \<Rightarrow> uuid \<Rightarrow> string option" where
  "current_states ty ids w =
     (let rows = filter (\<lambda>i. i_type i = ty \<and> i_item i \<in> set ids) (db_items (w_db w));
          states = map_of (rev (map (\<lambda>i. (i_item i, i_state i)) rows));
          gone = filter (\<lambda>x. x \<in> set ids) (outdated_ids ty w)
      in states ++ map_of (map (\<lambda>x. (x, OUTDATED_STATUS)) gone))"

definition current_state :: "string \<Rightarrow> uuid \<Rightarrow> world \<Rightarrow> string option" where
  "current_state ty i w = current_states ty [i] w i"

definition item_ids_in_state :: "string \<Rightarrow> string \<Rightarrow> world \<Rightarrow> uuid list" where
  "item_ids_in_state ty s w =
     map i_item (filter (\<lambda>i. i_type i = ty \<and> i_state i = s) (db_items (w_db w)))"

definition item_ids_with_status :: "string \<Rightarrow> string \<Rightarrow> world \<Rightarrow> uuid list" where
  "item_ids_with_status ty s w =
     (if s = OUTDATED_STATUS then outdated_ids ty w else item_ids_in_state ty s w)"

definition TIER_DRIVEN_INITIAL_STATES :: "(string \<times> string) list" where
  "TIER_DRIVEN_INITIAL_STATES = [(''Requirement'', ''draft''), (''WorkItem'', ''todo'')]"

text \<open>\<open>None\<close> is the \<open>KeyError\<close> of an unknown item type.\<close>

definition type_initial_state :: "string \<Rightarrow> string option" where
  "type_initial_state ty =
     (case map_of TIER_DRIVEN_INITIAL_STATES ty of
        Some s \<Rightarrow> Some s
      | None \<Rightarrow>
          (case map_of WORKFLOW_ITEM_TYPES ty of
             None \<Rightarrow> None
           | Some p \<Rightarrow>
               (case map_of PRESET_SCHEMAS p of
                  None \<Rightarrow> None
                | Some schema \<Rightarrow> (case wf_states schema of [] \<Rightarrow> None | s # _ \<Rightarrow> Some s))))"

subsection \<open>Verification evidence\<close>

definition ORIGIN_AI_GENERATED :: string where
  "ORIGIN_AI_GENERATED = ''ai_generated''"

definition counts_as_verification_evidence :: "string \<Rightarrow> bool \<Rightarrow> bool" where
  "counts_as_verification_evidence origin reviewed = (\<not> (origin = ORIGIN_AI_GENERATED \<and> \<not> reviewed))"

text \<open>\<open>TestCase.objects.filter(artifact_id__in=...)\<close>.\<close>

definition load_testcase_rows :: "uuid list \<Rightarrow> world \<Rightarrow> entity list" where
  "load_testcase_rows artifact_ids w =
     filter (\<lambda>e. e_type e = ''TestCase'' \<and> e_artifact e \<in> Some ` set artifact_ids) (w_entities w)"

text \<open>\<open>states.get(id) or initial_state\<close>.\<close>

definition state_or_initial :: "string option \<Rightarrow> string \<Rightarrow> string" where
  "state_or_initial s d = (case s of None \<Rightarrow> d | Some x \<Rightarrow> py_or x d)"

definition outdated_testcase_row_ids :: "entity list \<Rightarrow> world \<Rightarrow> uuid list" where
  "outdated_testcase_row_ids rows w =
     (let states = current_states ''TestCase'' (map e_pk rows) w;
          d = (case type_initial_state ''TestCase'' of Some s \<Rightarrow> s | None \<Rightarrow> [])
      in map e_pk (filter (\<lambda>r. state_or_initial (states (e_pk r)) d = OUTDATED_STATUS) rows))"

definition filter_to_testcase_ids :: "uuid list \<Rightarrow> bool \<Rightarrow> bool \<Rightarrow> world \<Rightarrow> uuid list" where
  "filter_to_testcase_ids source_ids include_outdated include_unreviewed_ai w =
     (if source_ids = [] then []
      else let rows = load_testcase_rows source_ids w;
               outdated = (if include_outdated then [] else outdated_testcase_row_ids rows w)
           in map (\<lambda>r. the (e_artifact r))
                (filter (\<lambda>r. e_pk r \<notin> set outdated \<and>
                   (include_unreviewed_ai \<or>
                    counts_as_verification_evidence (text_attr r ''origin'') (flag_attr r ''reviewed''))) rows))"

definition exclude_outdated_testcase_ids :: "uuid list \<Rightarrow> bool \<Rightarrow> world \<Rightarrow> uuid list" where
  "exclude_outdated_testcase_ids ids include_unreviewed_ai w =
     filter_to_testcase_ids ids False include_unreviewed_ai w"

definition STATUS_LABELS :: "(string \<times> string) list" where
  "STATUS_LABELS =
     [(''passed'', ''Passed''), (''failed'', ''Failed''), (''blocked'', ''Blocked''), (''not_run'', ''Not Run'')]"

text \<open>\<open>test_case__artifact_id\<close> of a run result.\<close>

definition run_artifact :: "world \<Rightarrow> run_row \<Rightarrow> uuid option" where
  "run_artifact w r =
     (case r_test_case r of
        None \<Rightarrow> None
      | Some t \<Rightarrow> (case find_entity ''TestCase'' t w of None \<Rightarrow> None | Some e \<Rightarrow> e_artifact e))"

text \<open>
  The order of the query: most recent \<open>executed_at\<close> first, NULL last, then the highest id. The grouping by
  test case does not change which row is the first of its test case.
\<close>

definition recency_key :: "run_row \<Rightarrow> nat \<times> int \<times> int" where
  "recency_key r =
     (case r_executed r of
        Some t \<Rightarrow> (0, - t, - int (r_id r))
      | None \<Rightarrow> (1, 0, - int (r_id r)))"

definition latest_testrun_status :: "uuid list \<Rightarrow> world \<Rightarrow> uuid \<Rightarrow> string option" where
  "latest_testrun_status ids w =
     (if ids = [] then Map.empty
      else let rows = sort_key recency_key (filter (\<lambda>r. run_artifact w r \<in> Some ` set ids) (w_runs w))
           in map_of (map (\<lambda>r. (the (run_artifact w r),
                case map_of STATUS_LABELS (r_status r) of Some l \<Rightarrow> l | None \<Rightarrow> ''Not Run'')) rows))"

subsection \<open>Facts about the projection and the evidence helpers\<close>

lemma map_of_pairs: "map_of (map (\<lambda>r. (f r, g r)) xs) k = map_option g (find (\<lambda>r. f r = k) xs)"
  by (induction xs) auto

lemma map_of_const: "map_of (map (\<lambda>x. (x, c)) xs) k = (if k \<in> set xs then Some c else None)"
  by (induction xs) auto

lemma find_filter_conv: "find P (filter Q xs) = find (\<lambda>x. Q x \<and> P x) xs"
  by (induction xs) auto

text \<open>The overlay: a soft-deleted item of a backed type shows \<open>outdated\<close>, every other item its workflow state.\<close>

lemma current_states_overlay:
  assumes "i \<in> set ids"
  shows "current_states ty ids w i =
     (if i \<in> set (outdated_ids ty w) then Some OUTDATED_STATUS
      else map_option i_state (find (\<lambda>x. i_type x = ty \<and> i_item x = i) (rev (db_items (w_db w)))))"
proof -
  have "find (\<lambda>x. i_item x = i) (rev (filter (\<lambda>x. i_type x = ty \<and> i_item x \<in> set ids) (db_items (w_db w)))) =
      find (\<lambda>x. i_type x = ty \<and> i_item x = i) (rev (db_items (w_db w)))"
    unfolding rev_filter find_filter_conv using assms by (intro arg_cong2 [of _ _ _ _ find]) auto
  with assms show ?thesis
    by (simp add: current_states_def Let_def map_add_def map_of_const map_of_pairs rev_map)
qed

lemmas current_state_overlay = current_states_overlay [of i "[i]" for i, folded current_state_def, simplified]

text \<open>Restricting the query to a set of ids does not change the status of an id in it.\<close>

lemma current_states_member: "i \<in> set ids \<Longrightarrow> current_states ty ids w i = current_state ty i w"
  by (simp add: current_states_overlay current_state_overlay)

lemma find_sort_key_least:
  assumes "find P (sort_key k xs) = Some r"
  shows "P r" "r \<in> set xs" "\<And>r'. r' \<in> set xs \<Longrightarrow> P r' \<Longrightarrow> k r \<le> k r'"
proof -
  from assms show "P r" "r \<in> set xs" using find_SomeD [of P "sort_key k xs" r] by simp_all
  fix r' assume r': "r' \<in> set xs" "P r'"
  from assms obtain i where i: "i < length (sort_key k xs)" "P (sort_key k xs ! i)" "r = sort_key k xs ! i"
      "\<forall>j<i. \<not> P (sort_key k xs ! j)"
    by (auto simp: find_Some_iff)
  from r' obtain j where j: "j < length (sort_key k xs)" "sort_key k xs ! j = r'"
    by (metis in_set_conv_nth set_sort)
  with i r' have "i \<le> j" by (metis not_less)
  moreover have "sorted (map k (sort_key k xs))" by simp
  ultimately show "k r \<le> k r'"
    using i j sorted_iff_nth_mono [of "map k (sort_key k xs)"] by auto
qed

lemma find_sort_key_None: "find P (sort_key k xs) = None \<longleftrightarrow> (\<forall>r\<in>set xs. \<not> P r)"
  by (simp add: find_None_set)

text \<open>\<open>r\<close> is at least as recent as \<open>r'\<close>: executed runs before unexecuted ones, later before earlier.\<close>

definition as_recent :: "run_row \<Rightarrow> run_row \<Rightarrow> bool" where
  "as_recent r r' \<longleftrightarrow>
     (case (r_executed r, r_executed r') of
        (Some t, Some t') \<Rightarrow> t' < t \<or> t' = t \<and> r_id r' \<le> r_id r
      | (Some t, None) \<Rightarrow> True
      | (None, Some t') \<Rightarrow> False
      | (None, None) \<Rightarrow> r_id r' \<le> r_id r)"

lemma recency_key_le: "recency_key r \<le> recency_key r' \<longleftrightarrow> as_recent r r'"
  by (auto simp: recency_key_def as_recent_def split: option.split)

definition newest_run :: "world \<Rightarrow> uuid \<Rightarrow> run_row \<Rightarrow> bool" where
  "newest_run w a r \<longleftrightarrow> r \<in> set (w_runs w) \<and> run_artifact w r = Some a \<and>
     (\<forall>r'\<in>set (w_runs w). run_artifact w r' = Some a \<longrightarrow> as_recent r r')"

lemma passed_label: "(case map_of STATUS_LABELS s of Some l \<Rightarrow> l | None \<Rightarrow> ''Not Run'') = ''Passed'' \<longleftrightarrow> s = ''passed''"
  by (auto simp: STATUS_LABELS_def split: if_splits)

lemma latest_testrun_status_passed:
  assumes "a \<in> set ids" "distinct (map r_id (w_runs w))"
  shows "latest_testrun_status ids w a = Some ''Passed'' \<longleftrightarrow> (\<exists>r. newest_run w a r \<and> r_status r = ''passed'')"
proof -
  let ?rows = "filter (\<lambda>r. run_artifact w r \<in> Some ` set ids) (w_runs w)"
  let ?P = "\<lambda>r. the (run_artifact w r) = a"
  have P: "?P r \<longleftrightarrow> run_artifact w r = Some a" if "r \<in> set ?rows" for r using that by auto
  have ne: "ids \<noteq> []" using assms(1) by auto
  have lt: "latest_testrun_status ids w a =
      map_option (\<lambda>r. case map_of STATUS_LABELS (r_status r) of Some l \<Rightarrow> l | None \<Rightarrow> ''Not Run'')
        (find ?P (sort_key recency_key ?rows))"
    using ne by (simp add: latest_testrun_status_def Let_def map_of_pairs)
  have newest: "newest_run w a r" if "find ?P (sort_key recency_key ?rows) = Some r" for r
    using find_sort_key_least [OF that] P assms(1) by (auto simp: newest_run_def recency_key_le)
  have uniq: "r = r0" if "newest_run w a r" "newest_run w a r0" for r r0
  proof -
    from that have "as_recent r r0" "as_recent r0 r" by (auto simp: newest_run_def)
    then have "r_id r = r_id r0" by (auto simp: as_recent_def split: option.splits)
    then show ?thesis using that assms(2) by (auto simp: newest_run_def distinct_map dest: inj_onD)
  qed
  have some: "\<exists>r0. find ?P (sort_key recency_key ?rows) = Some r0" if "newest_run w a r" for r
  proof -
    have "r \<in> set ?rows" "?P r" using that assms(1) by (auto simp: newest_run_def)
    then have "find ?P (sort_key recency_key ?rows) \<noteq> None" unfolding find_sort_key_None by blast
    then show ?thesis by blast
  qed
  show ?thesis
  proof
    assume "latest_testrun_status ids w a = Some ''Passed''"
    then obtain r where "find ?P (sort_key recency_key ?rows) = Some r" "r_status r = ''passed''"
      unfolding lt map_option_eq_Some passed_label by blast
    then show "\<exists>r. newest_run w a r \<and> r_status r = ''passed''" using newest by blast
  next
    assume "\<exists>r. newest_run w a r \<and> r_status r = ''passed''"
    then obtain r where r: "newest_run w a r" "r_status r = ''passed''" by blast
    then obtain r0 where r0: "find ?P (sort_key recency_key ?rows) = Some r0" using some by blast
    then have "r0 = r" using newest uniq r by blast
    then show "latest_testrun_status ids w a = Some ''Passed''"
      unfolding lt map_option_eq_Some passed_label using r0 r by blast
  qed
qed

end
