(* ===== verification/Workflow_Rules.thy ===== *)
theory Workflow_Rules
  imports State_Reader
begin

text \<open>
  The data preconditions of workflow transitions (\<^verbatim>\<open>workflow/precondition_rules.py\<close>, rules 5 to 10) and the
  definition-scoped mandatory fields (\<^verbatim>\<open>attribute_definitions/mandatory_fields.py\<close>).

  A rule returns \<open>None\<close> when it has no objection. Every rule is fail-open: what cannot be evaluated is
  not an objection. Which of the database accesses of the rules raise is a parameter (\<open>n_fault\<close>), as are the
  preset lookup (\<open>n_preset\<close>, the function \<open>get_preset\<close>) and the attribute definition store (\<open>n_resolve\<close>).
\<close>

subsection \<open>Environment\<close>

datatype query =
    Load_entity | Verification_query | Verifies_query | Requirement_query | Steps_query
  | Document_workflow_query | Document_items_query | Work_item_query | Password_query

record attribute =
  at_name :: string
  at_required :: bool
  at_visible :: bool
  at_section :: string
  at_type :: string
  at_editable :: string

record attr_section =
  s_name :: string
  s_visible :: bool

record attr_definition =
  df_attributes :: "attribute list"
  df_sections :: "attr_section list"

text \<open>\<open>SchemaError\<close> also stands for a stored definition that does not parse.\<close>

datatype resolve_error =
    AttributeDefinitionNotFound
  | AttributeDefinitionConflictError string
  | SchemaError
  | ResolveFailure

text \<open>
  \<open>n_password\<close>: the password hash of a user (\<open>None\<close>: no such user or no hash); \<open>n_check\<close>: Django's
  \<open>check_password\<close>; \<open>n_key\<close>: the HMAC key (\<open>[]\<close> when neither source is configured); \<open>n_hmac\<close>: hex HMAC-SHA256
  of a message; \<open>n_iso\<close>: \<open>datetime.isoformat\<close>; \<open>n_now\<close>: the clock.
\<close>

record env =
  n_preset :: "uuid \<Rightarrow> preset_error + preset_config"
  n_resolve :: "uuid \<Rightarrow> uuid \<Rightarrow> string \<Rightarrow> string \<Rightarrow> resolve_error + attr_definition"
  n_fault :: "query \<Rightarrow> bool"
  n_password :: "uuid \<Rightarrow> string option"
  n_check :: "string \<Rightarrow> string \<Rightarrow> bool"
  n_key :: string
  n_hmac :: "string \<Rightarrow> string \<Rightarrow> string"
  n_iso :: "instant \<Rightarrow> string"
  n_now :: instant

type_synonym violation = "string \<times> string"

record gate_detail =
  gd_gate :: string
  gd_message :: string
  gd_missing_fields :: "string list option"

subsection \<open>State recognition\<close>

definition is_approval_transition :: "string \<Rightarrow> bool" where
  "is_approval_transition target = (py_lower (py_strip target) \<in> {''approved''})"

definition is_verification_transition :: "string \<Rightarrow> bool" where
  "is_verification_transition target = (py_lower (py_strip target) \<in> {''verified''})"

subsection \<open>Entities\<close>

text \<open>The keys of \<open>_ENTITY_MODELS\<close>; each names the table of the same name.\<close>

definition ENTITY_MODELS :: "string list" where
  "ENTITY_MODELS =
     [''Requirement'', ''StakeholderNeed'', ''TestCase'', ''ArchitectureElement'', ''Adr'', ''Risk'', ''Issue'',
      ''ChangeRequest'', ''Goal'', ''MainGoal'', ''GlossaryTerm'', ''Icd'', ''Diagram'', ''Document'']"

definition APPROVAL_GATE_EXEMPT_TYPES :: "string list" where
  "APPROVAL_GATE_EXEMPT_TYPES = [''ChangeRequest'']"

definition FIELD_ALIASES :: "(string \<times> string list) list" where
  "FIELD_ALIASES =
     [(''priority'', [''priority'', ''moscow_priority'']), (''classification'', [''classification'', ''type''])]"

definition REQUEST_LEVEL_FIELDS :: "string list" where
  "REQUEST_LEVEL_FIELDS = [''change_reason'']"

definition GRAPH_LEVEL_FIELDS :: "string list" where
  "GRAPH_LEVEL_FIELDS = [''traceability_target'']"

definition load_entity :: "env \<Rightarrow> string \<Rightarrow> uuid \<Rightarrow> world \<Rightarrow> entity option" where
  "load_entity n ty i w =
     (if ty \<notin> set ENTITY_MODELS then None
      else if n_fault n Load_entity then None
      else find_entity ty i w)"

fun is_blank :: "attr \<Rightarrow> bool" where
  "is_blank VNone = True"
| "is_blank (VStr s) = (py_strip s = [])"
| "is_blank (VSeq k) = (k = 0)"
| "is_blank (VBool b) = False"
| "is_blank (VInt i) = False"

definition get_attr :: "entity \<Rightarrow> string \<Rightarrow> attr" where
  "get_attr e a = (case e_attrs e a of Some v \<Rightarrow> v | None \<Rightarrow> VNone)"

definition resolve_attribute :: "entity \<Rightarrow> string \<Rightarrow> string option" where
  "resolve_attribute e f =
     find (\<lambda>c. e_attrs e c \<noteq> None) (case map_of FIELD_ALIASES f of Some cs \<Rightarrow> cs | None \<Rightarrow> [f])"

subsection \<open>Mandatory fields of a definition\<close>

definition required_attribute_names :: "attr_definition \<Rightarrow> string list" where
  "required_attribute_names d =
     (let hidden = map s_name (filter (\<lambda>s. \<not> s_visible s) (df_sections d))
      in map at_name (filter (\<lambda>a. at_required a \<and> at_visible a \<and> at_section a \<notin> set hidden \<and>
            at_type a \<noteq> ''widget'' \<and> at_editable a \<noteq> ''workflow'') (df_attributes d)))"

text \<open>\<open>tuple(dict.fromkeys(xs))\<close>: the first occurrence of each element.\<close>

definition py_unique :: "'a list \<Rightarrow> 'a list" where
  "py_unique xs = rev (remdups (rev xs))"

definition scoped_mandatory_fields ::
  "env \<Rightarrow> uuid option \<Rightarrow> uuid \<Rightarrow> string \<Rightarrow> string \<Rightarrow> resolve_error + string list" where
  "scoped_mandatory_fields n tenant ws ty preset =
     (case (if ty = ''Requirement''
            then (case get_preset_config preset of Inl e \<Rightarrow> None | Inr c \<Rightarrow> Some (pc_mandatory_fields c))
            else Some []) of
        None \<Rightarrow> Inl ResolveFailure
      | Some legacy \<Rightarrow>
          (case tenant of
             None \<Rightarrow> Inr legacy
           | Some t \<Rightarrow>
               if ws = [] then Inr legacy
               else (case n_resolve n t ws ty preset of
                       Inl AttributeDefinitionNotFound \<Rightarrow> Inr legacy
                     | Inl e \<Rightarrow> Inl e
                     | Inr d \<Rightarrow> Inr (py_unique (required_attribute_names d @ legacy)))))"

subsection \<open>Rule 5: mandatory fields\<close>

fun missing_fields :: "entity \<Rightarrow> string \<Rightarrow> string list \<Rightarrow> string list \<Rightarrow> string list" where
  "missing_fields e reason seen [] = []"
| "missing_fields e reason seen (f # fs) =
     (if f \<in> set GRAPH_LEVEL_FIELDS then missing_fields e reason seen fs
      else if f \<in> set REQUEST_LEVEL_FIELDS then
        (if is_blank (VStr reason) then f # missing_fields e reason seen fs else missing_fields e reason seen fs)
      else case resolve_attribute e f of
             None \<Rightarrow> missing_fields e reason seen fs
           | Some a \<Rightarrow>
               if a \<in> set seen then missing_fields e reason seen fs
               else if is_blank (get_attr e a) then f # missing_fields e reason (a # seen) fs
               else missing_fields e reason (a # seen) fs)"

definition check_mandatory_fields ::
  "env \<Rightarrow> uuid \<Rightarrow> string \<Rightarrow> uuid \<Rightarrow> string \<Rightarrow> string \<Rightarrow> world \<Rightarrow> violation option" where
  "check_mandatory_fields n ws ty i target reason w =
     (if \<not> is_approval_transition target then None
      else if ty \<in> set APPROVAL_GATE_EXEMPT_TYPES then None
      else case n_preset n ws of
             Inl _ \<Rightarrow> None
           | Inr c \<Rightarrow>
               (case load_entity n ty i w of
                  None \<Rightarrow> None
                | Some e \<Rightarrow>
                    (case scoped_mandatory_fields n (e_tenant e) ws ty (pc_tier c) of
                       Inl (AttributeDefinitionConflictError m) \<Rightarrow>
                         Some (''ATTRIBUTE_DEFINITION_CONFLICT'',
                               ''Cannot approve this '' @ ty @ '': the workspace attribute definition conflicts with the current '' @
                               sq (pc_tier c) @ '' preset. '' @ m)
                     | Inl _ \<Rightarrow> None
                     | Inr mandatory \<Rightarrow>
                         (if mandatory = [] then None
                          else let missing = missing_fields e reason [] mandatory
                               in if missing = [] then None
                                  else Some (''MANDATORY_FIELDS_MISSING'',
                                         ''Cannot approve this '' @ ty @ '': the '' @ sq (pc_tier c) @
                                         '' preset requires the following field(s) to be filled in first: '' @
                                         py_join '', '' (sort missing) @ ''.'')))))"

subsection \<open>Rule 6: verification evidence\<close>

definition LINK_VERIFIES :: string where
  "LINK_VERIFIES = ''verifies''"

definition verifies_sources :: "uuid option \<Rightarrow> world \<Rightarrow> uuid list" where
  "verifies_sources target w =
     remdups (map l_source (filter (\<lambda>l. l_type l = LINK_VERIFIES \<and> Some (l_target l) = target) (w_links w)))"

definition not_passed_label :: "(uuid \<Rightarrow> string option) \<Rightarrow> uuid \<Rightarrow> string" where
  "not_passed_label latest tc =
     tc @ '' ('' @ (case latest tc of Some l \<Rightarrow> l | None \<Rightarrow> ''Not Run'') @ '')''"

definition check_verification_evidence :: "env \<Rightarrow> string \<Rightarrow> uuid \<Rightarrow> string \<Rightarrow> world \<Rightarrow> violation option" where
  "check_verification_evidence n ty i target w =
     (if \<not> is_verification_transition target then None
      else if ty \<notin> {''Requirement''} then None
      else if n_fault n Verification_query then None
      else case find_entity ''Requirement'' i w of
             None \<Rightarrow> None
           | Some requirement \<Rightarrow>
               (let linked = verifies_sources (e_artifact requirement) w;
                    ids = (if linked = [] then [] else exclude_outdated_testcase_ids linked False w)
                in if ids = []
                   then Some (''VERIFICATION_EVIDENCE_MISSING'',
                     ''Cannot mark this Requirement as verified: it has no active TestCase linked via a 'verifies' trace link, or its only linked test case is an unreviewed AI-generated test case. Link at least one TestCase, review it, and record a passing test run first.'')
                   else let latest = latest_testrun_status ids w;
                            not_passed = sort (map (not_passed_label latest) (filter (\<lambda>t. latest t \<noteq> Some ''Passed'') ids))
                        in if not_passed = [] then None
                           else Some (''VERIFICATION_EVIDENCE_MISSING'',
                             ''Cannot mark this Requirement as verified: the latest test run of the following verifying TestCase(s) is not 'Passed': '' @
                             py_join '', '' not_passed @ ''.'')))"

subsection \<open>Rule 7: verifies link of a test case\<close>

definition in_workspace :: "uuid \<Rightarrow> world \<Rightarrow> entity \<Rightarrow> bool" where
  "in_workspace ws w e =
     (case e_artifact e of None \<Rightarrow> False
      | Some a \<Rightarrow> (case find_artifact a w of None \<Rightarrow> False | Some r \<Rightarrow> a_ws r = ws))"

definition linked_rows :: "string \<Rightarrow> uuid list \<Rightarrow> uuid \<Rightarrow> world \<Rightarrow> entity list" where
  "linked_rows ty target_ids ws w =
     filter (\<lambda>e. e_type e = ty \<and> e_artifact e \<in> Some ` set target_ids \<and> in_workspace ws w e) (w_entities w)"

definition live_target_exists :: "uuid list \<Rightarrow> uuid \<Rightarrow> world \<Rightarrow> bool" where
  "live_target_exists target_ids ws w =
     (if target_ids = [] then False
      else let req_rows = linked_rows ''Requirement'' target_ids ws w;
               states = current_states ''Requirement'' (map e_pk req_rows) w;
               d = (case type_initial_state ''Requirement'' of Some s \<Rightarrow> s | None \<Rightarrow> [])
           in list_ex (\<lambda>r. state_or_initial (states (e_pk r)) d \<noteq> ''outdated'') req_rows \<or>
              list_ex (\<lambda>r. e_pk r \<notin> set (outdated_ids ''ArchitectureElement'' w))
                (linked_rows ''ArchitectureElement'' target_ids ws w))"

definition check_verifies_link :: "env \<Rightarrow> uuid \<Rightarrow> string \<Rightarrow> uuid \<Rightarrow> string \<Rightarrow> world \<Rightarrow> violation option" where
  "check_verifies_link n ws ty i target w =
     (if \<not> is_approval_transition target then None
      else if ty \<notin> {''TestCase''} then None
      else case n_preset n ws of
             Inl _ \<Rightarrow> None
           | Inr c \<Rightarrow>
               if ''traceability_target'' \<notin> set (pc_mandatory_fields c) then None
               else if n_fault n Verifies_query then None
               else (case find_entity ''TestCase'' i w of
                       None \<Rightarrow> None
                     | Some test_case \<Rightarrow>
                         (let target_ids = remdups (map l_target (filter (\<lambda>l. l_type l = LINK_VERIFIES \<and>
                                Some (l_source l) = e_artifact test_case) (w_links w)))
                          in if live_target_exists target_ids ws w then None
                             else Some (''VERIFIES_LINK_MISSING'',
                               ''Cannot approve this TestCase: the '' @ sq (pc_tier c) @
                               '' preset requires every TestCase to declare what it verifies. Link it to a Requirement or an Architecture Element with a 'verifies' trace link first.''))))"

subsection \<open>Rule 8: verification evidence on approval\<close>

text \<open>\<open>None\<close> from the source is falsy, so it is \<open>False\<close> here.\<close>

definition require_verification_flag :: "env \<Rightarrow> uuid \<Rightarrow> bool" where
  "require_verification_flag n ws =
     (case n_preset n ws of
        Inl _ \<Rightarrow> False
      | Inr c \<Rightarrow> map_of (pc_features c) ''require_verification_on_approval'' = Some True)"

definition NON_TEST_METHODS :: "string list" where
  "NON_TEST_METHODS = [''analysis'', ''inspection'', ''demonstration'']"

definition check_requirement_verification_evidence ::
  "env \<Rightarrow> uuid \<Rightarrow> string \<Rightarrow> uuid \<Rightarrow> string \<Rightarrow> world \<Rightarrow> violation option" where
  "check_requirement_verification_evidence n ws ty i target w =
     (if \<not> is_approval_transition target then None
      else if ty \<notin> {''Requirement''} then None
      else if \<not> require_verification_flag n ws then None
      else if n_fault n Requirement_query then None
      else case find_entity ''Requirement'' i w of
             None \<Rightarrow> None
           | Some requirement \<Rightarrow>
               if py_lower (py_strip (text_attr requirement ''verification_method'')) \<in> set NON_TEST_METHODS then None
               else if verifies_sources (e_artifact requirement) w \<noteq> [] then None
               else Some (''REQUIREMENT_VERIFICATION_MISSING'',
                 ''Cannot approve this Requirement: the workspace requires verification evidence. Either link a TestCase with a 'verifies' trace link, or set verification_method to one of 'Analysis', 'Inspection' or 'Demonstration'.''))"

definition STEPLESS_TEST_TYPES :: "string list" where
  "STEPLESS_TEST_TYPES = [''inspection'', ''analysis'', ''demonstration'']"

definition check_testcase_steps ::
  "env \<Rightarrow> uuid \<Rightarrow> string \<Rightarrow> uuid \<Rightarrow> string \<Rightarrow> world \<Rightarrow> violation option" where
  "check_testcase_steps n ws ty i target w =
     (if \<not> is_approval_transition target then None
      else if ty \<notin> {''TestCase''} then None
      else if \<not> require_verification_flag n ws then None
      else if n_fault n Steps_query then None
      else case find_entity ''TestCase'' i w of
             None \<Rightarrow> None
           | Some test_case \<Rightarrow>
               if py_lower (py_strip (text_attr test_case ''test_type'')) \<in> set STEPLESS_TEST_TYPES then None
               else if \<not> is_blank (get_attr test_case ''steps'') then None
               else Some (''TEST_STEPS_MISSING'',
                 ''Cannot approve this TestCase: it has no test steps. Record at least one step, or set test_type to 'Inspection', 'Analysis' or 'Demonstration' if the test is not a step-based procedure.''))"

subsection \<open>Rule 9: document release gates\<close>

definition is_freeze_transition :: "env \<Rightarrow> uuid \<Rightarrow> string \<Rightarrow> string \<Rightarrow> world \<Rightarrow> bool" where
  "is_freeze_transition n ws ty target w =
     (if ty \<noteq> ''Document'' then False
      else if n_fault n Document_workflow_query then False
      else case get_workflow_json ws ty (w_db w) of
             None \<Rightarrow> False
           | Some wj \<Rightarrow> state_flag wj target ''freeze_on_enter'')"

text \<open>The foreign key \<open>document_id\<close> of a work item is its attribute of that name.\<close>

definition document_work_items :: "env \<Rightarrow> uuid \<Rightarrow> world \<Rightarrow> entity list" where
  "document_work_items n d w =
     (if n_fault n Document_items_query then []
      else filter (\<lambda>e. e_type e = ''WorkItem'' \<and> e_attrs e ''document_id'' = Some (VStr d)) (w_entities w))"

definition DOCUMENT_OPEN_ITEM_STATES :: "string list" where
  "DOCUMENT_OPEN_ITEM_STATES = [''in_progress'', ''blocked'']"

definition open_items :: "entity list \<Rightarrow> world \<Rightarrow> uuid list" where
  "open_items items w =
     (let states = current_states ''WorkItem'' (map e_pk items) w
      in sort (map e_pk (filter (\<lambda>e.
           py_lower (py_strip (state_or_initial (states (e_pk e)) [])) \<in> set DOCUMENT_OPEN_ITEM_STATES) items)))"

definition dangling_items :: "entity list \<Rightarrow> world \<Rightarrow> uuid list" where
  "dangling_items items w =
     (let unlinked = filter (\<lambda>e. \<not> flag_attr e ''informational'' \<and> e_artifact e \<noteq> None) items;
          ends = map l_source (w_links w) @ map l_target (w_links w)
      in sort (map e_pk (filter (\<lambda>e. the (e_artifact e) \<notin> set ends) unlinked)))"

definition document_item_gate_violations :: "env \<Rightarrow> uuid \<Rightarrow> world \<Rightarrow> gate_detail list" where
  "document_item_gate_violations n d w =
     (let items = document_work_items n d w
      in if items = [] then []
         else (if open_items items w \<noteq> []
               then [\<lparr>gd_gate = ''G-1'',
                      gd_message = ''The document still has WorkItems in progress or blocked: '' @
                        py_join '', '' (open_items items w),
                      gd_missing_fields = None\<rparr>] else []) @
              (if dangling_items items w \<noteq> []
               then [\<lparr>gd_gate = ''G-2'',
                      gd_message = ''These WorkItems carry no trace link and are not marked informational: '' @
                        py_join '', '' (dangling_items items w),
                      gd_missing_fields = None\<rparr>] else []))"

definition policy_get :: "(string \<times> string list) list \<Rightarrow> string \<Rightarrow> string list" where
  "policy_get policy k = (case map_of policy k of Some fs \<Rightarrow> fs | None \<Rightarrow> [])"

definition document_missing_required_fields :: "entity \<Rightarrow> (string \<times> string list) list \<Rightarrow> string list" where
  "document_missing_required_fields e policy =
     (let kind = text_attr e ''kind'';
          required = (if policy_get policy kind \<noteq> [] then policy_get policy kind
                      else if policy_get policy ''*'' \<noteq> [] then policy_get policy ''*'' else [''title''])
      in sort (filter (\<lambda>f. is_blank (get_attr e f)) required))"

definition check_document_gates ::
  "env \<Rightarrow> uuid \<Rightarrow> string \<Rightarrow> uuid \<Rightarrow> string \<Rightarrow> world \<Rightarrow> (string \<times> string \<times> gate_detail list) option" where
  "check_document_gates n ws ty i target w =
     (if \<not> is_freeze_transition n ws ty target w then None
      else case load_entity n ty i w of
             None \<Rightarrow> None
           | Some e \<Rightarrow>
               (case n_preset n ws of
                  Inl _ \<Rightarrow> None
                | Inr c \<Rightarrow>
                    (let missing = document_missing_required_fields e (pc_document_mandatory_fields_by_kind c);
                         details = document_item_gate_violations n (e_pk e) w @
                           (if missing \<noteq> []
                            then [\<lparr>gd_gate = ''G-4'',
                                   gd_message = ''The document's kind requires these field(s) to be filled in before release: '' @
                                     py_join '', '' missing,
                                   gd_missing_fields = Some missing\<rparr>] else [])
                     in if details = [] then None
                        else Some (''DOCUMENT_GATE_FAILED'',
                               ''Cannot release this document: '' @ py_join '', '' (map gd_gate details) @
                               '' not satisfied.'', details))))"

subsection \<open>Rule 10: work items\<close>

definition check_work_item_preconditions ::
  "env \<Rightarrow> string \<Rightarrow> uuid \<Rightarrow> string \<Rightarrow> world \<Rightarrow> violation option" where
  "check_work_item_preconditions n ty i target w =
     (if ty \<noteq> ''WorkItem'' \<or> target \<noteq> ''blocked'' then None
      else if n_fault n Work_item_query then None
      else case find_entity ''WorkItem'' i w of
             None \<Rightarrow> None
           | Some item \<Rightarrow>
               if py_strip (text_attr item ''blocked_reason'') \<noteq> [] then None
               else Some (''WORK_ITEM_BLOCKED_REASON_REQUIRED'',
                      ''A WorkItem can only enter 'blocked' with a non-empty blocked_reason.''))"

subsection \<open>Dead policy fields\<close>

definition policy_fields_without_consumer ::
  "string list \<Rightarrow> string \<Rightarrow> string list \<Rightarrow> string list \<Rightarrow> string list" where
  "policy_fields_without_consumer pfs ty attributes columns =
     (if ty \<in> set APPROVAL_GATE_EXEMPT_TYPES \<or> ty \<notin> set ENTITY_MODELS then sort (remdups pfs)
      else sort (remdups (filter (\<lambda>f.
             f \<notin> set REQUEST_LEVEL_FIELDS \<and> f \<notin> set GRAPH_LEVEL_FIELDS \<and> f \<notin> set attributes \<and>
             \<not> list_ex (\<lambda>c. c \<in> set columns) (case map_of FIELD_ALIASES f of Some cs \<Rightarrow> cs | None \<Rightarrow> [f])) pfs)))"

subsection \<open>What the rules demand\<close>

lemma verifies_sources_iff:
  "a \<in> set (verifies_sources (Some b) w) \<longleftrightarrow> (\<exists>l\<in>set (w_links w). l_type l = LINK_VERIFIES \<and> l_source l = a \<and> l_target l = b)"
  by (auto simp: verifies_sources_def)

text \<open>A test case that is linked to the requirement, is not soft-deleted, and is not unreviewed AI output.\<close>

definition evidence_case :: "world \<Rightarrow> entity \<Rightarrow> entity \<Rightarrow> bool" where
  "evidence_case w req tc \<longleftrightarrow>
     tc \<in> set (w_entities w) \<and> e_type tc = ''TestCase'' \<and>
     (\<exists>l\<in>set (w_links w). l_type l = LINK_VERIFIES \<and> Some (l_source l) = e_artifact tc \<and>
        Some (l_target l) = e_artifact req) \<and>
     current_state ''TestCase'' (e_pk tc) w \<noteq> Some OUTDATED_STATUS \<and>
     \<not> (text_attr tc ''origin'' = ''ai_generated'' \<and> \<not> flag_attr tc ''reviewed'')"

lemma testcase_initial_state: "type_initial_state ''TestCase'' = Some ''draft''"
  by (simp add: type_initial_state_def TIER_DRIVEN_INITIAL_STATES_def WORKFLOW_ITEM_TYPES_def PRESET_SCHEMAS_def
      BASE_SCHEMAS_def SCHEMAS_WITHOUT_PROPOSED_def inject_proposed_state_def schema_testcase_default_def Let_def)

lemma state_or_initial_outdated:
  "state_or_initial s ''draft'' = OUTDATED_STATUS \<longleftrightarrow> s = Some OUTDATED_STATUS"
  by (auto simp: state_or_initial_def py_or_def OUTDATED_STATUS_def split: option.split)

lemma outdated_testcase_iff:
  "e \<in> set rows \<Longrightarrow> e_pk e \<in> set (outdated_testcase_row_ids rows w) \<longleftrightarrow>
     current_state ''TestCase'' (e_pk e) w = Some OUTDATED_STATUS"
  by (auto simp: outdated_testcase_row_ids_def Let_def testcase_initial_state state_or_initial_outdated
      current_states_member intro!: image_eqI [of _ e_pk e])

lemma evidence_ids:
  assumes "e_artifact req = Some b"
  shows "a \<in> set (exclude_outdated_testcase_ids (verifies_sources (Some b) w) False w) \<longleftrightarrow>
     (\<exists>tc. evidence_case w req tc \<and> e_artifact tc = Some a)"
proof -
  let ?ids = "verifies_sources (Some b) w" let ?rows = "load_testcase_rows ?ids w"
  have rows: "tc \<in> set ?rows \<longleftrightarrow> tc \<in> set (w_entities w) \<and> e_type tc = ''TestCase'' \<and>
      (\<exists>l\<in>set (w_links w). l_type l = LINK_VERIFIES \<and> Some (l_source l) = e_artifact tc \<and> l_target l = b)" for tc
    by (cases "e_artifact tc") (auto simp: load_testcase_rows_def verifies_sources_iff intro!: imageI)
  have "a \<in> set (exclude_outdated_testcase_ids ?ids False w) \<longleftrightarrow>
      (\<exists>tc\<in>set ?rows. the (e_artifact tc) = a \<and> e_pk tc \<notin> set (outdated_testcase_row_ids ?rows w) \<and>
         counts_as_verification_evidence (text_attr tc ''origin'') (flag_attr tc ''reviewed''))"
    by (auto simp: exclude_outdated_testcase_ids_def filter_to_testcase_ids_def Let_def load_testcase_rows_def)
  also have "\<dots> \<longleftrightarrow> (\<exists>tc\<in>set ?rows. e_artifact tc = Some a \<and>
      current_state ''TestCase'' (e_pk tc) w \<noteq> Some OUTDATED_STATUS \<and>
      \<not> (text_attr tc ''origin'' = ''ai_generated'' \<and> \<not> flag_attr tc ''reviewed''))"
    by (intro bex_cong refl) (auto simp: outdated_testcase_iff counts_as_verification_evidence_def
        ORIGIN_AI_GENERATED_def load_testcase_rows_def)
  also have "\<dots> \<longleftrightarrow> (\<exists>tc. evidence_case w req tc \<and> e_artifact tc = Some a)"
    unfolding Bex_def [of "set ?rows"] rows evidence_case_def assms option.inject by blast
  finally show ?thesis .
qed

lemma check_verification_evidence_None:
  assumes "is_verification_transition target" "\<not> n_fault n Verification_query"
    and "find_entity ''Requirement'' i w = Some req" "e_artifact req = Some b"
  shows "check_verification_evidence n ''Requirement'' i target w = None \<longleftrightarrow>
     (let ids = exclude_outdated_testcase_ids (verifies_sources (Some b) w) False w
      in ids \<noteq> [] \<and> (\<forall>a\<in>set ids. latest_testrun_status ids w a = Some ''Passed''))"
proof -
  have nil: "exclude_outdated_testcase_ids [] False w = []"
    by (simp add: exclude_outdated_testcase_ids_def filter_to_testcase_ids_def)
  have srt: "sort xs = [] \<longleftrightarrow> xs = []" for xs :: "string list"
    by (metis length_0_conv length_sort)
  show ?thesis using assms nil
    by (auto simp: check_verification_evidence_def Let_def srt filter_empty_conv)
qed

subsection \<open>Properties\<close>

text \<open>
  C8: "verified" is earned. When its queries succeed, the evidence rule of the validator lets a backed requirement
  pass on a transition to a verified state if and only if at least one test case counts as evidence for it and the
  most recent run of every such test case passed. A test case counts when a \<open>verifies\<close> link leads from it to the
  requirement and it is not soft-deleted; a test case generated by the AI must also have been reviewed, a manual one
  counts unreviewed too. The other rules of the validator are not part of this.
\<close>

theorem verified_iff_evidence_passed:
  assumes "is_verification_transition target" "\<not> n_fault n Verification_query"
    and "find_entity ''Requirement'' i w = Some req" "e_artifact req = Some b" "distinct (map r_id (w_runs w))"
  shows "check_verification_evidence n ''Requirement'' i target w = None \<longleftrightarrow>
     (\<exists>tc. evidence_case w req tc) \<and>
     (\<forall>tc a. evidence_case w req tc \<longrightarrow> e_artifact tc = Some a \<longrightarrow>
        (\<exists>r. newest_run w a r \<and> r_status r = ''passed''))"
proof -
  let ?ids = "exclude_outdated_testcase_ids (verifies_sources (Some b) w) False w"
  have backed: "\<exists>a. e_artifact tc = Some a" if "evidence_case w req tc" for tc
    using that by (cases "e_artifact tc") (auto simp: evidence_case_def)
  have mem: "a \<in> set ?ids \<longleftrightarrow> (\<exists>tc. evidence_case w req tc \<and> e_artifact tc = Some a)" for a
    by (rule evidence_ids [OF assms(4)])
  have "?ids \<noteq> [] \<longleftrightarrow> (\<exists>a. a \<in> set ?ids)" by (cases ?ids) auto
  then have "?ids \<noteq> [] \<longleftrightarrow> (\<exists>tc. evidence_case w req tc)" unfolding mem using backed by blast
  moreover have "(\<forall>a\<in>set ?ids. latest_testrun_status ?ids w a = Some ''Passed'') \<longleftrightarrow>
      (\<forall>a\<in>set ?ids. \<exists>r. newest_run w a r \<and> r_status r = ''passed'')"
    by (intro ball_cong refl latest_testrun_status_passed assms(5))
  then have "(\<forall>a\<in>set ?ids. latest_testrun_status ?ids w a = Some ''Passed'') \<longleftrightarrow>
      (\<forall>tc a. evidence_case w req tc \<longrightarrow> e_artifact tc = Some a \<longrightarrow> (\<exists>r. newest_run w a r \<and> r_status r = ''passed''))"
    unfolding Ball_def mem by blast
  ultimately show ?thesis using check_verification_evidence_None [OF assms(1-4)] by (simp add: Let_def)
qed

text \<open>An environment in which nothing fails, and a requirement with one linked, passing test case.\<close>

definition env_example :: env where
  "env_example =
     \<lparr>n_preset = (\<lambda>_. Inr EXTENDED), n_resolve = (\<lambda>_ _ _ _. Inl AttributeDefinitionNotFound),
      n_fault = (\<lambda>_. False), n_password = (\<lambda>_. Some ''hash''), n_check = (\<lambda>c h. c = ''secret''),
      n_key = ''key'', n_hmac = (\<lambda>k m. m), n_iso = (\<lambda>_. ''now''), n_now = 10\<rparr>"

definition req_example :: entity where
  "req_example =
     \<lparr>e_type = ''Requirement'', e_pk = ''r'', e_artifact = Some ''ar'', e_tenant = Some ''tn'',
      e_attrs = [''title'' \<mapsto> VStr ''T'']\<rparr>"

definition world_example :: world where
  "world_example =
     \<lparr>w_db = \<lparr>db_defs = [], db_globals = [], db_items = [], db_history = [], db_next = 0, db_cache = []\<rparr>,
      w_entities =
        [req_example,
         \<lparr>e_type = ''TestCase'', e_pk = ''t'', e_artifact = Some ''at'', e_tenant = Some ''tn'',
          e_attrs = [''origin'' \<mapsto> VStr ''manual'']\<rparr>],
      w_artifacts = [\<lparr>a_id = ''ar'', a_ws = ''w'', a_lifecycle = ''active''\<rparr>,
                     \<lparr>a_id = ''at'', a_ws = ''w'', a_lifecycle = ''active''\<rparr>],
      w_links = [\<lparr>l_type = ''verifies'', l_source = ''at'', l_target = ''ar''\<rparr>],
      w_runs = [\<lparr>r_id = 1, r_test_case = Some ''t'', r_status = ''failed'', r_executed = Some 5\<rparr>,
                \<lparr>r_id = 2, r_test_case = Some ''t'', r_status = ''passed'', r_executed = Some 9\<rparr>],
      w_notified = []\<rparr>"

lemma world_example_evidence: "check_verification_evidence env_example ''Requirement'' ''r'' ''verified'' world_example = None"
  by (simp add: check_verification_evidence_def env_example_def world_example_def req_example_def
      is_verification_transition_def py_strip_def py_space_def py_lower_def lower_char_def find_entity_def
      verifies_sources_def LINK_VERIFIES_def exclude_outdated_testcase_ids_def filter_to_testcase_ids_def
      load_testcase_rows_def outdated_testcase_row_ids_def testcase_initial_state current_states_def Let_def
      outdated_ids_def ARTIFACT_TYPES_def soft_deleted_def find_artifact_def OUTDATED_STATUS_def state_or_initial_def
      counts_as_verification_evidence_def ORIGIN_AI_GENERATED_def text_attr_def flag_attr_def
      latest_testrun_status_def run_artifact_def STATUS_LABELS_def recency_key_def)

theorem verified_iff_evidence_passed_witness:
  "\<exists>tc a r. evidence_case world_example req_example tc \<and> e_artifact tc = Some a \<and>
     newest_run world_example a r \<and> r_status r = ''passed''"
proof -
  have "is_verification_transition ''verified''"
    by (simp add: is_verification_transition_def py_strip_def py_space_def py_lower_def lower_char_def)
  moreover have "find_entity ''Requirement'' ''r'' world_example = Some req_example" "e_artifact req_example = Some ''ar''"
    by (simp_all add: find_entity_def world_example_def req_example_def)
  moreover have "\<not> n_fault env_example Verification_query" "distinct (map r_id (w_runs world_example))"
    by (simp_all add: env_example_def world_example_def)
  ultimately have all: "(\<exists>tc. evidence_case world_example req_example tc) \<and>
      (\<forall>tc a. evidence_case world_example req_example tc \<longrightarrow> e_artifact tc = Some a \<longrightarrow>
        (\<exists>r. newest_run world_example a r \<and> r_status r = ''passed''))"
    using verified_iff_evidence_passed [of "''verified''" env_example "''r''" world_example req_example "''ar''"]
      world_example_evidence by blast
  then obtain tc where tc: "evidence_case world_example req_example tc" by blast
  then obtain a where "e_artifact tc = Some a" by (cases "e_artifact tc") (auto simp: evidence_case_def)
  then show ?thesis using all tc by blast
qed

end
