(* ===== verification/Workflow_Validator.thy ===== *)
theory Workflow_Validator
  imports Workflow_Rules
begin

text \<open>
  The signature gate (\<^verbatim>\<open>workflow/signature_gate.py\<close>) and the transition validator
  (\<^verbatim>\<open>workflow/transition_validator.py\<close>, \<open>TransitionValidator.validate\<close>): the agent guard, the structural rules
  against the cached definition, the data rules of \<open>Workflow_Rules\<close> in the order of the code, and the
  signature.

  The arrow in the message of rule 1 is outside Latin-1 and is represented by its three UTF-8 bytes.
\<close>

subsection \<open>Errors of the engine\<close>

datatype wf_error =
    WorkflowTransitionError string string "gate_detail list"
  | WorkflowConflictError string
  | WorkflowStateError string
  | WorkflowItemNotFoundError string
  | WorkflowNotConfigurableError string
  | WorkflowDowngradeBlockedError string
  | DefinitionFailure def_error
  | ItemStateDoesNotExist
  | IntegrityError
  | RuntimeError string
  | ValueError string

subsection \<open>Signature gate\<close>

record credential_request =
  cv_transition_id :: string
  cv_user_id :: uuid
  cv_credential :: string
  cv_timestamp :: instant
  cv_tenant_id :: uuid

record verification_result =
  vr_valid :: bool
  vr_seal :: "string option"

definition hmac_key :: "env \<Rightarrow> wf_error + string" where
  "hmac_key n =
     (if n_key n = []
      then Inl (RuntimeError ''WORKFLOW_HMAC_KEY environment variable is not set and Django SECRET_KEY is unavailable.  Cannot generate signature seal.'')
      else Inr (n_key n))"

definition generate_seal :: "env \<Rightarrow> string \<Rightarrow> string \<Rightarrow> uuid \<Rightarrow> wf_error + string" where
  "generate_seal n transition_id timestamp user_id =
     res_bind (hmac_key n) (\<lambda>key. Inr (n_hmac n key (transition_id @ timestamp @ user_id)))"

definition verify_password :: "env \<Rightarrow> string \<Rightarrow> uuid \<Rightarrow> bool" where
  "verify_password n credential user_id =
     (if n_fault n Password_query then False
      else case n_password n user_id of
             None \<Rightarrow> False
           | Some stored_hash \<Rightarrow> n_check n credential stored_hash)"

definition verify_totp :: "string \<Rightarrow> uuid \<Rightarrow> bool" where
  "verify_totp credential user_id = False"

definition is_totp :: "string \<Rightarrow> bool" where
  "is_totp credential \<longleftrightarrow> py_isdigit credential \<and> length credential \<in> {6, 8}"

definition verify_credential :: "env \<Rightarrow> credential_request \<Rightarrow> wf_error + verification_result" where
  "verify_credential n q =
     (let credential = cv_credential q;
          ok = (if is_totp credential then verify_totp credential (cv_user_id q)
                else verify_password n credential (cv_user_id q))
      in if \<not> ok then Inr \<lparr>vr_valid = False, vr_seal = None\<rparr>
         else res_bind (generate_seal n (cv_transition_id q) (n_iso n (cv_timestamp q)) (cv_user_id q))
                (\<lambda>seal. Inr \<lparr>vr_valid = True, vr_seal = Some seal\<rparr>))"

subsection \<open>Requests and results\<close>

record validation_request =
  q_item_id :: uuid
  q_workspace_id :: uuid
  q_item_type :: string
  q_current_state :: string
  q_target_state :: string
  q_user_id :: uuid
  q_user_roles :: "string list"
  q_tenant_id :: uuid
  q_actor_type :: string
  q_agent_label :: string
  q_proposal_author :: string
  q_change_reason :: string
  q_credential :: string
  q_timestamp :: "instant option"

record validation_result =
  v_valid :: bool
  v_error_code :: "string option"
  v_error_message :: "string option"
  v_seal :: "string option"
  v_details :: "gate_detail list option"

definition reject_with :: "string \<Rightarrow> string \<Rightarrow> gate_detail list option \<Rightarrow> validation_result" where
  "reject_with code msg details =
     \<lparr>v_valid = False, v_error_code = Some code, v_error_message = Some msg, v_seal = None, v_details = details\<rparr>"

definition accept_with :: "string option \<Rightarrow> validation_result" where
  "accept_with seal =
     \<lparr>v_valid = True, v_error_code = None, v_error_message = None, v_seal = seal, v_details = None\<rparr>"

subsection \<open>Rule 0: the agent guard\<close>

definition agent_guard :: "validation_request \<Rightarrow> validation_result option" where
  "agent_guard q =
     (if q_actor_type q = ''agent'' then
        (if q_current_state q = PROPOSED_STATE
         then Some (reject_with ''AGENT_SELF_CONFIRM_FORBIDDEN''
                ''An AI agent may not confirm or discard a proposal. A human principal must perform this transition.'' None)
         else if q_proposal_author q \<noteq> [] \<and>
                 (is_approval_transition (q_target_state q) \<or> is_verification_transition (q_target_state q)) \<and>
                 q_proposal_author q = py_or (q_agent_label q) (q_user_id q)
         then Some (reject_with ''AGENT_SELF_CONFIRM_FORBIDDEN''
                ''An AI agent may not approve or verify an artifact it proposed. A human principal must perform this transition.'' None)
         else None)
      else None)"

subsection \<open>Structural rules\<close>

definition PRESET_TIERS :: "string list" where
  "PRESET_TIERS = [''minimal'', ''standard'', ''extended'']"

definition resolve_preset_tier :: "env \<Rightarrow> uuid \<Rightarrow> definition_dto \<Rightarrow> string option" where
  "resolve_preset_tier n ws d =
     (case n_preset n ws of
        Inr c \<Rightarrow> if pc_tier c \<in> set PRESET_TIERS then Some (pc_tier c)
                 else if dto_preset d \<in> set PRESET_TIERS then Some (dto_preset d) else None
      | Inl _ \<Rightarrow> if dto_preset d \<in> set PRESET_TIERS then Some (dto_preset d) else None)"

definition change_reason_message :: "env \<Rightarrow> uuid \<Rightarrow> definition_dto \<Rightarrow> string" where
  "change_reason_message n ws d =
     (case resolve_preset_tier n ws d of
        Some tier \<Rightarrow> ''This workspace ('' @ tier @ '' preset)''
      | None \<Rightarrow> ''This workspace'') @
     '' requires a change_reason for this transition. Please describe your change.''"

definition unicode_arrow :: string where
  "unicode_arrow = [CHR 0xE2, CHR 0x86, CHR 0x92]"

definition sorted_set :: "string list \<Rightarrow> string list" where
  "sorted_set xs = sort (remdups xs)"

definition structural_rules ::
  "env \<Rightarrow> validation_request \<Rightarrow> definition_dto \<Rightarrow> validation_result + transition_dto" where
  "structural_rules n q d =
     (case get_transition d (q_current_state q) (q_target_state q) of
        None \<Rightarrow>
          Inl (reject_with ''TRANSITION_NOT_ALLOWED''
            (''Transition not allowed: '' @ sq (q_current_state q) @ '' '' @ unicode_arrow @ '' '' @
             sq (q_target_state q) @ '' is not defined'') None)
      | Some t \<Rightarrow>
          (let allowed = map py_lower (allowed_roles t); user = map py_lower (q_user_roles q)
           in if set allowed \<inter> set user = {}
              then Inl (reject_with ''ROLE_NOT_ALLOWED''
                     (''Role not allowed: transition requires one of '' @ py_list (sorted_set allowed) @
                      '', user has '' @ py_list (sorted_set user)) None)
              else if requires_change_reason t \<and> py_strip (q_change_reason q) = []
              then Inl (reject_with ''CHANGE_REASON_REQUIRED'' (change_reason_message n (q_workspace_id q) d) None)
              else Inr t))"

subsection \<open>Data rules\<close>

definition violated :: "violation option \<Rightarrow> validation_result option" where
  "violated v = map_option (\<lambda>(code, msg). reject_with code msg None) v"

definition gate_violated :: "(string \<times> string \<times> gate_detail list) option \<Rightarrow> validation_result option" where
  "gate_violated v = map_option (\<lambda>(code, msg, details). reject_with code msg (Some details)) v"

text \<open>The rules are tried in this order; the first objection is the answer.\<close>

fun first_violation :: "validation_result option list \<Rightarrow> validation_result option" where
  "first_violation [] = None"
| "first_violation (None # vs) = first_violation vs"
| "first_violation (Some v # vs) = Some v"

definition data_rules :: "env \<Rightarrow> validation_request \<Rightarrow> world \<Rightarrow> validation_result option" where
  "data_rules n q w =
     (let ws = q_workspace_id q; ty = q_item_type q; i = q_item_id q; target = q_target_state q
      in first_violation
           [violated (check_mandatory_fields n ws ty i target (q_change_reason q) w),
            violated (check_verifies_link n ws ty i target w),
            violated (check_requirement_verification_evidence n ws ty i target w),
            violated (check_testcase_steps n ws ty i target w),
            violated (check_work_item_preconditions n ty i target w),
            gate_violated (check_document_gates n ws ty i target w),
            violated (check_verification_evidence n ty i target w)])"

subsection \<open>Rule 4: the signature\<close>

definition transition_id :: "validation_request \<Rightarrow> string" where
  "transition_id q = q_item_id q @ '':'' @ q_current_state q @ '':'' @ q_target_state q"

definition signature_rule ::
  "env \<Rightarrow> validation_request \<Rightarrow> transition_dto \<Rightarrow> wf_error + validation_result" where
  "signature_rule n q t =
     (if \<not> signature_gate t then Inr (accept_with None)
      else if py_strip (q_credential q) = []
      then Inr (reject_with ''SIGNATURE_REQUIRED'' ''Signature required'' None)
      else res_bind (verify_credential n
             \<lparr>cv_transition_id = transition_id q, cv_user_id = q_user_id q, cv_credential = q_credential q,
              cv_timestamp = (case q_timestamp q of Some ts \<Rightarrow> ts | None \<Rightarrow> n_now n),
              cv_tenant_id = q_tenant_id q\<rparr>)
             (\<lambda>r. if \<not> vr_valid r
                   then Inr (reject_with ''SIGNATURE_INVALID'' ''Signature invalid'' None)
                   else Inr (accept_with (vr_seal r))))"

subsection \<open>The validator\<close>

definition not_found_message :: "validation_request \<Rightarrow> string" where
  "not_found_message q =
     ''No WorkflowDefinition found for workspace='' @ q_workspace_id q @ '', item_type='' @ q_item_type q"

definition validate :: "env \<Rightarrow> validation_request \<Rightarrow> (world, wf_error, validation_result) sem" where
  "validate n q w =
     (case agent_guard q of
        Some r \<Rightarrow> (Inr r, w)
      | None \<Rightarrow>
          (case load_definition (q_workspace_id q) (q_item_type q) (w_db w) of
             (None, db1) \<Rightarrow>
               (Inr (reject_with ''DEFINITION_NOT_FOUND'' (not_found_message q) None), w\<lparr>w_db := db1\<rparr>)
           | (Some d, db1) \<Rightarrow>
               (let w1 = w\<lparr>w_db := db1\<rparr>
                in case structural_rules n q d of
                     Inl r \<Rightarrow> (Inr r, w1)
                   | Inr t \<Rightarrow>
                       (case data_rules n q w1 of
                          Some r \<Rightarrow> (Inr r, w1)
                        | None \<Rightarrow> (signature_rule n q t, w1)))))"

subsection \<open>The rules read tables, not the cache\<close>

definition same_tables :: "world \<Rightarrow> world \<Rightarrow> bool" where
  "same_tables w w' \<longleftrightarrow>
     w_entities w = w_entities w' \<and> w_artifacts w = w_artifacts w' \<and> w_links w = w_links w' \<and>
     w_runs w = w_runs w' \<and> db_defs (w_db w) = db_defs (w_db w') \<and> db_items (w_db w) = db_items (w_db w')"

lemma same_tables_reader:
  assumes "same_tables w w'"
  shows "find_entity ty i w = find_entity ty i w'" "find_artifact a w = find_artifact a w'"
    "outdated_ids ty w = outdated_ids ty w'" "current_states ty ids w = current_states ty ids w'"
    "load_entity n ty i w = load_entity n ty i w'" "w_links w = w_links w'" "w_entities w = w_entities w'"
    "verifies_sources t w = verifies_sources t w'" "get_workflow_json ws ty (w_db w) = get_workflow_json ws ty (w_db w')"
proof -
  have e: "w_entities w = w_entities w'" "w_artifacts w = w_artifacts w'" "w_links w = w_links w'"
    "db_defs (w_db w) = db_defs (w_db w')" "db_items (w_db w) = db_items (w_db w')"
    using assms by (simp_all add: same_tables_def)
  show f: "find_entity ty i w = find_entity ty i w'" "find_artifact a w = find_artifact a w'" for ty i a
    by (simp_all add: find_entity_def find_artifact_def e)
  have "soft_deleted w = soft_deleted w'" by (rule ext) (simp add: soft_deleted_def f cong: option.case_cong)
  then show o: "outdated_ids ty w = outdated_ids ty w'" for ty by (simp add: outdated_ids_def e)
  show "current_states ty ids w = current_states ty ids w'" by (simp add: current_states_def o e)
  show "load_entity n ty i w = load_entity n ty i w'" by (simp add: load_entity_def f)
  show "verifies_sources t w = verifies_sources t w'" by (simp add: verifies_sources_def e)
  show "get_workflow_json ws ty (w_db w) = get_workflow_json ws ty (w_db w')"
    by (simp add: get_workflow_json_def find_def_def e)
qed (use assms in \<open>simp_all add: same_tables_def\<close>)

lemma same_tables_evidence:
  assumes "same_tables w w'"
  shows "exclude_outdated_testcase_ids ids b w = exclude_outdated_testcase_ids ids b w'"
    "latest_testrun_status ids w = latest_testrun_status ids w'"
    "live_target_exists ids ws w = live_target_exists ids ws w'"
    "document_item_gate_violations n d w = document_item_gate_violations n d w'"
    "is_freeze_transition n ws ty target w = is_freeze_transition n ws ty target w'"
proof -
  note r = same_tables_reader [OF assms]
  have runs: "w_runs w = w_runs w'" using assms by (simp add: same_tables_def)
  have ra: "run_artifact w = run_artifact w'" by (rule ext) (simp add: run_artifact_def r cong: option.case_cong)
  have iw: "in_workspace ws w = in_workspace ws w'" by (rule ext) (simp add: in_workspace_def r cong: option.case_cong)
  show "exclude_outdated_testcase_ids ids b w = exclude_outdated_testcase_ids ids b w'"
    by (simp add: exclude_outdated_testcase_ids_def filter_to_testcase_ids_def load_testcase_rows_def
        outdated_testcase_row_ids_def r)
  show "latest_testrun_status ids w = latest_testrun_status ids w'"
    by (simp add: latest_testrun_status_def ra runs)
  show "live_target_exists ids ws w = live_target_exists ids ws w'"
    by (simp add: live_target_exists_def linked_rows_def iw r)
  show "document_item_gate_violations n d w = document_item_gate_violations n d w'"
    unfolding document_item_gate_violations_def document_work_items_def open_items_def dangling_items_def r by (rule refl)
  show "is_freeze_transition n ws ty target w = is_freeze_transition n ws ty target w'"
    by (simp add: is_freeze_transition_def r)
qed

lemma data_rules_same_tables:
  assumes "same_tables w w'"
  shows "data_rules n q w = data_rules n q w'"
proof -
  note r = same_tables_reader [OF assms] same_tables_evidence [OF assms]
  have "check_mandatory_fields n ws ty i t c w = check_mandatory_fields n ws ty i t c w'"
    "check_verifies_link n ws ty i t w = check_verifies_link n ws ty i t w'"
    "check_requirement_verification_evidence n ws ty i t w = check_requirement_verification_evidence n ws ty i t w'"
    "check_testcase_steps n ws ty i t w = check_testcase_steps n ws ty i t w'"
    "check_work_item_preconditions n ty i t w = check_work_item_preconditions n ty i t w'"
    "check_document_gates n ws ty i t w = check_document_gates n ws ty i t w'"
    "check_verification_evidence n ty i t w = check_verification_evidence n ty i t w'" for ws ty i t c
    unfolding check_mandatory_fields_def check_verifies_link_def check_requirement_verification_evidence_def
      check_testcase_steps_def check_work_item_preconditions_def check_document_gates_def
      check_verification_evidence_def r by (rule refl)+
  then show ?thesis by (simp only: data_rules_def)
qed

lemma same_tables_load:
  "same_tables (w\<lparr>w_db := snd (load_definition ws ty (w_db w))\<rparr>) w"
  by (simp add: same_tables_def)

subsection \<open>Acceptance\<close>

lemma result_distinct [simp]:
  "v_valid (accept_with s)" "\<not> v_valid (reject_with c m d)" "v_seal (accept_with s) = s"
  "v_seal (reject_with c m d) = None" "v_error_code (reject_with c m d) = Some c"
  by (simp_all add: accept_with_def reject_with_def)

lemma first_violation_None: "first_violation vs = None \<longleftrightarrow> (\<forall>v\<in>set vs. v = None)"
  by (induction vs rule: first_violation.induct) auto

lemma violated_None [simp]: "violated v = None \<longleftrightarrow> v = None" "gate_violated g = None \<longleftrightarrow> g = None"
  by (simp_all add: violated_def gate_violated_def)

lemma first_violation_invalid: "(\<forall>v\<in>set vs. \<forall>r. v = Some r \<longrightarrow> \<not> v_valid r) \<Longrightarrow> first_violation vs = Some r \<Longrightarrow> \<not> v_valid r"
  by (induction vs rule: first_violation.induct) auto

lemma data_rules_invalid: "data_rules n q w = Some r \<Longrightarrow> \<not> v_valid r"
  unfolding data_rules_def Let_def
  by (erule first_violation_invalid [rotated]) (auto simp: violated_def gate_violated_def)

definition no_objection :: "env \<Rightarrow> validation_request \<Rightarrow> world \<Rightarrow> bool" where
  "no_objection n q w \<longleftrightarrow>
     (let ws = q_workspace_id q; ty = q_item_type q; i = q_item_id q; target = q_target_state q
      in check_mandatory_fields n ws ty i target (q_change_reason q) w = None \<and>
         check_verifies_link n ws ty i target w = None \<and>
         check_requirement_verification_evidence n ws ty i target w = None \<and>
         check_testcase_steps n ws ty i target w = None \<and>
         check_work_item_preconditions n ty i target w = None \<and>
         check_document_gates n ws ty i target w = None \<and>
         check_verification_evidence n ty i target w = None)"

lemma data_rules_None: "data_rules n q w = None \<longleftrightarrow> no_objection n q w"
  by (simp add: data_rules_def no_objection_def Let_def first_violation_None)

definition role_held :: "validation_request \<Rightarrow> transition_dto \<Rightarrow> bool" where
  "role_held q t \<longleftrightarrow> (\<exists>a\<in>set (allowed_roles t). \<exists>b\<in>set (q_user_roles q). py_lower a = py_lower b)"

lemma structural_rules_Inr:
  "structural_rules n q d = Inr t \<longleftrightarrow>
     get_transition d (q_current_state q) (q_target_state q) = Some t \<and> role_held q t \<and>
     (requires_change_reason t \<longrightarrow> \<not> py_blank (q_change_reason q))"
  by (auto simp: structural_rules_def role_held_def Let_def py_blank_def split: option.splits if_splits)

lemma structural_rules_Inl: "structural_rules n q d = Inl r \<Longrightarrow> \<not> v_valid r"
  by (auto simp: structural_rules_def Let_def split: option.splits if_splits)

text \<open>What a gate accepts as a signature, and the seal it gives.\<close>

definition signed_by :: "env \<Rightarrow> validation_request \<Rightarrow> bool" where
  "signed_by n q \<longleftrightarrow> \<not> py_blank (q_credential q) \<and> \<not> is_totp (q_credential q) \<and>
     verify_password n (q_credential q) (q_user_id q)"

definition seal_of :: "env \<Rightarrow> validation_request \<Rightarrow> string" where
  "seal_of n q =
     n_hmac n (n_key n) (transition_id q @ n_iso n (case q_timestamp q of Some t \<Rightarrow> t | None \<Rightarrow> n_now n) @ q_user_id q)"

lemma signature_rule_valid:
  "signature_rule n q t = Inr r \<and> v_valid r \<longleftrightarrow>
     r = accept_with (if signature_gate t then Some (seal_of n q) else None) \<and>
     (signature_gate t \<longrightarrow> signed_by n q \<and> n_key n \<noteq> [])"
  by (auto simp: signature_rule_def signed_by_def seal_of_def verify_credential_def generate_seal_def hmac_key_def
      verify_totp_def py_blank_def Let_def split: if_splits)

lemma agent_guard_invalid: "agent_guard q = Some r \<Longrightarrow> \<not> v_valid r"
  by (auto simp: agent_guard_def split: if_splits)

lemma load_definition_cache_only:
  "snd (load_definition ws ty db) = db\<lparr>db_cache := db_cache (snd (load_definition ws ty db))\<rparr>"
  by (auto simp: load_definition_def split: option.splits sum.splits)

lemma validate_world:
  "snd (validate n q w) = w \<or>
   snd (validate n q w) = w\<lparr>w_db := snd (load_definition (q_workspace_id q) (q_item_type q) (w_db w))\<rparr>"
  by (auto simp: validate_def Let_def split: option.splits prod.splits sum.splits)

text \<open>The validator changes the definition cache at most, and keeps it coherent.\<close>

lemma validate_frame:
  "\<exists>c. snd (validate n q w) = w\<lparr>w_db := (w_db w)\<lparr>db_cache := c\<rparr>\<rparr>"
proof -
  have "w = w\<lparr>w_db := (w_db w)\<lparr>db_cache := db_cache (w_db w)\<rparr>\<rparr>" by simp
  then show ?thesis using validate_world [of n q w] load_definition_cache_only by metis
qed

lemma validate_coherent: "cache_coherent (w_db w) \<Longrightarrow> cache_coherent (w_db (snd (validate n q w)))"
  using validate_world [of n q w] load_definition_coherent(2) by fastforce

lemma validate_loaded:
  assumes "cache_coherent (w_db w)" "agent_guard q = None"
  shows "validate n q w =
    (case find_def (q_workspace_id q) (q_item_type q) (w_db w) of
       None \<Rightarrow> Inr (reject_with ''DEFINITION_NOT_FOUND'' (not_found_message q) None)
     | Some d \<Rightarrow>
         (case structural_rules n q (dto_from_orm d) of
            Inl r \<Rightarrow> Inr r
          | Inr t \<Rightarrow> (case data_rules n q w of Some r \<Rightarrow> Inr r | None \<Rightarrow> signature_rule n q t)),
     w\<lparr>w_db := snd (load_definition (q_workspace_id q) (q_item_type q) (w_db w))\<rparr>)"
proof -
  let ?l = "load_definition (q_workspace_id q) (q_item_type q) (w_db w)"
  have "fst ?l = map_option dto_from_orm (find_def (q_workspace_id q) (q_item_type q) (w_db w))"
    by (rule load_definition_coherent(1) [OF assms(1)])
  moreover have "data_rules n q (w\<lparr>w_db := snd ?l\<rparr>) = data_rules n q w"
    by (rule data_rules_same_tables [OF same_tables_load])
  ultimately show ?thesis using assms(2)
    by (cases ?l; cases "find_def (q_workspace_id q) (q_item_type q) (w_db w)")
      (auto simp: validate_def Let_def split: sum.split option.split)
qed

lemma validate_valid_iff:
  assumes "cache_coherent (w_db w)"
  shows "(\<exists>w'. validate n q w = (Inr r, w')) \<and> v_valid r \<longleftrightarrow>
    agent_guard q = None \<and>
    (\<exists>d t. find_def (q_workspace_id q) (q_item_type q) (w_db w) = Some d \<and>
       get_transition (dto_from_orm d) (q_current_state q) (q_target_state q) = Some t \<and>
       role_held q t \<and> (requires_change_reason t \<longrightarrow> \<not> py_blank (q_change_reason q)) \<and>
       no_objection n q w \<and> (signature_gate t \<longrightarrow> signed_by n q \<and> n_key n \<noteq> []) \<and>
       r = accept_with (if signature_gate t then Some (seal_of n q) else None))"
proof (cases "agent_guard q")
  case (Some r')
  then show ?thesis using agent_guard_invalid [OF Some] by (auto simp: validate_def)
next
  case None
  note v = validate_loaded [OF assms None, of n]
  show ?thesis
  proof (cases "find_def (q_workspace_id q) (q_item_type q) (w_db w)")
    case None
    then show ?thesis by (auto simp: v)
  next
    case (Some d)
    show ?thesis
    proof (cases "structural_rules n q (dto_from_orm d)")
      case (Inl r')
      then have "\<not> (get_transition (dto_from_orm d) (q_current_state q) (q_target_state q) = Some t \<and> role_held q t \<and>
          (requires_change_reason t \<longrightarrow> \<not> py_blank (q_change_reason q)))" for t
        using structural_rules_Inr [of n q "dto_from_orm d" t] by auto
      with Inl Some show ?thesis using structural_rules_Inl [OF Inl] by (auto simp: v)
    next
      case (Inr t)
      note st = Inr [unfolded structural_rules_Inr]
      show ?thesis
      proof (cases "data_rules n q w")
        case (Some r')
        then have "\<not> no_objection n q w" by (simp flip: data_rules_None)
        with Some Inr \<open>find_def _ _ _ = Some d\<close> show ?thesis using data_rules_invalid [OF Some] by (auto simp: v)
      next
        case None
        have "(\<exists>w'. validate n q w = (Inr r, w')) \<and> v_valid r \<longleftrightarrow> signature_rule n q t = Inr r \<and> v_valid r"
          using None Inr Some by (simp add: v)
        then show ?thesis
          using signature_rule_valid [of n q t r] st None [unfolded data_rules_None] Some \<open>agent_guard q = None\<close>
          by auto
      qed
    qed
  qed
qed

subsection \<open>Properties\<close>

text \<open>
  C5: what the validator accepts. With a cache that is coherent with the database, a transition is accepted
  if and only if the agent guard does not object, the stored definition of the workspace and type declares the
  transition, the user holds one of its roles (in any case), a required reason is given, none of the data rules
  objects, and a signature gate was passed with the user's password, never with a six- or eight-digit code. An
  accepted transition carries a seal exactly when it has a signature gate, and the seal is the HMAC of the
  transition, the time and the user.
\<close>

theorem validate_accepts_iff:
  assumes "cache_coherent (w_db w)"
  shows "(\<exists>w'. validate n q w = (Inr r, w')) \<and> v_valid r \<longleftrightarrow>
    agent_guard q = None \<and>
    (\<exists>d t. find_def (q_workspace_id q) (q_item_type q) (w_db w) = Some d \<and>
       get_transition (dto_from_orm d) (q_current_state q) (q_target_state q) = Some t \<and>
       role_held q t \<and> (requires_change_reason t \<longrightarrow> \<not> py_blank (q_change_reason q)) \<and>
       no_objection n q w \<and> (signature_gate t \<longrightarrow> signed_by n q \<and> n_key n \<noteq> []) \<and>
       r = accept_with (if signature_gate t then Some (seal_of n q) else None))"
  using assms by (rule validate_valid_iff)

definition def_minimal :: def_row where
  "def_minimal =
     \<lparr>d_id = 1, d_ws = ''w'', d_type = ''Requirement'', d_preset = ''minimal'', d_json = schema_minimal,
      d_is_custom = False, d_is_customized = False, d_source_global = None\<rparr>"

definition db_minimal :: wf_db where
  "db_minimal =
     \<lparr>db_defs = [def_minimal], db_globals = [],
      db_items = [\<lparr>i_id = 2, i_item = ''r'', i_type = ''Requirement'', i_ws = ''w'', i_def = 1,
                   i_state = ''draft'', i_version = 1\<rparr>],
      db_history = [], db_next = 3, db_cache = []\<rparr>"

definition world_minimal :: world where
  "world_minimal = world_example\<lparr>w_db := db_minimal\<rparr>"

definition request_minimal :: validation_request where
  "request_minimal =
     \<lparr>q_item_id = ''r'', q_workspace_id = ''w'', q_item_type = ''Requirement'', q_current_state = ''draft'',
      q_target_state = ''done'', q_user_id = ''u'', q_user_roles = [''Editor''], q_tenant_id = ''tn'',
      q_actor_type = ''user'', q_agent_label = [], q_proposal_author = [], q_change_reason = [],
      q_credential = [], q_timestamp = None\<rparr>"

lemma coherent_minimal: "cache_coherent (w_db world_minimal)"
  by (simp add: world_minimal_def db_minimal_def cache_coherent_def cache_ok_def cache_get_def)

lemma transition_minimal:
  "get_transition (dto_from_orm def_minimal) ''draft'' ''done'' =
     Some \<lparr>from_state = ''draft'', to_state = ''done'', allowed_roles = [''editor'', ''admin''],
           requires_change_reason = False, signature_gate = False\<rparr>"
  by (simp add: get_transition_def dto_from_orm_def def_minimal_def schema_minimal_def minimal_transitions_def
      mk_transition_def)

lemma done_is_neither: "\<not> is_approval_transition ''done''" "\<not> is_verification_transition ''done''"
  by (simp_all add: is_approval_transition_def is_verification_transition_def py_strip_def py_space_def py_lower_def
      lower_char_def)

lemma no_objection_minimal: "no_objection env_example request_minimal world_minimal"
  by (simp add: no_objection_def request_minimal_def check_mandatory_fields_def check_verifies_link_def
      check_requirement_verification_evidence_def check_testcase_steps_def check_work_item_preconditions_def
      check_document_gates_def is_freeze_transition_def check_verification_evidence_def done_is_neither Let_def)

lemma lower_editor: "py_lower ''Editor'' = ''editor''" "py_lower ''editor'' = ''editor''"
  by code_simp+

theorem validate_accepts_iff_witness:
  "\<exists>w'. validate env_example request_minimal world_minimal = (Inr (accept_with None), w')"
proof -
  have "find_def ''w'' ''Requirement'' (w_db world_minimal) = Some def_minimal"
    by (simp add: find_def_def world_minimal_def db_minimal_def def_minimal_def)
  moreover have "agent_guard request_minimal = None" by (simp add: agent_guard_def request_minimal_def)
  moreover have "role_held request_minimal
      \<lparr>from_state = ''draft'', to_state = ''done'', allowed_roles = [''editor'', ''admin''],
       requires_change_reason = False, signature_gate = False\<rparr>"
    by (simp add: role_held_def request_minimal_def lower_editor)
  ultimately show ?thesis
    using validate_accepts_iff [OF coherent_minimal, of env_example request_minimal "accept_with None"]
      transition_minimal no_objection_minimal
    by (simp add: request_minimal_def)
qed

definition def_goal :: def_row where
  "def_goal =
     \<lparr>d_id = 1, d_ws = ''w'', d_type = ''Goal'', d_preset = ''goal_default'',
      d_json = the (map_of PRESET_SCHEMAS ''goal_default''), d_is_custom = False, d_is_customized = False,
      d_source_global = None\<rparr>"

definition request_goal :: validation_request where
  "request_goal =
     \<lparr>q_item_id = ''g'', q_workspace_id = ''w'', q_item_type = ''Goal'', q_current_state = ''Entwurf'',
      q_target_state = ''Freigegeben'', q_user_id = ''u'', q_user_roles = [''approver''], q_tenant_id = ''tn'',
      q_actor_type = ''agent'', q_agent_label = ''bot'', q_proposal_author = ''bot'', q_change_reason = ''ready'',
      q_credential = [], q_timestamp = None\<rparr>"

lemma goal_schema: "map_of PRESET_SCHEMAS ''goal_default'' = Some (inject_proposed_state schema_goal_default ''Archiviert'')"
  by (simp add: PRESET_SCHEMAS_def BASE_SCHEMAS_def SCHEMAS_WITHOUT_PROPOSED_def PROPOSED_REJECT_STATE_def)

lemma goal_transition:
  "get_transition (dto_from_orm def_goal) ''Entwurf'' ''Freigegeben'' =
     Some \<lparr>from_state = ''Entwurf'', to_state = ''Freigegeben'', allowed_roles = [''approver'', ''admin''],
           requires_change_reason = True, signature_gate = False\<rparr>"
  by (simp add: get_transition_def dto_from_orm_def def_goal_def goal_schema inject_proposed_state_def
      schema_goal_default_def goal_transitions_def mk_transition_def add_proposal_exit_def Let_def)

lemma release_is_neither: "\<not> is_approval_transition ''Freigegeben''" "\<not> is_verification_transition ''Freigegeben''"
  by (simp_all add: is_approval_transition_def is_verification_transition_def py_strip_def py_space_def py_lower_def
      lower_char_def char_of_def)

text \<open>
  The guard against self-approval misses the German workflows. An agent that proposed a goal and holds
  the approver role releases it itself: the guard recognises approval by the state names "approved" and
  "verified", and the release state of the shipped goal workflow is "Freigegeben", although the edge excludes
  editors and is therefore an approval gate.
\<close>

theorem agent_releases_own_goal:
  "let w = world_example\<lparr>w_db := db_minimal\<lparr>db_defs := [def_goal]\<rparr>\<rparr>
   in q_actor_type request_goal = ''agent'' \<and> q_proposal_author request_goal = q_agent_label request_goal \<and>
      (\<exists>w'. validate env_example request_goal w = (Inr (accept_with None), w'))"
proof -
  let ?w = "world_example\<lparr>w_db := db_minimal\<lparr>db_defs := [def_goal]\<rparr>\<rparr>"
  have coh: "cache_coherent (w_db ?w)"
    by (simp add: db_minimal_def cache_coherent_def cache_ok_def cache_get_def)
  have "find_def ''w'' ''Goal'' (w_db ?w) = Some def_goal" by (simp add: find_def_def def_goal_def)
  moreover have "agent_guard request_goal = None"
    by (simp add: agent_guard_def request_goal_def PROPOSED_STATE_def release_is_neither)
  moreover have "no_objection env_example request_goal ?w"
    by (simp add: no_objection_def request_goal_def check_mandatory_fields_def check_verifies_link_def
        check_requirement_verification_evidence_def check_testcase_steps_def check_work_item_preconditions_def
        check_document_gates_def is_freeze_transition_def check_verification_evidence_def release_is_neither Let_def)
  moreover have "\<not> py_blank ''ready''" by (simp add: py_blank_iff py_space_def)
  ultimately have "\<exists>w'. validate env_example request_goal ?w = (Inr (accept_with None), w')"
    using validate_loaded [OF coh, of request_goal env_example] goal_transition
    by (simp add: request_goal_def structural_rules_def data_rules_None [THEN iffD2] signature_rule_def py_blank_def)
  then show ?thesis by (simp add: request_goal_def Let_def)
qed

end
