(* ===== verification/Workflow_Lifecycle.thy ===== *)
theory Workflow_Lifecycle
  imports Workflow_Validator
begin

text \<open>
  The state lifecycle manager (\<^verbatim>\<open>workflow/lifecycle_manager.py\<close>): creation of item states, the
  optimistically locked transition with its append-only history, and the forced transition.

  Inserts and updates of item rows go through the constraints of the table (\<^verbatim>\<open>workflow/models.py\<close> and
  \<^verbatim>\<open>workflow/migrations/0021_we_item_state_integrity.py\<close>): one row per item and type, a non-empty state, and
  the trigger that the state is declared by the row's definition. A violation is an \<open>IntegrityError\<close>.
  An atomic block restores the tables, not the in-process cache.
\<close>

subsection \<open>The item state table\<close>

definition state_declared :: "nat \<Rightarrow> string \<Rightarrow> wf_db \<Rightarrow> bool" where
  "state_declared def_id s db =
     (case find (\<lambda>r. d_id r = def_id) (db_defs db) of
        None \<Rightarrow> True
      | Some r \<Rightarrow> s \<in> set (wf_states (d_json r)))"

definition valid_state :: "nat \<Rightarrow> string \<Rightarrow> wf_db \<Rightarrow> bool" where
  "valid_state def_id s db \<longleftrightarrow> s \<noteq> [] \<and> state_declared def_id s db"

definition insert_item :: "uuid \<Rightarrow> string \<Rightarrow> uuid \<Rightarrow> nat \<Rightarrow> string \<Rightarrow> (wf_db, wf_error, item_row) sem" where
  "insert_item item ty ws def_id s db =
     (if list_ex (\<lambda>i. i_item i = item \<and> i_type i = ty) (db_items db) \<or> \<not> valid_state def_id s db
      then (Inl IntegrityError, db)
      else let row = \<lparr>i_id = db_next db, i_item = item, i_type = ty, i_ws = ws, i_def = def_id, i_state = s,
                      i_version = 1\<rparr>
           in (Inr row, db\<lparr>db_items := db_items db @ [row], db_next := Suc (db_next db)\<rparr>))"

text \<open>\<open>WorkflowHistoryEntry.unscoped.create(...)\<close>, returning the primary key.\<close>

definition append_history ::
  "nat \<Rightarrow> string \<Rightarrow> string \<Rightarrow> string \<Rightarrow> instant \<Rightarrow> string \<Rightarrow> string \<Rightarrow> uuid \<Rightarrow> (wf_db, wf_error, nat) sem" where
  "append_history item_state f t by_whom stamp reason seal ws db =
     (Inr (db_next db),
      db\<lparr>db_history := db_history db @
           [\<lparr>h_id = db_next db, h_item_state = item_state, h_from = f, h_to = t, h_by = by_whom, h_at = stamp,
             h_reason = reason, h_seal = seal, h_ws = ws\<rparr>],
         db_next := Suc (db_next db)\<rparr>)"

definition atomic :: "(wf_db, 'e, 'a) sem \<Rightarrow> (wf_db, 'e, 'a) sem" where
  "atomic = se_atomic (\<lambda>s s1. s\<lparr>db_cache := db_cache s1\<rparr>)"

definition get_item_state :: "uuid \<Rightarrow> string \<Rightarrow> uuid \<Rightarrow> wf_db \<Rightarrow> item_row option" where
  "get_item_state item ty ws db =
     find (\<lambda>i. i_item i = item \<and> i_type i = ty \<and> i_ws i = ws) (db_items db)"

definition get_history :: "uuid \<Rightarrow> string \<Rightarrow> uuid \<Rightarrow> wf_db \<Rightarrow> history_row list" where
  "get_history item ty ws db =
     (case get_item_state item ty ws db of
        None \<Rightarrow> []
      | Some i \<Rightarrow> sort_key h_at (filter (\<lambda>h. h_item_state h = i_id i) (db_history db)))"

subsection \<open>Initialisation\<close>

definition no_state_definition :: "uuid \<Rightarrow> string \<Rightarrow> wf_error" where
  "no_state_definition ws ty =
     WorkflowStateError (''No WorkflowDefinition found for workspace='' @ ws @ '', item_type='' @ ty)"

fun create_item_states ::
  "instant \<Rightarrow> string \<Rightarrow> uuid \<Rightarrow> nat \<Rightarrow> string \<Rightarrow> bool \<Rightarrow> string \<Rightarrow> uuid list \<Rightarrow> (wf_db, wf_error, item_row list) sem" where
  "create_item_states now ty ws def_id initial seeded proposed_by [] = se_return []"
| "create_item_states now ty ws def_id initial seeded proposed_by (item # items) =
     se_bind (insert_item item ty ws def_id initial) (\<lambda>row.
     se_bind (if seeded then append_history (i_id row) [] initial (py_or proposed_by ''agent'') now [] [] ws
              else se_return 0) (\<lambda>_.
     se_bind (create_item_states now ty ws def_id initial seeded proposed_by items) (\<lambda>rows.
     se_return (row # rows))))"

definition lift_def :: "def_error + 'a \<Rightarrow> wf_error + 'a" where
  "lift_def r = (case r of Inl e \<Rightarrow> Inl (DefinitionFailure e) | Inr x \<Rightarrow> Inr x)"

definition lm_initialize_workflow_states ::
  "instant \<Rightarrow> uuid list \<Rightarrow> string \<Rightarrow> uuid \<Rightarrow> string option \<Rightarrow> string \<Rightarrow> (wf_db, wf_error, item_row list) sem" where
  "lm_initialize_workflow_states now items ty ws initial proposed_by =
     atomic (if items = [] then se_return []
       else se_bind (\<lambda>db. (lift_def (get_definition ws ty db), db)) (\<lambda>dto.
            let init = (case initial of Some s \<Rightarrow> s | None \<Rightarrow> initial_state dto)
            in se_bind (se_gets (find_def ws ty)) (\<lambda>r.
               case r of
                 None \<Rightarrow> se_lift (Inl (no_state_definition ws ty))
               | Some d \<Rightarrow> create_item_states now ty ws (d_id d) init (init \<noteq> initial_state dto) proposed_by items)))"

definition ensure_item_state :: "uuid \<Rightarrow> string \<Rightarrow> uuid \<Rightarrow> string \<Rightarrow> (wf_db, wf_error, item_row) sem" where
  "ensure_item_state item ty ws init =
     atomic (\<lambda>db. case get_item_state item ty ws db of
       Some row \<Rightarrow> (Inr row, db)
     | None \<Rightarrow>
         (case find_def ws ty db of
            None \<Rightarrow> (Inl (no_state_definition ws ty), db)
          | Some d \<Rightarrow>
              (case insert_item item ty ws (d_id d) init db of
                 (Inl e, db1) \<Rightarrow>
                   (case get_item_state item ty ws db1 of None \<Rightarrow> (Inl e, db1) | Some row \<Rightarrow> (Inr row, db1))
               | (Inr row, db1) \<Rightarrow> (Inr row, db1))))"

subsection \<open>Transitions\<close>

record transition_outcome =
  oc_item_state_id :: nat
  oc_history_entry_id :: nat
  oc_previous_state :: string
  oc_new_state :: string
  oc_signature_seal :: "string option"

definition lock_item_state :: "uuid \<Rightarrow> string \<Rightarrow> uuid \<Rightarrow> wf_db \<Rightarrow> wf_error + item_row" where
  "lock_item_state item ty ws db =
     (case get_item_state item ty ws db of
        None \<Rightarrow> Inl (WorkflowStateError (''No WorkflowItemState found for item_id='' @ item @ '', item_type='' @ ty))
      | Some row \<Rightarrow> Inr row)"

definition conflict_prefix :: "uuid \<Rightarrow> string" where
  "conflict_prefix item = ''Concurrent transition detected for item_id='' @ item @ '' (409 Conflict)''"

definition version_conflict :: "uuid \<Rightarrow> int \<Rightarrow> int \<Rightarrow> wf_error" where
  "version_conflict item expected found =
     WorkflowConflictError (conflict_prefix item @ '': expected version '' @ py_int expected @
       '', found '' @ py_int found)"

text \<open>\<open>filter(pk=..., version=...).update(current_state=..., version=F("version") + 1)\<close> and its row count.\<close>

definition update_item :: "nat \<Rightarrow> int \<Rightarrow> string \<Rightarrow> (wf_db, wf_error, nat) sem" where
  "update_item pk version target db =
     (let hit = (\<lambda>i. i_id i = pk \<and> i_version i = version); rows = filter hit (db_items db)
      in if list_ex (\<lambda>i. \<not> valid_state (i_def i) target db) rows then (Inl IntegrityError, db)
         else (Inr (length rows),
               db\<lparr>db_items := map (\<lambda>i. if hit i then i\<lparr>i_state := target, i_version := i_version i + 1\<rparr> else i)
                    (db_items db)\<rparr>))"

definition perform_transition ::
  "instant \<Rightarrow> uuid \<Rightarrow> string \<Rightarrow> uuid \<Rightarrow> string \<Rightarrow> string \<Rightarrow> validation_result \<Rightarrow> string \<Rightarrow> int option \<Rightarrow>
   item_row option \<Rightarrow> (wf_db, wf_error, transition_outcome) sem" where
  "perform_transition now item ty ws target by_whom vr reason expected locked =
     atomic (
       se_bind (se_lift (raise_if (\<not> v_valid vr)
         (WorkflowStateError ''Cannot perform transition: ValidationResult is not valid''))) (\<lambda>_.
       se_bind (\<lambda>db. (case locked of Some row \<Rightarrow> Inr row | None \<Rightarrow> lock_item_state item ty ws db, db)) (\<lambda>row.
       let guard = (case expected of Some v \<Rightarrow> v | None \<Rightarrow> i_version row)
       in se_bind (se_lift (raise_if (expected \<noteq> None \<and> i_version row \<noteq> guard)
                     (version_conflict item guard (i_version row)))) (\<lambda>_.
          se_bind (update_item (i_id row) guard target) (\<lambda>count.
          se_bind (se_lift (raise_if (count = 0) (WorkflowConflictError (conflict_prefix item)))) (\<lambda>_.
          se_bind (append_history (i_id row) (i_state row) target by_whom now reason
                     (case v_seal vr of Some s \<Rightarrow> s | None \<Rightarrow> []) ws) (\<lambda>hid.
          se_return \<lparr>oc_item_state_id = i_id row, oc_history_entry_id = hid, oc_previous_state = i_state row,
                     oc_new_state = target, oc_signature_seal = v_seal vr\<rparr>)))))))"

definition allowed_roles_from :: "string \<Rightarrow> uuid \<Rightarrow> string \<Rightarrow> wf_db \<Rightarrow> string list" where
  "allowed_roles_from current ws ty db =
     (case get_definition ws ty db of
        Inl _ \<Rightarrow> []
      | Inr d \<Rightarrow> concat (map (\<lambda>t. map py_lower (allowed_roles t))
                    (filter (\<lambda>t. from_state t = current) (dto_transitions d))))"

text \<open>\<open>item_state.save(update_fields=["current_state", "version"])\<close>.\<close>

definition save_item :: "item_row \<Rightarrow> (wf_db, wf_error, unit) sem" where
  "save_item row db =
     (if \<not> valid_state (i_def row) (i_state row) db then (Inl IntegrityError, db)
      else (Inr (), db\<lparr>db_items := map (\<lambda>i. if i_id i = i_id row
              then i\<lparr>i_state := i_state row, i_version := i_version row\<rparr> else i) (db_items db)\<rparr>))"

definition force_transition ::
  "instant \<Rightarrow> uuid \<Rightarrow> string \<Rightarrow> uuid \<Rightarrow> string \<Rightarrow> string \<Rightarrow> string \<Rightarrow> string list \<Rightarrow> bool \<Rightarrow>
   (wf_db, wf_error, transition_outcome) sem" where
  "force_transition now item ty ws target reason actor actor_roles allow_system =
     atomic (
       se_bind (se_lift (raise_if (py_strip reason = [])
         (WorkflowStateError ''force_transition requires a non-empty change_reason''))) (\<lambda>_.
       se_bind (\<lambda>db. (case get_item_state item ty ws db of None \<Rightarrow> Inl ItemStateDoesNotExist | Some r \<Rightarrow> Inr r, db)) (\<lambda>row.
       se_bind (\<lambda>db. (if allow_system then Inr ()
            else let roles = map py_lower actor_roles; allowed = allowed_roles_from (i_state row) ws ty db
                 in if roles = []
                    then Inl (WorkflowStateError ''force_transition requires an explicit actor_roles set (or allow_system=True for system housekeeping)'')
                    else raise_if (allowed \<noteq> [] \<and> set allowed \<inter> set roles = {})
                           (WorkflowStateError (''force_transition role not allowed: leaving '' @ sq (i_state row) @
                             '' requires one of '' @ py_list (sorted_set allowed) @ '', actor has '' @
                             py_list (sorted_set roles))), db)) (\<lambda>_.
       se_bind (save_item (row\<lparr>i_state := target, i_version := i_version row + 1\<rparr>)) (\<lambda>_.
       se_bind (append_history (i_id row) (i_state row) target actor now reason [] ws) (\<lambda>hid.
       se_return \<lparr>oc_item_state_id = i_id row, oc_history_entry_id = hid, oc_previous_state = i_state row,
                  oc_new_state = target, oc_signature_seal = None\<rparr>))))))"

subsection \<open>Effects\<close>

lemma insert_item_Inr:
  "insert_item item ty ws def_id s db = (Inr row, db') \<longleftrightarrow>
     row = \<lparr>i_id = db_next db, i_item = item, i_type = ty, i_ws = ws, i_def = def_id, i_state = s, i_version = 1\<rparr> \<and>
     db' = db\<lparr>db_items := db_items db @ [row], db_next := Suc (db_next db)\<rparr> \<and> valid_state def_id s db \<and>
     (\<forall>i\<in>set (db_items db). i_item i = item \<longrightarrow> i_type i \<noteq> ty)"
  by (auto simp: insert_item_def Let_def list_ex_iff)

lemma insert_item_Inl: "insert_item item ty ws def_id s db = (Inl e, db') \<Longrightarrow> db' = db \<and> e = IntegrityError"
  by (auto simp: insert_item_def Let_def split: if_splits)

lemma get_item_stateD:
  "get_item_state item ty ws db = Some row \<Longrightarrow>
     row \<in> set (db_items db) \<and> i_item row = item \<and> i_type row = ty \<and> i_ws row = ws"
  unfolding get_item_state_def by (drule find_SomeD) simp

text \<open>The move both transitions make: one row updated, one history row appended.\<close>

definition moved :: "item_row \<Rightarrow> string \<Rightarrow> item_row" where
  "moved row target = row\<lparr>i_state := target, i_version := i_version row + 1\<rparr>"

definition move ::
  "item_row \<Rightarrow> string \<Rightarrow> string \<Rightarrow> instant \<Rightarrow> string \<Rightarrow> string \<Rightarrow> uuid \<Rightarrow> wf_db \<Rightarrow> wf_db" where
  "move row target by_whom stamp reason seal ws db =
     db\<lparr>db_items := map (\<lambda>i. if i_id i = i_id row then moved row target else i) (db_items db),
        db_history := db_history db @
          [\<lparr>h_id = db_next db, h_item_state = i_id row, h_from = i_state row, h_to = target, h_by = by_whom,
            h_at = stamp, h_reason = reason, h_seal = seal, h_ws = ws\<rparr>],
        db_next := Suc (db_next db)\<rparr>"

definition keys_ok :: "wf_db \<Rightarrow> bool" where
  "keys_ok db \<longleftrightarrow> distinct (map i_id (db_items db)) \<and> (\<forall>i\<in>set (db_items db). i_id i < db_next db)"

lemma keys_ok_unique: "keys_ok db \<Longrightarrow> i \<in> set (db_items db) \<Longrightarrow> j \<in> set (db_items db) \<Longrightarrow> i_id i = i_id j \<Longrightarrow> i = j"
  by (auto simp: keys_ok_def distinct_map dest: inj_onD)

lemma atomic_Inr: "atomic m db = (Inr x, db') \<longleftrightarrow> m db = (Inr x, db')"
  by (simp add: atomic_def se_atomic_Inr)

lemma atomic_Inl: "atomic m db = (Inl e, db') \<longleftrightarrow> (\<exists>db1. m db = (Inl e, db1) \<and> db' = db\<lparr>db_cache := db_cache db1\<rparr>)"
  by (auto simp: atomic_def se_atomic_Inl)

lemma update_item_locked:
  assumes "keys_ok db" "row \<in> set (db_items db)" "valid_state (i_def row) target db"
  shows "update_item (i_id row) (i_version row) target db =
    (Inr 1, db\<lparr>db_items := map (\<lambda>i. if i_id i = i_id row then moved row target else i) (db_items db)\<rparr>)"
proof -
  have eq: "i_id i = i_id row \<and> i_version i = i_version row \<longleftrightarrow> i = row" if "i \<in> set (db_items db)" for i
    using keys_ok_unique [OF assms(1) that assms(2)] by blast
  have f: "filter (\<lambda>i. i_id i = i_id row \<and> i_version i = i_version row) (db_items db) = [row]"
  proof -
    have "filter (\<lambda>i. i_id i = i_id row \<and> i_version i = i_version row) (db_items db) = filter (\<lambda>i. i = row) (db_items db)"
      using eq by (auto intro: filter_cong)
    moreover have "distinct (db_items db)" using assms(1) by (simp add: keys_ok_def distinct_map)
    then have "filter (\<lambda>i. i = row) (db_items db) = [row]" using assms(2) by (rule filter_singleton)
    ultimately show ?thesis by simp
  qed
  have "map (\<lambda>i. if i_id i = i_id row \<and> i_version i = i_version row then i\<lparr>i_state := target, i_version := i_version i + 1\<rparr> else i)
      (db_items db) = map (\<lambda>i. if i_id i = i_id row then moved row target else i) (db_items db)"
    using eq keys_ok_unique [OF assms(1) _ assms(2)] by (auto simp: moved_def)
  then show ?thesis using assms(3) by (simp add: update_item_def Let_def f)
qed

definition seal_text :: "validation_result \<Rightarrow> string" where
  "seal_text vr = (case v_seal vr of Some s \<Rightarrow> s | None \<Rightarrow> [])"

definition outcome_of_move :: "item_row \<Rightarrow> nat \<Rightarrow> string \<Rightarrow> string option \<Rightarrow> transition_outcome" where
  "outcome_of_move row hid target seal =
     \<lparr>oc_item_state_id = i_id row, oc_history_entry_id = hid, oc_previous_state = i_state row,
      oc_new_state = target, oc_signature_seal = seal\<rparr>"

lemma update_item_invalid:
  assumes "keys_ok db" "row \<in> set (db_items db)" "\<not> valid_state (i_def row) target db"
  shows "update_item (i_id row) (i_version row) target db = (Inl IntegrityError, db)"
  using assms by (auto simp: update_item_def Let_def list_ex_iff)

lemma append_history_move:
  "append_history (i_id row) (i_state row) target by_whom now reason seal ws
     (db\<lparr>db_items := map (\<lambda>i. if i_id i = i_id row then moved row target else i) (db_items db)\<rparr>) =
   (Inr (db_next db), move row target by_whom now reason seal ws db)"
  by (simp add: append_history_def move_def)

text \<open>With the current row in hand, the transition is one move or an error that changes nothing.\<close>

lemma perform_transition_eq:
  assumes "keys_ok db" "row \<in> set (db_items db)"
  shows "perform_transition now item ty ws target by_whom vr reason expected (Some row) db =
    (if \<not> v_valid vr then (Inl (WorkflowStateError ''Cannot perform transition: ValidationResult is not valid''), db)
     else if expected \<noteq> None \<and> expected \<noteq> Some (i_version row)
     then (Inl (version_conflict item (the expected) (i_version row)), db)
     else if \<not> valid_state (i_def row) target db then (Inl IntegrityError, db)
     else (Inr (outcome_of_move row (db_next db) target (v_seal vr)), move row target by_whom now reason (seal_text vr) ws db))"
proof (cases "v_valid vr \<and> (expected = None \<or> expected = Some (i_version row))")
  case False
  then show ?thesis
    by (cases expected) (auto simp: perform_transition_def atomic_def se_atomic_def se_bind_def Let_def)
next
  case True
  have guard: "(case expected of None \<Rightarrow> i_version row | Some v \<Rightarrow> v) = i_version row"
    using True by (cases expected) auto
  show ?thesis
  proof (cases "valid_state (i_def row) target db")
    case False
    then show ?thesis using True guard update_item_invalid [OF assms False]
      by (auto simp: perform_transition_def atomic_def se_atomic_def se_bind_def Let_def)
  next
    case valid: True
    show ?thesis using True guard valid update_item_locked [OF assms valid]
      by (auto simp: perform_transition_def atomic_def se_atomic_def se_bind_def Let_def append_history_move
          outcome_of_move_def seal_text_def)
  qed
qed

lemma save_item_locked:
  assumes "keys_ok db" "row \<in> set (db_items db)" "valid_state (i_def row) target db"
  shows "save_item (row\<lparr>i_state := target, i_version := i_version row + 1\<rparr>) db =
    (Inr (), db\<lparr>db_items := map (\<lambda>i. if i_id i = i_id row then moved row target else i) (db_items db)\<rparr>)"
proof -
  let ?row = "row\<lparr>i_state := target, i_version := i_version row + 1\<rparr>"
  have "map (\<lambda>i. if i_id i = i_id ?row then i\<lparr>i_state := i_state ?row, i_version := i_version ?row\<rparr> else i) (db_items db) =
      map (\<lambda>i. if i_id i = i_id row then moved row target else i) (db_items db)"
    using keys_ok_unique [OF assms(1) _ assms(2)] by (auto simp: moved_def)
  then show ?thesis using assms(3) by (simp add: save_item_def)
qed

lemma force_transition_outcome:
  assumes "keys_ok db" "force_transition now item ty ws target reason actor roles sys db = (r, db')"
  shows "(\<exists>e. r = Inl e) \<and> db' = db \<or>
    (\<exists>row. get_item_state item ty ws db = Some row \<and> valid_state (i_def row) target db \<and> \<not> py_blank reason \<and>
       r = Inr (outcome_of_move row (db_next db) target None) \<and> db' = move row target actor now reason [] ws db)"
proof (cases "get_item_state item ty ws db")
  case None
  then show ?thesis using assms(2)
    by (auto simp: force_transition_def atomic_def se_atomic_def se_bind_def raise_if_def split: if_splits)
next
  case (Some row)
  note row = get_item_stateD [OF Some, THEN conjunct1]
  show ?thesis
  proof (cases "valid_state (i_def row) target db")
    case True
    show ?thesis using assms(2) Some True save_item_locked [OF assms(1) row True]
      by (auto simp: force_transition_def atomic_def se_atomic_def se_bind_def raise_if_def Let_def
          append_history_move outcome_of_move_def py_blank_def split: if_splits)
  next
    case False
    then show ?thesis using assms(2) Some
      by (auto simp: force_transition_def atomic_def se_atomic_def se_bind_def raise_if_def Let_def save_item_def
          split: if_splits)
  qed
qed

subsection \<open>The history explains the state\<close>

definition item_log :: "wf_db \<Rightarrow> item_row \<Rightarrow> history_row list" where
  "item_log db i = filter (\<lambda>h. h_item_state h = i_id i) (db_history db)"

fun linked :: "history_row list \<Rightarrow> bool" where
  "linked [] = True"
| "linked [h] = True"
| "linked (h # k # hs) = (h_to h = h_from k \<and> linked (k # hs))"

lemma linked_snoc: "linked (hs @ [h]) \<longleftrightarrow> linked hs \<and> (hs = [] \<or> h_to (last hs) = h_from h)"
  by (induction hs rule: linked.induct) auto

text \<open>
  The log of an item is a chain of moves that ends in its current state, and its version counts the moves;
  the entry of a proposal (with an empty source) is not a move.
\<close>

definition log_ok :: "wf_db \<Rightarrow> item_row \<Rightarrow> bool" where
  "log_ok db i \<longleftrightarrow>
     linked (item_log db i) \<and> (item_log db i = [] \<or> h_to (last (item_log db i)) = i_state i) \<and>
     i_state i \<noteq> [] \<and> i_version i = 1 + int (length (filter (\<lambda>h. h_from h \<noteq> []) (item_log db i)))"

definition items_inv :: "wf_db \<Rightarrow> bool" where
  "items_inv db \<longleftrightarrow>
     keys_ok db \<and> distinct (map (\<lambda>i. (i_item i, i_type i)) (db_items db)) \<and>
     (\<forall>h\<in>set (db_history db). \<exists>i\<in>set (db_items db). h_item_state h = i_id i) \<and>
     (\<forall>i\<in>set (db_items db). log_ok db i)"

lemma log_ok_cong:
  "db_history db' = db_history db \<Longrightarrow> log_ok db' i = log_ok db i"
  by (simp add: log_ok_def item_log_def)

lemma items_inv_frame:
  assumes "items_inv db" "db_items db' = db_items db" "db_history db' = db_history db" "db_next db \<le> db_next db'"
  shows "items_inv db'"
  using assms by (auto simp: items_inv_def keys_ok_def log_ok_cong [OF assms(3)] intro: less_le_trans)

lemma items_inv_insert:
  assumes "items_inv db" "insert_item item ty ws def_id s db = (Inr row, db')"
  shows "items_inv db'" "item_log db' row = []" "row \<in> set (db_items db')"
proof -
  have row: "row = \<lparr>i_id = db_next db, i_item = item, i_type = ty, i_ws = ws, i_def = def_id, i_state = s, i_version = 1\<rparr>"
    and db': "db' = db\<lparr>db_items := db_items db @ [row], db_next := Suc (db_next db)\<rparr>"
    and s: "valid_state def_id s db" and fresh: "\<forall>i\<in>set (db_items db). i_item i = item \<longrightarrow> i_type i \<noteq> ty"
    using assms(2) unfolding insert_item_Inr by blast+
  have keys: "\<forall>i\<in>set (db_items db). i_id i < db_next db" using assms(1) by (simp add: items_inv_def keys_ok_def)
  have "h_item_state h \<noteq> db_next db" if "h \<in> set (db_history db)" for h
  proof -
    obtain i where "i \<in> set (db_items db)" "h_item_state h = i_id i"
      using assms(1) \<open>h \<in> set (db_history db)\<close> unfolding items_inv_def by blast
    then show ?thesis using keys by auto
  qed
  then have none: "item_log db row = []" by (simp add: item_log_def row filter_empty_conv)
  then show "item_log db' row = []" by (simp add: item_log_def db')
  have ok: "log_ok db' i \<longleftrightarrow> log_ok db i" for i by (rule log_ok_cong) (simp add: db')
  have "log_ok db row" using none s by (simp add: log_ok_def row valid_state_def)
  moreover have "distinct (map i_id (db_items db'))" "\<forall>i\<in>set (db_items db'). i_id i < db_next db'"
    using assms(1) keys by (auto simp: db' row items_inv_def keys_ok_def less_Suc_eq)
  moreover have "distinct (map (\<lambda>i. (i_item i, i_type i)) (db_items db'))"
    using assms(1) fresh by (auto simp: db' row items_inv_def)
  moreover have "\<forall>h\<in>set (db_history db'). \<exists>i\<in>set (db_items db'). h_item_state h = i_id i"
    using assms(1) by (auto simp: db' items_inv_def)
  ultimately show "items_inv db'" using assms(1) ok by (auto simp: items_inv_def keys_ok_def db')
  show "row \<in> set (db_items db')" by (simp add: db')
qed

lemma items_inv_append:
  assumes inv: "items_inv db" and i: "i \<in> set (db_items db)"
    and hist: "db_history db' = db_history db @ [h]" "h_item_state h = i_id i"
    and items: "db_items db' = map (\<lambda>j. if i_id j = i_id i then i' else j) (db_items db)" "i_id i' = i_id i"
      "i_item i' = i_item i" "i_type i' = i_type i" "db_next db \<le> db_next db'"
    and ok: "log_ok db' i'"
  shows "items_inv db'"
proof -
  have ids: "map i_id (db_items db') = map i_id (db_items db)" using items by auto
  have names: "map (\<lambda>j. (i_item j, i_type j)) (db_items db') = map (\<lambda>j. (i_item j, i_type j)) (db_items db)"
  proof -
    have "i_item (if i_id j = i_id i then i' else j) = i_item j \<and> i_type (if i_id j = i_id i then i' else j) = i_type j"
      if "j \<in> set (db_items db)" for j
      using keys_ok_unique [OF _ that i] inv items by (auto simp: items_inv_def)
    then show ?thesis by (simp add: items(1))
  qed
  have "log_ok db' j" if "j \<in> set (db_items db')" for j
  proof (cases "i_id j = i_id i")
    case True
    then have "j = i'" using that items by auto
    then show ?thesis using ok by simp
  next
    case False
    then have "j \<in> set (db_items db)" using that items by auto
    then have "log_ok db j" using inv by (simp add: items_inv_def)
    moreover have "item_log db' j = item_log db j" using False hist by (simp add: item_log_def)
    ultimately show ?thesis by (simp add: log_ok_def)
  qed
  moreover have "\<exists>j\<in>set (db_items db'). h_item_state k = i_id j" if "k \<in> set (db_history db')" for k
  proof -
    have "\<exists>j\<in>set (db_items db). h_item_state k = i_id j"
      using that inv i hist by (auto simp: items_inv_def)
    then have "h_item_state k \<in> i_id ` set (db_items db)" by auto
    then have "h_item_state k \<in> i_id ` set (db_items db')" by (metis ids list.set_map)
    then show ?thesis by auto
  qed
  moreover have "\<forall>j\<in>set (db_items db'). i_id j < db_next db'"
    using inv items by (auto simp: items_inv_def keys_ok_def dest: less_le_trans split: if_splits)
  ultimately show ?thesis using inv by (simp add: items_inv_def keys_ok_def ids names)
qed

lemma items_inv_move:
  assumes "items_inv db" "row \<in> set (db_items db)" "valid_state (i_def row) target db"
  shows "items_inv (move row target by_whom now reason seal ws db)"
proof -
  have ok: "log_ok db row" using assms by (simp add: items_inv_def)
  let ?db = "move row target by_whom now reason seal ws db" let ?log = "item_log db row"
  obtain h where h: "item_log ?db (moved row target) = ?log @ [h]" "h_from h = i_state row" "h_to h = target"
    by (simp add: item_log_def move_def moved_def)
  have "log_ok ?db (moved row target)"
    using ok h assms(3) by (auto simp: log_ok_def linked_snoc moved_def valid_state_def)
  then show ?thesis
    by (intro items_inv_append [OF assms(1,2)]) (auto simp: move_def moved_def)
qed

lemma items_inv_genesis:
  assumes "items_inv db" "row \<in> set (db_items db)" "item_log db row = []" "i_version row = 1"
    and "append_history (i_id row) [] (i_state row) by_whom now reason seal ws db = (r, db')"
  shows "items_inv db'"
proof -
  obtain h where hist: "db_history db' = db_history db @ [h]" "h_item_state h = i_id row" "h_from h = []"
      "h_to h = i_state row" "db_items db' = db_items db" "db_next db \<le> db_next db'"
    using assms(5) by (auto simp: append_history_def)
  have same: "db_items db' = map (\<lambda>j. if i_id j = i_id row then row else j) (db_items db)"
  proof -
    have "keys_ok db" using assms(1) by (simp add: items_inv_def)
    then have "(if i_id j = i_id row then row else j) = j" if "j \<in> set (db_items db)" for j
      using keys_ok_unique that assms(2) by metis
    then show ?thesis using hist(5) by (simp add: map_idI)
  qed
  have "item_log db' row = [h]" using assms(3) hist by (simp add: item_log_def)
  moreover have "log_ok db row" using assms(1,2) by (simp add: items_inv_def)
  ultimately have "log_ok db' row" using assms(3,4) hist by (simp add: log_ok_def)
  then show ?thesis by (intro items_inv_append [OF assms(1,2) hist(1,2) same]) (auto simp: hist)
qed

lemma create_item_states_inv:
  "items_inv db \<Longrightarrow> create_item_states now ty ws def_id init seeded by_whom items db = (Inr rows, db') \<Longrightarrow> items_inv db'"
proof (induction items arbitrary: db rows)
  case (Cons item items)
  obtain row db1 where ins: "insert_item item ty ws def_id init db = (Inr row, db1)"
    and rest: "se_bind (if seeded then append_history (i_id row) [] init (py_or by_whom ''agent'') now [] [] ws
              else se_return 0) (\<lambda>_. se_bind (create_item_states now ty ws def_id init seeded by_whom items)
              (\<lambda>rows. se_return (row # rows))) db1 = (Inr rows, db')"
    using Cons.prems(2) by (auto simp: se_bind_Inr)
  note i = items_inv_insert [OF Cons.prems(1) ins]
  have row: "i_state row = init" "i_version row = 1" using ins by (auto simp: insert_item_Inr)
  obtain k db2 rows2 where k: "(if seeded then append_history (i_id row) [] init (py_or by_whom ''agent'') now [] [] ws
              else se_return 0) db1 = (Inr k, db2)"
    and tail: "create_item_states now ty ws def_id init seeded by_whom items db2 = (Inr rows2, db')"
    using rest by (auto simp: se_bind_Inr)
  have "items_inv db2"
  proof (cases seeded)
    case True
    then show ?thesis using k items_inv_genesis [OF i(1,3,2)] row by auto
  next
    case False
    then show ?thesis using k i by simp
  qed
  then show ?case using tail by (rule Cons.IH)
qed simp

text \<open>Every operation of the manager keeps the invariant, whether it succeeds or raises.\<close>

lemma items_inv_atomic:
  assumes "items_inv db" "\<And>x db1. m db = (Inr x, db1) \<Longrightarrow> items_inv db1"
  shows "items_inv (snd (atomic m db))"
proof (cases "m db")
  case (Pair r db1)
  show ?thesis
  proof (cases r)
    case (Inl e)
    then have "snd (atomic m db) = db\<lparr>db_cache := db_cache db1\<rparr>" using Pair by (simp add: atomic_def se_atomic_def)
    then show ?thesis using items_inv_frame [OF assms(1), of "db\<lparr>db_cache := db_cache db1\<rparr>"] by simp
  next
    case (Inr x)
    then have "snd (atomic m db) = db1" using Pair by (simp add: atomic_def se_atomic_def)
    then show ?thesis using assms(2) Pair Inr by simp
  qed
qed

lemma items_inv_initialize:
  "items_inv db \<Longrightarrow> items_inv (snd (lm_initialize_workflow_states now items ty ws init by_whom db))"
  unfolding lm_initialize_workflow_states_def
  by (rule items_inv_atomic)
    (auto simp: se_bind_Inr Let_def split: if_splits option.splits intro: create_item_states_inv)

lemma items_inv_ensure: "items_inv db \<Longrightarrow> items_inv (snd (ensure_item_state item ty ws init db))"
  unfolding ensure_item_state_def
  by (rule items_inv_atomic)
    (auto split: option.splits prod.splits sum.splits dest: insert_item_Inl items_inv_insert)

lemma items_inv_force:
  assumes "items_inv db"
  shows "items_inv (snd (force_transition now item ty ws target reason actor roles sys db))"
proof (cases "force_transition now item ty ws target reason actor roles sys db")
  case (Pair r db')
  have "keys_ok db" using assms by (simp add: items_inv_def)
  from force_transition_outcome [OF this Pair] show ?thesis
    using Pair assms items_inv_move get_item_stateD by (auto; blast)
qed

end
