(* ===== verification/Workflow_Global.thy ===== *)
theory Workflow_Global
  imports Definition_Cache
begin

text \<open>
  The tenant-wide default workflows and their propagation
  (\<^verbatim>\<open>workflow/global_definition_store.py\<close>). Every edit of a global row is copied, in the same transaction,
  into the definitions that still mirror it, and the definition cache of the process is invalidated for
  each workspace concerned.
\<close>

subsection \<open>Reading and seeding\<close>

definition empty_graph :: workflow_json where
  "empty_graph = \<lparr>wf_states = [], wf_transitions = [], wf_state_meta = Map.empty\<rparr>"

definition global_get :: "string \<Rightarrow> string \<Rightarrow> wf_db \<Rightarrow> global_row option" where
  "global_get ty preset db = find (\<lambda>g. g_type g = ty \<and> g_preset g = preset) (db_globals db)"

text \<open>\<open>order_by\<close> is left to the caller: the rows are returned in table order.\<close>

definition global_list :: "string option \<Rightarrow> string option \<Rightarrow> wf_db \<Rightarrow> global_row list" where
  "global_list ty preset db =
     filter (\<lambda>g. (case ty of Some t \<Rightarrow> t = [] \<or> g_type g = t | None \<Rightarrow> True) \<and>
                 (case preset of Some p \<Rightarrow> p = [] \<or> g_preset g = p | None \<Rightarrow> True)) (db_globals db)"

definition insert_global :: "string \<Rightarrow> string \<Rightarrow> workflow_json \<Rightarrow> wf_db \<Rightarrow> global_row \<times> wf_db" where
  "insert_global ty preset json db =
     (let g = \<lparr>g_id = db_next db, g_type = ty, g_preset = preset, g_json = json\<rparr>
      in (g, db\<lparr>db_globals := db_globals db @ [g], db_next := Suc (db_next db)\<rparr>))"

definition slashed :: "string \<Rightarrow> string \<Rightarrow> string" where
  "slashed ty preset = sq (ty @ ''/'' @ preset)"

definition global_initialize :: "string \<Rightarrow> string \<Rightarrow> (wf_db, def_error, global_row) sem" where
  "global_initialize ty preset db =
     (case global_get ty preset db of
        Some g \<Rightarrow> (Inl (WorkflowDefinitionError
          (''Global workflow definition for '' @ slashed ty preset @ '' already initialized'')), db)
      | None \<Rightarrow> map_prod Inr id (insert_global ty preset empty_graph db))"

definition get_or_seed_from_preset :: "string \<Rightarrow> string \<Rightarrow> wf_db \<Rightarrow> global_row \<times> wf_db" where
  "get_or_seed_from_preset ty preset db =
     (case global_get ty preset db of
        Some g \<Rightarrow> (g, db)
      | None \<Rightarrow>
          insert_global ty preset
            (case map_of PRESET_SCHEMAS preset of Some schema \<Rightarrow> schema | None \<Rightarrow> empty_graph) db)"

subsection \<open>Persisting and propagating\<close>

definition global_require :: "string \<Rightarrow> string \<Rightarrow> wf_db \<Rightarrow> def_error + global_row" where
  "global_require ty preset db =
     (case global_get ty preset db of
        Some g \<Rightarrow> Inr g
      | None \<Rightarrow> Inl (WorkflowDefinitionError (''No global workflow definition for '' @ slashed ty preset)))"

definition save_global :: "global_row \<Rightarrow> wf_db \<Rightarrow> wf_db" where
  "save_global g db = db\<lparr>db_globals := map (\<lambda>x. if g_id x = g_id g then g else x) (db_globals db)\<rparr>"

definition mirrors_row :: "global_row \<Rightarrow> def_row \<Rightarrow> bool" where
  "mirrors_row g r \<longleftrightarrow> d_source_global r = Some (g_id g) \<and> \<not> d_is_customized r"

definition propagate :: "global_row \<Rightarrow> wf_db \<Rightarrow> nat \<times> wf_db" where
  "propagate g db =
     (let affected_workspace_ids = map d_ws (filter (mirrors_row g) (db_defs db));
          db1 = db\<lparr>db_defs := map (\<lambda>r. if mirrors_row g r then r\<lparr>d_json := g_json g\<rparr> else r) (db_defs db)\<rparr>
      in (length (filter (mirrors_row g) (db_defs db)),
          fold (\<lambda>ws d. invalidate_cache ws (g_type g) d) affected_workspace_ids db1))"

definition persist_global ::
  "global_row \<Rightarrow> string list \<Rightarrow> raw_transition list \<Rightarrow> wf_db \<Rightarrow> (global_row \<times> nat) \<times> wf_db" where
  "persist_global g states ts db =
     (let g' = g\<lparr>g_json := \<lparr>wf_states = states, wf_transitions = ts, wf_state_meta = wf_state_meta (g_json g)\<rparr>\<rparr>;
          (n, db1) = propagate g' (save_global g' db)
      in ((g', n), db1))"

definition non_customized_workspace_ids :: "global_row \<Rightarrow> wf_db \<Rightarrow> uuid list" where
  "non_customized_workspace_ids g db = map d_ws (filter (mirrors_row g) (db_defs db))"

definition check_live_items_in_state :: "global_row \<Rightarrow> string \<Rightarrow> wf_db \<Rightarrow> def_error + unit" where
  "check_live_items_in_state g state db =
     (let workspace_ids = non_customized_workspace_ids g db
      in if workspace_ids = [] then Inr ()
         else let qs = filter (\<lambda>i. i_ws i \<in> set workspace_ids \<and> i_type i = g_type g \<and> i_state i = state) (db_items db)
              in raise_if (length qs \<noteq> 0) (OrphanedStateError state (length qs) (map i_item (take 100 qs))))"

subsection \<open>Edits\<close>

type_synonym global_sem = "(wf_db, def_error, global_row \<times> nat) sem"

definition se_persist :: "global_row \<Rightarrow> string list \<Rightarrow> raw_transition list \<Rightarrow> global_sem" where
  "se_persist g states ts db = map_prod Inr id (persist_global g states ts db)"

definition global_add_state :: "string \<Rightarrow> string \<Rightarrow> string \<Rightarrow> global_sem" where
  "global_add_state ty preset name =
     se_bind (\<lambda>db. (global_require ty preset db, db)) (\<lambda>g.
     se_bind (se_lift (validate_state_name name)) (\<lambda>clean.
     let states = wf_states (g_json g); ts = wf_transitions (g_json g)
     in se_bind (se_lift (raise_if (clean \<in> set states)
                   (WorkflowDefinitionError (''State '' @ sq clean @ '' already exists'')))) (\<lambda>_.
        se_persist g (states @ [clean]) ts)))"

definition global_rename_state :: "string \<Rightarrow> string \<Rightarrow> string \<Rightarrow> string \<Rightarrow> global_sem" where
  "global_rename_state ty preset old_name new_name =
     se_bind (\<lambda>db. (global_require ty preset db, db)) (\<lambda>g.
     se_bind (se_lift (validate_state_name new_name)) (\<lambda>clean.
     let states = wf_states (g_json g); ts = wf_transitions (g_json g)
     in se_bind (se_lift (raise_if (old_name \<notin> set states)
                   (WorkflowDefinitionError (''Unknown state '' @ sq old_name)))) (\<lambda>_.
        se_bind (se_lift (raise_if (clean \<noteq> old_name \<and> clean \<in> set states)
                   (WorkflowDefinitionError (''State '' @ sq clean @ '' already exists'')))) (\<lambda>_.
        se_persist g (map (\<lambda>s. if s = old_name then clean else s) states)
          (rewire_transitions ts old_name clean)))))"

definition global_delete_state :: "string \<Rightarrow> string \<Rightarrow> string \<Rightarrow> global_sem" where
  "global_delete_state ty preset name =
     se_bind (\<lambda>db. (global_require ty preset db, db)) (\<lambda>g.
     let states = wf_states (g_json g); ts = wf_transitions (g_json g);
         referencing = map (\<lambda>t. arrow (rt_from t) (rt_to t))
                         (filter (\<lambda>t. rt_from t = name \<or> rt_to t = name) ts)
     in se_bind (se_lift (raise_if (name \<notin> set states)
                   (WorkflowDefinitionError (''Unknown state '' @ sq name)))) (\<lambda>_.
        se_bind (se_lift (raise_if (referencing \<noteq> []) (StateReferencedError name referencing))) (\<lambda>_.
        se_bind (\<lambda>db. (check_live_items_in_state g name db, db)) (\<lambda>_.
        se_persist g (filter (\<lambda>s. s \<noteq> name) states) ts))))"

definition global_add_transition ::
  "string \<Rightarrow> string \<Rightarrow> string \<Rightarrow> string \<Rightarrow> string list option \<Rightarrow> bool \<Rightarrow> bool \<Rightarrow> global_sem" where
  "global_add_transition ty preset f t roles reason sig =
     se_bind (\<lambda>db. (global_require ty preset db, db)) (\<lambda>g.
     let states = wf_states (g_json g); ts = wf_transitions (g_json g)
     in se_bind (se_lift (raise_if (f \<notin> set states)
                   (WorkflowDefinitionError (''Unknown from_state '' @ sq f)))) (\<lambda>_.
        se_bind (se_lift (raise_if (t \<notin> set states)
                   (WorkflowDefinitionError (''Unknown to_state '' @ sq t)))) (\<lambda>_.
        se_bind (se_lift (raise_if (find_transition ts f t \<noteq> None)
                   (WorkflowDefinitionError (''Transition '' @ sq (arrow f t) @ '' already exists'')))) (\<lambda>_.
        se_persist g states (ts @ [mk_transition f t (normalized_roles roles) reason sig])))))"

definition global_update_transition ::
  "string \<Rightarrow> string \<Rightarrow> string \<Rightarrow> string \<Rightarrow> string list option \<Rightarrow> bool option \<Rightarrow> bool option \<Rightarrow> global_sem" where
  "global_update_transition ty preset f t roles reason sig =
     se_bind (\<lambda>db. (global_require ty preset db, db)) (\<lambda>g.
     let states = wf_states (g_json g); ts = wf_transitions (g_json g)
     in se_bind (se_lift (raise_if (find_transition ts f t = None)
                   (WorkflowDefinitionError (''Unknown transition '' @ sq (arrow f t))))) (\<lambda>_.
        se_persist g states
          (update_first (\<lambda>x. rt_from x = f \<and> rt_to x = t)
             (\<lambda>x. x\<lparr>rt_roles := (if roles \<noteq> None then Some (normalized_roles roles) else rt_roles x),
                    rt_reason := (case reason of Some b \<Rightarrow> Some b | None \<Rightarrow> rt_reason x),
                    rt_sig := (case sig of Some b \<Rightarrow> Some b | None \<Rightarrow> rt_sig x)\<rparr>) ts)))"

text \<open>An entry that becomes empty is removed from \<open>state_meta\<close>.\<close>

definition freeze_meta :: "state_meta \<Rightarrow> string \<Rightarrow> bool \<Rightarrow> state_meta" where
  "freeze_meta meta state freeze =
     (let entry = (case meta state of Some e \<Rightarrow> e | None \<Rightarrow> Map.empty);
          entry' = (if freeze then entry(''freeze_on_enter'' \<mapsto> True)
                    else entry(''freeze_on_enter'' := None))
      in meta(state := (if entry' = Map.empty then None else Some entry')))"

definition set_state_freeze :: "string \<Rightarrow> string \<Rightarrow> string \<Rightarrow> bool \<Rightarrow> global_sem" where
  "set_state_freeze ty preset state freeze =
     se_bind (\<lambda>db. (global_require ty preset db, db)) (\<lambda>g.
     let states = wf_states (g_json g); ts = wf_transitions (g_json g)
     in se_bind (se_lift (raise_if (state \<notin> set states)
                   (WorkflowDefinitionError (''Unknown state '' @ sq state)))) (\<lambda>_.
        se_persist (g\<lparr>g_json := (g_json g)\<lparr>wf_state_meta := freeze_meta (wf_state_meta (g_json g)) state freeze\<rparr>\<rparr>)
          states ts))"

definition global_delete_transition :: "string \<Rightarrow> string \<Rightarrow> string \<Rightarrow> string \<Rightarrow> global_sem" where
  "global_delete_transition ty preset f t =
     se_bind (\<lambda>db. (global_require ty preset db, db)) (\<lambda>g.
     let states = wf_states (g_json g); ts = wf_transitions (g_json g);
         remaining = filter (\<lambda>x. \<not> (rt_from x = f \<and> rt_to x = t)) ts
     in se_bind (se_lift (raise_if (length remaining = length ts)
                   (WorkflowDefinitionError (''Unknown transition '' @ sq (arrow f t))))) (\<lambda>_.
        se_persist g states remaining))"

subsection \<open>The inheritance invariant\<close>

text \<open>
  Global rows have their own primary keys, and a definition linked to a global row has its item type and,
  while it is not customised, its graph.
\<close>

definition inherit_ok :: "wf_db \<Rightarrow> bool" where
  "inherit_ok db \<longleftrightarrow> distinct (map g_id (db_globals db)) \<and> (\<forall>g\<in>set (db_globals db). g_id g < db_next db) \<and>
     (\<forall>r\<in>set (db_defs db). \<forall>n. d_source_global r = Some n \<longrightarrow> n < db_next db) \<and>
     (\<forall>r\<in>set (db_defs db). \<forall>g\<in>set (db_globals db). d_source_global r = Some (g_id g) \<longrightarrow>
        d_type r = g_type g \<and> (\<not> d_is_customized r \<longrightarrow> d_json r = g_json g))"

lemma invalidate_fields [simp]:
  "db_defs (invalidate_cache ws ty db) = db_defs db" "db_globals (invalidate_cache ws ty db) = db_globals db"
  "db_items (invalidate_cache ws ty db) = db_items db" "db_history (invalidate_cache ws ty db) = db_history db"
  "db_next (invalidate_cache ws ty db) = db_next db"
  by (simp_all add: invalidate_cache_def)

lemma fold_invalidate_fields [simp]:
  "db_defs (fold (\<lambda>ws d. invalidate_cache ws ty d) wss db) = db_defs db"
  "db_globals (fold (\<lambda>ws d. invalidate_cache ws ty d) wss db) = db_globals db"
  "db_items (fold (\<lambda>ws d. invalidate_cache ws ty d) wss db) = db_items db"
  "db_history (fold (\<lambda>ws d. invalidate_cache ws ty d) wss db) = db_history db"
  "db_next (fold (\<lambda>ws d. invalidate_cache ws ty d) wss db) = db_next db"
  by (induction wss arbitrary: db) simp_all

lemma persist_global_fields:
  "db_globals (snd (persist_global g ss ts db)) =
     map (\<lambda>x. if g_id x = g_id g then fst (fst (persist_global g ss ts db)) else x) (db_globals db)"
  "db_defs (snd (persist_global g ss ts db)) =
     map (\<lambda>r. if mirrors_row g r then r\<lparr>d_json := g_json (fst (fst (persist_global g ss ts db)))\<rparr> else r) (db_defs db)"
  "db_items (snd (persist_global g ss ts db)) = db_items db"
  "db_history (snd (persist_global g ss ts db)) = db_history db"
  "db_next (snd (persist_global g ss ts db)) = db_next db"
  "fst (fst (persist_global g ss ts db)) =
     g\<lparr>g_json := \<lparr>wf_states = ss, wf_transitions = ts, wf_state_meta = wf_state_meta (g_json g)\<rparr>\<rparr>"
  by (simp_all add: persist_global_def propagate_def save_global_def mirrors_row_def Let_def split_beta)

lemma inherit_ok_persist:
  assumes "inherit_ok db" "g0 \<in> set (db_globals db)" "g_id g = g_id g0" "g_type g = g_type g0"
  shows "inherit_ok (snd (persist_global g ss ts db))"
proof -
  let ?db' = "snd (persist_global g ss ts db)"
  let ?g' = "g\<lparr>g_json := \<lparr>wf_states = ss, wf_transitions = ts, wf_state_meta = wf_state_meta (g_json g)\<rparr>\<rparr>"
  have globals: "db_globals ?db' = map (\<lambda>x. if g_id x = g_id g then ?g' else x) (db_globals db)"
    and defs: "db_defs ?db' = map (\<lambda>r. if mirrors_row g r then r\<lparr>d_json := g_json ?g'\<rparr> else r) (db_defs db)"
    by (simp_all add: persist_global_fields)
  have "map g_id (db_globals ?db') = map g_id (db_globals db)"
    by (simp add: globals comp_def cong: map_cong)
  moreover have "d_type r = g_type x \<and> (\<not> d_is_customized r \<longrightarrow> d_json r = g_json x)"
    if r: "r \<in> set (db_defs ?db')" and x: "x \<in> set (db_globals ?db')" and s: "d_source_global r = Some (g_id x)" for r x
  proof -
    obtain r1 where r1: "r1 \<in> set (db_defs db)" "r = (if mirrors_row g r1 then r1\<lparr>d_json := g_json ?g'\<rparr> else r1)"
      using r by (auto simp: defs)
    obtain x1 where x1: "x1 \<in> set (db_globals db)" "x = (if g_id x1 = g_id g then ?g' else x1)"
      using x by (auto simp: globals)
    have s1: "d_source_global r1 = Some (g_id x1)" using r1(2) x1(2) s by (auto split: if_splits)
    have old: "d_type r1 = g_type x1 \<and> (\<not> d_is_customized r1 \<longrightarrow> d_json r1 = g_json x1)"
      using assms(1) r1(1) x1(1) s1 by (auto simp: inherit_ok_def)
    show ?thesis
    proof (cases "g_id x1 = g_id g")
      case True
      have "x1 = g0" using True assms x1(1) by (auto simp: inherit_ok_def distinct_map dest: inj_onD)
      with True show ?thesis using r1(2) x1(2) s1 old assms(4) by (auto simp: mirrors_row_def)
    next
      case False
      then show ?thesis using r1(2) x1(2) s1 old by (auto simp: mirrors_row_def)
    qed
  qed
  moreover have "g_id x < db_next db" if "x \<in> set (db_globals ?db')" for x
    using that assms(1-3) by (auto simp: globals inherit_ok_def)
  moreover have "n < db_next db" if "r \<in> set (db_defs ?db')" "d_source_global r = Some n" for r n
    using that assms(1) by (auto simp: defs inherit_ok_def split: if_splits)
  ultimately show ?thesis
    using assms(1) unfolding inherit_ok_def persist_global_fields(5) by auto
qed

lemma global_getD: "global_get ty preset db = Some g \<Longrightarrow> g \<in> set (db_globals db) \<and> g_type g = ty \<and> g_preset g = preset"
  by (auto simp: global_get_def dest: find_SomeD)

definition global_outcome :: "string \<Rightarrow> string \<Rightarrow> wf_db \<Rightarrow> def_error + global_row \<times> nat \<Rightarrow> wf_db \<Rightarrow> bool" where
  "global_outcome ty preset db r db' \<longleftrightarrow>
    (\<exists>e. r = Inl e) \<and> db' = db \<or>
    (\<exists>g g1 ss ts. global_get ty preset db = Some g \<and> g_id g1 = g_id g \<and> g_type g1 = g_type g \<and>
       db' = snd (persist_global g1 ss ts db))"

lemma outcome_fail: "global_outcome ty preset db (Inl e) db"
  by (simp add: global_outcome_def)

lemma outcome_persist:
  "se_persist g1 ss ts db = (r, db') \<Longrightarrow> global_get ty preset db = Some g \<Longrightarrow> g_id g1 = g_id g \<Longrightarrow>
   g_type g1 = g_type g \<Longrightarrow> global_outcome ty preset db r db'"
  unfolding global_outcome_def se_persist_def
  by (rule disjI2, rule exI [of _ g], rule exI [of _ g1], rule exI [of _ ss], rule exI [of _ ts])
    (auto simp: map_prod_def split: prod.splits)

text \<open>
  What every edit of a global row promises: it fails without effect, or persists a new graph for that row,
  perhaps with changed state flags.
\<close>

locale global_edit =
  fixes edit :: global_sem and ty preset
  assumes outcome: "edit db = (r, db') \<Longrightarrow> global_outcome ty preset db r db'"
begin

lemma edit_inherit_ok: "inherit_ok db \<Longrightarrow> inherit_ok (snd (edit db))"
proof (cases "edit db")
  case (Pair r db')
  assume "inherit_ok db"
  then show ?thesis
    using outcome [OF Pair] inherit_ok_persist [of db] global_getD [of ty preset db] Pair
    by (auto simp: global_outcome_def)
qed

lemma edit_frame:
  "db_items (snd (edit db)) = db_items db" "db_history (snd (edit db)) = db_history db"
  "map d_id (db_defs (snd (edit db))) = map d_id (db_defs db)"
proof -
  obtain r db' where e: "edit db = (r, db')" by fastforce
  show "db_items (snd (edit db)) = db_items db" "db_history (snd (edit db)) = db_history db"
    "map d_id (db_defs (snd (edit db))) = map d_id (db_defs db)"
    using outcome [OF e] e by (auto simp: global_outcome_def persist_global_fields)
qed

end

lemmas global_edit_simps = se_bind_cases global_require_def Let_def

interpretation gadd_st: global_edit "global_add_state ty preset n" ty preset for ty preset n
  by standard (auto simp: global_add_state_def global_edit_simps intro: outcome_fail outcome_persist split: option.splits)

interpretation gren_st: global_edit "global_rename_state ty preset a b" ty preset for ty preset a b
  by standard (auto simp: global_rename_state_def global_edit_simps intro: outcome_fail outcome_persist split: option.splits)

interpretation gdel_st: global_edit "global_delete_state ty preset n" ty preset for ty preset n
  by standard (auto simp: global_delete_state_def global_edit_simps intro: outcome_fail outcome_persist split: option.splits)

interpretation gadd_tr: global_edit "global_add_transition ty preset f t roles reason sig" ty preset
  for ty preset f t roles reason sig
  by standard (auto simp: global_add_transition_def global_edit_simps intro: outcome_fail outcome_persist split: option.splits)

interpretation gupd_tr: global_edit "global_update_transition ty preset f t roles reason sig" ty preset
  for ty preset f t roles reason sig
  by standard (auto simp: global_update_transition_def global_edit_simps intro: outcome_fail outcome_persist split: option.splits)

interpretation gfreeze: global_edit "set_state_freeze ty preset s b" ty preset for ty preset s b
  by standard (auto simp: set_state_freeze_def global_edit_simps intro: outcome_fail outcome_persist split: option.splits)

interpretation gdel_tr: global_edit "global_delete_transition ty preset f t" ty preset for ty preset f t
  by standard (auto simp: global_delete_transition_def global_edit_simps intro: outcome_fail outcome_persist split: option.splits)

subsection \<open>All operations on definitions\<close>

lemma inherit_ok_frame:
  assumes "inherit_ok db" "db_globals db' = db_globals db" "db_next db \<le> db_next db'"
    and "\<And>r. r \<in> set (db_defs db') \<Longrightarrow> r \<in> set (db_defs db) \<or> d_source_global r = None \<or>
           (d_is_customized r \<and> (\<exists>r0\<in>set (db_defs db). d_type r = d_type r0 \<and> d_source_global r = d_source_global r0))"
  shows "inherit_ok db'"
proof -
  have "d_source_global r = Some n \<Longrightarrow> n < db_next db'" if "r \<in> set (db_defs db')" for r n
    using assms(4) [OF that] assms(1,3) unfolding inherit_ok_def by fastforce
  moreover have "d_source_global r = Some (g_id g) \<Longrightarrow> d_type r = g_type g \<and> (\<not> d_is_customized r \<longrightarrow> d_json r = g_json g)"
    if "r \<in> set (db_defs db')" "g \<in> set (db_globals db)" for r g
    using assms(4) [OF that(1)] assms(1) that(2) unfolding inherit_ok_def by fastforce
  ultimately show ?thesis using assms(1-3) unfolding inherit_ok_def by fastforce
qed

lemma inherit_ok_custom:
  assumes "inherit_ok db"
  shows "inherit_ok (snd (validate_and_persist_custom conf ws ty states ts db))"
proof (cases "validate_and_persist_custom conf ws ty states ts db")
  case (Pair res db')
  show ?thesis
  proof (cases res)
    case (Inl e)
    then show ?thesis using persist_failure [of conf ws ty states ts db e db'] Pair assms by simp
  next
    case (Inr dto)
    from persist_success(1) [OF Pair [unfolded Inr]]
    obtain row where row: "d_is_customized row" "d_type row = ty"
       "case find_def ws ty db of
          Some r0 \<Rightarrow> d_id row = d_id r0 \<and> d_source_global row = d_source_global r0 \<and> db' = save_def row db
        | None \<Rightarrow> d_id row = db_next db \<and> d_source_global row = None \<and> db' = insert_def row db" by blast
    show ?thesis
    proof (cases "find_def ws ty db")
      case None
      then show ?thesis
        using row assms by (auto simp: Pair insert_def_def intro!: inherit_ok_frame [OF assms])
    next
      case (Some r0)
      from find_defD [OF this] row Some have r: "db' = save_def row db" "d_source_global row = d_source_global r0"
          "r0 \<in> set (db_defs db)" "d_type row = d_type r0" by auto
      have "r \<in> set (db_defs db') \<Longrightarrow> r = row \<or> r \<in> set (db_defs db)" for r
        by (auto simp: r(1) save_def_def split: if_splits)
      then show ?thesis
        using r row(1) by (intro inherit_ok_frame [OF assms]) (auto simp: Pair)
    qed
  qed
qed

lemma inherit_ok_edit: "inherit_ok db \<Longrightarrow> inherit_ok (snd (run_edit conf ws ty op db))"
proof (cases "run_edit conf ws ty op db")
  case (Pair r db')
  assume ok: "inherit_ok db"
  from sound_run_edit [of conf ws ty op] Pair
  have "db' = db \<or> (\<exists>ss' ts'. persist_edit conf ws ty ss' ts' db = (r, db'))"
    unfolding sound_edit_def by blast
  then show ?thesis
    using ok inherit_ok_custom [OF ok] Pair unfolding persist_edit_def by (metis snd_conv)
qed

lemma find_global_id:
  assumes "inherit_ok db" "find (\<lambda>g. g_id g = n) (db_globals db) = Some g" "x \<in> set (db_globals db)" "g_id x = n"
  shows "x = g"
  using assms by (auto simp: inherit_ok_def distinct_map dest!: find_SomeD dest: inj_onD)

lemma inherit_ok_reset:
  assumes "inherit_ok db" "defs_ok db"
  shows "inherit_ok (snd (reset_to_global ws ty db)) \<and> defs_ok (snd (reset_to_global ws ty db))"
proof (cases "snd (reset_to_global ws ty db) = db")
  case False
  then obtain r n g where r: "find_def ws ty db = Some r" "d_source_global r = Some n"
      "find (\<lambda>g. g_id g = n) (db_globals db) = Some g"
      "snd (reset_to_global ws ty db) = save_def (r\<lparr>d_json := g_json g, d_is_customized := False\<rparr>) db"
    by (auto simp: reset_to_global_def Let_def split: option.splits)
  let ?r = "r\<lparr>d_json := g_json g, d_is_customized := False\<rparr>"
  have mem: "r \<in> set (db_defs db)" "d_ws r = ws" "d_type r = ty" using find_defD [OF r(1)] by auto
  have g: "g \<in> set (db_globals db)" "g_id g = n" using find_SomeD [OF r(3)] by auto
  have old: "\<forall>r\<in>set (db_defs db). \<forall>g\<in>set (db_globals db). d_source_global r = Some (g_id g) \<longrightarrow>
        d_type r = g_type g \<and> (\<not> d_is_customized r \<longrightarrow> d_json r = g_json g)"
    using assms(1) by (simp add: inherit_ok_def)
  have new: "x \<in> set (db_defs (save_def ?r db)) \<Longrightarrow> x = ?r \<or> x \<in> set (db_defs db)" for x
    by (auto simp: save_def_def split: if_splits)
  have "d_type x = g_type y \<and> (\<not> d_is_customized x \<longrightarrow> d_json x = g_json y)"
    if "x \<in> set (db_defs (save_def ?r db))" "y \<in> set (db_globals db)" "d_source_global x = Some (g_id y)" for x y
    using new [OF that(1)]
  proof
    assume x: "x = ?r"
    then have "y = g" using that(2,3) r(2) find_global_id [OF assms(1) r(3)] by auto
    then show ?thesis using x old mem(1) g r(2) by auto
  next
    assume "x \<in> set (db_defs db)"
    then show ?thesis using old that(2,3) by blast
  qed
  moreover have "d_source_global x = Some m \<Longrightarrow> m < db_next db" if "x \<in> set (db_defs (save_def ?r db))" for x m
    using new [OF that] assms(1) mem(1) r(2) by (auto simp: inherit_ok_def)
  ultimately have "inherit_ok (save_def ?r db)"
    using assms(1) unfolding inherit_ok_def by auto
  then show ?thesis
    using defs_ok_save [OF assms(2) r(1), of ?r] mem r(4) by simp
qed (use assms in simp)

lemma inherit_ok_insert_global:
  assumes "inherit_ok db"
  shows "inherit_ok (snd (insert_global ty preset json db))" "defs_ok db \<Longrightarrow> defs_ok (snd (insert_global ty preset json db))"
proof -
  show "defs_ok db \<Longrightarrow> defs_ok (snd (insert_global ty preset json db))"
    by (auto simp: insert_global_def defs_ok_def Let_def)
  have lt: "\<forall>g\<in>set (db_globals db). g_id g < db_next db" using assms by (simp add: inherit_ok_def)
  then have "db_next db \<notin> g_id ` set (db_globals db)" by auto
  moreover have "\<forall>r\<in>set (db_defs db). d_source_global r \<noteq> Some (db_next db)"
    using assms by (auto simp: inherit_ok_def)
  ultimately show "inherit_ok (snd (insert_global ty preset json db))"
    using assms by (auto simp: inherit_ok_def insert_global_def Let_def)
qed

lemma inherit_ok_add_def:
  assumes "inherit_ok db" "\<forall>n. d_source_global r = Some n \<longrightarrow> n < db_next db"
    and "\<forall>g\<in>set (db_globals db). d_source_global r = Some (g_id g) \<longrightarrow> d_type r = g_type g \<and> d_json r = g_json g"
  shows "inherit_ok (insert_def r db)"
  using assms by (auto simp: inherit_ok_def insert_def_def less_Suc_eq)

lemma create_default_split:
  assumes "map_of PRESET_SCHEMAS preset = Some schema"
  shows "\<exists>gid json db1. (db1 = db \<or> db1 = snd (insert_global ty preset schema db)) \<and>
    (\<forall>n. gid = Some n \<longrightarrow> (\<exists>g\<in>set (db_globals db1). g_id g = n \<and> g_type g = ty \<and> g_json g = json)) \<and>
    (snd (create_default has_tenant ws preset ty db) = db1 \<or>
     find_def ws ty db1 = None \<and>
     snd (create_default has_tenant ws preset ty db) =
       insert_def \<lparr>d_id = db_next db1, d_ws = ws, d_type = ty, d_preset = preset, d_json = json,
         d_is_custom = False, d_is_customized = False, d_source_global = gid\<rparr> db1)"
proof (cases has_tenant)
  case False
  with assms show ?thesis
    by (intro exI [of _ None] exI [of _ schema] exI [of _ db])
      (auto simp: create_default_def insert_def_def Let_def split: option.splits)
next
  case True
  show ?thesis
  proof (cases "find (\<lambda>g. g_type g = ty \<and> g_preset g = preset) (db_globals db)")
    case None
    with assms True show ?thesis
      by (intro exI [of _ "Some (db_next db)"] exI [of _ schema] exI [of _ "snd (insert_global ty preset schema db)"])
        (auto simp: create_default_def insert_global_def insert_def_def Let_def split: option.splits)
  next
    case (Some g)
    with assms True find_SomeD [OF Some] show ?thesis
      by (intro exI [of _ "Some (g_id g)"] exI [of _ "g_json g"] exI [of _ db])
        (auto simp: create_default_def insert_def_def Let_def split: option.splits)
  qed
qed

lemma inherit_ok_create:
  assumes "inherit_ok db" "defs_ok db"
  shows "inherit_ok (snd (create_default has_tenant ws preset ty db)) \<and>
         defs_ok (snd (create_default has_tenant ws preset ty db))"
proof (cases "map_of PRESET_SCHEMAS preset")
  case None
  then show ?thesis using assms by (simp add: create_default_def)
next
  case (Some schema)
  from create_default_split [OF Some, of db ty has_tenant ws] obtain gid json db1 where
    db1: "db1 = db \<or> db1 = snd (insert_global ty preset schema db)" and
    g: "\<forall>n. gid = Some n \<longrightarrow> (\<exists>g\<in>set (db_globals db1). g_id g = n \<and> g_type g = ty \<and> g_json g = json)" and
    cases: "snd (create_default has_tenant ws preset ty db) = db1 \<or>
     find_def ws ty db1 = None \<and>
     snd (create_default has_tenant ws preset ty db) =
       insert_def \<lparr>d_id = db_next db1, d_ws = ws, d_type = ty, d_preset = preset, d_json = json,
         d_is_custom = False, d_is_customized = False, d_source_global = gid\<rparr> db1"
    by blast
  have ok: "inherit_ok db1" "defs_ok db1"
    using db1 assms inherit_ok_insert_global by auto
  have dist: "x = y" if "x \<in> set (db_globals db1)" "y \<in> set (db_globals db1)" "g_id x = g_id y" for x y
    using that ok(1) by (auto simp: inherit_ok_def distinct_map dest: inj_onD)
  let ?r = "\<lparr>d_id = db_next db1, d_ws = ws, d_type = ty, d_preset = preset, d_json = json,
         d_is_custom = False, d_is_customized = False, d_source_global = gid\<rparr>"
  have "inherit_ok (insert_def ?r db1)"
  proof (rule inherit_ok_add_def [OF ok(1)])
    show "\<forall>n. d_source_global ?r = Some n \<longrightarrow> n < db_next db1"
      using g ok(1) by (auto simp: inherit_ok_def)
    show "\<forall>x\<in>set (db_globals db1). d_source_global ?r = Some (g_id x) \<longrightarrow> d_type ?r = g_type x \<and> d_json ?r = g_json x"
      using g dist by fastforce
  qed
  moreover have "find_def ws ty db1 = None \<Longrightarrow> defs_ok (insert_def ?r db1)"
    using defs_ok_insert [OF ok(2), of ?r] by simp
  ultimately show ?thesis using cases ok by auto
qed

lemma defs_ok_global:
  assumes "defs_ok db" "map (\<lambda>r. (d_id r, d_ws r, d_type r)) (db_defs db') = map (\<lambda>r. (d_id r, d_ws r, d_type r)) (db_defs db)"
    and "db_next db' = db_next db"
  shows "defs_ok db'"
proof -
  have ids: "map d_id (db_defs db') = map d_id (db_defs db)"
    and keys: "map (\<lambda>r. (d_ws r, d_type r)) (db_defs db') = map (\<lambda>r. (d_ws r, d_type r)) (db_defs db)"
    using arg_cong [OF assms(2), of "map fst"] arg_cong [OF assms(2), of "map snd"] by (simp_all add: comp_def)
  have "d_id ` set (db_defs db') = d_id ` set (db_defs db)"
    using arg_cong [OF ids, of set] by simp
  then have "\<forall>r\<in>set (db_defs db'). d_id r < db_next db"
    using assms(1) unfolding defs_ok_def by (metis (mono_tags, lifting) imageE imageI)
  then show ?thesis using assms(1,3) by (simp add: defs_ok_def ids keys)
qed

lemma defs_ok_persist_global: "defs_ok db \<Longrightarrow> defs_ok (snd (persist_global g ss ts db))"
  by (rule defs_ok_global) (auto simp: persist_global_fields)

lemma defs_ok_outcome: "global_outcome ty preset db r db' \<Longrightarrow> defs_ok db \<Longrightarrow> defs_ok db'"
  by (auto simp: global_outcome_def defs_ok_persist_global)

text \<open>Any operation of the two stores, on any workspace, item type and preset.\<close>

inductive def_step :: "conf \<Rightarrow> wf_db \<Rightarrow> wf_db \<Rightarrow> bool" for conf where
  step_create: "def_step conf db (snd (create_default has_tenant ws preset ty db))"
| step_reset: "def_step conf db (snd (reset_to_global ws ty db))"
| step_custom: "def_step conf db (snd (validate_and_persist_custom conf ws ty states ts db))"
| step_edit: "def_step conf db (snd (run_edit conf ws ty op db))"
| step_init: "def_step conf db (snd (global_initialize ty preset db))"
| step_seed: "def_step conf db (snd (get_or_seed_from_preset ty preset db))"
| step_gadd_state: "def_step conf db (snd (global_add_state ty preset n db))"
| step_grename_state: "def_step conf db (snd (global_rename_state ty preset a b db))"
| step_gdelete_state: "def_step conf db (snd (global_delete_state ty preset n db))"
| step_gadd_transition: "def_step conf db (snd (global_add_transition ty preset f t roles reason sig db))"
| step_gupdate_transition: "def_step conf db (snd (global_update_transition ty preset f t uroles ureason usig db))"
| step_gfreeze: "def_step conf db (snd (set_state_freeze ty preset n b db))"
| step_gdelete_transition: "def_step conf db (snd (global_delete_transition ty preset f t db))"

inductive def_reachable :: "conf \<Rightarrow> wf_db \<Rightarrow> bool" for conf where
  reach_empty: "db_defs db = [] \<Longrightarrow> db_globals db = [] \<Longrightarrow> def_reachable conf db"
| reach_op: "def_reachable conf db \<Longrightarrow> def_step conf db db' \<Longrightarrow> def_reachable conf db'"

lemma def_step_inv:
  assumes "def_step conf db db'" "inherit_ok db" "defs_ok db"
  shows "inherit_ok db' \<and> defs_ok db'"
proof -
  have seed: "inherit_ok (snd (get_or_seed_from_preset ty preset db)) \<and> defs_ok (snd (get_or_seed_from_preset ty preset db))"
    for ty preset
    using inherit_ok_insert_global [OF assms(2)] assms by (auto simp: get_or_seed_from_preset_def split: option.splits)
  have init: "inherit_ok (snd (global_initialize ty preset db)) \<and> defs_ok (snd (global_initialize ty preset db))"
    for ty preset
    using inherit_ok_insert_global [OF assms(2)] assms by (auto simp: global_initialize_def split: option.splits)
  have out: "global_outcome ty preset db r x \<Longrightarrow> inherit_ok x \<and> defs_ok x" for ty preset r x
    using assms(2,3) inherit_ok_persist [OF assms(2)] global_getD [of ty preset db] defs_ok_outcome
    by (auto simp: global_outcome_def)
  show ?thesis
    using assms(1)
  proof cases
    case (step_gadd_state ty preset n)
    show ?thesis unfolding step_gadd_state by (rule out, rule gadd_st.outcome) (rule prod.collapse [symmetric])
  next
    case (step_grename_state ty preset a b)
    show ?thesis unfolding step_grename_state by (rule out, rule gren_st.outcome) (rule prod.collapse [symmetric])
  next
    case (step_gdelete_state ty preset n)
    show ?thesis unfolding step_gdelete_state by (rule out, rule gdel_st.outcome) (rule prod.collapse [symmetric])
  next
    case (step_gadd_transition ty preset f t roles reason sig)
    show ?thesis unfolding step_gadd_transition by (rule out, rule gadd_tr.outcome) (rule prod.collapse [symmetric])
  next
    case (step_gupdate_transition ty preset f t roles reason sig)
    show ?thesis unfolding step_gupdate_transition by (rule out, rule gupd_tr.outcome) (rule prod.collapse [symmetric])
  next
    case (step_gfreeze ty preset n b)
    show ?thesis unfolding step_gfreeze by (rule out, rule gfreeze.outcome) (rule prod.collapse [symmetric])
  next
    case (step_gdelete_transition ty preset f t)
    show ?thesis unfolding step_gdelete_transition by (rule out, rule gdel_tr.outcome) (rule prod.collapse [symmetric])
  next
    case (step_create has_tenant ws preset ty)
    show ?thesis unfolding step_create by (rule inherit_ok_create [OF assms(2,3)])
  next
    case (step_reset ws ty)
    show ?thesis unfolding step_reset by (rule inherit_ok_reset [OF assms(2,3)])
  next
    case (step_custom ws ty states ts)
    show ?thesis unfolding step_custom using inherit_ok_custom [OF assms(2)] custom.edit_frame(1) [OF assms(3)] by simp
  next
    case (step_edit ws ty op)
    show ?thesis unfolding step_edit using inherit_ok_edit [OF assms(2)] any_edit.edit_frame(1) [OF assms(3)] by simp
  next
    case (step_init ty preset)
    show ?thesis unfolding step_init by (rule init)
  next
    case (step_seed ty preset)
    show ?thesis unfolding step_seed by (rule seed)
  qed
qed

lemma reachable_inherit_ok: "def_reachable conf db \<Longrightarrow> inherit_ok db \<and> defs_ok db"
proof (induction rule: def_reachable.induct)
  case (reach_empty db)
  then show ?case by (simp add: inherit_ok_def defs_ok_def)
next
  case (reach_op db db')
  then show ?case using def_step_inv by blast
qed

lemma persist_global_find_def:
  "find_def v u (snd (persist_global g ss ts db)) =
     map_option (\<lambda>r. if mirrors_row g r
       then r\<lparr>d_json := \<lparr>wf_states = ss, wf_transitions = ts, wf_state_meta = wf_state_meta (g_json g)\<rparr>\<rparr> else r)
       (find_def v u db)"
proof -
  let ?f = "\<lambda>r. if mirrors_row g r
       then r\<lparr>d_json := \<lparr>wf_states = ss, wf_transitions = ts, wf_state_meta = wf_state_meta (g_json g)\<rparr>\<rparr> else r"
  have "find (\<lambda>r. d_ws r = v \<and> d_type r = u) (map ?f (db_defs db)) =
      map_option ?f (find (\<lambda>r. d_ws r = v \<and> d_type r = u) (db_defs db))"
    by (rule find_map_keep) simp
  then show ?thesis unfolding find_def_def persist_global_fields(2) persist_global_fields(6)
    by (simp cong: if_cong)
qed

subsection \<open>Properties\<close>

text \<open>
  C37: workspaces on default mirror the default. Whatever sequence of provisioning, resets, workspace edits,
  custom definitions and global edits is run from empty tables, every definition that is linked to a global row and
  not customised has exactly that row's graph and item type, and no workspace has two definitions for one item
  type, be they linked, customised or neither.
\<close>

theorem derived_definitions_mirror_global:
  assumes "def_reachable conf db"
  shows "(\<forall>r\<in>set (db_defs db). \<forall>g\<in>set (db_globals db).
      d_source_global r = Some (g_id g) \<longrightarrow> d_type r = g_type g \<and> (\<not> d_is_customized r \<longrightarrow> d_json r = g_json g)) \<and>
    distinct (map (\<lambda>r. (d_ws r, d_type r)) (db_defs db))"
proof -
  from reachable_inherit_ok [OF assms] have i: "inherit_ok db" and d: "defs_ok db" by auto
  from i have "\<forall>r\<in>set (db_defs db). \<forall>g\<in>set (db_globals db).
      d_source_global r = Some (g_id g) \<longrightarrow> d_type r = g_type g \<and> (\<not> d_is_customized r \<longrightarrow> d_json r = g_json g)"
    unfolding inherit_ok_def by (elim conjE) assumption
  with d show ?thesis by (simp add: defs_ok_def)
qed

definition empty_db :: wf_db where
  "empty_db = \<lparr>db_defs = [], db_globals = [], db_items = [], db_history = [], db_next = 0, db_cache = []\<rparr>"

lemma provisioned_reachable: "def_reachable (\<lambda>_. Inr ''fixed'') (snd (create_default True ''w'' ''minimal'' ''Requirement'' empty_db))"
proof -
  have "def_reachable (\<lambda>_. Inr ''fixed'') empty_db" by (rule reach_empty) (simp_all add: empty_db_def)
  then show ?thesis by (rule reach_op) (rule step_create)
qed

text \<open>A global edit after the provisioning reaches the derived definition.\<close>

definition edited_db :: wf_db where
  "edited_db = snd (global_add_state ''Requirement'' ''minimal'' ''parked'' (snd (create_default True ''w'' ''minimal'' ''Requirement'' empty_db)))"

theorem derived_definitions_mirror_global_witness:
  "wf_states (d_json (hd (db_defs edited_db))) = [''draft'', ''done'', ''parked''] \<and>
   d_json (hd (db_defs edited_db)) = g_json (hd (db_globals edited_db)) \<and> length (db_defs edited_db) = 1"
proof -
  have "def_reachable (\<lambda>_. Inr ''fixed'') edited_db"
    unfolding edited_db_def by (rule reach_op [OF provisioned_reachable]) (rule step_gadd_state)
  note m = derived_definitions_mirror_global [OF this, THEN conjunct1, rule_format]
  have "map (\<lambda>r. (d_source_global r, d_is_customized r, wf_states (d_json r))) (db_defs edited_db) =
      [(Some 0, False, [''draft'', ''done'', ''parked''])]" by code_simp
  then obtain r where r: "db_defs edited_db = [r]" "d_source_global r = Some 0" "\<not> d_is_customized r"
      "wf_states (d_json r) = [''draft'', ''done'', ''parked'']" by auto
  have "map g_id (db_globals edited_db) = [0]" by code_simp
  then obtain g where g: "db_globals edited_db = [g]" "g_id g = 0" by auto
  from m [of r g] r g show ?thesis by simp
qed

text \<open>
  Deleting a global state is fail-closed. In consistent tables a deletion of a state from a global
  default either changes nothing or leaves every item, in every inheriting workspace, in a state its
  definition declares.
\<close>

theorem global_delete_never_strands:
  assumes "inherit_ok db" "no_stranded db"
  shows "no_stranded (snd (global_delete_state ty preset n db))"
proof (cases "snd (global_delete_state ty preset n db) = db")
  case False
  then obtain g where g: "global_get ty preset db = Some g" "check_live_items_in_state g n db = Inr ()"
      "snd (global_delete_state ty preset n db) =
         snd (persist_global g (filter (\<lambda>s. s \<noteq> n) (wf_states (g_json g))) (wf_transitions (g_json g)) db)"
    by (auto simp: global_delete_state_def se_bind_def se_persist_def global_require_def Let_def raise_if_def
        map_prod_def split: option.splits sum.splits prod.splits if_splits)
  have gm: "g \<in> set (db_globals db)" using global_getD [OF g(1)] by simp
  have live: "i_ws i \<in> set (non_customized_workspace_ids g db) \<Longrightarrow> i_type i = g_type g \<Longrightarrow> i_state i \<noteq> n"
    if "i \<in> set (db_items db)" for i
    using g(2) that by (auto simp: check_live_items_in_state_def Let_def filter_empty_conv split: if_splits)
  have "\<exists>r. find_def (i_ws i) (i_type i) (snd (global_delete_state ty preset n db)) = Some r \<and>
      i_state i \<in> set (wf_states (d_json r))" if i: "i \<in> set (db_items db)" for i
  proof -
    obtain r where r: "find_def (i_ws i) (i_type i) db = Some r" "i_state i \<in> set (wf_states (d_json r))"
      using assms(2) i by (auto simp: no_stranded_def)
    note mem = find_defD [OF r(1)]
    show ?thesis
    proof (cases "mirrors_row g r")
      case True
      then have "d_json r = g_json g" "d_type r = g_type g"
        using assms(1) mem gm by (auto simp: inherit_ok_def mirrors_row_def)
      moreover have "i_ws i \<in> set (non_customized_workspace_ids g db)"
        using True mem by (force simp: non_customized_workspace_ids_def)
      ultimately show ?thesis
        using live [OF i] r mem True by (simp add: g(3) persist_global_find_def)
    next
      case False
      then show ?thesis using r by (simp add: g(3) persist_global_find_def)
    qed
  qed
  then show ?thesis by (auto simp: no_stranded_def g(3) persist_global_fields(3))
qed (use assms in simp)

theorem global_delete_never_strands_witness:
  "no_stranded (snd (global_delete_state ''Requirement'' ''standard'' ''draft'' db_example))"
  by (rule global_delete_never_strands)
    (simp_all add: db_example_ok, simp add: db_example_def inherit_ok_def)

text \<open>
  Renaming a global state is not. A rename of a global state with live items in an inheriting workspace
  succeeds and leaves those items in the old state, which their definition no longer declares; and the flags
  of the state stay filed under the old name.
\<close>

theorem global_rename_strands_items:
  "\<exists>db. inherit_ok db \<and> defs_ok db \<and> no_stranded db \<and>
     (\<exists>x. fst (global_rename_state ''Requirement'' ''standard'' ''draft'' ''entry'' db) = Inr x) \<and>
     \<not> no_stranded (snd (global_rename_state ''Requirement'' ''standard'' ''draft'' ''entry'' db))"
proof -
  have name: "validate_state_name ''entry'' = Inr ''entry''"
    by (simp add: validate_state_name_def py_strip_def py_space_def Let_def)
  have get: "global_get ''Requirement'' ''standard'' db_example = Some (hd (db_globals db_example))"
    by (simp add: global_get_def db_example_def)
  have ren: "global_rename_state ''Requirement'' ''standard'' ''draft'' ''entry'' db_example =
      map_prod Inr id (persist_global (hd (db_globals db_example))
        (map (\<lambda>s. if s = ''draft'' then ''entry'' else s) (wf_states schema_standard))
        (rewire_transitions (wf_transitions schema_standard) ''draft'' ''entry'') db_example)"
    by (simp add: global_rename_state_def se_bind_def global_require_def get name se_persist_def Let_def)
      (simp add: db_example_def schema_standard_def se_persist_def)
  have "\<not> no_stranded (snd (global_rename_state ''Requirement'' ''standard'' ''draft'' ''entry'' db_example))"
  proof -
    have "find_def ''w'' ''Requirement'' db_example = Some (hd (db_defs db_example))"
      by (simp add: find_def_def db_example_def)
    then have "find_def ''w'' ''Requirement'' (snd (global_rename_state ''Requirement'' ''standard'' ''draft'' ''entry'' db_example))
        = Some ((hd (db_defs db_example))\<lparr>d_json := \<lparr>wf_states = [''entry'', ''approved'', ''deprecated''],
            wf_transitions = rewire_transitions (wf_transitions schema_standard) ''draft'' ''entry'',
            wf_state_meta = wf_state_meta schema_standard\<rparr>\<rparr>)"
      by (simp add: ren persist_global_find_def) (simp add: db_example_def mirrors_row_def schema_standard_def)
    moreover have "db_items (snd (global_rename_state ''Requirement'' ''standard'' ''draft'' ''entry'' db_example)) =
        [\<lparr>i_id = 2, i_item = ''i'', i_type = ''Requirement'', i_ws = ''w'', i_def = 1, i_state = ''draft'', i_version = 0\<rparr>]"
      by (simp add: ren persist_global_fields) (simp add: db_example_def)
    ultimately show ?thesis by (simp add: no_stranded_def)
  qed
  moreover have "inherit_ok db_example" by (simp add: db_example_def inherit_ok_def)
  moreover have "\<exists>x. fst (global_rename_state ''Requirement'' ''standard'' ''draft'' ''entry'' db_example) = Inr x"
    by (simp add: ren)
  ultimately show ?thesis using db_example_ok by blast
qed

end
