(* ===== verification/Workflow_Services.thy ===== *)
theory Workflow_Services
  imports Workflow_Lifecycle Workflow_Global
begin

text \<open>
  The public facade of the workflow engine (\<^verbatim>\<open>workflow/services.py\<close>): the transition pipeline, soft deletion
  and reactivation, creation of item states, the read models, and the definition edits with their cache
  invalidation. Operations act on the whole \<open>world\<close>.
\<close>

record auth_context =
  cx_user_id :: uuid
  cx_tenant_id :: uuid
  cx_active_roles :: "string list"
  cx_actor_type :: string
  cx_agent_label :: string

record transition_result =
  tr_item_id :: uuid
  tr_previous_state :: string
  tr_new_state :: string
  tr_history_entry_id :: "nat option"
  tr_signature_seal :: "string option"

definition on_db :: "(wf_db, 'e, 'a) sem \<Rightarrow> (world, 'e, 'a) sem" where
  "on_db m w = (case m (w_db w) of (r, db) \<Rightarrow> (r, w\<lparr>w_db := db\<rparr>))"

text \<open>A rollback of the database: the definition cache of the process is not part of it.\<close>

definition world_atomic :: "(world, 'e, 'a) sem \<Rightarrow> (world, 'e, 'a) sem" where
  "world_atomic = se_atomic (\<lambda>w w1. w\<lparr>w_db := (w_db w)\<lparr>db_cache := db_cache (w_db w1)\<rparr>\<rparr>)"

subsection \<open>Transition\<close>

definition proposing_actor :: "item_row \<Rightarrow> wf_db \<Rightarrow> string" where
  "proposing_actor row db =
     (case sort_key h_at (filter (\<lambda>h. h_item_state h = i_id row \<and> h_to h = PROPOSED_STATE) (db_history db)) of
        [] \<Rightarrow> []
      | h # _ \<Rightarrow> h_by h)"

definition transition_request ::
  "uuid \<Rightarrow> string \<Rightarrow> string \<Rightarrow> auth_context \<Rightarrow> string \<Rightarrow> string \<Rightarrow> uuid \<Rightarrow> string \<Rightarrow> string \<Rightarrow> validation_request" where
  "transition_request item target reason cx cred ty ws current author =
     \<lparr>q_item_id = item, q_workspace_id = ws, q_item_type = ty, q_current_state = current,
      q_target_state = target, q_user_id = cx_user_id cx, q_user_roles = cx_active_roles cx,
      q_tenant_id = cx_tenant_id cx, q_actor_type = cx_actor_type cx, q_agent_label = cx_agent_label cx,
      q_proposal_author = author, q_change_reason = reason, q_credential = cred, q_timestamp = None\<rparr>"

definition transition_error :: "validation_result \<Rightarrow> wf_error" where
  "transition_error vr =
     WorkflowTransitionError
       (py_or (case v_error_code vr of Some c \<Rightarrow> c | None \<Rightarrow> []) ''UNKNOWN'')
       (py_or (case v_error_message vr of Some m \<Rightarrow> m | None \<Rightarrow> []) ''Transition rejected'')
       (case v_details vr of Some ds \<Rightarrow> ds | None \<Rightarrow> [])"

definition transition ::
  "env \<Rightarrow> uuid \<Rightarrow> string \<Rightarrow> string \<Rightarrow> auth_context \<Rightarrow> string \<Rightarrow> string \<Rightarrow> uuid \<Rightarrow> int option \<Rightarrow>
   (world, wf_error, transition_result) sem" where
  "transition n item target reason cx cred ty ws expected =
     se_bind (world_atomic (
       se_bind (\<lambda>w. (lock_item_state item ty ws (w_db w), w)) (\<lambda>row.
       se_bind (se_lift (case expected of
                  Some v \<Rightarrow> raise_if (i_version row \<noteq> v) (version_conflict item v (i_version row))
                | None \<Rightarrow> Inr ())) (\<lambda>_.
       se_bind (se_gets (\<lambda>w. if cx_actor_type cx = ''agent'' then proposing_actor row (w_db w) else [])) (\<lambda>author.
       se_bind (validate n (transition_request item target reason cx cred ty ws (i_state row) author)) (\<lambda>vr.
       se_bind (se_lift (raise_if (\<not> v_valid vr) (transition_error vr))) (\<lambda>_.
       on_db (perform_transition (n_now n) item ty ws target (cx_user_id cx) vr reason expected (Some row)))))))))
     (\<lambda>oc. se_bind (se_modify (\<lambda>w. w\<lparr>w_notified := w_notified w @
              [\<lparr>nt_item = item, nt_type = ty, nt_ws = ws, nt_state = oc_new_state oc, nt_actor = cx_user_id cx\<rparr>]\<rparr>)) (\<lambda>_.
       se_return \<lparr>tr_item_id = item, tr_previous_state = oc_previous_state oc, tr_new_state = oc_new_state oc,
                  tr_history_entry_id = Some (oc_history_entry_id oc), tr_signature_seal = oc_signature_seal oc\<rparr>))"

subsection \<open>Soft deletion\<close>

definition artifact_id_for :: "uuid \<Rightarrow> string \<Rightarrow> world \<Rightarrow> uuid option" where
  "artifact_id_for item ty w =
     (if ty \<notin> set ARTIFACT_TYPES then None
      else case find_entity ty item w of None \<Rightarrow> None | Some e \<Rightarrow> e_artifact e)"

definition set_lifecycle_status :: "uuid \<Rightarrow> string \<Rightarrow> string \<Rightarrow> world \<Rightarrow> world" where
  "set_lifecycle_status item ty v w =
     (case artifact_id_for item ty w of
        None \<Rightarrow> w
      | Some a \<Rightarrow> w\<lparr>w_artifacts := map (\<lambda>r. if a_id r = a then r\<lparr>a_lifecycle := v\<rparr> else r) (w_artifacts w)\<rparr>)"

definition assert_agent_may_not_remove_proposal :: "auth_context \<Rightarrow> string option \<Rightarrow> wf_error + unit" where
  "assert_agent_may_not_remove_proposal cx current =
     (if cx_actor_type cx \<noteq> ''agent'' then Inr ()
      else if current \<noteq> Some PROPOSED_STATE then Inr ()
      else Inl (WorkflowTransitionError ''AGENT_SELF_CONFIRM_FORBIDDEN''
             ''An AI agent may not discard a proposal. A human principal must confirm or reject it.'' []))"

definition item_id_for_artifact :: "uuid \<Rightarrow> string \<Rightarrow> world \<Rightarrow> uuid option" where
  "item_id_for_artifact a ty w =
     (if ty \<notin> set ARTIFACT_TYPES then None
      else map_option e_pk (find (\<lambda>e. e_type e = ty \<and> e_artifact e = Some a) (w_entities w)))"

text \<open>\<open>lookup_fails\<close>: looking up the item or its state raises, and the guard lets the deletion pass.\<close>

definition assert_agent_may_not_delete_proposed_artifact ::
  "bool \<Rightarrow> auth_context \<Rightarrow> uuid \<Rightarrow> string \<Rightarrow> uuid \<Rightarrow> world \<Rightarrow> wf_error + unit" where
  "assert_agent_may_not_delete_proposed_artifact lookup_fails cx a ty ws w =
     (if cx_actor_type cx \<noteq> ''agent'' then Inr ()
      else if lookup_fails then Inr ()
      else case item_id_for_artifact a ty w of
             None \<Rightarrow> Inr ()
           | Some item \<Rightarrow>
               (case get_item_state item ty ws (w_db w) of
                  None \<Rightarrow> Inr ()
                | Some row \<Rightarrow> assert_agent_may_not_remove_proposal cx (Some (i_state row))))"

definition outdate ::
  "uuid \<Rightarrow> string \<Rightarrow> uuid \<Rightarrow> auth_context \<Rightarrow> bool \<Rightarrow> (world, wf_error, transition_result) sem" where
  "outdate item ty ws cx allow_lazy_init =
     se_bind (\<lambda>w. case get_item_state item ty ws (w_db w) of
         Some row \<Rightarrow>
           (case assert_agent_may_not_remove_proposal cx (Some (i_state row)) of
              Inl e \<Rightarrow> (Inl e, w) | Inr _ \<Rightarrow> (Inr row, w))
       | None \<Rightarrow>
           if \<not> allow_lazy_init
           then (Inl (WorkflowItemNotFoundError (''No workflow-tracked '' @ ty @ '' '' @ item @ '' in workspace '' @ ws @ ''.'')), w)
           else (case get_definition ws ty (w_db w) of
                   Inl e \<Rightarrow> (Inl (DefinitionFailure e), w)
                 | Inr dto \<Rightarrow> on_db (ensure_item_state item ty ws (initial_state dto)) w)) (\<lambda>row.
     se_bind (se_modify (set_lifecycle_status item ty OUTDATED_STATUS)) (\<lambda>_.
     se_return \<lparr>tr_item_id = item, tr_previous_state = i_state row, tr_new_state = OUTDATED_STATUS,
                tr_history_entry_id = None, tr_signature_seal = None\<rparr>))"

definition reactivate :: "uuid \<Rightarrow> string \<Rightarrow> uuid \<Rightarrow> (world, wf_error, transition_result) sem" where
  "reactivate item ty ws w =
     (case artifact_id_for item ty w of
        None \<Rightarrow> (Inl (ValueError ''item has no backing artifact''), w)
      | Some a \<Rightarrow>
          if map_option a_lifecycle (find_artifact a w) \<noteq> Some OUTDATED_STATUS
          then (Inl (ValueError ''item is not outdated''), w)
          else let w1 = set_lifecycle_status item ty ACTIVE_STATUS w
               in (Inr \<lparr>tr_item_id = item, tr_previous_state = OUTDATED_STATUS,
                        tr_new_state = (case get_item_state item ty ws (w_db w1) of
                                          Some row \<Rightarrow> i_state row | None \<Rightarrow> []),
                        tr_history_entry_id = None, tr_signature_seal = None\<rparr>, w1))"

subsection \<open>Creation\<close>

definition initial_state_for :: "auth_context \<Rightarrow> string \<Rightarrow> uuid \<Rightarrow> wf_db \<Rightarrow> string" where
  "initial_state_for cx ty ws db =
     (case get_definition ws ty db of
        Inl _ \<Rightarrow> ''draft''
      | Inr dto \<Rightarrow>
          if cx_actor_type cx = ''agent'' \<and> PROPOSED_STATE \<in> set (dto_states dto) then PROPOSED_STATE
          else initial_state dto)"

definition initialize_workflow_states ::
  "env \<Rightarrow> uuid list \<Rightarrow> string \<Rightarrow> uuid \<Rightarrow> auth_context \<Rightarrow> (world, wf_error, item_row list) sem" where
  "initialize_workflow_states n items ty ws cx =
     on_db (\<lambda>db. lm_initialize_workflow_states (n_now n) items ty ws (Some (initial_state_for cx ty ws db))
              (py_or (cx_agent_label cx) (cx_user_id cx)) db)"

subsection \<open>Read models\<close>

definition is_approval_gate :: "transition_dto \<Rightarrow> bool" where
  "is_approval_gate t = (''editor'' \<notin> set (allowed_roles t))"

record available_transitions =
  av_current_state :: "string option"
  av_states :: "string list"
  av_transitions :: "transition_dto list"

definition get_available_transitions :: "uuid \<Rightarrow> string \<Rightarrow> uuid \<Rightarrow> world \<Rightarrow> available_transitions \<times> world" where
  "get_available_transitions item ty ws w =
     (let item_state = get_item_state item ty ws (w_db w)
      in case get_definition ws ty (w_db w) of
           Inl _ \<Rightarrow> (\<lparr>av_current_state = map_option i_state item_state, av_states = [], av_transitions = []\<rparr>, w)
         | Inr dto \<Rightarrow>
             (let (row, w1) = (case item_state of
                  Some r \<Rightarrow> (Some r, w)
                | None \<Rightarrow>
                    (case on_db (ensure_item_state item ty ws (initial_state dto)) w of
                       (Inr r, w') \<Rightarrow> (Some r, w')
                     | (Inl e, w') \<Rightarrow> (None, w')));
                  current = (case row of Some r \<Rightarrow> i_state r | None \<Rightarrow> initial_state dto)
              in (\<lparr>av_current_state = Some current, av_states = dto_states dto,
                   av_transitions = filter (\<lambda>t. from_state t = current) (dto_transitions dto)\<rparr>, w1)))"

definition list_item_states :: "uuid \<Rightarrow> string option \<Rightarrow> wf_db \<Rightarrow> item_row list" where
  "list_item_states ws ty db =
     filter (\<lambda>i. i_ws i = ws \<and> (case ty of None \<Rightarrow> True | Some [] \<Rightarrow> True | Some t \<Rightarrow> i_type i = t)) (db_items db)"

text \<open>
  The search of \<open>terminal_positive_states\<close>: \<open>push_new\<close> is its inner loop over the successors, \<open>reach_loop\<close> the
  loop over the stack (top first).
\<close>

fun push_new :: "string list \<Rightarrow> string list \<Rightarrow> string list \<Rightarrow> string list \<times> string list" where
  "push_new [] seen stack = (seen, stack)"
| "push_new (x # xs) seen stack =
     (if x \<in> set seen then push_new xs seen stack else push_new xs (x # seen) (x # stack))"

definition adjacent :: "(string \<times> string) list \<Rightarrow> string \<Rightarrow> string list" where
  "adjacent es s = map snd (filter (\<lambda>e. fst e = s) es)"

lemma push_new_set: "set (fst (push_new xs seen stack)) = set xs \<union> set seen"
  by (induction xs seen stack rule: push_new.induct) auto

lemma push_new_unchanged: "set xs \<subseteq> set seen \<Longrightarrow> push_new xs seen stack = (seen, stack)"
  by (induction xs seen stack rule: push_new.induct) auto

lemma card_unseen_less:
  assumes "set xs \<subseteq> A" "finite A" "\<not> set xs \<subseteq> set seen"
  shows "card (A - set (fst (push_new xs seen stack))) < card (A - set seen)"
  by (rule psubset_card_mono) (use assms in \<open>auto simp: push_new_set\<close>)

function reach_loop :: "(string \<times> string) list \<Rightarrow> string list \<Rightarrow> string list \<Rightarrow> string list" where
  "reach_loop es seen [] = seen"
| "reach_loop es seen (c # stack) =
     reach_loop es (fst (push_new (adjacent es c) seen stack)) (snd (push_new (adjacent es c) seen stack))"
  by pat_completeness auto

termination reach_loop
proof (relation "inv_image (less_than <*lex*> less_than)
    (\<lambda>(es, seen, stack). (card (snd ` set es - set seen), length stack))", goal_cases)
  case 1
  show ?case by auto
next
  case (2 es seen c stack)
  show ?case
  proof (cases "set (adjacent es c) \<subseteq> set seen")
    case True
    then show ?thesis by (simp add: push_new_unchanged)
  next
    case False
    have "set (adjacent es c) \<subseteq> snd ` set es" by (auto simp: adjacent_def)
    from card_unseen_less [OF this _ False] show ?thesis by (simp add: split_beta)
  qed
qed

definition reachable_from :: "(string \<times> string) list \<Rightarrow> string \<Rightarrow> string list" where
  "reachable_from es start = reach_loop es [start] [start]"

definition terminal_positive_states :: "uuid \<Rightarrow> string \<Rightarrow> wf_db \<Rightarrow> string list" where
  "terminal_positive_states ws ty db =
     (case get_definition ws ty db of
        Inl _ \<Rightarrow> []
      | Inr d \<Rightarrow>
          if dto_states d = [] then []
          else let wj = (case get_workflow_json ws ty db of Some j \<Rightarrow> j | None \<Rightarrow> empty_graph);
                   es = map (\<lambda>t. (from_state t, to_state t)) (dto_transitions d);
                   gates = map to_state (filter is_approval_gate (dto_transitions d));
                   candidates = (if gates \<noteq> [] then concat (map (reachable_from es) gates)
                                 else filter (\<lambda>s. adjacent es s = []) (dto_states d));
                   finished = filter (\<lambda>s. initial_state d \<notin> set (reachable_from es s)) candidates
               in filter (\<lambda>s. \<not> state_flag wj s ''is_outdated_equivalent'') finished)"

subsection \<open>Definition edits\<close>

text \<open>\<open>str(exc)\<close> of a definition error.\<close>

fun def_error_message :: "def_error \<Rightarrow> string" where
  "def_error_message (WorkflowDefinitionError m) = m"
| "def_error_message (OrphanedStateError s k ids) =
     ''Workflow change blocked: '' @ py_nat k @ '' items in orphaned state '' @ sq s"
| "def_error_message (PresetDowngradeBlockedError ss k) =
     ''Preset downgrade blocked: '' @ py_nat k @ '' items in states '' @ py_list ss @ '' not valid in target preset''"
| "def_error_message (NoGlobalSourceError m) = m"
| "def_error_message (StateReferencedError s refs) =
     ''State '' @ sq s @ '' cannot be deleted while transitions reference it: '' @ py_join '', '' refs"
| "def_error_message (PresetFailure e) = []"

text \<open>
  The \<open>except WorkflowDefinitionError\<close> clause of the edits; a preset error is not of that class and passes
  through.
\<close>

definition remap_error :: "def_error \<Rightarrow> wf_error" where
  "remap_error e =
     (case e of
        PresetFailure _ \<Rightarrow> DefinitionFailure e
      | _ \<Rightarrow> if py_in ''not configurable'' (def_error_message e) \<or>
               py_in ''only allowed in extended'' (def_error_message e)
            then WorkflowNotConfigurableError (def_error_message e) else DefinitionFailure e)"

definition with_invalidation ::
  "(def_error \<Rightarrow> wf_error) \<Rightarrow> uuid \<Rightarrow> string \<Rightarrow> (wf_db, def_error, 'a) sem \<Rightarrow> (wf_db, wf_error, 'a) sem" where
  "with_invalidation f ws ty m db =
     (case m db of
        (Inl e, db1) \<Rightarrow> (Inl (f e), db1)
      | (Inr x, db1) \<Rightarrow> (Inr x, invalidate_cache ws ty db1))"

definition update_custom_workflow ::
  "conf \<Rightarrow> uuid \<Rightarrow> string \<Rightarrow> string list \<Rightarrow> input_transition list \<Rightarrow> (wf_db, wf_error, definition_dto) sem" where
  "update_custom_workflow conf ws ty states ts =
     with_invalidation remap_error ws ty (validate_and_persist_custom conf ws ty states ts)"

text \<open>\<open>_persist_edit\<close> with the six edit functions; the edit is a value of \<^typ>\<open>edit_op\<close>.\<close>

definition persist_definition_edit ::
  "conf \<Rightarrow> uuid \<Rightarrow> string \<Rightarrow> edit_op \<Rightarrow> (wf_db, wf_error, definition_dto) sem" where
  "persist_definition_edit conf ws ty op = with_invalidation remap_error ws ty (run_edit conf ws ty op)"

definition ENTITY_DEFAULT_PRESET :: "(string \<times> string) list" where
  "ENTITY_DEFAULT_PRESET = WORKFLOW_ITEM_TYPES"

text \<open>\<open>active_tier\<close>: the tier of the workspace's preset row, when it has one.\<close>

definition initialize_definition ::
  "(uuid \<Rightarrow> string option) \<Rightarrow> bool \<Rightarrow> uuid \<Rightarrow> string \<Rightarrow> (wf_db, wf_error, definition_dto) sem" where
  "initialize_definition active_tier has_tenant ws ty =
     with_invalidation DefinitionFailure ws ty (create_default has_tenant ws
       (case map_of ENTITY_DEFAULT_PRESET ty of
          Some p \<Rightarrow> p
        | None \<Rightarrow> (case active_tier ws of Some t \<Rightarrow> t | None \<Rightarrow> ''standard'')) ty)"

definition reset_definition_to_global :: "uuid \<Rightarrow> string \<Rightarrow> (wf_db, wf_error, definition_dto) sem" where
  "reset_definition_to_global ws ty = with_invalidation DefinitionFailure ws ty (reset_to_global ws ty)"

definition sv_check_downgrade_compatibility :: "uuid \<Rightarrow> string \<Rightarrow> string \<Rightarrow> wf_db \<Rightarrow> wf_error + unit" where
  "sv_check_downgrade_compatibility ws preset ty db =
     (case check_downgrade_compatibility ws preset ty db of
        Inl (PresetDowngradeBlockedError ss k) \<Rightarrow>
          Inl (WorkflowDowngradeBlockedError (def_error_message (PresetDowngradeBlockedError ss k)))
      | Inl e \<Rightarrow> Inl (DefinitionFailure e)
      | Inr u \<Rightarrow> Inr u)"

subsection \<open>The effect of a transition\<close>

definition author_of :: "auth_context \<Rightarrow> item_row \<Rightarrow> wf_db \<Rightarrow> string" where
  "author_of cx row db = (if cx_actor_type cx = ''agent'' then proposing_actor row db else [])"

definition cached :: "world \<Rightarrow> def_cache \<Rightarrow> world" where
  "cached w c = w\<lparr>w_db := (w_db w)\<lparr>db_cache := c\<rparr>\<rparr>"

lemma cached_simps [simp]:
  "db_items (w_db (cached w c)) = db_items (w_db w)" "db_history (w_db (cached w c)) = db_history (w_db w)"
  "db_next (w_db (cached w c)) = db_next (w_db w)" "db_defs (w_db (cached w c)) = db_defs (w_db w)"
  "db_globals (w_db (cached w c)) = db_globals (w_db w)" "db_cache (w_db (cached w c)) = c"
  "w_notified (cached w c) = w_notified w" "w_entities (cached w c) = w_entities w"
  "w_artifacts (cached w c) = w_artifacts w" "cached (cached w c) c' = cached w c'"
  "cached w (db_cache (w_db w)) = w"
  by (simp_all add: cached_def)

lemma keys_ok_cached [simp]: "keys_ok (w_db (cached w c)) = keys_ok (w_db w)"
  by (simp add: keys_ok_def)

lemma valid_state_cached [simp]: "valid_state d s (w_db (cached w c)) = valid_state d s (w_db w)"
  by (simp add: valid_state_def state_declared_def)

lemma world_atomic_eq:
  "world_atomic m w = (case m w of (Inl e, w1) \<Rightarrow> (Inl e, cached w (db_cache (w_db w1))) | (Inr x, w1) \<Rightarrow> (Inr x, w1))"
  by (simp add: world_atomic_def se_atomic_def cached_def split: prod.split sum.split)

definition notify :: "uuid \<Rightarrow> string \<Rightarrow> uuid \<Rightarrow> string \<Rightarrow> uuid \<Rightarrow> world \<Rightarrow> world" where
  "notify item ty ws s actor w =
     w\<lparr>w_notified := w_notified w @ [\<lparr>nt_item = item, nt_type = ty, nt_ws = ws, nt_state = s, nt_actor = actor\<rparr>]\<rparr>"

definition moved_world ::
  "env \<Rightarrow> item_row \<Rightarrow> string \<Rightarrow> string \<Rightarrow> auth_context \<Rightarrow> validation_result \<Rightarrow> world \<Rightarrow> world" where
  "moved_world n row target reason cx vr w =
     notify (i_item row) (i_type row) (i_ws row) target (cx_user_id cx)
       (w\<lparr>w_db := move row target (cx_user_id cx) (n_now n) reason (seal_text vr) (i_ws row) (w_db w)\<rparr>)"

lemma transition_missing:
  "get_item_state item ty ws (w_db w) = None \<Longrightarrow>
     \<exists>e. transition n item target reason cx cred ty ws expected w = (Inl e, w)"
  by (simp add: transition_def se_bind_def world_atomic_eq lock_item_state_def)

lemma transition_stale:
  assumes "get_item_state item ty ws (w_db w) = Some row" "expected = Some v" "i_version row \<noteq> v"
  shows "transition n item target reason cx cred ty ws expected w = (Inl (version_conflict item v (i_version row)), w)"
  using assms by (simp add: transition_def se_bind_def world_atomic_eq lock_item_state_def)

lemma transition_current:
  assumes "keys_ok (w_db w)" "get_item_state item ty ws (w_db w) = Some row"
    and "expected = None \<or> expected = Some (i_version row)"
    and "validate n (transition_request item target reason cx cred ty ws (i_state row) (author_of cx row (w_db w))) w = (v, cached w c)"
  shows "transition n item target reason cx cred ty ws expected w =
    (case v of
       Inl e \<Rightarrow> (Inl e, cached w c)
     | Inr vr \<Rightarrow>
         if \<not> v_valid vr then (Inl (transition_error vr), cached w c)
         else if \<not> valid_state (i_def row) target (w_db w) then (Inl IntegrityError, cached w c)
         else (Inr \<lparr>tr_item_id = item, tr_previous_state = i_state row, tr_new_state = target,
                    tr_history_entry_id = Some (db_next (w_db w)), tr_signature_seal = v_seal vr\<rparr>,
               moved_world n row target reason cx vr (cached w c)))"
proof -
  note row = get_item_stateD [OF assms(2)]
  have pt: "perform_transition (n_now n) item ty ws target (cx_user_id cx) vr reason expected (Some row) (w_db (cached w c)) =
      (if \<not> v_valid vr then (Inl (WorkflowStateError ''Cannot perform transition: ValidationResult is not valid''), w_db (cached w c))
       else if \<not> valid_state (i_def row) target (w_db w) then (Inl IntegrityError, w_db (cached w c))
       else (Inr (outcome_of_move row (db_next (w_db w)) target (v_seal vr)),
             move row target (cx_user_id cx) (n_now n) reason (seal_text vr) ws (w_db (cached w c))))" for vr
    using assms(1,3) row perform_transition_eq [of "w_db (cached w c)" row] by auto
  have exp: "(case expected of None \<Rightarrow> Inr () | Some v \<Rightarrow> raise_if (i_version row \<noteq> v) (version_conflict item v (i_version row))) = Inr ()"
    using assms(3) by auto
  have self: "cached w c\<lparr>w_db := w_db (cached w c)\<rparr> = cached w c" by simp
  show ?thesis using assms(2,4) row
    by (auto simp: transition_def se_bind_def world_atomic_eq lock_item_state_def exp on_db_def pt author_of_def
        outcome_of_move_def moved_world_def notify_def raise_if_def split: sum.split)
qed

lemma transition_split:
  assumes "keys_ok (w_db w)" "cache_coherent (w_db w)" "transition n item target reason cx cred ty ws expected w = (r, w')"
  obtains (failed) e c where "r = Inl e" "w' = cached w c" "cache_coherent (w_db (cached w c))"
  | (moved) row vr c where "get_item_state item ty ws (w_db w) = Some row"
      "expected = None \<or> expected = Some (i_version row)"
      "validate n (transition_request item target reason cx cred ty ws (i_state row) (author_of cx row (w_db w))) w = (Inr vr, cached w c)"
      "v_valid vr" "valid_state (i_def row) target (w_db w)" "cache_coherent (w_db (cached w c))"
      "r = Inr \<lparr>tr_item_id = item, tr_previous_state = i_state row, tr_new_state = target,
                tr_history_entry_id = Some (db_next (w_db w)), tr_signature_seal = v_seal vr\<rparr>"
      "w' = moved_world n row target reason cx vr (cached w c)"
proof (cases "get_item_state item ty ws (w_db w)")
  case None
  then obtain e where "r = Inl e" "w' = cached w (db_cache (w_db w))"
    using transition_missing [OF None, of n target reason cx cred expected] assms(3) by auto
  then show ?thesis using failed assms(2) by (metis cached_simps(11))
next
  case (Some row)
  show ?thesis
  proof (cases "expected = None \<or> expected = Some (i_version row)")
    case False
    then obtain v where "expected = Some v" "i_version row \<noteq> v" by (cases expected) auto
    then have "r = Inl (version_conflict item v (i_version row))" "w' = cached w (db_cache (w_db w))"
      using transition_stale [OF Some] assms(3) by simp_all
    then show ?thesis using failed assms(2) by (metis cached_simps(11))
  next
    case True
    let ?q = "transition_request item target reason cx cred ty ws (i_state row) (author_of cx row (w_db w))"
    obtain v c where v: "validate n ?q w = (v, cached w c)"
      using validate_frame [of n ?q w] by (cases "validate n ?q w") (auto simp: cached_def)
    have coh: "cache_coherent (w_db (cached w c))" using validate_coherent [OF assms(2), of n ?q] v by simp
    note t = transition_current [OF assms(1) Some True v, unfolded assms(3)]
    show ?thesis
    proof (cases "\<exists>vr. v = Inr vr \<and> v_valid vr \<and> valid_state (i_def row) target (w_db w)")
      case False
      then have "\<exists>e. r = Inl e \<and> w' = cached w c" using t by (auto split: sum.splits if_splits)
      then show ?thesis using failed coh by blast
    next
      case ok: True
      then obtain vr where "v = Inr vr" "v_valid vr" "valid_state (i_def row) target (w_db w)" by blast
      then show ?thesis using moved [OF Some True] v coh t by simp
    qed
  qed
qed

end
