(* ===== verification/Workflow_Engine.thy ===== *)
theory Workflow_Engine
  imports Workflow_Services
begin

text \<open>
  The workflow engine as a whole: any interleaving of transitions, soft deletions, item creation, definition
  edits and edits of the tenant-wide defaults. The operations of one process are sequences of \<open>engine_op\<close>;
  the invariant \<open>engine_inv\<close> ties the item log, the inheritance of definitions and the definition cache together.
\<close>

subsection \<open>Operations\<close>

datatype global_op =
    GAddState string
  | GRenameState string string
  | GDeleteState string
  | GAddTransition string string "string list option" bool bool
  | GUpdateTransition string string "string list option" "bool option" "bool option"
  | GDeleteTransition string string
  | GSetFreeze string bool

fun run_global :: "string \<Rightarrow> string \<Rightarrow> global_op \<Rightarrow> global_sem" where
  "run_global ty p (GAddState s) = global_add_state ty p s"
| "run_global ty p (GRenameState a b) = global_rename_state ty p a b"
| "run_global ty p (GDeleteState s) = global_delete_state ty p s"
| "run_global ty p (GAddTransition f t rs c g) = global_add_transition ty p f t rs c g"
| "run_global ty p (GUpdateTransition f t rs c g) = global_update_transition ty p f t rs c g"
| "run_global ty p (GDeleteTransition f t) = global_delete_transition ty p f t"
| "run_global ty p (GSetFreeze s b) = set_state_freeze ty p s b"

interpretation any_global: global_edit "run_global ty p op" ty p for ty p op
proof
  fix db r db'
  assume "run_global ty p op db = (r, db')"
  then show "global_outcome ty p db r db'"
    by (cases op) (auto dest: gadd_st.outcome gren_st.outcome gdel_st.outcome gadd_tr.outcome gupd_tr.outcome
        gdel_tr.outcome gfreeze.outcome)
qed

datatype engine_op =
    OpTransition env uuid string string auth_context string string uuid "int option"
  | OpForce instant uuid string uuid string string string "string list" bool
  | OpInitialize env "uuid list" string uuid auth_context
  | OpAvailable uuid string uuid
  | OpOutdate uuid string uuid auth_context bool
  | OpReactivate uuid string uuid
  | OpCustom uuid string "string list" "input_transition list"
  | OpEdit uuid string edit_op
  | OpCreateDefault bool uuid string string
  | OpInitializeDefinition "uuid \<Rightarrow> string option" bool uuid string
  | OpReset uuid string
  | OpGlobal string string global_op
  | OpGlobalInitialize string string
  | OpSeed string string

definition in_db :: "(wf_db \<Rightarrow> 'a \<times> wf_db) \<Rightarrow> world \<Rightarrow> world" where
  "in_db m w = w\<lparr>w_db := snd (m (w_db w))\<rparr>"

fun run_op :: "conf \<Rightarrow> engine_op \<Rightarrow> world \<Rightarrow> world" where
  "run_op conf (OpTransition n item target reason cx cred ty ws expected) w =
     snd (transition n item target reason cx cred ty ws expected w)"
| "run_op conf (OpForce now item ty ws target reason actor roles sys) w =
     in_db (force_transition now item ty ws target reason actor roles sys) w"
| "run_op conf (OpInitialize n items ty ws cx) w = snd (initialize_workflow_states n items ty ws cx w)"
| "run_op conf (OpAvailable item ty ws) w = snd (get_available_transitions item ty ws w)"
| "run_op conf (OpOutdate item ty ws cx lazy) w = snd (outdate item ty ws cx lazy w)"
| "run_op conf (OpReactivate item ty ws) w = snd (reactivate item ty ws w)"
| "run_op conf (OpCustom ws ty ss ts) w = in_db (update_custom_workflow conf ws ty ss ts) w"
| "run_op conf (OpEdit ws ty op) w = in_db (persist_definition_edit conf ws ty op) w"
| "run_op conf (OpCreateDefault has_tenant ws p ty) w = in_db (create_default has_tenant ws p ty) w"
| "run_op conf (OpInitializeDefinition tier has_tenant ws ty) w = in_db (initialize_definition tier has_tenant ws ty) w"
| "run_op conf (OpReset ws ty) w = in_db (reset_definition_to_global ws ty) w"
| "run_op conf (OpGlobal ty p op) w = in_db (run_global ty p op) w"
| "run_op conf (OpGlobalInitialize ty p) w = in_db (global_initialize ty p) w"
| "run_op conf (OpSeed ty p) w = in_db (get_or_seed_from_preset ty p) w"

definition run_ops :: "conf \<Rightarrow> engine_op list \<Rightarrow> world \<Rightarrow> world" where
  "run_ops conf ops w = fold (run_op conf) ops w"

subsection \<open>The invariant\<close>

definition engine_inv :: "wf_db \<Rightarrow> bool" where
  "engine_inv db \<longleftrightarrow> items_inv db \<and> inherit_ok db \<and> defs_ok db \<and> cache_coherent db"

text \<open>A change of the item tables only: definitions and cache are as before.\<close>

lemma engine_inv_items:
  assumes "engine_inv db" "db_defs db' = db_defs db" "db_globals db' = db_globals db" "db_next db \<le> db_next db'"
    and "db_cache db' = db_cache db" "items_inv db'"
  shows "engine_inv db'"
proof -
  have f: "find_def v u db' = find_def v u db" for v u by (simp add: find_def_def assms(2))
  have "inherit_ok db" using assms(1) by (simp add: engine_inv_def)
  then have "inherit_ok db'" using assms(3,4) by (rule inherit_ok_frame) (simp add: assms(2))
  moreover have "defs_ok db'" using assms(1,2,4) less_le_trans unfolding engine_inv_def defs_ok_def by metis
  moreover have "cache_coherent db'"
    using assms(1,5) by (simp add: engine_inv_def cache_coherent_def get_definition_def f)
  ultimately show ?thesis using assms(6) by (simp add: engine_inv_def)
qed

lemma engine_inv_cached:
  assumes "engine_inv (w_db w)" "cache_coherent (w_db (cached w c))"
  shows "engine_inv (w_db (cached w c))"
proof -
  have "items_inv (w_db w)" using assms(1) by (simp add: engine_inv_def)
  then have "items_inv (w_db (cached w c))" by (rule items_inv_frame) simp_all
  moreover have "inherit_ok (w_db (cached w c))" "defs_ok (w_db (cached w c))"
    using assms(1) by (auto simp: engine_inv_def inherit_ok_def defs_ok_def)
  ultimately show ?thesis using assms(2) by (simp add: engine_inv_def)
qed

subsection \<open>Definition operations keep the invariant\<close>

text \<open>A change of the definition of one workspace and item type.\<close>

definition keyed_change :: "uuid \<Rightarrow> string \<Rightarrow> wf_db \<Rightarrow> wf_db \<Rightarrow> bool" where
  "keyed_change ws ty db db' \<longleftrightarrow>
     db_items db' = db_items db \<and> db_history db' = db_history db \<and> db_cache db' = db_cache db \<and>
     db_next db \<le> db_next db' \<and> (\<forall>v u. (v, u) \<noteq> (ws, ty) \<longrightarrow> find_def v u db' = find_def v u db)"

lemma keyed_change_refl [simp]: "keyed_change ws ty db db"
  by (simp add: keyed_change_def)

lemma keyed_change_save:
  assumes "defs_ok db" "find_def ws ty db = Some r0" "d_id r = d_id r0" "d_ws r = ws" "d_type r = ty"
  shows "keyed_change ws ty db (save_def r db)"
  using find_def_save [OF assms] by (auto simp: keyed_change_def save_def_def)

lemma keyed_change_insert:
  "find_def (d_ws r) (d_type r) db = None \<Longrightarrow> keyed_change (d_ws r) (d_type r) db (insert_def r db)"
  by (auto simp: keyed_change_def find_def_insert) (simp_all add: insert_def_def)

lemma keyed_change_custom:
  assumes "defs_ok db"
  shows "keyed_change ws ty db (snd (validate_and_persist_custom conf ws ty ss ts db))"
proof (cases "validate_and_persist_custom conf ws ty ss ts db")
  case (Pair r db')
  show ?thesis
  proof (cases r)
    case (Inl e)
    then show ?thesis using persist_failure Pair by fastforce
  next
    case (Inr dto)
    from persist_success(1) [OF Pair [unfolded Inr]] obtain row where row: "d_ws row = ws" "d_type row = ty"
      "case find_def ws ty db of
         Some r0 \<Rightarrow> d_id row = d_id r0 \<and> d_source_global row = d_source_global r0 \<and> db' = save_def row db
       | None \<Rightarrow> d_id row = db_next db \<and> d_source_global row = None \<and> db' = insert_def row db" by blast
    then show ?thesis using Pair keyed_change_save [OF assms] keyed_change_insert [of row db]
      by (auto split: option.splits)
  qed
qed

lemma keyed_change_edit:
  assumes "defs_ok db"
  shows "keyed_change ws ty db (snd (run_edit conf ws ty op db))"
proof (cases "run_edit conf ws ty op db")
  case (Pair r db')
  from sound_run_edit [of conf ws ty op] Pair
  have "db' = db \<or> (\<exists>ss ts. persist_edit conf ws ty ss ts db = (r, db'))" unfolding sound_edit_def by blast
  then show ?thesis using Pair keyed_change_custom [OF assms] by (auto simp: persist_edit_def) (metis snd_conv)
qed

lemma keyed_change_reset:
  assumes "defs_ok db"
  shows "keyed_change ws ty db (snd (reset_to_global ws ty db))"
proof (cases "snd (reset_to_global ws ty db) = db")
  case False
  then obtain r n g where r: "find_def ws ty db = Some r"
      "snd (reset_to_global ws ty db) = save_def (r\<lparr>d_json := g_json g, d_is_customized := False\<rparr>) db"
      "d_source_global r = Some n" "find (\<lambda>g. g_id g = n) (db_globals db) = Some g"
    by (auto simp: reset_to_global_def Let_def split: option.splits)
  have "d_ws r = ws" "d_type r = ty" using find_defD [OF r(1)] by simp_all
  then show ?thesis unfolding r(2) by (intro keyed_change_save [OF assms r(1)]) simp_all
qed simp

lemma keyed_change_globals:
  "keyed_change ws ty (db\<lparr>db_globals := gs, db_next := n\<rparr>) db' \<Longrightarrow> db_next db \<le> n \<Longrightarrow> keyed_change ws ty db db'"
  by (auto simp: keyed_change_def find_def_def)

lemma keyed_change_create: "keyed_change ws ty db (snd (create_default has_tenant ws p ty db))"
proof (cases "map_of PRESET_SCHEMAS p")
  case None
  then show ?thesis by (simp add: create_default_def)
next
  case (Some schema)
  from create_default_split [OF Some, of db ty has_tenant ws] obtain gid json db1 where
    db1: "db1 = db \<or> db1 = snd (insert_global ty p schema db)" and
    c: "snd (create_default has_tenant ws p ty db) = db1 \<or>
     find_def ws ty db1 = None \<and>
     snd (create_default has_tenant ws p ty db) =
       insert_def \<lparr>d_id = db_next db1, d_ws = ws, d_type = ty, d_preset = p, d_json = json,
         d_is_custom = False, d_is_customized = False, d_source_global = gid\<rparr> db1" by blast
  have "keyed_change ws ty db1 (snd (create_default has_tenant ws p ty db))"
    using c keyed_change_insert [of "\<lparr>d_id = db_next db1, d_ws = ws, d_type = ty, d_preset = p, d_json = json,
         d_is_custom = False, d_is_customized = False, d_source_global = gid\<rparr>" db1] by auto
  then show ?thesis using db1 keyed_change_globals by (auto simp: insert_global_def Let_def)
qed

lemma coherent_invalidate:
  "cache_coherent db \<Longrightarrow> keyed_change ws ty db db' \<Longrightarrow> cache_coherent (invalidate_cache ws ty db')"
  by (rule invalidate_coherent [of db]) (auto simp: cache_coherent_dc keyed_change_def)

lemma items_inv_keyed: "items_inv db \<Longrightarrow> keyed_change ws ty db db' \<Longrightarrow> items_inv db'"
  by (rule items_inv_frame [of db]) (auto simp: keyed_change_def)

lemma engine_inv_invalidation:
  assumes "engine_inv db" "keyed_change ws ty db (snd (m db))"
    and "inherit_ok (snd (m db))" "defs_ok (snd (m db))" "\<And>e db1. m db = (Inl e, db1) \<Longrightarrow> db1 = db"
  shows "engine_inv (snd (with_invalidation f ws ty m db))"
proof (cases "m db")
  case (Pair r db1)
  show ?thesis
  proof (cases r)
    case (Inl e)
    then show ?thesis using Pair assms(1,5) by (simp add: with_invalidation_def)
  next
    case (Inr x)
    then have s: "snd (with_invalidation f ws ty m db) = invalidate_cache ws ty db1"
      using Pair by (simp add: with_invalidation_def)
    have k: "keyed_change ws ty db db1" "inherit_ok db1" "defs_ok db1" using assms Pair by simp_all
    have i: "items_inv db1" using assms(1) k(1) items_inv_keyed by (auto simp: engine_inv_def)
    have "items_inv (invalidate_cache ws ty db1)" by (rule items_inv_frame [OF i]) simp_all
    moreover have "cache_coherent (invalidate_cache ws ty db1)"
      using assms(1) k(1) coherent_invalidate by (auto simp: engine_inv_def)
    moreover have "inherit_ok (invalidate_cache ws ty db1)" "defs_ok (invalidate_cache ws ty db1)"
      using k by (simp_all add: inherit_ok_def defs_ok_def)
    ultimately show ?thesis by (simp add: s engine_inv_def)
  qed
qed

lemma engine_inv_custom: "engine_inv db \<Longrightarrow> engine_inv (snd (update_custom_workflow conf ws ty ss ts db))"
  unfolding update_custom_workflow_def
  by (rule engine_inv_invalidation)
    (auto simp: engine_inv_def keyed_change_custom inherit_ok_custom custom.edit_frame(1) dest: persist_failure)

lemma engine_inv_edit: "engine_inv db \<Longrightarrow> engine_inv (snd (persist_definition_edit conf ws ty op db))"
  unfolding persist_definition_edit_def
  by (rule engine_inv_invalidation)
    (auto simp: engine_inv_def keyed_change_edit inherit_ok_edit any_edit.edit_frame(1) dest: any_edit.failure)

lemma engine_inv_reset: "engine_inv db \<Longrightarrow> engine_inv (snd (reset_definition_to_global ws ty db))"
  unfolding reset_definition_to_global_def
  by (rule engine_inv_invalidation)
    (auto simp: engine_inv_def keyed_change_reset inherit_ok_reset,
     auto simp: reset_to_global_def Let_def split: option.splits)

lemma create_default_failure: "create_default has_tenant ws p ty db = (Inl e, db1) \<Longrightarrow> db1 = db"
  by (auto simp: create_default_def Let_def split: option.splits prod.splits if_splits)

lemma engine_inv_initialize_definition:
  "engine_inv db \<Longrightarrow> engine_inv (snd (initialize_definition tier has_tenant ws ty db))"
  unfolding initialize_definition_def
  by (rule engine_inv_invalidation)
    (auto simp: engine_inv_def keyed_change_create inherit_ok_create dest: create_default_failure)

lemma coherent_extend:
  assumes "cache_coherent db" "db_cache db' = db_cache db" "\<And>v u r. find_def v u db = Some r \<Longrightarrow> find_def v u db' = Some r"
  shows "cache_coherent db'"
  using assms by (auto simp: cache_coherent_def get_definition_def split: option.splits) (metis option.distinct(1) option.inject)+

lemma create_default_keeps:
  assumes "find_def v u db = Some r"
  shows "find_def v u (snd (create_default has_tenant ws p ty db)) = Some r"
proof (cases "(v, u) = (ws, ty)")
  case False
  then show ?thesis using keyed_change_create [of ws ty db has_tenant p] assms by (auto simp: keyed_change_def)
next
  case True
  show ?thesis
  proof (cases "map_of PRESET_SCHEMAS p")
    case None
    then show ?thesis using assms by (simp add: create_default_def)
  next
    case (Some schema)
    from create_default_split [OF Some, of db ty has_tenant ws] obtain db1 where
      db1: "db1 = db \<or> db1 = snd (insert_global ty p schema db)" and
      c: "snd (create_default has_tenant ws p ty db) = db1 \<or> find_def ws ty db1 = None" by blast
    have "find_def v u db1 = Some r" using db1 assms by (auto simp: insert_global_def Let_def find_def_def)
    then show ?thesis using c True by auto
  qed
qed

lemma engine_inv_create: 
  assumes "engine_inv db"
  shows "engine_inv (snd (create_default has_tenant ws p ty db))"
proof -
  note k = keyed_change_create [of ws ty db has_tenant p]
  have "items_inv db" "cache_coherent db" "inherit_ok db" "defs_ok db" using assms by (simp_all add: engine_inv_def)
  moreover have "db_cache (snd (create_default has_tenant ws p ty db)) = db_cache db" using k by (simp add: keyed_change_def)
  ultimately show ?thesis
    using items_inv_keyed [OF _ k] coherent_extend [OF _ _ create_default_keeps] inherit_ok_create
    by (simp add: engine_inv_def)
qed

lemma cache_get_fold_invalidate:
  "cache_get v u (db_cache (fold (\<lambda>ws d. invalidate_cache ws ty d) wss db)) =
     (if u = ty \<and> v \<in> set wss then None else cache_get v u (db_cache db))"
  by (induction wss arbitrary: db)
    (auto simp: invalidate_cache_def cache_get_def cache_invalidate_def map_of_filter_key)

lemma cache_ok_fold_invalidate:
  "cache_ok (db_cache db) \<Longrightarrow> cache_ok (db_cache (fold (\<lambda>ws d. invalidate_cache ws ty d) wss db))"
proof (induction wss arbitrary: db)
  case (Cons ws wss)
  have "cache_ok (db_cache (invalidate_cache ws ty db))"
    using Cons.prems by (simp add: invalidate_cache_def cache_ok_def cache_invalidate_def distinct_map_filter)
  then show ?case using Cons.IH by simp
qed simp

lemma persist_global_cache:
  "db_cache (snd (persist_global g ss ts db)) =
     db_cache (fold (\<lambda>ws d. invalidate_cache ws (g_type g) d) (map d_ws (filter (mirrors_row g) (db_defs db))) db)"
proof -
  have eq: "db_cache (fold (\<lambda>ws d. invalidate_cache ws ty d) wss db1) = db_cache (fold (\<lambda>ws d. invalidate_cache ws ty d) wss db2)"
    if "db_cache db1 = db_cache db2" for ty wss db1 db2
    using that by (induction wss arbitrary: db1 db2) (auto simp: invalidate_cache_def)
  have m: "mirrors_row (g\<lparr>g_json := j\<rparr>) = mirrors_row g" for j by (rule ext) (simp add: mirrors_row_def)
  show ?thesis by (auto simp: persist_global_def propagate_def save_global_def m Let_def split_beta intro!: eq)
qed

lemma coherent_persist_global:
  assumes "cache_coherent db" "inherit_ok db" "g0 \<in> set (db_globals db)" "g_id g = g_id g0" "g_type g = g_type g0"
  shows "cache_coherent (snd (persist_global g ss ts db))"
proof -
  let ?db = "snd (persist_global g ss ts db)" let ?wss = "map d_ws (filter (mirrors_row g) (db_defs db))"
  have "get_definition v u ?db = Inr dto" if "cache_get v u (db_cache ?db) = Some dto" for v u dto
  proof -
    have c: "\<not> (u = g_type g \<and> v \<in> set ?wss)" "cache_get v u (db_cache db) = Some dto"
      using that by (auto simp: persist_global_cache cache_get_fold_invalidate split: if_splits)
    then have d: "get_definition v u db = Inr dto" using assms(1) by (simp add: cache_coherent_def)
    then obtain r where r: "find_def v u db = Some r" by (auto simp: get_definition_def split: option.splits)
    have "\<not> mirrors_row g r"
    proof
      assume m: "mirrors_row g r"
      have "r \<in> set (db_defs db)" "d_ws r = v" "d_type r = u" using find_defD [OF r] by simp_all
      moreover from this m assms(2-5) have "d_type r = g_type g" by (auto simp: inherit_ok_def mirrors_row_def)
      ultimately show False using c(1) m by force
    qed
    then have "find_def v u ?db = Some r" using r by (simp add: persist_global_find_def)
    then show ?thesis using d r by (simp add: get_definition_def)
  qed
  then show ?thesis
    using assms(1) cache_ok_fold_invalidate by (simp add: cache_coherent_def persist_global_cache)
qed

lemma engine_inv_global:
  assumes "engine_inv db"
  shows "engine_inv (snd (run_global ty p op db))"
proof -
  have inv: "items_inv db" "inherit_ok db" "defs_ok db" "cache_coherent db" using assms by (simp_all add: engine_inv_def)
  obtain r db' where e: "run_global ty p op db = (r, db')" by fastforce
  from any_global.outcome [OF e] show ?thesis unfolding global_outcome_def
  proof (elim disjE exE conjE)
    fix g g1 ss ts
    assume g: "global_get ty p db = Some g" "g_id g1 = g_id g" "g_type g1 = g_type g" "db' = snd (persist_global g1 ss ts db)"
    have mem: "g \<in> set (db_globals db)" using global_getD [OF g(1)] by simp
    have "items_inv db'" unfolding g(4) by (rule items_inv_frame [OF inv(1)]) (simp_all add: persist_global_fields)
    moreover have "inherit_ok db'" unfolding g(4) using inv(2) mem g(2,3) by (rule inherit_ok_persist)
    moreover have "defs_ok db'" unfolding g(4) using inv(3) by (rule defs_ok_persist_global)
    moreover have "cache_coherent db'" unfolding g(4) using inv(4,2) mem g(2,3) by (rule coherent_persist_global)
    ultimately show ?thesis by (simp add: e engine_inv_def)
  qed (use e assms in simp)
qed

lemma engine_inv_seed:
  "engine_inv db \<Longrightarrow> engine_inv (snd (global_initialize ty p db))"
  "engine_inv db \<Longrightarrow> engine_inv (snd (get_or_seed_from_preset ty p db))"
proof -
  have new: "engine_inv (snd (insert_global ty p j db))" if "engine_inv db" for j
  proof -
    have "items_inv db" using that by (simp add: engine_inv_def)
    then have i: "items_inv (snd (insert_global ty p j db))"
      by (rule items_inv_frame) (simp_all add: insert_global_def Let_def)
    have "inherit_ok (snd (insert_global ty p j db))" using that inherit_ok_insert_global by (auto simp: engine_inv_def)
    moreover have "defs_ok (snd (insert_global ty p j db))"
      using that by (auto simp: engine_inv_def defs_ok_def insert_global_def Let_def less_Suc_eq)
    moreover have "cache_coherent (snd (insert_global ty p j db))"
      using that by (auto simp: engine_inv_def intro!: coherent_extend [of db]) (simp_all add: insert_global_def Let_def find_def_def)
    ultimately show ?thesis using i by (simp add: engine_inv_def)
  qed
  show "engine_inv db \<Longrightarrow> engine_inv (snd (global_initialize ty p db))"
    "engine_inv db \<Longrightarrow> engine_inv (snd (get_or_seed_from_preset ty p db))"
    using new by (auto simp: global_initialize_def get_or_seed_from_preset_def split: option.split)
qed

subsection \<open>Item operations keep the invariant\<close>

text \<open>Growth of the item tables: rows keep their key and are never removed, and the history is append-only.\<close>

definition grows :: "wf_db \<Rightarrow> wf_db \<Rightarrow> bool" where
  "grows db db' \<longleftrightarrow> (\<exists>hs. db_history db' = db_history db @ hs) \<and>
     (\<forall>i\<in>set (db_items db). \<exists>j\<in>set (db_items db').
        i_id j = i_id i \<and> i_item j = i_item i \<and> i_type j = i_type i \<and> i_ws j = i_ws i)"

lemma grows_refl [simp]: "grows db db"
  by (auto simp: grows_def)

lemma grows_trans: "grows a b \<Longrightarrow> grows b c \<Longrightarrow> grows a c"
  unfolding grows_def by (metis append.assoc)

lemma grows_same: "db_items db' = db_items db \<Longrightarrow> db_history db' = db_history db \<Longrightarrow> grows db db'"
  by (auto simp: grows_def)

lemma grows_move:
  assumes "keys_ok db" "row \<in> set (db_items db)"
  shows "grows db (move row target b n c sl ws db)"
proof -
  let ?f = "\<lambda>i. if i_id i = i_id row then moved row target else i"
  have "i_id (?f i) = i_id i \<and> i_item (?f i) = i_item i \<and> i_type (?f i) = i_type i \<and> i_ws (?f i) = i_ws i"
    if "i \<in> set (db_items db)" for i using keys_ok_unique [OF assms(1) that assms(2)] by (auto simp: moved_def)
  then have "\<forall>i\<in>set (db_items db). \<exists>j\<in>?f ` set (db_items db).
      i_id j = i_id i \<and> i_item j = i_item i \<and> i_type j = i_type i \<and> i_ws j = i_ws i" by blast
  then show ?thesis by (simp add: grows_def move_def)
qed

text \<open>Rows are only added to the item tables; definitions and cache are as before.\<close>

definition items_added :: "wf_db \<Rightarrow> wf_db \<Rightarrow> bool" where
  "items_added db db' \<longleftrightarrow> db_defs db' = db_defs db \<and> db_globals db' = db_globals db \<and> db_cache db' = db_cache db \<and>
     db_next db \<le> db_next db' \<and> set (db_items db) \<subseteq> set (db_items db') \<and> (\<exists>hs. db_history db' = db_history db @ hs)"

lemma items_added_trans: "items_added a b \<Longrightarrow> items_added b c \<Longrightarrow> items_added a c"
  by (auto simp: items_added_def)

lemma items_added_grows: "items_added db db' \<Longrightarrow> grows db db'"
  by (auto simp: items_added_def grows_def)

lemma items_added_bind:
  assumes "items_added db (snd (m db))" "\<And>x db1. items_added db1 (snd (f x db1))"
  shows "items_added db (snd (se_bind m f db))"
proof (cases "m db")
  case (Pair r db1)
  then show ?thesis using assms items_added_trans by (cases r) (auto simp: se_bind_def)
qed

lemma items_added_basic:
  "items_added db (snd (se_return x db))" "items_added db (snd (se_lift r db))" "items_added db (snd (se_gets g db))"
  "items_added db (snd (insert_item item ty ws d s db))" "items_added db (snd (append_history i f t b n c sl ws db))"
  "items_added db db"
  by (auto simp: items_added_def insert_item_def append_history_def Let_def)

lemma items_added_atomic: "items_added db (snd (m db)) \<Longrightarrow> items_added db (snd (atomic m db))"
  by (cases "m db"; cases "fst (m db)") (auto simp: atomic_def se_atomic_def items_added_def)

lemma items_added_create: "items_added db (snd (create_item_states now ty ws d init seeded by_whom items db))"
  by (induction items arbitrary: db) (auto intro!: items_added_bind items_added_basic)

lemma items_added_initialize: "items_added db (snd (lm_initialize_workflow_states now items ty ws init by_whom db))"
  unfolding lm_initialize_workflow_states_def
  by (rule items_added_atomic)
    (auto simp: Let_def items_added_basic intro!: items_added_bind items_added_basic items_added_create split: option.split)

lemma items_added_ensure: "items_added db (snd (ensure_item_state item ty ws init db))"
  unfolding ensure_item_state_def
proof (rule items_added_atomic)
  have "items_added db db1" if "insert_item item ty ws d init db = (r, db1)" for d r db1
    using items_added_basic(4) [of db item ty ws d init] that by simp
  then show "items_added db (snd (case get_item_state item ty ws db of
       Some row \<Rightarrow> (Inr row, db)
     | None \<Rightarrow>
         (case find_def ws ty db of
            None \<Rightarrow> (Inl (no_state_definition ws ty), db)
          | Some d \<Rightarrow>
              (case insert_item item ty ws (d_id d) init db of
                 (Inl e, db1) \<Rightarrow>
                   (case get_item_state item ty ws db1 of None \<Rightarrow> (Inl e, db1) | Some row \<Rightarrow> (Inr row, db1))
               | (Inr row, db1) \<Rightarrow> (Inr row, db1)))))"
    by (auto simp: items_added_basic split: option.split prod.split sum.split)
qed

lemma engine_inv_items_added: "engine_inv db \<Longrightarrow> items_added db db' \<Longrightarrow> items_inv db' \<Longrightarrow> engine_inv db'"
  by (rule engine_inv_items) (auto simp: items_added_def)

lemma engine_inv_initialize:
  "engine_inv db \<Longrightarrow> engine_inv (snd (lm_initialize_workflow_states now items ty ws init by_whom db))"
  by (rule engine_inv_items_added [OF _ items_added_initialize]) (auto simp: engine_inv_def items_inv_initialize)

lemma engine_inv_ensure: "engine_inv db \<Longrightarrow> engine_inv (snd (ensure_item_state item ty ws init db))"
  by (rule engine_inv_items_added [OF _ items_added_ensure]) (auto simp: engine_inv_def items_inv_ensure)

lemma move_frame [simp]:
  "db_defs (move row target b n c sl ws db) = db_defs db" "db_globals (move row target b n c sl ws db) = db_globals db"
  "db_cache (move row target b n c sl ws db) = db_cache db" "db_next db \<le> db_next (move row target b n c sl ws db)"
  by (simp_all add: move_def)

lemma engine_inv_move:
  assumes "engine_inv db" "row \<in> set (db_items db)" "valid_state (i_def row) target db"
  shows "engine_inv (move row target b n c sl ws db)"
proof -
  have "items_inv db" using assms(1) by (simp add: engine_inv_def)
  then show ?thesis by (intro engine_inv_items [OF assms(1)] items_inv_move assms) simp_all
qed

lemma engine_inv_force:
  assumes "engine_inv db"
  shows "engine_inv (snd (force_transition now item ty ws target reason actor roles sys db))"
proof -
  obtain r db' where f: "force_transition now item ty ws target reason actor roles sys db = (r, db')" by fastforce
  have "keys_ok db" using assms by (simp add: engine_inv_def items_inv_def)
  from force_transition_outcome [OF this f] show ?thesis
    using f assms engine_inv_move get_item_stateD by auto
qed

lemma engine_inv_transition:
  assumes "engine_inv (w_db w)"
  shows "engine_inv (w_db (snd (transition n item target reason cx cred ty ws expected w)))"
proof (cases "transition n item target reason cx cred ty ws expected w")
  case (Pair r w')
  have "keys_ok (w_db w)" "cache_coherent (w_db w)" using assms by (simp_all add: engine_inv_def items_inv_def)
  from this Pair show ?thesis
  proof (cases rule: transition_split)
    case (failed e c)
    then show ?thesis using Pair engine_inv_cached [OF assms] by simp
  next
    case (moved row vr c)
    have "engine_inv (w_db (cached w c))" using assms moved by (intro engine_inv_cached)
    then show ?thesis using Pair moved engine_inv_move [of "w_db (cached w c)" row target] get_item_stateD
      by (simp add: moved_world_def notify_def)
  qed
qed

lemma set_lifecycle_db [simp]: "w_db (set_lifecycle_status item ty v w) = w_db w"
  by (simp add: set_lifecycle_status_def split: option.split)

lemma engine_inv_on_ensure: "engine_inv (w_db w) \<Longrightarrow> engine_inv (w_db (snd (on_db (ensure_item_state item ty ws init) w)))"
  using engine_inv_ensure [of "w_db w" item ty ws init]
  by (cases "ensure_item_state item ty ws init (w_db w)") (simp add: on_db_def)

lemma engine_inv_outdate: "engine_inv (w_db w) \<Longrightarrow> engine_inv (w_db (snd (outdate item ty ws cx lazy w)))"
  using engine_inv_on_ensure [of w item ty ws]
  by (auto simp: outdate_def se_bind_def split: option.split sum.split prod.split) (metis snd_conv)+

lemma engine_inv_available: "engine_inv (w_db w) \<Longrightarrow> engine_inv (w_db (snd (get_available_transitions item ty ws w)))"
  using engine_inv_on_ensure [of w item ty ws]
  by (auto simp: get_available_transitions_def Let_def split_beta split: option.split sum.split prod.split)

lemma engine_inv_run_op: "engine_inv (w_db w) \<Longrightarrow> engine_inv (w_db (run_op conf op w))"
proof (cases op)
  case (OpReactivate item ty ws)
  assume "engine_inv (w_db w)"
  then show ?thesis unfolding OpReactivate by (simp add: reactivate_def Let_def split: option.split)
next
  case (OpInitialize n items ty ws cx)
  assume inv: "engine_inv (w_db w)"
  show ?thesis unfolding OpInitialize
    using engine_inv_initialize [OF inv, of "n_now n" items ty ws "Some (initial_state_for cx ty ws (w_db w))"
        "py_or (cx_agent_label cx) (cx_user_id cx)"]
    by (simp add: initialize_workflow_states_def on_db_def split_beta)
qed (simp_all add: in_db_def engine_inv_transition engine_inv_force engine_inv_available engine_inv_outdate
    engine_inv_custom engine_inv_edit engine_inv_create engine_inv_initialize_definition engine_inv_reset
    engine_inv_global engine_inv_seed)

lemma engine_inv_run_ops: "engine_inv (w_db w) \<Longrightarrow> engine_inv (w_db (run_ops conf ops w))"
  unfolding run_ops_def by (induction ops arbitrary: w) (simp_all add: engine_inv_run_op)

lemma engine_inv_empty:
  "db_defs db = [] \<Longrightarrow> db_globals db = [] \<Longrightarrow> db_items db = [] \<Longrightarrow> db_history db = [] \<Longrightarrow> db_cache db = [] \<Longrightarrow> engine_inv db"
  by (simp add: engine_inv_def items_inv_def keys_ok_def inherit_ok_def defs_ok_def cache_coherent_def cache_ok_def
      cache_get_def)

subsection \<open>The tables only grow\<close>

lemma transition_grows:
  assumes "engine_inv (w_db w)"
  shows "grows (w_db w) (w_db (snd (transition n item target reason cx cred ty ws expected w)))"
proof (cases "transition n item target reason cx cred ty ws expected w")
  case (Pair r w')
  have k: "keys_ok (w_db w)" "cache_coherent (w_db w)" using assms by (simp_all add: engine_inv_def items_inv_def)
  from k Pair show ?thesis
  proof (cases rule: transition_split)
    case (failed e c)
    then show ?thesis using Pair by (simp add: grows_same)
  next
    case (moved row vr c)
    have "grows (w_db w) (w_db (cached w c))" by (simp add: grows_same)
    then show ?thesis using Pair moved grows_move [of "w_db (cached w c)" row] get_item_stateD k
      by (auto simp: moved_world_def notify_def intro: grows_trans)
  qed
qed

lemma on_ensure_added: "items_added (w_db w) (w_db (snd (on_db (ensure_item_state item ty ws init) w)))"
  using items_added_ensure [of "w_db w" item ty ws init]
  by (cases "ensure_item_state item ty ws init (w_db w)") (simp add: on_db_def)

lemma initialize_added: "items_added (w_db w) (w_db (snd (initialize_workflow_states n items ty ws cx w)))"
  using items_added_initialize [of "w_db w" "n_now n" items ty ws "Some (initial_state_for cx ty ws (w_db w))"
      "py_or (cx_agent_label cx) (cx_user_id cx)"]
  by (simp add: initialize_workflow_states_def on_db_def split_beta)

lemma available_added: "items_added (w_db w) (w_db (snd (get_available_transitions item ty ws w)))"
  using on_ensure_added [of w item ty ws]
  by (auto simp: get_available_transitions_def Let_def split_beta items_added_basic split: option.split sum.split prod.split)

lemma outdate_added: "items_added (w_db w) (w_db (snd (outdate item ty ws cx lazy w)))"
  using on_ensure_added [of w item ty ws]
  by (auto simp: outdate_def se_bind_def items_added_basic split: option.split sum.split prod.split) (metis snd_conv)+

text \<open>Operations that neither transition nor force: every row of the item table is still there.\<close>

fun moves :: "engine_op \<Rightarrow> bool" where
  "moves (OpTransition n item target reason cx cred ty ws expected) = True"
| "moves (OpForce now item ty ws target reason actor roles sys) = True"
| "moves op = False"

lemma with_invalidation_frame:
  "db_items (snd (with_invalidation f ws ty m db)) = db_items (snd (m db))"
  "db_history (snd (with_invalidation f ws ty m db)) = db_history (snd (m db))"
  by (simp_all add: with_invalidation_def split: prod.split sum.split)

lemma keyed_same: "keyed_change ws ty db db' \<Longrightarrow> db_items db' = db_items db \<and> db_history db' = db_history db"
  by (simp add: keyed_change_def)

lemma run_op_rows_kept:
  assumes "engine_inv (w_db w)" "\<not> moves op"
  shows "set (db_items (w_db w)) \<subseteq> set (db_items (w_db (run_op conf op w))) \<and>
     (\<exists>hs. db_history (w_db (run_op conf op w)) = db_history (w_db w) @ hs)"
proof -
  have d: "defs_ok (w_db w)" using assms(1) by (simp add: engine_inv_def)
  note keyed = keyed_same [OF keyed_change_custom [OF d]] keyed_same [OF keyed_change_edit [OF d]]
    keyed_same [OF keyed_change_create] keyed_same [OF keyed_change_reset [OF d]]
  show ?thesis
  proof (cases op)
    case (OpInitialize n items ty ws cx)
    then show ?thesis using initialize_added by (simp add: items_added_def)
  next
    case (OpAvailable item ty ws)
    then show ?thesis using available_added by (simp add: items_added_def)
  next
    case (OpOutdate item ty ws cx lazy)
    then show ?thesis using outdate_added by (simp add: items_added_def)
  next
    case (OpReactivate item ty ws)
    then show ?thesis by (simp add: reactivate_def Let_def split: option.split)
  next
    case (OpCreateDefault has_tenant ws p ty)
    then show ?thesis using keyed by (simp add: in_db_def)
  next
    case (OpGlobal ty p g)
    then show ?thesis using any_global.edit_frame(1,2) by (simp add: in_db_def)
  next
    case (OpGlobalInitialize ty p)
    then show ?thesis by (simp add: in_db_def global_initialize_def insert_global_def Let_def split: option.split)
  next
    case (OpSeed ty p)
    then show ?thesis by (simp add: in_db_def get_or_seed_from_preset_def insert_global_def Let_def split: option.split)
  qed (use assms(2) keyed in \<open>simp_all add: in_db_def update_custom_workflow_def persist_definition_edit_def
      initialize_definition_def reset_definition_to_global_def with_invalidation_frame\<close>)
qed

lemma run_op_grows:
  assumes "engine_inv (w_db w)"
  shows "grows (w_db w) (w_db (run_op conf op w))"
proof (cases "moves op")
  case False
  then show ?thesis using run_op_rows_kept [OF assms False, of conf] by (auto simp: grows_def)
next
  case True
  have keys: "keys_ok (w_db w)" using assms by (simp add: engine_inv_def items_inv_def)
  show ?thesis
  proof (cases op)
    case (OpForce now item ty ws target reason actor roles sys)
    obtain r db' where f: "force_transition now item ty ws target reason actor roles sys (w_db w) = (r, db')" by fastforce
    from force_transition_outcome [OF keys f] show ?thesis
      using f OpForce grows_move [OF keys] get_item_stateD by (auto simp: in_db_def)
  qed (use True in \<open>simp_all add: transition_grows assms\<close>)
qed

lemma run_ops_grows: "engine_inv (w_db w) \<Longrightarrow> grows (w_db w) (w_db (run_ops conf ops w))"
proof (induction ops arbitrary: w)
  case (Cons op ops)
  then show ?case
    using run_op_grows [OF Cons.prems] Cons.IH [OF engine_inv_run_op [OF Cons.prems]] grows_trans by (simp add: run_ops_def) blast
qed (simp add: run_ops_def)

lemma run_ops_append: "run_ops conf (ops @ ops2) w = run_ops conf ops2 (run_ops conf ops w)"
  by (simp add: run_ops_def)

end
