(* ===== verification/Workflow_Guarantees.thy ===== *)
theory Workflow_Guarantees
  imports Workflow_Engine
begin

text \<open>
  What the workflow engine guarantees, stated over its public operations and over arbitrary sequences of them.
\<close>

subsection \<open>The history explains the state\<close>

definition empty_world :: world where
  "empty_world =
     \<lparr>w_db = \<lparr>db_defs = [], db_globals = [], db_items = [], db_history = [], db_next = 1, db_cache = []\<rparr>,
      w_entities = [], w_artifacts = [], w_links = [], w_runs = [], w_notified = []\<rparr>"

lemma engine_inv_empty_world: "engine_inv (w_db empty_world)"
  by (rule engine_inv_empty) (simp_all add: empty_world_def)

lemmas engine_inv_run = engine_inv_run_ops [OF engine_inv_empty_world]

definition user_example :: auth_context where
  "user_example =
     \<lparr>cx_user_id = ''u'', cx_tenant_id = ''tn'', cx_active_roles = [''Editor''], cx_actor_type = ''user'',
      cx_agent_label = []\<rparr>"

definition agent_example :: auth_context where
  "agent_example = user_example\<lparr>cx_actor_type := ''agent'', cx_agent_label := ''bot''\<rparr>"

definition ops_example :: "engine_op list" where
  "ops_example =
     [OpCreateDefault True ''w'' ''minimal'' ''Requirement'',
      OpInitialize env_example [''r''] ''Requirement'' ''w'' user_example,
      OpForce 5 ''r'' ''Requirement'' ''w'' ''done'' ''imported'' ''u'' [] True]"

text \<open>
  C1: the history explains the state. After any sequence of engine operations on empty tables there is one
  state row per item and type; the history entries of the row form a chain of moves, each starting where the
  one before ended, the last ending in the current state; the version is one more than the number of moves; and
  whatever operations follow, the history so far stays as it is.
\<close>

theorem history_explains_state:
  "let db = w_db (run_ops conf ops empty_world)
   in distinct (map (\<lambda>i. (i_item i, i_type i)) (db_items db)) \<and>
      (\<forall>i\<in>set (db_items db).
         linked (item_log db i) \<and> (item_log db i = [] \<or> h_to (last (item_log db i)) = i_state i) \<and>
         i_version i = 1 + int (length (filter (\<lambda>h. h_from h \<noteq> []) (item_log db i)))) \<and>
      (\<exists>hs. db_history (w_db (run_ops conf (ops @ ops2) empty_world)) = db_history db @ hs)"
proof -
  have "items_inv (w_db (run_ops conf ops empty_world))" using engine_inv_run by (simp add: engine_inv_def)
  moreover have "grows (w_db (run_ops conf ops empty_world)) (w_db (run_ops conf (ops @ ops2) empty_world))"
    unfolding run_ops_append by (rule run_ops_grows [OF engine_inv_run])
  ultimately show ?thesis by (simp add: Let_def items_inv_def log_ok_def grows_def)
qed

theorem history_explains_state_witness:
  "let db = w_db (run_ops (\<lambda>_. Inr ''full'') ops_example empty_world)
   in map (\<lambda>h. (h_from h, h_to h)) (db_history db) = [(''draft'', ''done'')] \<and>
      (\<exists>i\<in>set (db_items db). i_state i = ''done'' \<and> i_version i = 2 \<and> linked (item_log db i) \<and>
         h_to (last (item_log db i)) = i_state i)"
proof -
  let ?db = "w_db (run_ops (\<lambda>_. Inr ''full'') ops_example empty_world)"
  have h: "map (\<lambda>h. (h_from h, h_to h)) (db_history ?db) = [(''draft'', ''done'')]"
    unfolding ops_example_def run_ops_def fold_simps run_op.simps by code_simp
  have "\<exists>i\<in>set (db_items ?db). i_state i = ''done'' \<and> i_version i = 2"
    unfolding ops_example_def run_ops_def fold_simps run_op.simps by code_simp
  then obtain i where i: "i \<in> set (db_items ?db)" "i_state i = ''done''" "i_version i = 2" by blast
  note all = history_explains_state [of "\<lambda>_. Inr ''full''" ops_example "[]", unfolded Let_def]
  have "linked (item_log ?db i)" "item_log ?db i = [] \<or> h_to (last (item_log ?db i)) = i_state i"
    "i_version i = 1 + int (length (filter (\<lambda>h. h_from h \<noteq> []) (item_log ?db i)))"
    using all i(1) by blast+
  moreover from this(3) have "item_log ?db i \<noteq> []" using i(3) by (cases "item_log ?db i") simp_all
  ultimately show ?thesis using h i unfolding Let_def by blast
qed

text \<open>
  In a single process the definition the validator loads through the cache is the stored one (several processes are
  the subject of \<open>Worker_Caches\<close>).
\<close>

lemma lone_validator_reads_stored:
  "fst (load_definition ws ty (w_db (run_ops conf ops empty_world))) =
     map_option dto_from_orm (find_def ws ty (w_db (run_ops conf ops empty_world)))"
  using engine_inv_run by (intro load_definition_coherent(1)) (simp add: engine_inv_def)

subsection \<open>Transitions\<close>

text \<open>
  C3: the effect of a transition. When \<open>transition\<close> returns, the item was in a state from which the stored
  definition declares the edge, the actor holds one of the edge's roles, the version matched; exactly the row of
  the item moved to the target with its version incremented, exactly one history entry with actor, time, reason
  and seal was appended, one notification was sent, and a seal was issued exactly when the edge has a signature
  gate. When it raises, all tables are as before; only the definition cache may differ.
\<close>

theorem transition_effect:
  assumes "engine_inv (w_db w)" "transition n item target reason cx cred ty ws expected w = (r, w')"
  shows "case r of
      Inl e \<Rightarrow> \<exists>c. w' = w\<lparr>w_db := (w_db w)\<lparr>db_cache := c\<rparr>\<rparr>
    | Inr res \<Rightarrow> \<exists>row d t.
        get_item_state item ty ws (w_db w) = Some row \<and> (expected = None \<or> expected = Some (i_version row)) \<and>
        find_def ws ty (w_db w) = Some d \<and> get_transition (dto_from_orm d) (i_state row) target = Some t \<and>
        (\<exists>a\<in>set (allowed_roles t). \<exists>b\<in>set (cx_active_roles cx). py_lower a = py_lower b) \<and>
        (tr_signature_seal res \<noteq> None \<longleftrightarrow> signature_gate t) \<and>
        db_items (w_db w') =
          map (\<lambda>i. if i_id i = i_id row then row\<lparr>i_state := target, i_version := i_version row + 1\<rparr> else i)
            (db_items (w_db w)) \<and>
        db_history (w_db w') = db_history (w_db w) @
          [\<lparr>h_id = db_next (w_db w), h_item_state = i_id row, h_from = i_state row, h_to = target,
            h_by = cx_user_id cx, h_at = n_now n, h_reason = reason,
            h_seal = (case tr_signature_seal res of Some s \<Rightarrow> s | None \<Rightarrow> []), h_ws = ws\<rparr>] \<and>
        w_notified w' = w_notified w @
          [\<lparr>nt_item = item, nt_type = ty, nt_ws = ws, nt_state = target, nt_actor = cx_user_id cx\<rparr>]"
proof -
  have k: "keys_ok (w_db w)" "cache_coherent (w_db w)" using assms(1) by (simp_all add: engine_inv_def items_inv_def)
  from k assms(2) show ?thesis
  proof (cases rule: transition_split)
    case (failed e c)
    then show ?thesis by (auto simp: cached_def)
  next
    case (moved row vr c)
    let ?q = "transition_request item target reason cx cred ty ws (i_state row) (author_of cx row (w_db w))"
    from validate_valid_iff [OF k(2), of n ?q vr] moved(3,4) obtain d t where
      "find_def ws ty (w_db w) = Some d" "get_transition (dto_from_orm d) (i_state row) target = Some t"
      "role_held ?q t" "vr = accept_with (if signature_gate t then Some (seal_of n ?q) else None)"
      by (auto simp: transition_request_def)
    then show ?thesis using moved get_item_stateD [OF moved(1)]
      by (auto simp: role_held_def transition_request_def moved_world_def notify_def move_def moved_def seal_text_def)
  qed
qed

lemma minimal_example_inv: "engine_inv (w_db world_minimal)"
  by (simp add: engine_inv_def world_minimal_def db_minimal_def items_inv_def keys_ok_def log_ok_def item_log_def
      inherit_ok_def defs_ok_def def_minimal_def cache_coherent_def cache_ok_def cache_get_def)

lemma minimal_transition_runs:
  "fst (transition env_example ''r'' ''done'' [] user_example [] ''Requirement'' ''w'' (Some 1) world_minimal) =
     Inr \<lparr>tr_item_id = ''r'', tr_previous_state = ''draft'', tr_new_state = ''done'', tr_history_entry_id = Some 3,
          tr_signature_seal = None\<rparr>"
  by code_simp

theorem transition_effect_witness:
  "\<exists>w'. transition env_example ''r'' ''done'' [] user_example [] ''Requirement'' ''w'' (Some 1) world_minimal =
       (Inr \<lparr>tr_item_id = ''r'', tr_previous_state = ''draft'', tr_new_state = ''done'', tr_history_entry_id = Some 3,
             tr_signature_seal = None\<rparr>, w') \<and>
     length (db_history (w_db w')) = 1 \<and> length (w_notified w') = 1"
proof -
  obtain w' where w': "transition env_example ''r'' ''done'' [] user_example [] ''Requirement'' ''w'' (Some 1) world_minimal =
      (Inr \<lparr>tr_item_id = ''r'', tr_previous_state = ''draft'', tr_new_state = ''done'', tr_history_entry_id = Some 3,
            tr_signature_seal = None\<rparr>, w')"
    using minimal_transition_runs by (metis prod.collapse)
  have "db_history (w_db world_minimal) = []" "w_notified world_minimal = []" by code_simp+
  then show ?thesis using transition_effect [OF minimal_example_inv w'] w' by auto
qed

lemma get_item_state_row:
  assumes "items_inv db" "j \<in> set (db_items db)"
  shows "get_item_state (i_item j) (i_type j) (i_ws j) db = Some j"
proof -
  have "get_item_state (i_item j) (i_type j) (i_ws j) db \<noteq> None"
    using assms(2) by (auto simp: get_item_state_def find_None_iff)
  then obtain row where row: "get_item_state (i_item j) (i_type j) (i_ws j) db = Some row" by blast
  then have "row = j"
    using assms get_item_stateD [OF row] by (auto simp: items_inv_def distinct_map dest: inj_onD)
  then show ?thesis using row by simp
qed

text \<open>A row is never lost, and its version never decreases.\<close>

lemma grows_version:
  assumes "items_inv db" "items_inv db'" "grows db db'" "get_item_state item ty ws db = Some row"
  obtains row' where "get_item_state item ty ws db' = Some row'" "i_version row \<le> i_version row'"
proof -
  note row = get_item_stateD [OF assms(4)]
  obtain hs where hs: "db_history db' = db_history db @ hs" using assms(3) by (auto simp: grows_def)
  obtain j where j: "j \<in> set (db_items db')" "i_id j = i_id row" "i_item j = item" "i_type j = ty" "i_ws j = ws"
    using assms(3) row unfolding grows_def by metis
  have "log_ok db row" "log_ok db' j" using assms(1,2) row j by (auto simp: items_inv_def)
  moreover have "item_log db' j = item_log db row @ filter (\<lambda>h. h_item_state h = i_id row) hs"
    by (simp add: item_log_def hs j(2))
  ultimately have "i_version row \<le> i_version j" by (simp add: log_ok_def)
  then show ?thesis using get_item_state_row [OF assms(2) j(1)] j that by simp
qed

text \<open>
  C4: no lost update. Once a transition that names the version it expects has succeeded, no later transition of
  the item that names the same version succeeds, whatever operations ran in between: it raises the conflict and
  changes nothing, the cache included.
\<close>

theorem lost_update_prevented:
  assumes "engine_inv (w_db w)" "transition n item target reason cx cred ty ws (Some v) w = (Inr res, w1)"
    and "w2 = run_ops conf ops w1"
  shows "\<exists>found > v. transition n2 item target2 reason2 cx2 cred2 ty ws (Some v) w2 =
           (Inl (version_conflict item v found), w2)"
proof -
  have k: "keys_ok (w_db w)" "cache_coherent (w_db w)" using assms(1) by (simp_all add: engine_inv_def items_inv_def)
  have inv1: "engine_inv (w_db w1)" using engine_inv_transition [OF assms(1)] assms(2) by (metis snd_conv)
  then have inv: "items_inv (w_db w1)" "items_inv (w_db w2)" "grows (w_db w1) (w_db w2)"
    using engine_inv_run_ops run_ops_grows assms(3) by (simp_all add: engine_inv_def)
  from k assms(2) show ?thesis
  proof (cases rule: transition_split)
    case (moved row vr c)
    note row = get_item_stateD [OF moved(1)]
    have "moved row target \<in> set (db_items (w_db w1))"
      using row moved(8) by (simp add: moved_world_def notify_def move_def image_iff) blast
    from get_item_state_row [OF inv(1) this]
    have row1: "get_item_state item ty ws (w_db w1) = Some (moved row target)" using row by (simp add: moved_def)
    obtain row2 where row2: "get_item_state item ty ws (w_db w2) = Some row2" "i_version (moved row target) \<le> i_version row2"
      using grows_version [OF inv row1] by blast
    then show ?thesis using transition_stale [OF row2(1) refl, of v n2 target2 reason2 cx2 cred2] moved(2)
      by (auto simp: moved_def intro!: exI [of _ "i_version row2"])
  qed simp
qed

theorem lost_update_prevented_witness:
  "\<exists>w1 res found. transition env_example ''r'' ''done'' [] user_example [] ''Requirement'' ''w'' (Some 1) world_minimal = (Inr res, w1) \<and>
     transition env_example ''r'' ''done'' [] user_example [] ''Requirement'' ''w'' (Some 1) w1 =
       (Inl (version_conflict ''r'' 1 found), w1)"
proof -
  obtain res w1 where t: "transition env_example ''r'' ''done'' [] user_example [] ''Requirement'' ''w'' (Some 1) world_minimal = (Inr res, w1)"
    using minimal_transition_runs by (metis prod.collapse)
  have "w1 = run_ops (\<lambda>_. Inr ''full'') [] w1" by (simp add: run_ops_def)
  from lost_update_prevented [OF minimal_example_inv t this, of env_example "''done''" "[]" user_example "[]"] t
  show ?thesis by blast
qed

subsection \<open>Proposals of agents\<close>

lemma agent_blocked_in_proposed:
  assumes "cx_actor_type cx = ''agent''" "get_item_state item ty ws (w_db w) = Some row" "i_state row = PROPOSED_STATE"
    and "expected = None \<or> expected = Some (i_version row)"
  shows "\<exists>m ds. transition n item target reason cx cred ty ws expected w =
           (Inl (WorkflowTransitionError ''AGENT_SELF_CONFIRM_FORBIDDEN'' m ds), w)"
proof -
  have g: "(case expected of None \<Rightarrow> Inr () | Some v \<Rightarrow> raise_if (i_version row \<noteq> v) (version_conflict item v (i_version row))) = Inr ()"
    using assms(4) by auto
  show ?thesis using assms(1-3)
    by (simp add: transition_def se_bind_def world_atomic_eq lock_item_state_def g validate_def agent_guard_def
        transition_request_def transition_error_def reject_with_def raise_if_def py_or_def)
qed

text \<open>
  C7: an agent neither confirms nor removes a proposal. While an item is in the state "proposed", a transition,
  a soft deletion and a hard deletion requested by an agent are refused with the code
  AGENT_SELF_CONFIRM_FORBIDDEN, and nothing changes, whatever roles the agent holds. (For the hard deletion: unless
  the guard's lookup of the item's state raises, in which case it lets the deletion pass.)
\<close>

theorem agent_cannot_decide_proposal:
  assumes "cx_actor_type cx = ''agent''" "get_item_state item ty ws (w_db w) = Some row" "i_state row = PROPOSED_STATE"
    and "expected = None \<or> expected = Some (i_version row)"
  shows "(\<exists>m ds. transition n item target reason cx cred ty ws expected w =
           (Inl (WorkflowTransitionError ''AGENT_SELF_CONFIRM_FORBIDDEN'' m ds), w)) \<and>
    (\<exists>m ds. outdate item ty ws cx allow_lazy_init w =
           (Inl (WorkflowTransitionError ''AGENT_SELF_CONFIRM_FORBIDDEN'' m ds), w)) \<and>
    (item_id_for_artifact a ty w = Some item \<longrightarrow>
       (\<exists>m ds. assert_agent_may_not_delete_proposed_artifact False cx a ty ws w =
           Inl (WorkflowTransitionError ''AGENT_SELF_CONFIRM_FORBIDDEN'' m ds)))"
  using agent_blocked_in_proposed [OF assms] assms(1-3)
  by (simp add: outdate_def se_bind_def assert_agent_may_not_remove_proposal_def
      assert_agent_may_not_delete_proposed_artifact_def)

definition world_proposed :: world where
  "world_proposed = run_ops (\<lambda>_. Inr ''full'')
     [OpCreateDefault True ''w'' ''standard'' ''Requirement'',
      OpInitialize env_example [''r''] ''Requirement'' ''w'' agent_example] empty_world"

lemma world_proposed_row:
  "get_item_state ''r'' ''Requirement'' ''w'' (w_db world_proposed) =
     Some \<lparr>i_id = 3, i_item = ''r'', i_type = ''Requirement'', i_ws = ''w'', i_def = 2, i_state = ''proposed'', i_version = 1\<rparr>"
  unfolding world_proposed_def run_ops_def fold_simps run_op.simps by code_simp

theorem agent_cannot_decide_proposal_witness:
  "\<exists>m ds. transition env_example ''r'' ''draft'' [] (agent_example\<lparr>cx_active_roles := [''admin'']\<rparr>) [] ''Requirement'' ''w'' None world_proposed =
           (Inl (WorkflowTransitionError ''AGENT_SELF_CONFIRM_FORBIDDEN'' m ds), world_proposed)"
  using agent_cannot_decide_proposal [OF _ world_proposed_row, of "agent_example\<lparr>cx_active_roles := [''admin'']\<rparr>" None]
  by (simp add: agent_example_def PROPOSED_STATE_def)

lemma row_unmoved:
  assumes "items_inv db'" "get_item_state item ty ws db = Some row" "row \<in> set (db_items db')"
  shows "get_item_state item ty ws db' = Some row"
  using get_item_state_row [OF assms(1,3)] get_item_stateD [OF assms(2)] by simp

lemma move_other:
  "i \<in> set (db_items db) \<Longrightarrow> i_id i \<noteq> i_id row \<Longrightarrow> i \<in> set (db_items (move row target b n c sl ws db))"
  by (auto simp: move_def image_iff)

lemma same_row:
  assumes "items_inv db" "get_item_state item ty ws db = Some row" "get_item_state item' ty' ws' db = Some row'"
    and "i_id row = i_id row'"
  shows "item' = item" "ty' = ty" "ws' = ws"
proof -
  have "row = row'" using assms get_item_stateD keys_ok_unique by (metis items_inv_def)
  then show "item' = item" "ty' = ty" "ws' = ws" using assms(2,3) get_item_stateD by blast+
qed

text \<open>Only a transition or a forced transition of the item itself moves it.\<close>

lemma mover_of_item:
  assumes "engine_inv (w_db w)" "get_item_state item ty ws (w_db w) = Some row"
    and "get_item_state item ty ws (w_db (run_op conf op w)) \<noteq> Some row"
  shows "(\<exists>n target reason cx cred expected res. op = OpTransition n item target reason cx cred ty ws expected \<and>
            fst (transition n item target reason cx cred ty ws expected w) = Inr res) \<or>
    (\<exists>now target reason actor roles sys. op = OpForce now item ty ws target reason actor roles sys)"
proof -
  have inv: "items_inv (w_db w)" "keys_ok (w_db w)" "cache_coherent (w_db w)" "items_inv (w_db (run_op conf op w))"
    using assms(1) engine_inv_run_op [OF assms(1), of conf op] by (simp_all add: engine_inv_def items_inv_def)
  note row = get_item_stateD [OF assms(2)]
  have gone: "row \<notin> set (db_items (w_db (run_op conf op w)))" using row_unmoved [OF inv(4) assms(2)] assms(3) by blast
  then have "moves op" using run_op_rows_kept [OF assms(1)] row by blast
  then show ?thesis
  proof (cases op rule: moves.cases)
    case (1 n item' target reason cx cred ty' ws' expected)
    obtain r w' where t: "transition n item' target reason cx cred ty' ws' expected w = (r, w')" by fastforce
    from inv(2,3) t show ?thesis
    proof (cases rule: transition_split)
      case (failed e c)
      then show ?thesis using gone 1 t row by simp
    next
      case (moved row' vr c)
      have "i_id row = i_id row'"
      proof (rule ccontr)
        assume "i_id row \<noteq> i_id row'"
        then have "row \<in> set (db_items (w_db w'))" using row moved(8) by (simp add: moved_world_def notify_def move_other)
        then show False using gone 1 t by simp
      qed
      from same_row [OF inv(1) assms(2) moved(1) this] show ?thesis using 1 t moved(7) by auto
    qed
  next
    case (2 now item' ty' ws' target reason actor roles sys)
    obtain r db' where f: "force_transition now item' ty' ws' target reason actor roles sys (w_db w) = (r, db')" by fastforce
    from force_transition_outcome [OF inv(2) f] gone row 2 f obtain row' where
      row': "get_item_state item' ty' ws' (w_db w) = Some row'" "db' = move row' target actor now reason [] ws' (w_db w)"
      by (auto simp: in_db_def)
    have "i_id row = i_id row'"
    proof (rule ccontr)
      assume "i_id row \<noteq> i_id row'"
      then have "row \<in> set (db_items db')" using row row'(2) by (simp add: move_other)
      then show False using gone 2 f by (simp add: in_db_def)
    qed
    from same_row [OF inv(1) assms(2) row'(1) this] show ?thesis using 2 by auto
  qed simp_all
qed

text \<open>
  C2: a proposal is decided by a human. In any state the engine can reach, an item that is "proposed" keeps its
  row under every operation except two: a transition of this item by an actor that is not an agent, and a forced
  transition of this item.
\<close>

theorem proposal_decided_by_human:
  assumes "w = run_ops conf ops empty_world" "get_item_state item ty ws (w_db w) = Some row" "i_state row = PROPOSED_STATE"
    and "get_item_state item ty ws (w_db (run_op conf op w)) \<noteq> Some row"
  shows "(\<exists>n target reason cx cred expected. op = OpTransition n item target reason cx cred ty ws expected \<and>
            cx_actor_type cx \<noteq> ''agent'') \<or>
    (\<exists>now target reason actor roles sys. op = OpForce now item ty ws target reason actor roles sys)"
proof -
  have inv: "engine_inv (w_db w)" "keys_ok (w_db w)" "cache_coherent (w_db w)"
    using engine_inv_run [of conf ops] assms(1) by (simp_all add: engine_inv_def items_inv_def)
  have human: "cx_actor_type cx \<noteq> ''agent''"
    if t: "fst (transition n item target reason cx cred ty ws expected w) = Inr res"
    for n target reason cx cred expected res
  proof
    assume agent: "cx_actor_type cx = ''agent''"
    obtain w' where "transition n item target reason cx cred ty ws expected w = (Inr res, w')" using t by (metis prod.collapse)
    with inv(2,3) show False
    proof (cases rule: transition_split)
      case (moved row' vr c)
      have "expected = None \<or> expected = Some (i_version row)" using moved(1,2) assms(2) by simp
      from agent_blocked_in_proposed [OF agent assms(2,3) this] obtain m ds where
        "transition n item target reason cx cred ty ws expected w =
           (Inl (WorkflowTransitionError ''AGENT_SELF_CONFIRM_FORBIDDEN'' m ds), w)" by blast
      then show ?thesis using t by simp
    qed simp
  qed
  from mover_of_item [OF inv(1) assms(2,4)] show ?thesis
  proof (elim disjE exE conjE, goal_cases)
    case (1 n target reason cx cred expected res)
    then show ?case using human [OF 1(2)] by auto
  qed auto
qed

theorem proposal_decided_by_human_witness:
  "get_item_state ''r'' ''Requirement'' ''w'' (w_db (run_op (\<lambda>_. Inr ''full'')
     (OpOutdate ''r'' ''Requirement'' ''w'' user_example True) world_proposed)) =
   get_item_state ''r'' ''Requirement'' ''w'' (w_db world_proposed)"
  using proposal_decided_by_human [OF world_proposed_def world_proposed_row, of
      "OpOutdate ''r'' ''Requirement'' ''w'' user_example True"] world_proposed_row
  by (auto simp: PROPOSED_STATE_def simp del: run_op.simps)

subsection \<open>Soft deletion\<close>

lemma artifact_update:
  assumes "artifact_id_for item ty w = Some a"
  shows "set_lifecycle_status item ty v w =
     w\<lparr>w_artifacts := map (\<lambda>r. if a_id r = a then r\<lparr>a_lifecycle := v\<rparr> else r) (w_artifacts w)\<rparr>"
  using assms by (simp add: set_lifecycle_status_def)

lemma find_lifecycle_update:
  "find (\<lambda>r. a_id r = a) rs = Some art \<Longrightarrow>
   find (\<lambda>r. a_id r = a) (map (\<lambda>r. if a_id r = a then r\<lparr>a_lifecycle := v\<rparr> else r) rs) = Some (art\<lparr>a_lifecycle := v\<rparr>)"
  by (induction rs) (auto split: if_splits)

text \<open>
  C31: soft deletion can be undone. Outdating an active item leaves its workflow state alone while every reader
  of the status sees "outdated"; reactivating it afterwards succeeds, reports the untouched workflow state, and
  restores all tables to what they were.
\<close>

theorem outdate_reactivate_roundtrip:
  assumes "get_item_state item ty ws (w_db w) = Some row" "artifact_id_for item ty w = Some a"
    and "find_artifact a w = Some art" "\<forall>r\<in>set (w_artifacts w). a_id r = a \<longrightarrow> a_lifecycle r = ACTIVE_STATUS"
    and "cx_actor_type cx \<noteq> ''agent'' \<or> i_state row \<noteq> PROPOSED_STATE"
  shows "\<exists>r1 w1 r2. outdate item ty ws cx lazy w = (Inr r1, w1) \<and> w_db w1 = w_db w \<and>
     tr_previous_state r1 = i_state row \<and> current_state ty item w1 = Some OUTDATED_STATUS \<and>
     reactivate item ty ws w1 = (Inr r2, w) \<and> tr_new_state r2 = i_state row"
proof -
  define w1 where "w1 = set_lifecycle_status item ty OUTDATED_STATUS w"
  have w1: "w1 = w\<lparr>w_artifacts := map (\<lambda>r. if a_id r = a then r\<lparr>a_lifecycle := OUTDATED_STATUS\<rparr> else r) (w_artifacts w)\<rparr>"
    unfolding w1_def by (rule artifact_update [OF assms(2)])
  have art1: "find_artifact a w1 = Some (art\<lparr>a_lifecycle := OUTDATED_STATUS\<rparr>)"
    using find_lifecycle_update assms(3) by (simp add: find_artifact_def w1)
  from assms(2) obtain e where e: "ty \<in> set ARTIFACT_TYPES" "find_entity ty item w = Some e" "e_artifact e = Some a"
    by (auto simp: artifact_id_for_def split: if_splits option.splits)
  then have e': "e \<in> set (w_entities w)" "e_type e = ty" "e_pk e = item"
    unfolding find_entity_def by (auto dest: find_SomeD)
  have aid: "artifact_id_for item ty w1 = Some a" using e by (simp add: artifact_id_for_def find_entity_def w1)
  have "item \<in> set (outdated_ids ty w1)"
    using e e' art1 by (auto simp: outdated_ids_def soft_deleted_def image_iff w1 intro!: bexI [of _ e])
  then have "current_state ty item w1 = Some OUTDATED_STATUS" by (simp add: current_state_overlay)
  moreover have "outdate item ty ws cx lazy w =
      (Inr \<lparr>tr_item_id = item, tr_previous_state = i_state row, tr_new_state = OUTDATED_STATUS,
            tr_history_entry_id = None, tr_signature_seal = None\<rparr>, w1)"
    using assms(1,5) by (auto simp: outdate_def se_bind_def assert_agent_may_not_remove_proposal_def w1_def)
  moreover have "set_lifecycle_status item ty ACTIVE_STATUS w1 = w"
  proof -
    have "map (\<lambda>r. if a_id r = a then r\<lparr>a_lifecycle := ACTIVE_STATUS\<rparr> else r) (w_artifacts w1) = w_artifacts w"
      unfolding w1 using assms(4) by (auto intro!: map_idI)
    then show ?thesis unfolding artifact_update [OF aid] by (simp add: w1)
  qed
  then have "reactivate item ty ws w1 =
      (Inr \<lparr>tr_item_id = item, tr_previous_state = OUTDATED_STATUS, tr_new_state = i_state row,
            tr_history_entry_id = None, tr_signature_seal = None\<rparr>, w)"
    using aid art1 assms(1) by (simp add: reactivate_def Let_def)
  moreover have "w_db w1 = w_db w" by (simp add: w1)
  ultimately show ?thesis by simp
qed

definition world_backed :: world where
  "world_backed = world_minimal\<lparr>
     w_entities := [\<lparr>e_type = ''Requirement'', e_pk = ''r'', e_artifact = Some ''a'', e_tenant = None, e_attrs = Map.empty\<rparr>],
     w_artifacts := [\<lparr>a_id = ''a'', a_ws = ''w'', a_lifecycle = ''active''\<rparr>]\<rparr>"

theorem outdate_reactivate_roundtrip_witness:
  "\<exists>r1 w1 r2. outdate ''r'' ''Requirement'' ''w'' user_example False world_backed = (Inr r1, w1) \<and>
     current_state ''Requirement'' ''r'' w1 = Some ''outdated'' \<and>
     reactivate ''r'' ''Requirement'' ''w'' w1 = (Inr r2, world_backed) \<and> tr_new_state r2 = ''draft''"
proof -
  have row: "get_item_state ''r'' ''Requirement'' ''w'' (w_db world_backed) =
      Some \<lparr>i_id = 2, i_item = ''r'', i_type = ''Requirement'', i_ws = ''w'', i_def = 1, i_state = ''draft'', i_version = 1\<rparr>"
    by (simp add: world_backed_def world_minimal_def db_minimal_def get_item_state_def)
  have a: "artifact_id_for ''r'' ''Requirement'' world_backed = Some ''a''"
    "find_artifact ''a'' world_backed = Some \<lparr>a_id = ''a'', a_ws = ''w'', a_lifecycle = ''active''\<rparr>"
    by (simp_all add: artifact_id_for_def ARTIFACT_TYPES_def find_entity_def find_artifact_def world_backed_def)
  have "\<forall>r\<in>set (w_artifacts world_backed). a_id r = ''a'' \<longrightarrow> a_lifecycle r = ACTIVE_STATUS"
    by (simp add: world_backed_def ACTIVE_STATUS_def)
  from outdate_reactivate_roundtrip [OF row a this, of user_example False] show ?thesis
    by (auto simp: user_example_def OUTDATED_STATUS_def)
qed

subsection \<open>Terminal states\<close>

lemma push_new_stack: "set (snd (push_new xs seen stack)) = set stack \<union> (set xs - set seen)"
  by (induction xs seen stack rule: push_new.induct) auto

lemma adjacent_iff: "y \<in> set (adjacent es x) \<longleftrightarrow> (x, y) \<in> set es"
  by (force simp: adjacent_def)

lemma closed_Image: "(\<forall>x\<in>A. \<forall>y. (x, y) \<in> E \<longrightarrow> y \<in> A) \<Longrightarrow> E\<^sup>* `` A = A"
proof -
  assume closed: "\<forall>x\<in>A. \<forall>y. (x, y) \<in> E \<longrightarrow> y \<in> A"
  have "(x, y) \<in> E\<^sup>* \<Longrightarrow> x \<in> A \<Longrightarrow> y \<in> A" for x y by (induction rule: rtrancl_induct) (use closed in auto)
  then show ?thesis by auto
qed

text \<open>The search returns exactly the states reachable from those seen at the start.\<close>

lemma reach_loop_correct:
  "set stack \<subseteq> set seen \<Longrightarrow> \<forall>x\<in>set seen - set stack. set (adjacent es x) \<subseteq> set seen \<Longrightarrow>
   set (reach_loop es seen stack) = (set es)\<^sup>* `` set seen"
proof (induction es seen stack rule: reach_loop.induct)
  case (1 es seen)
  then show ?case by (auto simp: closed_Image adjacent_iff subset_iff)
next
  case (2 es seen c stack)
  let ?p = "push_new (adjacent es c) seen stack"
  have sets: "set (fst ?p) = set (adjacent es c) \<union> set seen" "set (snd ?p) = set stack \<union> (set (adjacent es c) - set seen)"
    by (simp_all add: push_new_set push_new_stack)
  have "set (snd ?p) \<subseteq> set (fst ?p)" using 2(2) sets by auto
  moreover have "\<forall>x\<in>set (fst ?p) - set (snd ?p). set (adjacent es x) \<subseteq> set (fst ?p)" using 2(3) sets by auto
  ultimately have "set (reach_loop es seen (c # stack)) = (set es)\<^sup>* `` set (fst ?p)" using 2(1) by simp
  also have "\<dots> = (set es)\<^sup>* `` set seen"
  proof -
    have "set (adjacent es c) \<subseteq> (set es)\<^sup>* `` set seen" using 2(2) by (auto simp: adjacent_iff intro!: ImageI [of c])
    then have "(set es)\<^sup>* `` set (adjacent es c) \<subseteq> (set es)\<^sup>* `` set seen"
      unfolding subset_iff Image_iff by (meson rtrancl_trans)
    then show ?thesis by (auto simp: sets)
  qed
  finally show ?case .
qed

lemma reachable_from_correct: "s \<in> set (reachable_from es start) \<longleftrightarrow> (start, s) \<in> (set es)\<^sup>*"
  unfolding reachable_from_def by (subst reach_loop_correct) auto

definition edge_relation :: "definition_dto \<Rightarrow> (string \<times> string) set" where
  "edge_relation d = (\<lambda>t. (from_state t, to_state t)) ` set (dto_transitions d)"

text \<open>
  Terminal positive states against their specification. The work-list search agrees with reachability in the
  transition graph: a state is terminal positive exactly when it lies behind an approval gate (an edge editors may
  not take), or is a sink when the graph has no gate, the initial state cannot be reached from it again, and it
  is not marked as equivalent to outdated.
\<close>

theorem terminal_positive_states_correct:
  assumes "get_definition ws ty db = Inr d" "dto_states d \<noteq> []"
  shows "s \<in> set (terminal_positive_states ws ty db) \<longleftrightarrow>
    (if \<exists>t\<in>set (dto_transitions d). is_approval_gate t
     then \<exists>t\<in>set (dto_transitions d). is_approval_gate t \<and> (to_state t, s) \<in> (edge_relation d)\<^sup>*
     else s \<in> set (dto_states d) \<and> (\<forall>t\<in>set (dto_transitions d). from_state t \<noteq> s)) \<and>
    (s, initial_state d) \<notin> (edge_relation d)\<^sup>* \<and>
    \<not> state_flag (case get_workflow_json ws ty db of Some j \<Rightarrow> j | None \<Rightarrow> empty_graph) s ''is_outdated_equivalent''"
proof -
  let ?es = "map (\<lambda>t. (from_state t, to_state t)) (dto_transitions d)"
  note es = edge_relation_def [symmetric]
  have gates: "map to_state (filter is_approval_gate (dto_transitions d)) \<noteq> [] \<longleftrightarrow>
      (\<exists>t\<in>set (dto_transitions d). is_approval_gate t)" by (auto simp: filter_empty_conv)
  have sink: "adjacent ?es s = [] \<longleftrightarrow> (\<forall>t\<in>set (dto_transitions d). from_state t \<noteq> s)"
    by (auto simp: adjacent_def filter_empty_conv)
  have "s \<in> set (if map to_state (filter is_approval_gate (dto_transitions d)) \<noteq> []
          then concat (map (reachable_from ?es) (map to_state (filter is_approval_gate (dto_transitions d))))
          else filter (\<lambda>s. adjacent ?es s = []) (dto_states d)) \<longleftrightarrow>
      (if \<exists>t\<in>set (dto_transitions d). is_approval_gate t
       then \<exists>t\<in>set (dto_transitions d). is_approval_gate t \<and> (to_state t, s) \<in> (edge_relation d)\<^sup>*
       else s \<in> set (dto_states d) \<and> (\<forall>t\<in>set (dto_transitions d). from_state t \<noteq> s))"
    unfolding gates using sink by (auto simp: reachable_from_correct es)
  then show ?thesis
    using assms unfolding terminal_positive_states_def Let_def by (simp add: reachable_from_correct es)
qed

theorem terminal_positive_states_correct_witness:
  "''done'' \<in> set (terminal_positive_states ''w'' ''Requirement'' db_minimal) \<and>
   (''done'', ''draft'') \<notin> (edge_relation (dto_from_orm def_minimal))\<^sup>*"
proof -
  have d: "get_definition ''w'' ''Requirement'' db_minimal = Inr (dto_from_orm def_minimal)"
    by (simp add: get_definition_def find_def_def db_minimal_def def_minimal_def)
  have "dto_states (dto_from_orm def_minimal) \<noteq> []" by code_simp
  note t = terminal_positive_states_correct [OF d this, of "''done''"]
  have "initial_state (dto_from_orm def_minimal) = ''draft''" by code_simp
  moreover have "''done'' \<in> set (terminal_positive_states ''w'' ''Requirement'' db_minimal)" by code_simp
  ultimately show ?thesis using t by simp
qed

text \<open>The search with a bound on the iterations of its loop.\<close>

fun reach_fuel :: "nat \<Rightarrow> (string \<times> string) list \<Rightarrow> string list \<Rightarrow> string list \<Rightarrow> string list option" where
  "reach_fuel k es seen [] = Some seen"
| "reach_fuel 0 es seen (c # stack) = None"
| "reach_fuel (Suc k) es seen (c # stack) =
     reach_fuel k es (fst (push_new (adjacent es c) seen stack)) (snd (push_new (adjacent es c) seen stack))"

lemma push_new_balance:
  "set xs \<subseteq> A \<Longrightarrow> finite A \<Longrightarrow>
   card (A - set (fst (push_new xs seen stack))) + length (snd (push_new xs seen stack)) = card (A - set seen) + length stack"
proof (induction xs seen stack rule: push_new.induct)
  case (2 x xs seen stack)
  show ?case
  proof (cases "x \<in> set seen")
    case False
    have "A - set (x # seen) = (A - set seen) - {x}" "x \<in> A - set seen" using False 2 by auto
    then have "card (A - set seen) = Suc (card (A - set (x # seen)))" using 2(4) by (metis card.remove finite_Diff)
    then show ?thesis using 2 False by simp
  qed (use 2 in simp)
qed simp

lemma reach_fuel_enough:
  "card (snd ` set es - set seen) + length stack \<le> k \<Longrightarrow> reach_fuel k es seen stack = Some (reach_loop es seen stack)"
proof (induction k es seen stack rule: reach_fuel.induct)
  case (3 k es seen c stack)
  have "set (adjacent es c) \<subseteq> snd ` set es" by (auto simp: adjacent_def)
  from push_new_balance [OF this, of seen stack] 3 show ?case by simp
qed simp_all

text \<open>
  C30: the search ends. The loop of \<open>terminal_positive_states\<close> visits each state at most once: with as many
  iterations as the graph has distinct edge targets, plus one for the start, it returns, on cyclic graphs as well.
\<close>

theorem reachable_from_terminates:
  "reach_fuel (Suc (card (snd ` set es))) es [start] [start] = Some (reachable_from es start)"
  unfolding reachable_from_def by (rule reach_fuel_enough) (simp add: card_mono Diff_subset)

end
