(* ===== verification/Worker_Caches.thy ===== *)
theory Worker_Caches
  imports Workflow_Guarantees
begin

text \<open>
  The workflow engine in production: several worker processes over one database, each with its own definition cache
  (\<^verbatim>\<open>_DefinitionCache\<close> of \<^verbatim>\<open>workflow/transition_validator.py\<close>), which an edit invalidates only in the process that runs it.
  Shown: what a worker can be served, and that this can be out of date.
\<close>

subsection \<open>Workers\<close>

record cluster =
  cl_world :: world
  cl_caches :: "nat \<Rightarrow> def_cache"

text \<open>A worker runs an operation, or restarts (or clears its cache); a new process has an empty cache.\<close>

datatype cluster_event = Runs nat engine_op | Restarts nat

definition as_worker :: "nat \<Rightarrow> cluster \<Rightarrow> world" where
  "as_worker i c = cached (cl_world c) (cl_caches c i)"

fun cluster_step :: "conf \<Rightarrow> cluster_event \<Rightarrow> cluster \<Rightarrow> cluster" where
  "cluster_step conf (Runs i op) c =
     (let w = run_op conf op (as_worker i c)
      in \<lparr>cl_world = cached w [], cl_caches = (cl_caches c)(i := db_cache (w_db w))\<rparr>)"
| "cluster_step conf (Restarts i) c = c\<lparr>cl_caches := (cl_caches c)(i := cache_clear (cl_caches c i))\<rparr>"

definition run_cluster :: "conf \<Rightarrow> cluster_event list \<Rightarrow> cluster \<Rightarrow> cluster" where
  "run_cluster conf steps c = fold (cluster_step conf) steps c"

definition cluster_start :: "world \<Rightarrow> cluster" where
  "cluster_start w = \<lparr>cl_world = cached w [], cl_caches = (\<lambda>_. [])\<rparr>"

text \<open>What worker \<open>i\<close> loads, and what is stored.\<close>

definition served :: "nat \<Rightarrow> uuid \<Rightarrow> string \<Rightarrow> cluster \<Rightarrow> definition_dto option" where
  "served i ws ty c = fst (load_definition ws ty (w_db (as_worker i c)))"

definition stored :: "uuid \<Rightarrow> string \<Rightarrow> cluster \<Rightarrow> definition_dto option" where
  "stored ws ty c = stored_def (w_db (cl_world c)) (ws, ty)"

fun runs_on :: "nat \<Rightarrow> cluster_event \<Rightarrow> bool" where
  "runs_on i (Runs j op) \<longleftrightarrow> i = j"
| "runs_on i (Restarts j) \<longleftrightarrow> i = j"

subsection \<open>What one operation does to the cache of its process\<close>

definition tables_ok :: "wf_db \<Rightarrow> bool" where
  "tables_ok db \<longleftrightarrow> items_inv db \<and> inherit_ok db \<and> defs_ok db"

text \<open>Only definitions that exist are cached.\<close>

definition cache_real :: "wf_db \<Rightarrow> bool" where
  "cache_real db \<longleftrightarrow> cache_ok (db_cache db) \<and> (\<forall>ws ty. cache_get ws ty (db_cache db) \<noteq> None \<longrightarrow> find_def ws ty db \<noteq> None)"

text \<open>
  Every entry is either what is stored now, or was there before and the stored definition has not changed; and no definition
  disappears.
\<close>

definition cache_step :: "wf_db \<Rightarrow> wf_db \<Rightarrow> bool" where
  "cache_step db db' \<longleftrightarrow> cache_ok (db_cache db') \<and> (\<forall>ws ty. find_def ws ty db \<noteq> None \<longrightarrow> find_def ws ty db' \<noteq> None) \<and>
     (\<forall>ws ty dto. cache_get ws ty (db_cache db') = Some dto \<longrightarrow>
        stored_def db' (ws, ty) = Some dto \<or>
        cache_get ws ty (db_cache db) = Some dto \<and> stored_def db' (ws, ty) = stored_def db (ws, ty))"

lemma cache_stepI:
  assumes "cache_ok (db_cache db')" "\<And>ws ty. find_def ws ty db \<noteq> None \<Longrightarrow> find_def ws ty db' \<noteq> None"
    and "\<And>ws ty dto. cache_get ws ty (db_cache db') = Some dto \<Longrightarrow> stored_def db' (ws, ty) = Some dto \<or>
        cache_get ws ty (db_cache db) = Some dto \<and> stored_def db' (ws, ty) = stored_def db (ws, ty)"
  shows "cache_step db db'"
  using assms unfolding cache_step_def by blast

lemma cache_step_same:
  assumes "cache_ok (db_cache db)" "db_cache db' = db_cache db" "db_defs db' = db_defs db"
  shows "cache_step db db'"
proof -
  have "find_def ws ty db' = find_def ws ty db" for ws ty using assms(3) by (simp add: find_def_def)
  then show ?thesis using assms(1,2) by (intro cache_stepI) (simp_all add: stored_def_def)
qed

text \<open>Definition operations: a change of one definition, with its key invalidated on success.\<close>

lemma invalidation_step:
  assumes real: "cache_real db" and tab: "tables_ok db" and change: "keyed_change ws ty db (snd (m db))"
    and "inherit_ok (snd (m db))" "defs_ok (snd (m db))" "\<And>e db1. m db = (Inl e, db1) \<Longrightarrow> db1 = db"
    and keep: "find_def ws ty db \<noteq> None \<Longrightarrow> find_def ws ty (snd (m db)) \<noteq> None"
  shows "tables_ok (snd (with_invalidation f ws ty m db)) \<and> cache_step db (snd (with_invalidation f ws ty m db))"
proof (cases "m db")
  case (Pair r db1)
  have ok: "cache_ok (db_cache db)" using real by (simp add: cache_real_def)
  show ?thesis
  proof (cases r)
    case (Inl e)
    then show ?thesis using Pair assms(6) tab cache_step_same [OF ok, of db] by (simp add: with_invalidation_def)
  next
    case (Inr x)
    then have s: "snd (with_invalidation f ws ty m db) = invalidate_cache ws ty db1"
      using Pair by (simp add: with_invalidation_def)
    have k: "keyed_change ws ty db db1" "inherit_ok db1" "defs_ok db1" using assms Pair by simp_all
    have c: "db_cache db1 = db_cache db" "\<And>v u. (v, u) \<noteq> (ws, ty) \<Longrightarrow> find_def v u db1 = find_def v u db"
      using k(1) unfolding keyed_change_def by blast+
    have fd: "find_def v u (invalidate_cache ws ty db1) = find_def v u db1" for v u by (simp add: invalidate_cache_def find_def_def)
    have g: "cache_get v u (db_cache (invalidate_cache ws ty db1)) = (if (v, u) = (ws, ty) then None else cache_get v u (db_cache db))" for v u
      by (simp add: invalidate_cache_def cache_get_def cache_invalidate_def map_of_filter_key c(1))
    have "items_inv db1" using tab items_inv_keyed [OF _ k(1)] by (simp add: tables_ok_def)
    then have "items_inv (invalidate_cache ws ty db1)" by (rule items_inv_frame) (simp_all add: invalidate_cache_def)
    moreover have "inherit_ok (invalidate_cache ws ty db1)" "defs_ok (invalidate_cache ws ty db1)"
      using k(2,3) by (simp_all add: inherit_ok_def defs_ok_def invalidate_cache_def)
    moreover have "cache_step db (invalidate_cache ws ty db1)"
    proof (rule cache_stepI)
      show "cache_ok (db_cache (invalidate_cache ws ty db1))"
        using ok by (simp add: invalidate_cache_def cache_ok_def cache_invalidate_def distinct_map_filter c(1))
      show "find_def v u (invalidate_cache ws ty db1) \<noteq> None" if "find_def v u db \<noteq> None" for v u
        using that keep c(2) Pair by (cases "(v, u) = (ws, ty)") (auto simp: fd)
      show "stored_def (invalidate_cache ws ty db1) (v, u) = Some dto \<or>
          cache_get v u (db_cache db) = Some dto \<and> stored_def (invalidate_cache ws ty db1) (v, u) = stored_def db (v, u)"
        if "cache_get v u (db_cache (invalidate_cache ws ty db1)) = Some dto" for v u dto
        using that c(2) unfolding g by (auto simp: stored_def_def fd split: if_splits)
    qed
    ultimately show ?thesis by (simp add: s tables_ok_def)
  qed
qed

lemma custom_keeps: "defs_ok db \<Longrightarrow> find_def ws ty db \<noteq> None \<Longrightarrow> find_def ws ty (snd (validate_and_persist_custom conf ws ty ss ts db)) \<noteq> None"
proof (cases "validate_and_persist_custom conf ws ty ss ts db")
  case (Pair r db')
  assume d: "defs_ok db" "find_def ws ty db \<noteq> None"
  show ?thesis
  proof (cases r)
    case (Inl e)
    then show ?thesis using persist_failure Pair d by fastforce
  next
    case (Inr dto)
    obtain r0 where r0: "find_def ws ty db = Some r0" using d(2) by blast
    from persist_success(1) [OF Pair [unfolded Inr]] obtain row where "d_ws row = ws" "d_type row = ty" "d_id row = d_id r0" "db' = save_def row db"
      by (auto simp: r0)
    then show ?thesis using find_def_save [OF d(1) r0] Pair by simp
  qed
qed

lemma edit_keeps:
  assumes "defs_ok db" "find_def ws ty db \<noteq> None"
  shows "find_def ws ty (snd (run_edit conf ws ty op db)) \<noteq> None"
proof (cases "run_edit conf ws ty op db")
  case (Pair r db')
  from sound_run_edit [of conf ws ty op] Pair
  have "db' = db \<or> (\<exists>ss ts. persist_edit conf ws ty ss ts db = (r, db'))" unfolding sound_edit_def by blast
  then show ?thesis using Pair custom_keeps [OF assms] assms(2) by (auto simp: persist_edit_def) (metis snd_conv)
qed

lemma reset_keeps:
  assumes "defs_ok db" "find_def ws ty db \<noteq> None"
  shows "find_def ws ty (snd (reset_to_global ws ty db)) \<noteq> None"
proof (cases "snd (reset_to_global ws ty db) = db")
  case False
  then obtain r n g where r: "find_def ws ty db = Some r"
      "snd (reset_to_global ws ty db) = save_def (r\<lparr>d_json := g_json g, d_is_customized := False\<rparr>) db"
      "d_source_global r = Some n" "find (\<lambda>g. g_id g = n) (db_globals db) = Some g"
    by (auto simp: reset_to_global_def Let_def split: option.splits)
  then show ?thesis using find_def_save [OF assms(1) r(1), of "r\<lparr>d_json := g_json g, d_is_customized := False\<rparr>"] find_defD [OF r(1)] by simp
qed (use assms in simp)

lemma create_step:
  assumes "cache_real db" "tables_ok db"
  shows "tables_ok (snd (create_default has_tenant ws p ty db)) \<and> cache_step db (snd (create_default has_tenant ws p ty db))"
proof -
  let ?db = "snd (create_default has_tenant ws p ty db)"
  note k = keyed_change_create [of ws ty db has_tenant p]
  have c: "db_cache ?db = db_cache db" using k by (simp add: keyed_change_def)
  have "tables_ok ?db" using assms(2) items_inv_keyed [OF _ k] inherit_ok_create by (simp add: tables_ok_def)
  moreover have "cache_step db ?db"
  proof (rule cache_stepI)
    show "cache_ok (db_cache ?db)" using assms(1) c by (simp add: cache_real_def)
    show "find_def v u ?db \<noteq> None" if "find_def v u db \<noteq> None" for v u using that create_default_keeps by fastforce
    show "stored_def ?db (v, u) = Some dto \<or> cache_get v u (db_cache db) = Some dto \<and> stored_def ?db (v, u) = stored_def db (v, u)"
      if g: "cache_get v u (db_cache ?db) = Some dto" for v u dto
    proof -
      have "find_def v u db \<noteq> None" using g assms(1) c by (simp add: cache_real_def)
      then obtain r where "find_def v u db = Some r" by blast
      with create_default_keeps [OF this] g c show ?thesis by (simp add: stored_def_def)
    qed
  qed
  ultimately show ?thesis by blast
qed

lemma global_step:
  assumes "cache_real db" "tables_ok db"
  shows "tables_ok (snd (run_global ty p op db)) \<and> cache_step db (snd (run_global ty p op db))"
proof -
  have inv: "items_inv db" "inherit_ok db" "defs_ok db" "cache_ok (db_cache db)" using assms by (simp_all add: tables_ok_def cache_real_def)
  obtain r db' where e: "run_global ty p op db = (r, db')" by fastforce
  from any_global.outcome [OF e] show ?thesis unfolding global_outcome_def
  proof (elim disjE exE conjE)
    fix g g1 ss ts
    assume g: "global_get ty p db = Some g" "g_id g1 = g_id g" "g_type g1 = g_type g" "db' = snd (persist_global g1 ss ts db)"
    have mem: "g \<in> set (db_globals db)" using global_getD [OF g(1)] by simp
    have "items_inv db'" unfolding g(4) by (rule items_inv_frame [OF inv(1)]) (simp_all add: persist_global_fields)
    moreover have "inherit_ok db'" unfolding g(4) using inv(2) mem g(2,3) by (rule inherit_ok_persist)
    moreover have "defs_ok db'" unfolding g(4) using inv(3) by (rule defs_ok_persist_global)
    moreover have "cache_step db db'" unfolding g(4)
    proof (rule cache_stepI)
      let ?db = "snd (persist_global g1 ss ts db)" let ?wss = "map d_ws (filter (mirrors_row g1) (db_defs db))"
      show "cache_ok (db_cache ?db)" using inv(4) cache_ok_fold_invalidate by (simp add: persist_global_cache)
      show "find_def v u ?db \<noteq> None" if "find_def v u db \<noteq> None" for v u using that by (auto simp: persist_global_find_def)
      show "stored_def ?db (v, u) = Some dto \<or> cache_get v u (db_cache db) = Some dto \<and> stored_def ?db (v, u) = stored_def db (v, u)"
        if h: "cache_get v u (db_cache ?db) = Some dto" for v u dto
      proof -
        have c: "\<not> (u = g_type g1 \<and> v \<in> set ?wss)" "cache_get v u (db_cache db) = Some dto"
          using h by (auto simp: persist_global_cache cache_get_fold_invalidate split: if_splits)
        then obtain r where r: "find_def v u db = Some r" using assms(1) by (fastforce simp: cache_real_def)
        have "\<not> mirrors_row g1 r"
        proof
          assume m: "mirrors_row g1 r"
          have "r \<in> set (db_defs db)" "d_ws r = v" "d_type r = u" using find_defD [OF r] by simp_all
          moreover from this m inv(2) mem g(2,3) have "d_type r = g_type g1" by (auto simp: inherit_ok_def mirrors_row_def)
          ultimately show False using c(1) m by force
        qed
        then show ?thesis using c(2) r by (simp add: stored_def_def persist_global_find_def)
      qed
    qed
    ultimately show ?thesis by (simp add: e tables_ok_def)
  qed (use e assms cache_step_same [OF inv(4), of db] in simp)
qed

lemma seed_step:
  assumes "cache_real db" "tables_ok db"
  shows "tables_ok (snd (insert_global ty p j db)) \<and> cache_step db (snd (insert_global ty p j db))"
proof -
  have "items_inv db" "inherit_ok db" "defs_ok db" "cache_ok (db_cache db)" using assms by (simp_all add: tables_ok_def cache_real_def)
  moreover from this(1) have "items_inv (snd (insert_global ty p j db))"
    by (rule items_inv_frame) (simp_all add: insert_global_def Let_def)
  ultimately show ?thesis
    using inherit_ok_insert_global cache_step_same [of db "snd (insert_global ty p j db)"] by (simp add: tables_ok_def insert_global_def Let_def)
qed

lemma items_step:
  assumes "cache_real db" "tables_ok db" "items_added db db'" "items_inv db'"
  shows "tables_ok db' \<and> cache_step db db'"
proof -
  have f: "db_defs db' = db_defs db" "db_globals db' = db_globals db" "db_cache db' = db_cache db" "db_next db \<le> db_next db'"
    using assms(3) by (simp_all add: items_added_def)
  have "inherit_ok db" "defs_ok db" using assms(2) by (simp_all add: tables_ok_def)
  then have "inherit_ok db'" "defs_ok db'"
    using inherit_ok_frame [OF _ f(2,4)] f(1,4) less_le_trans unfolding defs_ok_def by (simp, metis)
  moreover have "cache_step db db'" using assms(1) f by (intro cache_step_same) (simp_all add: cache_real_def)
  ultimately show ?thesis using assms(4) by (simp add: tables_ok_def)
qed

lemma moved_step:
  assumes "tables_ok db" "row \<in> set (db_items db)" "valid_state (i_def row) target db"
  shows "tables_ok (move row target b n c sl ws db)"
proof -
  let ?db = "move row target b n c sl ws db"
  have "inherit_ok db" "defs_ok db" "items_inv db" using assms(1) by (simp_all add: tables_ok_def)
  moreover have "defs_ok ?db" using assms(1) less_le_trans unfolding defs_ok_def tables_ok_def move_frame(1) by (metis move_frame(4))
  moreover have "inherit_ok ?db" by (rule inherit_ok_frame [OF \<open>inherit_ok db\<close> move_frame(2,4)]) simp
  ultimately show ?thesis using items_inv_move [OF _ assms(2,3)] by (simp add: tables_ok_def)
qed

text \<open>The validator loads one definition at most.\<close>

lemma load_cache_step:
  assumes "cache_real db"
  shows "cache_step db (snd (load_definition ws ty db))"
proof (cases "cache_get ws ty (db_cache db) = None \<and> find_def ws ty db \<noteq> None")
  case True
  then obtain r where r: "find_def ws ty db = Some r" by blast
  let ?db = "db\<lparr>db_cache := cache_put ws ty (dto_from_orm r) (db_cache db)\<rparr>"
  have l: "snd (load_definition ws ty db) = ?db" using True r by (simp add: load_definition_def get_definition_def)
  have ok: "cache_ok (db_cache db)" using assms by (simp add: cache_real_def)
  have fd: "find_def v u (db\<lparr>db_cache := c\<rparr>) = find_def v u db" for v u c by (simp add: find_def_def)
  have "stored_def ?db (v, u) = Some dto \<or> cache_get v u (db_cache db) = Some dto \<and> stored_def ?db (v, u) = stored_def db (v, u)"
    if "cache_get v u (db_cache ?db) = Some dto" for v u dto
  proof (cases "(v, u) = (ws, ty)")
    case True
    then show ?thesis using that r dc.store_same [OF ok, of "(ws, ty)"] by (simp add: stored_def_def fd)
  next
    case False
    then show ?thesis using that dc.store_other [OF ok, of "(v, u)" "(ws, ty)"] by (simp add: stored_def_def fd)
  qed
  moreover have "cache_ok (db_cache ?db)" using dc.wf_store [OF ok, of "(ws, ty)"] by simp
  ultimately show ?thesis unfolding l by (intro cache_stepI) (simp_all add: fd)
next
  case False
  then have "snd (load_definition ws ty db) = db"
    by (auto simp: load_definition_def get_definition_def split: option.splits)
  then show ?thesis using assms by (simp add: cache_step_same cache_real_def)
qed

lemma validate_cache_step:
  assumes "cache_real (w_db w)" "snd (validate n q w) = cached w c"
  shows "cache_step (w_db w) (w_db (cached w c))"
  using validate_world [of n q w] load_cache_step [OF assms(1)] cache_step_same [of "w_db w" "w_db w"] assms
  by (auto simp: cache_real_def)

lemma tables_ok_cached [simp]: "tables_ok (w_db (cached w c)) = tables_ok (w_db w)"
  by (simp add: tables_ok_def items_inv_def inherit_ok_def defs_ok_def log_ok_def item_log_def)

lemma transition_step:
  assumes real: "cache_real (w_db w)" and tab: "tables_ok (w_db w)"
    and w'_def: "w' = snd (transition n item target reason cx cred ty ws expected w)"
  shows "tables_ok (w_db w') \<and> cache_step (w_db w) (w_db w')"
proof -
  have k: "keys_ok (w_db w)" using tab by (simp add: tables_ok_def items_inv_def)
  have same: "cache_step (w_db w) (w_db w)" using real by (simp add: cache_step_same cache_real_def)
  show ?thesis
  proof (cases "get_item_state item ty ws (w_db w)")
    case None
    from transition_missing [OF None, of n target reason cx cred expected] show ?thesis using tab same by (auto simp: w'_def)
  next
    case (Some row)
    show ?thesis
    proof (cases "expected = None \<or> expected = Some (i_version row)")
      case False
      then obtain v where "expected = Some v" "i_version row \<noteq> v" by (cases expected) auto
      with transition_stale [OF Some] show ?thesis using tab same by (simp add: w'_def)
    next
      case True
      let ?q = "transition_request item target reason cx cred ty ws (i_state row) (author_of cx row (w_db w))"
      obtain v c where v: "validate n ?q w = (v, cached w c)"
        using validate_frame [of n ?q w] by (cases "validate n ?q w") (auto simp: cached_def)
      have s: "cache_step (w_db w) (w_db (cached w c))" using validate_cache_step [OF real, of n ?q] v by simp
      note t = transition_current [OF k Some True v]
      show ?thesis
      proof (cases "\<exists>vr. v = Inr vr \<and> v_valid vr \<and> valid_state (i_def row) target (w_db w)")
        case False
        then have "w' = cached w c" using t by (auto simp: w'_def split: sum.splits if_splits)
        then show ?thesis using s tab by simp
      next
        case ok: True
        then obtain vr where vr: "v = Inr vr" "v_valid vr" "valid_state (i_def row) target (w_db w)" by blast
        let ?m = "move row target (cx_user_id cx) (n_now n) reason (seal_text vr) (i_ws row) (w_db (cached w c))"
        have "w_db w' = ?m" using t vr by (simp add: w'_def moved_world_def notify_def)
        moreover have "tables_ok ?m" using tab vr(3) get_item_stateD [OF Some] by (intro moved_step) simp_all
        moreover have "cache_step (w_db w) ?m"
          using s by (simp add: cache_step_def stored_def_def find_def_def)
        ultimately show ?thesis by simp
      qed
    qed
  qed
qed

lemma force_step:
  assumes "cache_real db" "tables_ok db"
  shows "tables_ok (snd (force_transition now item ty ws target reason actor roles sys db)) \<and>
    cache_step db (snd (force_transition now item ty ws target reason actor roles sys db))"
proof -
  obtain r db' where f: "force_transition now item ty ws target reason actor roles sys db = (r, db')" by fastforce
  have "keys_ok db" "cache_ok (db_cache db)" using assms by (simp_all add: tables_ok_def items_inv_def cache_real_def)
  with force_transition_outcome [OF this(1) f] show ?thesis
    using f assms moved_step get_item_stateD cache_step_same by (auto simp: move_frame)
qed

lemma op_step:
  assumes real: "cache_real (w_db w)" and tab: "tables_ok (w_db w)"
  shows "tables_ok (w_db (run_op conf op w)) \<and> cache_step (w_db w) (w_db (run_op conf op w))"
proof -
  have d: "defs_ok (w_db w)" "inherit_ok (w_db w)" "items_inv (w_db w)" using tab by (simp_all add: tables_ok_def)
  have same: "cache_step (w_db w) (w_db w)" using real by (simp add: cache_step_same cache_real_def)
  show ?thesis
  proof (cases op)
    case (OpTransition n item target reason cx cred ty ws expected)
    then show ?thesis using transition_step [OF real tab refl] by simp
  next
    case (OpForce now item ty ws target reason actor roles sys)
    then show ?thesis using force_step [OF real tab] by (simp add: in_db_def)
  next
    case (OpInitialize n items ty ws cx)
    have "items_inv (w_db (snd (initialize_workflow_states n items ty ws cx w)))"
      using items_inv_initialize [OF d(3), of "n_now n" items ty ws "Some (initial_state_for cx ty ws (w_db w))"
        "py_or (cx_agent_label cx) (cx_user_id cx)"] by (simp add: initialize_workflow_states_def on_db_def split_beta)
    then show ?thesis using items_step [OF real tab initialize_added] by (simp add: OpInitialize)
  next
    case (OpAvailable item ty ws)
    have "items_inv (w_db (snd (on_db (ensure_item_state item ty ws init) w)))" for init
      using items_inv_ensure [OF d(3)] by (simp add: on_db_def split_beta)
    then have "items_inv (w_db (snd (get_available_transitions item ty ws w)))"
      using d(3) by (auto simp: get_available_transitions_def Let_def split_beta split: option.split sum.split prod.split)
    then show ?thesis using items_step [OF real tab available_added] by (simp add: OpAvailable)
  next
    case (OpOutdate item ty ws cx lazy)
    have "items_inv (w_db (snd (on_db (ensure_item_state item ty ws init) w)))" for init
      using items_inv_ensure [OF d(3)] by (simp add: on_db_def split_beta)
    then have "items_inv (w_db (snd (outdate item ty ws cx lazy w)))"
      using d(3) by (auto simp: outdate_def se_bind_def split: option.split sum.split prod.split) (metis snd_conv)+
    then show ?thesis using items_step [OF real tab outdate_added] by (simp add: OpOutdate)
  next
    case (OpReactivate item ty ws)
    then show ?thesis using tab same by (simp add: reactivate_def Let_def split: option.split)
  next
    case (OpCustom ws ty ss ts)
    have "tables_ok (snd (update_custom_workflow conf ws ty ss ts (w_db w))) \<and> cache_step (w_db w) (snd (update_custom_workflow conf ws ty ss ts (w_db w)))"
      unfolding update_custom_workflow_def
      by (rule invalidation_step [OF real tab, where m = "validate_and_persist_custom conf ws ty ss ts"])
        (use d in \<open>auto simp: keyed_change_custom inherit_ok_custom custom.edit_frame(1) custom_keeps dest: persist_failure\<close>)
    then show ?thesis by (simp add: OpCustom in_db_def)
  next
    case (OpEdit ws ty e)
    have "tables_ok (snd (persist_definition_edit conf ws ty e (w_db w))) \<and> cache_step (w_db w) (snd (persist_definition_edit conf ws ty e (w_db w)))"
      unfolding persist_definition_edit_def
      by (rule invalidation_step [OF real tab, where m = "run_edit conf ws ty e"])
        (use d in \<open>auto simp: keyed_change_edit inherit_ok_edit any_edit.edit_frame(1) edit_keeps dest: any_edit.failure\<close>)
    then show ?thesis by (simp add: OpEdit in_db_def)
  next
    case (OpCreateDefault has_tenant ws p ty)
    then show ?thesis using create_step [OF real tab] by (simp add: in_db_def)
  next
    case (OpInitializeDefinition tier has_tenant ws ty)
    have "tables_ok (snd (initialize_definition tier has_tenant ws ty (w_db w))) \<and> cache_step (w_db w) (snd (initialize_definition tier has_tenant ws ty (w_db w)))"
      unfolding initialize_definition_def
      by (rule invalidation_step [OF real tab])
        (use d in \<open>auto simp: keyed_change_create inherit_ok_create create_default_keeps dest: create_default_failure\<close>)
    then show ?thesis by (simp add: OpInitializeDefinition in_db_def)
  next
    case (OpReset ws ty)
    have "tables_ok (snd (reset_definition_to_global ws ty (w_db w))) \<and> cache_step (w_db w) (snd (reset_definition_to_global ws ty (w_db w)))"
      unfolding reset_definition_to_global_def
    proof (rule invalidation_step [OF real tab, where m = "reset_to_global ws ty"])
      show "db1 = w_db w" if "reset_to_global ws ty (w_db w) = (Inl e, db1)" for e db1
        using that by (auto simp: reset_to_global_def Let_def split: option.splits)
    qed (use d in \<open>simp_all add: keyed_change_reset inherit_ok_reset reset_keeps\<close>)
    then show ?thesis by (simp add: OpReset in_db_def)
  next
    case (OpGlobal ty p g)
    then show ?thesis using global_step [OF real tab] by (simp add: in_db_def)
  next
    case (OpGlobalInitialize ty p)
    then show ?thesis using seed_step [OF real tab] tab same by (auto simp: in_db_def global_initialize_def split: option.split)
  next
    case (OpSeed ty p)
    then show ?thesis using seed_step [OF real tab] tab same by (auto simp: in_db_def get_or_seed_from_preset_def split: option.split)
  qed
qed

subsection \<open>What a worker is served\<close>

definition cluster_ok :: "cluster \<Rightarrow> bool" where
  "cluster_ok c \<longleftrightarrow> tables_ok (w_db (cl_world c)) \<and> (\<forall>i. cache_real (w_db (as_worker i c)))"

lemma as_worker_simps [simp]:
  "db_cache (w_db (as_worker i c)) = cl_caches c i" "find_def ws ty (w_db (as_worker i c)) = find_def ws ty (w_db (cl_world c))"
  "stored_def (w_db (as_worker i c)) = stored_def (w_db (cl_world c))" "tables_ok (w_db (as_worker i c)) = tables_ok (w_db (cl_world c))"
  by (simp_all add: as_worker_def find_def_def stored_def_def fun_eq_iff)

lemma find_def_cached [simp]: "find_def ws ty (w_db (cached w c)) = find_def ws ty (w_db w)"
  by (simp add: find_def_def)

lemma stored_def_cached [simp]: "stored_def (w_db (cached w c)) = stored_def (w_db w)"
  by (simp add: stored_def_def fun_eq_iff)

text \<open>An operation of one worker, in terms of what is stored and cached.\<close>

lemma runs_step:
  assumes "cluster_ok c"
    and c'_def: "c' = cluster_step conf (Runs i op) c"
  shows "cluster_ok c'"
    and "cache_get ws ty (cl_caches c' i) = Some dto \<Longrightarrow>
      stored ws ty c' = Some dto \<or> cache_get ws ty (cl_caches c i) = Some dto \<and> stored ws ty c' = stored ws ty c"
    and "j \<noteq> i \<Longrightarrow> cl_caches c' j = cl_caches c j"
proof -
  let ?w = "run_op conf op (as_worker i c)"
  have c: "cache_real (w_db (as_worker i c))" "tables_ok (w_db (as_worker i c))" using assms(1) by (simp_all add: cluster_ok_def)
  from op_step [OF c] have s: "tables_ok (w_db ?w)" "cache_step (w_db (as_worker i c)) (w_db ?w)" by blast+
  have world: "cl_world c' = cached ?w []" "cl_caches c' i = db_cache (w_db ?w)" "\<And>j. j \<noteq> i \<Longrightarrow> cl_caches c' j = cl_caches c j"
    by (simp_all add: c'_def Let_def)
  show "j \<noteq> i \<Longrightarrow> cl_caches c' j = cl_caches c j" by (rule world(3))
  have e: "cache_get ws ty (cl_caches c' i) = Some dto \<Longrightarrow>
      stored ws ty c' = Some dto \<or> cache_get ws ty (cl_caches c i) = Some dto \<and> stored ws ty c' = stored ws ty c" for ws ty dto
    using s(2) unfolding cache_step_def by (simp add: world stored_def)
  then show "cache_get ws ty (cl_caches c' i) = Some dto \<Longrightarrow>
      stored ws ty c' = Some dto \<or> cache_get ws ty (cl_caches c i) = Some dto \<and> stored ws ty c' = stored ws ty c" .
  have keep: "find_def ws ty (w_db (cl_world c)) \<noteq> None \<Longrightarrow> find_def ws ty (w_db ?w) \<noteq> None" for ws ty
    using s(2) unfolding cache_step_def by simp
  have "cache_real (w_db (as_worker j c'))" for j
  proof (cases "j = i")
    case True
    have "find_def ws ty (w_db ?w) \<noteq> None" if "cache_get ws ty (db_cache (w_db ?w)) = Some dto" for ws ty dto
    proof -
      from s(2) that have "stored_def (w_db ?w) (ws, ty) = Some dto \<or>
          cache_get ws ty (cl_caches c i) = Some dto \<and> stored_def (w_db ?w) (ws, ty) = stored_def (w_db (cl_world c)) (ws, ty)"
        unfolding cache_step_def by simp
      then show ?thesis
      proof
        assume "stored_def (w_db ?w) (ws, ty) = Some dto"
        then show ?thesis by (auto simp: stored_def_def)
      next
        assume "cache_get ws ty (cl_caches c i) = Some dto \<and> stored_def (w_db ?w) (ws, ty) = stored_def (w_db (cl_world c)) (ws, ty)"
        then have "find_def ws ty (w_db (cl_world c)) \<noteq> None" using c(1) by (simp add: cache_real_def)
        then show ?thesis by (rule keep)
      qed
    qed
    then show ?thesis using s(2) True by (auto simp: cache_real_def cache_step_def world)
  next
    case False
    then show ?thesis using assms(1) keep by (simp add: cluster_ok_def cache_real_def world)
  qed
  then show "cluster_ok c'" using s(1) by (simp add: cluster_ok_def world)
qed

lemma restarts_step:
  assumes "cluster_ok c"
  shows "cluster_ok (cluster_step conf (Restarts i) c)"
  using assms by (auto simp: cluster_ok_def cache_real_def cache_ok_def cache_clear_def cache_get_def stored_def_def)

lemma cluster_start_ok: "cluster_ok (cluster_start empty_world)"
  by (simp add: cluster_ok_def cluster_start_def tables_ok_def cache_real_def cache_ok_def cache_get_def empty_world_def
      items_inv_def keys_ok_def inherit_ok_def defs_ok_def)

lemma run_cluster_snoc: "run_cluster conf (steps @ [e]) c = cluster_step conf e (run_cluster conf steps c)"
  by (simp add: run_cluster_def)

text \<open>Since when an entry can be trusted: it was stored after the first \<open>k\<close> steps, and its worker has not changed it since.\<close>

definition stored_since :: "conf \<Rightarrow> cluster_event list \<Rightarrow> nat \<Rightarrow> uuid \<Rightarrow> string \<Rightarrow> nat \<Rightarrow> bool" where
  "stored_since conf steps i ws ty k \<longleftrightarrow> k \<le> length steps \<and>
     (\<forall>m. k \<le> m \<and> m < length steps \<and> runs_on i (steps ! m) \<longrightarrow>
        stored ws ty (run_cluster conf (take (Suc m) steps) (cluster_start empty_world)) =
        stored ws ty (run_cluster conf (take m steps) (cluster_start empty_world)))"

lemma stored_since_snoc:
  assumes "stored_since conf steps i ws ty k"
    and "runs_on i e \<Longrightarrow> stored ws ty (run_cluster conf (steps @ [e]) (cluster_start empty_world)) = stored ws ty (run_cluster conf steps (cluster_start empty_world))"
  shows "stored_since conf (steps @ [e]) i ws ty k"
  unfolding stored_since_def
proof (intro conjI allI impI)
  show "k \<le> length (steps @ [e])" using assms(1) by (simp add: stored_since_def)
  fix m assume m: "k \<le> m \<and> m < length (steps @ [e]) \<and> runs_on i ((steps @ [e]) ! m)"
  show "stored ws ty (run_cluster conf (take (Suc m) (steps @ [e])) (cluster_start empty_world)) =
      stored ws ty (run_cluster conf (take m (steps @ [e])) (cluster_start empty_world))"
  proof (cases "m = length steps")
    case True
    then show ?thesis using m assms(2) by simp
  next
    case False
    then have "m < length steps" "runs_on i (steps ! m)" using m by (auto simp: nth_append)
    then show ?thesis using m assms(1) by (simp add: stored_since_def)
  qed
qed

lemma cluster_history:
  "cluster_ok (run_cluster conf steps (cluster_start empty_world)) \<and>
   (\<forall>i ws ty dto. cache_get ws ty (cl_caches (run_cluster conf steps (cluster_start empty_world)) i) = Some dto \<longrightarrow>
      (\<exists>k. stored_since conf steps i ws ty k \<and> stored ws ty (run_cluster conf (take k steps) (cluster_start empty_world)) = Some dto))"
proof (induction steps rule: rev_induct)
  case Nil
  have "cl_caches (run_cluster conf [] (cluster_start empty_world)) = (\<lambda>_. [])" by (simp add: run_cluster_def cluster_start_def)
  then show ?case using cluster_start_ok by (simp add: run_cluster_def cache_get_def)
next
  case (snoc e steps)
  let ?c = "run_cluster conf steps (cluster_start empty_world)"
  let ?c' = "run_cluster conf (steps @ [e]) (cluster_start empty_world)"
  have ok: "cluster_ok ?c" using snoc by blast
  have step: "?c' = cluster_step conf e ?c" by (rule run_cluster_snoc)
  have old: "\<exists>k. stored_since conf (steps @ [e]) i ws ty k \<and> stored ws ty (run_cluster conf (take k (steps @ [e])) (cluster_start empty_world)) = Some dto"
    if g: "cache_get ws ty (cl_caches ?c i) = Some dto" "runs_on i e \<Longrightarrow> stored ws ty ?c' = stored ws ty ?c" for i ws ty dto
  proof -
    from snoc g(1) obtain k where k: "stored_since conf steps i ws ty k" "stored ws ty (run_cluster conf (take k steps) (cluster_start empty_world)) = Some dto"
      by blast
    have "k \<le> length steps" using k(1) by (simp add: stored_since_def)
    then have "take k (steps @ [e]) = take k steps" by simp
    with stored_since_snoc [OF k(1) g(2)] k(2) show ?thesis by metis
  qed
  show ?case
  proof (cases e)
    case (Runs j op)
    have "?c' = cluster_step conf (Runs j op) ?c" unfolding step unfolding Runs ..
    note r = runs_step [OF ok this]
    have "\<exists>k. stored_since conf (steps @ [e]) i ws ty k \<and> stored ws ty (run_cluster conf (take k (steps @ [e])) (cluster_start empty_world)) = Some dto"
      if g: "cache_get ws ty (cl_caches ?c' i) = Some dto" for i ws ty dto
    proof (cases "i = j")
      case False
      then have "cl_caches ?c' i = cl_caches ?c i" by (rule r(3))
      then show ?thesis using old g Runs False by simp
    next
      case True
      have "stored ws ty ?c' = Some dto \<or> cache_get ws ty (cl_caches ?c i) = Some dto \<and> stored ws ty ?c' = stored ws ty ?c"
        using r(2) g unfolding True by blast
      then show ?thesis
      proof
        assume "stored ws ty ?c' = Some dto"
        moreover have "stored_since conf (steps @ [e]) i ws ty (length (steps @ [e]))" by (simp add: stored_since_def)
        ultimately show ?thesis by (metis le_refl take_all)
      next
        assume "cache_get ws ty (cl_caches ?c i) = Some dto \<and> stored ws ty ?c' = stored ws ty ?c"
        then show ?thesis using old by blast
      qed
    qed
    then show ?thesis using r(1) by blast
  next
    case (Restarts j)
    have rs: "?c' = cluster_step conf (Restarts j) ?c" unfolding step unfolding Restarts ..
    have s: "stored ws ty ?c' = stored ws ty ?c" for ws ty by (simp add: rs stored_def)
    have "cache_get ws ty (cl_caches ?c i) = Some dto" if "cache_get ws ty (cl_caches ?c' i) = Some dto" for i ws ty dto
      using that by (auto simp: rs cache_clear_def cache_get_def split: if_splits)
    then have "\<exists>k. stored_since conf (steps @ [e]) i ws ty k \<and> stored ws ty (run_cluster conf (take k (steps @ [e])) (cluster_start empty_world)) = Some dto"
      if "cache_get ws ty (cl_caches ?c' i) = Some dto" for i ws ty dto using old s that by blast
    moreover have "cluster_ok ?c'" using restarts_step [OF ok] by (simp add: rs)
    ultimately show ?thesis by blast
  qed
qed

text \<open>
  C6: what a worker validates with. In every run of engine operations and restarts on any number of worker processes over one
  database, the definition a worker is served is one that was stored at some moment of the run, and since that moment the worker
  itself has run no operation that changed it. So a worker that is the last to edit a definition validates with the stored one,
  as does a lone worker always; an edit by another worker may be missed.
\<close>

theorem served_definition_was_stored:
  "\<exists>k\<le>length steps.
     served i ws ty (run_cluster conf steps (cluster_start empty_world)) = stored ws ty (run_cluster conf (take k steps) (cluster_start empty_world)) \<and>
     (\<forall>m. k \<le> m \<and> m < length steps \<and> runs_on i (steps ! m) \<longrightarrow>
        stored ws ty (run_cluster conf (take (Suc m) steps) (cluster_start empty_world)) =
        stored ws ty (run_cluster conf (take m steps) (cluster_start empty_world)))"
proof -
  let ?c = "run_cluster conf steps (cluster_start empty_world)"
  have "\<exists>k. stored_since conf steps i ws ty k \<and> served i ws ty ?c = stored ws ty (run_cluster conf (take k steps) (cluster_start empty_world))"
  proof (cases "cache_get ws ty (cl_caches ?c i)")
    case (Some dto)
    then have "served i ws ty ?c = Some dto" by (simp add: served_def load_definition_def)
    with cluster_history [of conf steps] Some show ?thesis by metis
  next
    case None
    then have "served i ws ty ?c = stored ws ty ?c"
      by (simp add: served_def load_definition_def get_definition_def stored_def stored_def_def split: option.split)
    moreover have "stored_since conf steps i ws ty (length steps)" by (simp add: stored_since_def)
    ultimately show ?thesis by (metis le_refl take_all)
  qed
  then show ?thesis unfolding stored_since_def by blast
qed

text \<open>Worker 1 restricts the edge of an approval to the roles Owner and admin; worker 0 has the old definition cached.\<close>

definition cluster_steps_example :: "cluster_event list" where
  "cluster_steps_example =
     [Runs 0 (OpCreateDefault True ''w'' ''minimal'' ''Requirement''),
      Runs 0 (OpInitialize env_example [''r'', ''s''] ''Requirement'' ''w'' user_example),
      Runs 0 (OpTransition env_example ''r'' ''done'' [] user_example [] ''Requirement'' ''w'' None),
      Runs 1 (OpEdit ''w'' ''Requirement'' (UpdateTransition ''draft'' ''done'' (Some [''Owner'']) None None))]"

definition roles_of_edge :: "definition_dto option \<Rightarrow> string list" where
  "roles_of_edge d = (case d of None \<Rightarrow> [] | Some x \<Rightarrow> (case get_transition x ''draft'' ''done'' of None \<Rightarrow> [] | Some t \<Rightarrow> allowed_roles t))"

lemmas cluster_eval = cluster_steps_example_def run_cluster_def fold_simps cluster_step.simps run_op.simps

lemma cluster_example:
  "roles_of_edge (served 0 ''w'' ''Requirement'' (run_cluster (\<lambda>_. Inr ''full'') cluster_steps_example (cluster_start empty_world))) =
     [''editor'', ''admin'']"
  unfolding cluster_eval by code_simp

lemma cluster_example_stored:
  "roles_of_edge (stored ''w'' ''Requirement'' (run_cluster (\<lambda>_. Inr ''full'') cluster_steps_example (cluster_start empty_world))) =
     [''Owner'', ''admin'']"
  unfolding cluster_eval by code_simp

text \<open>
  Served is what was stored after one of the first three steps, and it is no longer stored after the fourth.
\<close>

theorem served_definition_was_stored_witness:
  "\<exists>k\<le>3. roles_of_edge (stored ''w'' ''Requirement'' (run_cluster (\<lambda>_. Inr ''full'') (take k cluster_steps_example) (cluster_start empty_world))) =
     [''editor'', ''admin''] \<and>
   served 0 ''w'' ''Requirement'' (run_cluster (\<lambda>_. Inr ''full'') cluster_steps_example (cluster_start empty_world)) \<noteq>
     stored ''w'' ''Requirement'' (run_cluster (\<lambda>_. Inr ''full'') cluster_steps_example (cluster_start empty_world))"
proof -
  let ?run = "\<lambda>steps. run_cluster (\<lambda>_. Inr ''full'') steps (cluster_start empty_world)"
  let ?steps = cluster_steps_example
  obtain k where k: "k \<le> length ?steps" "served 0 ''w'' ''Requirement'' (?run ?steps) = stored ''w'' ''Requirement'' (?run (take k ?steps))"
    using served_definition_was_stored [of ?steps 0 "''w''" "''Requirement''" "\<lambda>_. Inr ''full''"] by blast
  have ne: "served 0 ''w'' ''Requirement'' (?run ?steps) \<noteq> stored ''w'' ''Requirement'' (?run ?steps)"
    using cluster_example cluster_example_stored by auto
  have "length ?steps = 4" by (simp add: cluster_steps_example_def)
  moreover from this ne k(2) have "k \<noteq> 4" by auto
  ultimately have "k \<le> 3" using k(1) by simp
  then show ?thesis using k(2) cluster_example ne by (intro exI [of _ k]) simp
qed

text \<open>
  An edit can be missed. After worker 1 has restricted the edge to the roles Owner and admin, worker 0 still lets an editor take it.
\<close>

theorem stale_worker_transitions:
  "roles_of_edge (stored ''w'' ''Requirement'' (run_cluster (\<lambda>_. Inr ''full'') cluster_steps_example (cluster_start empty_world))) = [''Owner'', ''admin''] \<and>
   map i_state (db_items (w_db (cl_world (run_cluster (\<lambda>_. Inr ''full'')
     (cluster_steps_example @ [Runs 0 (OpTransition env_example ''s'' ''done'' [] user_example [] ''Requirement'' ''w'' None)])
     (cluster_start empty_world))))) = [''done'', ''done''] \<and>
   cx_active_roles user_example = [''Editor'']"
proof -
  have "map i_state (db_items (w_db (cl_world (run_cluster (\<lambda>_. Inr ''full'')
     (cluster_steps_example @ [Runs 0 (OpTransition env_example ''s'' ''done'' [] user_example [] ''Requirement'' ''w'' None)])
     (cluster_start empty_world))))) = [''done'', ''done'']"
    unfolding append_Cons append_Nil cluster_eval by code_simp
  with cluster_example_stored show ?thesis by (simp add: user_example_def)
qed

end
