(* ===== verification/Graph_Search.thy ===== *)
theory Graph_Search
  imports Loom_Prelude
begin

text \<open>
  The graph searches of the traceability engine (\<^verbatim>\<open>traceability/trace_link_manager.py\<close>): adjacency lists built
  from edge pairs, the path search behind the eager cycle check of single links, and the recursive Tarjan search
  behind the batch check.

  A Python dict keeps insertion order and is an association list here. A stack is a list with its top first.
  The recursion of \<open>strongconnect\<close> uses one interpreter frame per level: its depth is bounded by a parameter, and
  running out of frames (Python's \<open>RecursionError\<close>) is the result \<open>None\<close>.
\<close>

subsection \<open>Adjacency\<close>

type_synonym 'a adjacency = "('a \<times> 'a list) list"

fun adj_add :: "'a \<Rightarrow> 'a \<Rightarrow> 'a adjacency \<Rightarrow> 'a adjacency" where
  "adj_add s t [] = [(s, [t])]"
| "adj_add s t ((k, ns) # m) = (if k = s then (k, ns @ [t]) # m else (k, ns) # adj_add s t m)"

definition build_adjacency_from_edges :: "('a \<times> 'a) list \<Rightarrow> 'a adjacency" where
  "build_adjacency_from_edges edges = fold (\<lambda>(s, t). adj_add s t) edges []"

text \<open>\<open>adj.get(v, [])\<close>.\<close>

definition adj_get :: "'a adjacency \<Rightarrow> 'a \<Rightarrow> 'a list" where
  "adj_get adj v = (case map_of adj v of Some ns \<Rightarrow> ns | None \<Rightarrow> [])"

definition edges_of :: "'a adjacency \<Rightarrow> ('a \<times> 'a) set" where
  "edges_of adj = {(v, w). w \<in> set (adj_get adj v)}"

lemma adj_get_add: "adj_get (adj_add s t adj) v = (if v = s then adj_get adj s @ [t] else adj_get adj v)"
  by (induction s t adj rule: adj_add.induct) (auto simp: adj_get_def)

lemma adj_get_fold:
  "set (adj_get (fold (\<lambda>(s, t). adj_add s t) edges adj) v) = set (adj_get adj v) \<union> {w. (v, w) \<in> set edges}"
  by (induction edges arbitrary: adj) (auto simp: adj_get_add split: if_splits)

lemma edges_of_build [simp]: "edges_of (build_adjacency_from_edges edges) = set edges"
  by (simp add: edges_of_def build_adjacency_from_edges_def adj_get_fold) (simp add: adj_get_def)

subsection \<open>Path search\<close>

lemma adj_get_outside: "v \<notin> fst ` set adj \<Longrightarrow> adj_get adj v = []"
  by (simp add: adj_get_def map_of_eq_None_iff [THEN iffD2])

text \<open>The loop of \<open>_dfs_has_cycle_to\<close>.\<close>

function dfs_loop :: "'a adjacency \<Rightarrow> 'a \<Rightarrow> 'a list \<Rightarrow> 'a list \<Rightarrow> bool" where
  "dfs_loop adj goal visited [] = False"
| "dfs_loop adj goal visited (node # stack) =
     (if node = goal then True
      else if node \<in> set visited then dfs_loop adj goal visited stack
      else dfs_loop adj goal (node # visited) (rev (adj_get adj node) @ stack))"
  by pat_completeness auto

termination dfs_loop
proof (relation "inv_image (less_than <*lex*> less_than)
    (\<lambda>(adj, goal, visited, stack). (card (fst ` set adj - set visited), length stack))", goal_cases)
  case 1
  show ?case by auto
next
  case (3 adj goal visited node stack)
  show ?case
  proof (cases "node \<in> fst ` set adj")
    case True
    then have "card (fst ` set adj - set (node # visited)) < card (fst ` set adj - set visited)"
      using 3 by (intro psubset_card_mono) auto
    then show ?thesis by simp
  next
    case False
    then have "fst ` set adj - set (node # visited) = fst ` set adj - set visited" by auto
    then show ?thesis using False by (simp add: adj_get_outside)
  qed
qed simp_all

definition dfs_has_cycle_to :: "'a \<Rightarrow> 'a \<Rightarrow> 'a adjacency \<Rightarrow> bool" where
  "dfs_has_cycle_to start goal adj = dfs_loop adj goal [] [start]"

lemma leave_closed:
  assumes "(x, goal) \<in> E\<^sup>*" "x \<in> A" "goal \<notin> A" "\<forall>v\<in>A. \<forall>w. (v, w) \<in> E \<longrightarrow> w \<in> A \<union> B"
  shows "\<exists>y\<in>B. (y, goal) \<in> E\<^sup>*"
  using assms(1,2)
proof (induction rule: converse_rtrancl_induct)
  case base
  then show ?case using assms(3) by simp
next
  case (step y z)
  then show ?case using assms(4) by blast
qed

lemma dfs_loop_correct:
  "goal \<notin> set visited \<Longrightarrow> \<forall>v\<in>set visited. \<forall>w. (v, w) \<in> edges_of adj \<longrightarrow> w \<in> set visited \<union> set stack \<Longrightarrow>
   dfs_loop adj goal visited stack \<longleftrightarrow> (\<exists>x\<in>set stack. (x, goal) \<in> (edges_of adj)\<^sup>*)"
proof (induction adj goal visited stack rule: dfs_loop.induct)
  case (2 adj goal visited node stack)
  consider "node = goal" | "node \<noteq> goal" "node \<in> set visited" | "node \<noteq> goal" "node \<notin> set visited" by blast
  then show ?case
  proof cases
    case 2
    have closed: "\<forall>v\<in>set visited. \<forall>w. (v, w) \<in> edges_of adj \<longrightarrow> w \<in> set visited \<union> set stack"
      using "2.prems"(2) 2 by auto
    moreover have "\<exists>x\<in>set stack. (x, goal) \<in> (edges_of adj)\<^sup>*" if "(node, goal) \<in> (edges_of adj)\<^sup>*"
      using leave_closed [OF that 2(2) "2.prems"(1) closed] .
    ultimately show ?thesis using 2 "2.IH"(1) "2.prems"(1) by auto
  next
    case 3
    have succ: "(node, w) \<in> edges_of adj \<longleftrightarrow> w \<in> set (adj_get adj node)" for w by (simp add: edges_of_def)
    have "dfs_loop adj goal (node # visited) (rev (adj_get adj node) @ stack) \<longleftrightarrow>
        (\<exists>x\<in>set (rev (adj_get adj node) @ stack). (x, goal) \<in> (edges_of adj)\<^sup>*)"
      using "2.prems" 3 by (intro "2.IH"(2)) (auto simp: succ)
    moreover have "(node, goal) \<in> (edges_of adj)\<^sup>* \<longleftrightarrow> (\<exists>x\<in>set (adj_get adj node). (x, goal) \<in> (edges_of adj)\<^sup>*)"
      using 3 by (metis converse_rtrancl_into_rtrancl converse_rtranclE edges_of_def mem_Collect_eq case_prodI succ)
    ultimately show ?thesis using 3 by auto
  qed auto
qed simp

lemma dfs_has_cycle_to_iff: "dfs_has_cycle_to start goal adj \<longleftrightarrow> (start, goal) \<in> (edges_of adj)\<^sup>*"
  unfolding dfs_has_cycle_to_def by (subst dfs_loop_correct) auto

subsection \<open>Tarjan's search\<close>

record 'a tarjan_state =
  ts_counter :: nat
  ts_stack :: "'a list"
  ts_on_stack :: "'a list"
  ts_index :: "'a \<Rightarrow> nat option"
  ts_low :: "'a \<Rightarrow> nat option"
  ts_found :: "'a list list"

definition ts_init :: "'a tarjan_state" where
  "ts_init = \<lparr>ts_counter = 0, ts_stack = [], ts_on_stack = [], ts_index = Map.empty, ts_low = Map.empty, ts_found = []\<rparr>"

text \<open>The entry of \<open>strongconnect\<close>, the update of a lowlink, and the exit that pops a component.\<close>

definition ts_enter :: "'a \<Rightarrow> 'a tarjan_state \<Rightarrow> 'a tarjan_state" where
  "ts_enter v s =
     s\<lparr>ts_index := (ts_index s)(v \<mapsto> ts_counter s), ts_low := (ts_low s)(v \<mapsto> ts_counter s),
       ts_counter := Suc (ts_counter s), ts_stack := v # ts_stack s, ts_on_stack := v # ts_on_stack s\<rparr>"

definition ts_lower :: "'a \<Rightarrow> nat option \<Rightarrow> 'a tarjan_state \<Rightarrow> 'a tarjan_state" where
  "ts_lower v l s = s\<lparr>ts_low := (ts_low s)(v \<mapsto> min (the (ts_low s v)) (the l))\<rparr>"

definition ts_leave :: "'a \<Rightarrow> 'a tarjan_state \<Rightarrow> 'a tarjan_state" where
  "ts_leave v s =
     (if ts_low s v = ts_index s v
      then let scc = takeWhile (\<lambda>w. w \<noteq> v) (ts_stack s) @ [v]
           in s\<lparr>ts_stack := tl (dropWhile (\<lambda>w. w \<noteq> v) (ts_stack s)),
                ts_on_stack := filter (\<lambda>w. w \<notin> set scc) (ts_on_stack s),
                ts_found := (if length scc > 1 then ts_found s @ [scc] else ts_found s)\<rparr>
      else s)"

fun strongconnect :: "nat \<Rightarrow> 'a adjacency \<Rightarrow> 'a \<Rightarrow> 'a tarjan_state \<Rightarrow> 'a tarjan_state option"
  and connect_all :: "nat \<Rightarrow> 'a adjacency \<Rightarrow> 'a \<Rightarrow> 'a list \<Rightarrow> 'a tarjan_state \<Rightarrow> 'a tarjan_state option" where
  "strongconnect 0 adj v s = None"
| "strongconnect (Suc k) adj v s = map_option (ts_leave v) (connect_all k adj v (adj_get adj v) (ts_enter v s))"
| "connect_all k adj v [] s = Some s"
| "connect_all k adj v (w # ws) s =
     (if ts_index s w = None
      then (case strongconnect k adj w s of
              None \<Rightarrow> None
            | Some s1 \<Rightarrow> connect_all k adj v ws (ts_lower v (ts_low s1 w) s1))
      else if w \<in> set (ts_on_stack s) then connect_all k adj v ws (ts_lower v (ts_index s w) s)
      else connect_all k adj v ws s)"

fun tarjan_roots :: "nat \<Rightarrow> 'a adjacency \<Rightarrow> 'a list \<Rightarrow> 'a tarjan_state \<Rightarrow> 'a tarjan_state option" where
  "tarjan_roots k adj [] s = Some s"
| "tarjan_roots k adj (v # vs) s =
     (case (if ts_index s v = None then strongconnect k adj v s else Some s) of
        None \<Rightarrow> None
      | Some s1 \<Rightarrow> if ts_found s1 \<noteq> [] then Some s1 else tarjan_roots k adj vs s1)"

definition all_nodes :: "'a adjacency \<Rightarrow> 'a list" where
  "all_nodes adj = remdups (map fst adj @ concat (map snd adj))"

text \<open>\<open>Some None\<close>: no cycle; \<open>Some (Some c)\<close>: the first component found; \<open>None\<close>: out of frames.\<close>

definition tarjan_from :: "nat \<Rightarrow> 'a adjacency \<Rightarrow> 'a list \<Rightarrow> 'a list option option" where
  "tarjan_from k adj nodes =
     map_option (\<lambda>s. case ts_found s of [] \<Rightarrow> None | c # _ \<Rightarrow> Some c) (tarjan_roots k adj nodes ts_init)"

definition tarjan_find_cycle :: "nat \<Rightarrow> 'a adjacency \<Rightarrow> 'a list option option" where
  "tarjan_find_cycle k adj = tarjan_from k adj (all_nodes adj)"

subsection \<open>The search only adds\<close>

definition extends :: "'a tarjan_state \<Rightarrow> 'a tarjan_state \<Rightarrow> bool" where
  "extends s s' \<longleftrightarrow> (\<exists>fs. ts_found s' = ts_found s @ fs) \<and> (\<exists>ys. ts_stack s' = ys @ ts_stack s) \<and>
     ts_index s \<subseteq>\<^sub>m ts_index s' \<and> ts_counter s \<le> ts_counter s'"

lemma extends_refl [simp]: "extends s s"
  by (simp add: extends_def)

lemma extends_trans: "extends a b \<Longrightarrow> extends b c \<Longrightarrow> extends a c"
  unfolding extends_def by (metis append.assoc map_le_trans le_trans)

lemma lower_simps [simp]:
  "ts_found (ts_lower v l s) = ts_found s" "ts_stack (ts_lower v l s) = ts_stack s"
  "ts_index (ts_lower v l s) = ts_index s" "ts_counter (ts_lower v l s) = ts_counter s"
  "ts_on_stack (ts_lower v l s) = ts_on_stack s"
  by (simp_all add: ts_lower_def)

lemma extends_lower: "extends s s1 \<Longrightarrow> extends s (ts_lower v l s1)"
  by (simp add: extends_def)

lemma extends_leave:
  assumes "extends (ts_enter v s) s1" "ts_index s v = None"
  shows "extends s (ts_leave v s1)"
proof -
  obtain ys where ys: "ts_stack s1 = ys @ v # ts_stack s" using assms(1) by (auto simp: extends_def ts_enter_def)
  have "\<exists>zs. tl (dropWhile (\<lambda>w. w \<noteq> v) (ys @ v # ts_stack s)) = zs @ ts_stack s" by (induction ys) auto
  moreover have "\<exists>zs. ys @ v # ts_stack s = zs @ ts_stack s" by (rule exI [of _ "ys @ [v]"]) simp
  moreover have "ts_index s \<subseteq>\<^sub>m ts_index (ts_enter v s)" using assms(2) by (auto simp: map_le_def ts_enter_def)
  ultimately show ?thesis
    using assms(1) map_le_trans by (auto simp: extends_def ts_leave_def Let_def ys ts_enter_def)
qed

text \<open>Induction over a run that does not exhaust its frames.\<close>

lemma search_induct [case_names strong nil new on_stack finished]:
  assumes strong: "\<And>v s s1. Q v (adj_get adj v) (ts_enter v s) s1 \<Longrightarrow> P v s (ts_leave v s1)"
    and nil: "\<And>v s. Q v [] s s"
    and new: "\<And>v w ws s s1 s'. ts_index s w = None \<Longrightarrow> P w s s1 \<Longrightarrow> Q v ws (ts_lower v (ts_low s1 w) s1) s' \<Longrightarrow>
      Q v (w # ws) s s'"
    and on_stack: "\<And>v w ws s s'. ts_index s w \<noteq> None \<Longrightarrow> w \<in> set (ts_on_stack s) \<Longrightarrow>
      Q v ws (ts_lower v (ts_index s w) s) s' \<Longrightarrow> Q v (w # ws) s s'"
    and finished: "\<And>v w ws s s'. ts_index s w \<noteq> None \<Longrightarrow> w \<notin> set (ts_on_stack s) \<Longrightarrow> Q v ws s s' \<Longrightarrow> Q v (w # ws) s s'"
  shows "(\<forall>v s s'. strongconnect k adj v s = Some s' \<longrightarrow> P v s s') \<and>
    (\<forall>v ws s s'. connect_all k adj v ws s = Some s' \<longrightarrow> Q v ws s s')"
proof -
  have "(\<forall>v s s'. strongconnect k adj v s = Some s' \<longrightarrow> P v s s') \<and> (\<forall>v ws s s'. connect_all k adj v ws s = Some s' \<longrightarrow> Q v ws s s')"
  proof (induction k)
    case 0
    have "connect_all 0 adj v ws s = Some s' \<longrightarrow> Q v ws s s'" for v ws s s'
      by (induction ws arbitrary: s) (auto intro: nil on_stack finished split: option.splits)
    then show ?case by simp
  next
    case (Suc k)
    have P: "strongconnect (Suc k) adj v s = Some s' \<longrightarrow> P v s s'" for v s s' using Suc strong by auto
    have "connect_all (Suc k) adj v ws s = Some s' \<longrightarrow> Q v ws s s'" for v ws s s'
    proof (induction ws arbitrary: s)
      case (Cons w ws)
      show ?case
      proof (cases "ts_index s w = None")
        case True
        show ?thesis
        proof
          assume "connect_all (Suc k) adj v (w # ws) s = Some s'"
          then obtain s1 where "strongconnect (Suc k) adj w s = Some s1"
              "connect_all (Suc k) adj v ws (ts_lower v (ts_low s1 w) s1) = Some s'"
            using True by (auto simp del: strongconnect.simps split: option.splits)
          then show "Q v (w # ws) s s'" using P Cons new [OF True] by blast
        qed
      qed (use Cons on_stack finished in \<open>auto split: if_splits\<close>)
    qed (simp add: nil)
    then show ?case using P by blast
  qed
  then show ?thesis .
qed

lemma search_extends:
  "(\<forall>v s s'. strongconnect k adj v s = Some s' \<longrightarrow> ts_index s v = None \<longrightarrow> extends s s') \<and>
   (\<forall>v ws s s'. connect_all k adj v ws s = Some s' \<longrightarrow> extends s s')"
proof (induct rule: search_induct)
  case (strong v s s1)
  then show ?case using extends_leave [of v s s1] by simp
next
  case (new v w ws s s1 s')
  then have "extends s s1" by simp
  from extends_trans [OF extends_lower [OF this] new(3)] show ?case .
next
  case (on_stack v w ws s s')
  from extends_trans [OF extends_lower [OF extends_refl] on_stack(3)] show ?case .
qed simp_all

lemma strongconnect_extends: "strongconnect k adj v s = Some s' \<Longrightarrow> ts_index s v = None \<Longrightarrow> extends s s'"
  using search_extends [of k adj] by blast

text \<open>The induction with the extension facts at hand.\<close>

lemma search_run [case_names strong nil new on_stack finished]:
  assumes strong: "\<And>v s s1. ts_index s v = None \<Longrightarrow> extends (ts_enter v s) s1 \<Longrightarrow> Q v (adj_get adj v) (ts_enter v s) s1 \<Longrightarrow>
      P v s (ts_leave v s1)"
    and nil: "\<And>v s. Q v [] s s"
    and new: "\<And>v w ws s s1 s'. ts_index s w = None \<Longrightarrow> extends s s1 \<Longrightarrow> extends (ts_lower v (ts_low s1 w) s1) s' \<Longrightarrow>
      P w s s1 \<Longrightarrow> Q v ws (ts_lower v (ts_low s1 w) s1) s' \<Longrightarrow> Q v (w # ws) s s'"
    and on_stack: "\<And>v w ws s s'. ts_index s w \<noteq> None \<Longrightarrow> w \<in> set (ts_on_stack s) \<Longrightarrow>
      extends (ts_lower v (ts_index s w) s) s' \<Longrightarrow> Q v ws (ts_lower v (ts_index s w) s) s' \<Longrightarrow> Q v (w # ws) s s'"
    and finished: "\<And>v w ws s s'. ts_index s w \<noteq> None \<Longrightarrow> w \<notin> set (ts_on_stack s) \<Longrightarrow> extends s s' \<Longrightarrow>
      Q v ws s s' \<Longrightarrow> Q v (w # ws) s s'"
  shows "(\<forall>v s s'. strongconnect k adj v s = Some s' \<longrightarrow> ts_index s v = None \<longrightarrow> P v s s') \<and>
    (\<forall>v ws s s'. connect_all k adj v ws s = Some s' \<longrightarrow> Q v ws s s')"
proof -
  have "(\<forall>v s s'. strongconnect k adj v s = Some s' \<longrightarrow> (ts_index s v = None \<longrightarrow> extends s s' \<and> P v s s')) \<and>
    (\<forall>v ws s s'. connect_all k adj v ws s = Some s' \<longrightarrow> (extends s s' \<and> Q v ws s s'))"
  proof (induct rule: search_induct)
    case (strong v s s1)
    then show ?case using extends_leave [of v s s1] assms(1) [of s v s1] by simp
  next
    case (nil v s)
    then show ?case using assms(2) by simp
  next
    case (new v w ws s s1 s')
    then have e: "extends s s1" by simp
    have "extends s s'" using extends_trans [OF extends_lower [OF e] conjunct1 [OF new(3)]] .
    then show ?case using new e assms(3) [of s w s1 v s' ws] by simp
  next
    case (on_stack v w ws s s')
    have "extends s s'" using extends_trans [OF extends_lower [OF extends_refl] conjunct1 [OF on_stack(3)]] .
    then show ?case using on_stack assms(4) [of s w v s' ws] by simp
  next
    case (finished v w ws s s')
    then show ?case using assms(5) [of s w s' v ws] by simp
  qed
  then show ?thesis by simp
qed

subsection \<open>Without a cycle nothing is found\<close>

definition has_cycle :: "('a \<times> 'a) set \<Rightarrow> bool" where
  "has_cycle E \<longleftrightarrow> (\<exists>v w. v \<noteq> w \<and> (v, w) \<in> E\<^sup>* \<and> (w, v) \<in> E\<^sup>*)"

definition bounded :: "'a tarjan_state \<Rightarrow> bool" where
  "bounded s \<longleftrightarrow> (\<forall>x i. ts_index s x = Some i \<longrightarrow> i < ts_counter s)"

text \<open>The stack is the current search path, which leads to \<open>v\<close>.\<close>

definition path_inv :: "'a adjacency \<Rightarrow> 'a \<Rightarrow> 'a tarjan_state \<Rightarrow> bool" where
  "path_inv adj v s \<longleftrightarrow> set (ts_on_stack s) = set (ts_stack s) \<and>
     (\<forall>x\<in>set (ts_stack s). ts_index s x \<noteq> None \<and> (x, v) \<in> (edges_of adj)\<^sup>*) \<and> bounded s"

definition undisturbed :: "'a \<Rightarrow> 'a tarjan_state \<Rightarrow> 'a tarjan_state \<Rightarrow> bool" where
  "undisturbed v s s' \<longleftrightarrow> ts_found s' = ts_found s \<and> ts_stack s' = ts_stack s \<and>
     set (ts_on_stack s') = set (ts_on_stack s) \<and> bounded s' \<and>
     (\<forall>x. x \<noteq> v \<longrightarrow> ts_index s x \<noteq> None \<longrightarrow> ts_low s' x = ts_low s x)"

lemma undisturbed_trans:
  "undisturbed v a b \<Longrightarrow> undisturbed v b c \<Longrightarrow> ts_index a \<subseteq>\<^sub>m ts_index b \<Longrightarrow> undisturbed v a c"
  unfolding undisturbed_def map_le_def by (metis domI option.exhaust)

lemma extends_index: "extends s s' \<Longrightarrow> ts_index s x = Some i \<Longrightarrow> ts_index s' x = Some i"
  unfolding extends_def map_le_def by (metis domI)

lemma leave_root:
  assumes "ts_low s v = ts_index s v" "ts_stack s = v # st"
  shows "ts_leave v s = s\<lparr>ts_stack := st, ts_on_stack := filter (\<lambda>w. w \<noteq> v) (ts_on_stack s)\<rparr>"
  using assms by (simp add: ts_leave_def Let_def)

lemma acyclic_search:
  assumes "\<not> has_cycle (edges_of adj)"
  shows "(\<forall>v s s'. strongconnect k adj v s = Some s' \<longrightarrow> ts_index s v = None \<longrightarrow>
      (path_inv adj v s \<longrightarrow> undisturbed v s s' \<and> ts_low s' v = Some (ts_counter s))) \<and>
    (\<forall>v ws s s'. connect_all k adj v ws s = Some s' \<longrightarrow>
      (\<forall>i st. ts_stack s = v # st \<longrightarrow> ts_index s v = Some i \<longrightarrow> ts_low s v = Some i \<longrightarrow> path_inv adj v s \<longrightarrow>
         set ws \<subseteq> set (adj_get adj v) \<longrightarrow> undisturbed v s s' \<and> ts_low s' v = Some i))"
proof (induct rule: search_run)
  case (strong v s s1)
  show ?case
  proof
    assume inv: "path_inv adj v s"
    let ?s0 = "ts_enter v s"
    have "path_inv adj v ?s0" using inv by (auto simp: path_inv_def ts_enter_def bounded_def less_Suc_eq)
    then have u: "undisturbed v ?s0 s1" "ts_low s1 v = Some (ts_counter s)"
      using strong(3) by (auto simp: ts_enter_def)
    have "ts_index s1 v = Some (ts_counter s)" using extends_index [OF strong(2)] by (simp add: ts_enter_def)
    then have l: "ts_leave v s1 = s1\<lparr>ts_stack := ts_stack s, ts_on_stack := filter (\<lambda>w. w \<noteq> v) (ts_on_stack s1)\<rparr>"
      using u by (intro leave_root) (auto simp: undisturbed_def ts_enter_def)
    have "v \<notin> set (ts_stack s)" using inv strong(1) by (auto simp: path_inv_def)
    then show "undisturbed v s (ts_leave v s1) \<and> ts_low (ts_leave v s1) v = Some (ts_counter s)"
      using u inv by (auto simp: l undisturbed_def ts_enter_def path_inv_def bounded_def)
  qed
next
  case (nil v s)
  then show ?case by (auto simp: undisturbed_def path_inv_def)
next
  case (new v w ws s s1 s')
  show ?case
  proof (intro allI impI)
    fix i st
    assume a: "ts_stack s = v # st" "ts_index s v = Some i" "ts_low s v = Some i" "path_inv adj v s"
      "set (w # ws) \<subseteq> set (adj_get adj v)"
    have vw: "(v, w) \<in> edges_of adj" using a(5) by (simp add: edges_of_def)
    then have "path_inv adj w s" using a(4) by (auto simp: path_inv_def intro: rtrancl.rtrancl_into_rtrancl)
    then have u1: "undisturbed w s s1" "ts_low s1 w = Some (ts_counter s)" using new(4) by simp_all
    have "v \<noteq> w" using a(2) new(1) by auto
    have i: "i < ts_counter s" using a(2,4) by (auto simp: path_inv_def bounded_def)
    let ?s2 = "ts_lower v (ts_low s1 w) s1"
    have low: "ts_low ?s2 v = Some i"
      using u1 i a(2,3) \<open>v \<noteq> w\<close> by (auto simp: ts_lower_def undisturbed_def)
    have "ts_low s1 x = ts_low s x" if "ts_index s x \<noteq> None" for x using u1(1) that new(1) unfolding undisturbed_def by metis
    then have u2: "undisturbed v s ?s2" using u1 by (auto simp: undisturbed_def ts_lower_def bounded_def)
    have "ts_index s x \<noteq> None \<Longrightarrow> ts_index s1 x \<noteq> None" for x using extends_index [OF new(2)] by blast
    then have "path_inv adj v ?s2" using a(4) u2 by (auto simp: path_inv_def undisturbed_def)
    then have "undisturbed v ?s2 s' \<and> ts_low s' v = Some i"
      using new(5) a u2 low extends_index [OF new(2) a(2)] by (auto simp: undisturbed_def)
    then show "undisturbed v s s' \<and> ts_low s' v = Some i"
      using undisturbed_trans [OF u2] new(2) by (auto simp: extends_def)
  qed
next
  case (on_stack v w ws s s')
  show ?case
  proof (intro allI impI)
    fix i st
    assume a: "ts_stack s = v # st" "ts_index s v = Some i" "ts_low s v = Some i" "path_inv adj v s"
      "set (w # ws) \<subseteq> set (adj_get adj v)"
    have "(v, w) \<in> edges_of adj" using a(5) by (simp add: edges_of_def)
    moreover have "(w, v) \<in> (edges_of adj)\<^sup>*" using a(4) on_stack(2) by (auto simp: path_inv_def)
    ultimately have "w = v" using assms by (auto simp: has_cycle_def)
    then have "ts_lower v (ts_index s w) s = s" using a by (simp add: ts_lower_def fun_upd_idem)
    then show "undisturbed v s s' \<and> ts_low s' v = Some i" using on_stack(4) a by auto
  qed
next
  case (finished v w ws s s')
  then show ?case by auto
qed

subsection \<open>Frames\<close>

text \<open>As many frames as there are unvisited nodes are enough.\<close>

lemma enough_frames:
  assumes "finite N" "\<And>x y. (x, y) \<in> edges_of adj \<Longrightarrow> y \<in> N"
  shows "(\<forall>v s. ts_index s v = None \<longrightarrow> v \<in> N \<longrightarrow> card (N - dom (ts_index s)) \<le> k \<longrightarrow> (\<exists>s'. strongconnect k adj v s = Some s')) \<and>
    (\<forall>v ws s. set ws \<subseteq> N \<longrightarrow> card (N - dom (ts_index s)) \<le> k \<longrightarrow> (\<exists>s'. connect_all k adj v ws s = Some s'))"
proof (induction k)
  have connect: "\<exists>s'. connect_all k adj v ws s = Some s'"
    if strong: "\<And>v s. ts_index s v = None \<Longrightarrow> v \<in> N \<Longrightarrow> card (N - dom (ts_index s)) \<le> k \<Longrightarrow> \<exists>s'. strongconnect k adj v s = Some s'"
      and "set ws \<subseteq> N" "card (N - dom (ts_index s)) \<le> k" for k v ws s
    using that(2,3)
  proof (induction ws arbitrary: s)
    case (Cons w ws)
    show ?case
    proof (cases "ts_index s w = None")
      case True
      then obtain s1 where s1: "strongconnect k adj w s = Some s1" using strong [OF True] Cons.prems by auto
      have "extends s s1" by (rule strongconnect_extends [OF s1 True])
      then have "dom (ts_index s) \<subseteq> dom (ts_index s1)" by (simp add: extends_def map_le_implies_dom_le)
      then have "card (N - dom (ts_index s1)) \<le> card (N - dom (ts_index s))"
        using assms(1) by (intro card_mono) auto
      then show ?thesis using Cons True s1 by auto
    qed (use Cons in auto)
  qed simp
  {
    case 0
    have "strongconnect 0 adj v s = None" for v s by simp
    moreover have "v \<notin> N" if "card (N - dom (ts_index s)) \<le> 0" "ts_index s v = None" for v s
      using that assms(1) by auto
    ultimately have strong: "\<exists>s'. strongconnect 0 adj v s = Some s'"
      if "ts_index s v = None" "v \<in> N" "card (N - dom (ts_index s)) \<le> 0" for v s using that by metis
    show ?case by (intro conjI allI impI; rule strong connect [OF strong]; assumption)
  next
    case (Suc k)
    have strong: "\<exists>s'. strongconnect (Suc k) adj v s = Some s'"
      if v: "ts_index s v = None" "v \<in> N" "card (N - dom (ts_index s)) \<le> Suc k" for v s
    proof -
      have "N - dom (ts_index (ts_enter v s)) = N - dom (ts_index s) - {v}" "v \<in> N - dom (ts_index s)"
        using v by (auto simp: ts_enter_def)
      then have "card (N - dom (ts_index (ts_enter v s))) \<le> k" using v(3) assms(1) by (simp add: card_Diff_singleton)
      moreover have "set (adj_get adj v) \<subseteq> N" using assms(2) by (auto simp: edges_of_def)
      ultimately show ?thesis using Suc by fastforce
    qed
    show ?case by (intro conjI allI impI; rule strong connect [OF strong]; assumption)
  }
qed

subsection \<open>Nothing found means no cycle\<close>

text \<open>The popped nodes, latest first: every edge of a node leads to itself or to one popped before it.\<close>

fun topo :: "('a \<times> 'a) set \<Rightarrow> 'a list \<Rightarrow> bool" where
  "topo E [] = True"
| "topo E (x # xs) = (topo E xs \<and> x \<notin> set xs \<and> E `` {x} \<subseteq> insert x (set xs))"

lemma topo_edge: "topo E xs \<Longrightarrow> x \<in> set xs \<Longrightarrow> (x, y) \<in> E \<Longrightarrow> y \<in> set xs"
  by (induction xs) auto

lemma topo_closed:
  assumes "topo E xs" "(x, y) \<in> E\<^sup>*" "x \<in> set xs"
  shows "y \<in> set xs"
  using assms(2,3) by (induction rule: rtrancl_induct) (use topo_edge [OF assms(1)] in auto)

lemma topo_acyclic: "topo E xs \<Longrightarrow> v \<in> set xs \<Longrightarrow> (v, w) \<in> E\<^sup>* \<Longrightarrow> (w, v) \<in> E\<^sup>* \<Longrightarrow> v = w"
proof (induction xs)
  case (Cons x xs)
  show ?case
  proof (cases "v \<in> set xs")
    case False
    then have "v = x" using Cons.prems by simp
    moreover have "w \<in> set (x # xs)" using topo_closed Cons.prems by metis
    moreover have "w \<notin> set xs" using topo_closed [of E xs w v] Cons.prems False by auto
    ultimately show ?thesis by simp
  qed (use Cons in simp)
qed simp

definition popped :: "('a \<times> 'a) set \<Rightarrow> 'a tarjan_state \<Rightarrow> 'a list \<Rightarrow> bool" where
  "popped E s ord \<longleftrightarrow> topo E ord \<and> set ord = dom (ts_index s) - set (ts_stack s) \<and>
     set (ts_on_stack s) = set (ts_stack s) \<and> set (ts_stack s) \<subseteq> dom (ts_index s) \<and> bounded s"

lemma extends_found: "extends s s' \<Longrightarrow> ts_found s' = [] \<Longrightarrow> ts_found s = []"
  by (auto simp: extends_def)

lemma extends_stack_between:
  assumes "extends s s1" "extends s1 s'" "ts_stack s' = ts_stack s"
  shows "ts_stack s1 = ts_stack s"
proof -
  obtain ys zs where "ts_stack s1 = zs @ ts_stack s" "ts_stack s' = ys @ ts_stack s1"
    using assms(1,2) unfolding extends_def by blast
  moreover from this have "ys @ zs = []" using assms(3) by (metis append.assoc append_self_conv2)
  ultimately show ?thesis by simp
qed

text \<open>A call that leaves the stack as it found it, with nothing found, popped exactly its own node.\<close>

lemma leave_restores:
  assumes "extends (ts_enter v s) s1" "ts_found (ts_leave v s1) = []" "ts_stack (ts_leave v s1) = ts_stack s"
  shows "ts_stack s1 = v # ts_stack s" "ts_low s1 v = ts_index s1 v" "ts_found s1 = []"
proof -
  obtain ys where ys: "ts_stack s1 = ys @ v # ts_stack s" using assms(1) by (auto simp: extends_def ts_enter_def)
  show low: "ts_low s1 v = ts_index s1 v" using assms(3) ys by (auto simp: ts_leave_def split: if_splits)
  then have "takeWhile (\<lambda>w. w \<noteq> v) (ts_stack s1) = []" "ts_found s1 = []"
    using assms(2) by (auto simp: ts_leave_def Let_def split: if_splits)
  then show "ts_stack s1 = v # ts_stack s" "ts_found s1 = []"
    using assms(3) low ys by (cases ys; auto simp: ts_leave_def Let_def split: if_splits)+
qed

lemma restoring_search:
  "(\<forall>v s s'. strongconnect k adj v s = Some s' \<longrightarrow> ts_index s v = None \<longrightarrow>
      (\<forall>ord. ts_found s' = [] \<longrightarrow> ts_stack s' = ts_stack s \<longrightarrow> popped (edges_of adj) s ord \<longrightarrow>
         (\<exists>ord'. popped (edges_of adj) s' ord' \<and> set ord \<subseteq> set ord' \<and> v \<in> set ord' \<and>
            (\<forall>x. ts_index s x \<noteq> None \<longrightarrow> ts_low s' x = ts_low s x)))) \<and>
   (\<forall>v ws s s'. connect_all k adj v ws s = Some s' \<longrightarrow>
      (\<forall>ord i l st. ts_found s' = [] \<longrightarrow> ts_stack s' = ts_stack s \<longrightarrow> popped (edges_of adj) s ord \<longrightarrow>
         ts_stack s = v # st \<longrightarrow> ts_index s v = Some i \<longrightarrow> ts_low s v = Some l \<longrightarrow> l \<le> i \<longrightarrow>
         (\<forall>x\<in>set st. the (ts_index s x) < i) \<longrightarrow>
         (\<exists>ord' l'. popped (edges_of adj) s' ord' \<and> set ord \<subseteq> set ord' \<and> ts_low s' v = Some l' \<and> l' \<le> l \<and>
            (l' = i \<longrightarrow> (\<forall>w\<in>set ws. w \<in> set ord' \<or> w = v)) \<and>
            (\<forall>x. x \<noteq> v \<longrightarrow> ts_index s x \<noteq> None \<longrightarrow> ts_low s' x = ts_low s x))))"
proof (induct rule: search_run)
  case (strong v s s1)
  show ?case
  proof (intro allI impI)
    fix ord
    assume a: "ts_found (ts_leave v s1) = []" "ts_stack (ts_leave v s1) = ts_stack s" "popped (edges_of adj) s ord"
    note r = leave_restores [OF strong(2) a(1,2)]
    let ?s0 = "ts_enter v s"
    have v: "v \<notin> set (ts_stack s)" using a(3) strong(1) by (auto simp: popped_def)
    have p0: "popped (edges_of adj) ?s0 ord" using a(3) strong(1) v by (auto simp: popped_def ts_enter_def bounded_def less_Suc_eq)
    have below: "the (ts_index ?s0 x) < ts_counter s" if "x \<in> set (ts_stack s)" for x
      using that a(3) v by (auto simp: popped_def bounded_def ts_enter_def)
    obtain ord1 l' where o: "popped (edges_of adj) s1 ord1" "set ord \<subseteq> set ord1" "ts_low s1 v = Some l'"
        "l' = ts_counter s \<longrightarrow> (\<forall>w\<in>set (adj_get adj v). w \<in> set ord1 \<or> w = v)"
        "\<forall>x. x \<noteq> v \<longrightarrow> ts_index ?s0 x \<noteq> None \<longrightarrow> ts_low s1 x = ts_low ?s0 x"
      using strong(3) [rule_format, of ord "ts_stack s" "ts_counter s" "ts_counter s"] r p0 below
      by (auto simp: ts_enter_def)
    have iv: "ts_index s1 v = Some (ts_counter s)" using extends_index [OF strong(2)] by (simp add: ts_enter_def)
    have l: "ts_leave v s1 = s1\<lparr>ts_stack := ts_stack s, ts_on_stack := filter (\<lambda>w. w \<noteq> v) (ts_on_stack s1)\<rparr>"
      by (rule leave_root [OF r(2,1)])
    have "v \<notin> set ord1" using o(1) r(1) by (auto simp: popped_def)
    moreover have "edges_of adj `` {v} \<subseteq> insert v (set ord1)" using o(3,4) r(2) iv by (auto simp: edges_of_def)
    ultimately have "topo (edges_of adj) (v # ord1)" using o(1) by (simp add: popped_def)
    then have "popped (edges_of adj) (ts_leave v s1) (v # ord1)"
      using o(1) r(1) v iv by (auto simp: popped_def l bounded_def)
    moreover have "ts_low (ts_leave v s1) x = ts_low s x" if "ts_index s x \<noteq> None" for x
    proof -
      have "x \<noteq> v" using that strong(1) by auto
      then show ?thesis using o(5) that by (auto simp: l ts_enter_def)
    qed
    ultimately show "\<exists>ord'. popped (edges_of adj) (ts_leave v s1) ord' \<and> set ord \<subseteq> set ord' \<and> v \<in> set ord' \<and>
        (\<forall>x. ts_index s x \<noteq> None \<longrightarrow> ts_low (ts_leave v s1) x = ts_low s x)"
      using o(2) by (intro exI [of _ "v # ord1"]) auto
  qed
next
  case (nil v s)
  then show ?case by auto
next
  case (new v w ws s s1 s')
  let ?s2 = "ts_lower v (ts_low s1 w) s1"
  show ?case
  proof (intro allI impI)
    fix ord i l st
    assume a: "ts_found s' = []" "ts_stack s' = ts_stack s" "popped (edges_of adj) s ord" "ts_stack s = v # st"
      "ts_index s v = Some i" "ts_low s v = Some l" "l \<le> i" "\<forall>x\<in>set st. the (ts_index s x) < i"
    have st: "ts_stack s1 = ts_stack s" using extends_stack_between [OF extends_lower [OF new(2)] new(3) a(2)] by simp
    have "ts_found s1 = []" using extends_found [OF new(3) a(1)] by simp
    then obtain ord1 where o1: "popped (edges_of adj) s1 ord1" "set ord \<subseteq> set ord1" "w \<in> set ord1"
        "\<forall>x. ts_index s x \<noteq> None \<longrightarrow> ts_low s1 x = ts_low s x"
      using new(4) st a(3) by blast
    have low: "ts_low ?s2 v = Some (min l (the (ts_low s1 w)))" using o1(4) a(5,6) by (simp add: ts_lower_def)
    have le: "min l (the (ts_low s1 w)) \<le> i" using a(7) by (simp add: min.coboundedI1)
    have p2: "popped (edges_of adj) ?s2 ord1" using o1(1) by (simp add: popped_def bounded_def)
    have idx: "\<forall>x\<in>set st. the (ts_index ?s2 x) < i"
    proof
      fix x assume x: "x \<in> set st"
      then obtain j where "ts_index s x = Some j" using a(3,4) by (auto simp: popped_def)
      then show "the (ts_index ?s2 x) < i" using extends_index [OF new(2)] a(8) x by fastforce
    qed
    obtain ord' l' where o: "popped (edges_of adj) s' ord'" "set ord1 \<subseteq> set ord'" "ts_low s' v = Some l'"
        "l' \<le> min l (the (ts_low s1 w))" "l' = i \<longrightarrow> (\<forall>w\<in>set ws. w \<in> set ord' \<or> w = v)"
        "\<forall>x. x \<noteq> v \<longrightarrow> ts_index ?s2 x \<noteq> None \<longrightarrow> ts_low s' x = ts_low ?s2 x"
      using new(5) [rule_format, of ord1 st i "min l (the (ts_low s1 w))"] a st p2 low idx le extends_index [OF new(2) a(5)] by auto
    have "ts_low s' x = ts_low s x" if "x \<noteq> v" "ts_index s x \<noteq> None" for x
    proof -
      have "ts_index s1 x \<noteq> None" using extends_index [OF new(2)] that(2) by auto
      then show ?thesis using o(6) o1(4) that by (simp add: ts_lower_def)
    qed
    then show "\<exists>ord' l'. popped (edges_of adj) s' ord' \<and> set ord \<subseteq> set ord' \<and> ts_low s' v = Some l' \<and> l' \<le> l \<and>
        (l' = i \<longrightarrow> (\<forall>w\<in>set (w # ws). w \<in> set ord' \<or> w = v)) \<and>
        (\<forall>x. x \<noteq> v \<longrightarrow> ts_index s x \<noteq> None \<longrightarrow> ts_low s' x = ts_low s x)"
      using o o1(2,3) by (intro exI [of _ ord'] exI [of _ l']) auto
  qed
next
  case (on_stack v w ws s s')
  let ?s2 = "ts_lower v (ts_index s w) s"
  show ?case
  proof (intro allI impI)
    fix ord i l st
    assume a: "ts_found s' = []" "ts_stack s' = ts_stack s" "popped (edges_of adj) s ord" "ts_stack s = v # st"
      "ts_index s v = Some i" "ts_low s v = Some l" "l \<le> i" "\<forall>x\<in>set st. the (ts_index s x) < i"
    let ?m = "min l (the (ts_index s w))"
    have low: "ts_low ?s2 v = Some ?m" using a(6) by (simp add: ts_lower_def)
    have le: "?m \<le> i" using a(7) by (simp add: min.coboundedI1)
    have p2: "popped (edges_of adj) ?s2 ord" using a(3) by (simp add: popped_def bounded_def)
    obtain ord' l' where o: "popped (edges_of adj) s' ord'" "set ord \<subseteq> set ord'" "ts_low s' v = Some l'" "l' \<le> ?m"
        "l' = i \<longrightarrow> (\<forall>w\<in>set ws. w \<in> set ord' \<or> w = v)"
        "\<forall>x. x \<noteq> v \<longrightarrow> ts_index ?s2 x \<noteq> None \<longrightarrow> ts_low s' x = ts_low ?s2 x"
      using on_stack(4) [rule_format, of ord st i ?m] a p2 low le by auto
    have "w = v \<or> the (ts_index s w) < i" using on_stack(2) a(3,4,8) by (auto simp: popped_def)
    then show "\<exists>ord' l'. popped (edges_of adj) s' ord' \<and> set ord \<subseteq> set ord' \<and> ts_low s' v = Some l' \<and> l' \<le> l \<and>
        (l' = i \<longrightarrow> (\<forall>w\<in>set (w # ws). w \<in> set ord' \<or> w = v)) \<and>
        (\<forall>x. x \<noteq> v \<longrightarrow> ts_index s x \<noteq> None \<longrightarrow> ts_low s' x = ts_low s x)"
      using o by (intro exI [of _ ord'] exI [of _ l']) (auto simp: ts_lower_def)
  qed
next
  case (finished v w ws s s')
  show ?case
  proof (intro allI impI)
    fix ord i l st
    assume a: "ts_found s' = []" "ts_stack s' = ts_stack s" "popped (edges_of adj) s ord" "ts_stack s = v # st"
      "ts_index s v = Some i" "ts_low s v = Some l" "l \<le> i" "\<forall>x\<in>set st. the (ts_index s x) < i"
    have "w \<in> set ord" using a(3) finished(1,2) by (auto simp: popped_def)
    then show "\<exists>ord' l'. popped (edges_of adj) s' ord' \<and> set ord \<subseteq> set ord' \<and> ts_low s' v = Some l' \<and> l' \<le> l \<and>
        (l' = i \<longrightarrow> (\<forall>w\<in>set (w # ws). w \<in> set ord' \<or> w = v)) \<and>
        (\<forall>x. x \<noteq> v \<longrightarrow> ts_index s x \<noteq> None \<longrightarrow> ts_low s' x = ts_low s x)"
      using finished(4) [rule_format, of ord st i l] a by (auto simp: subset_iff)
  qed
qed

subsection \<open>A root call empties the stack\<close>

definition low_inv :: "nat \<Rightarrow> 'a tarjan_state \<Rightarrow> bool" where
  "low_inv b s \<longleftrightarrow> b \<le> ts_counter s \<and> distinct (ts_stack s) \<and> set (ts_stack s) \<subseteq> dom (ts_index s) \<and>
     (\<forall>x\<in>set (ts_on_stack s). \<exists>i. ts_index s x = Some i \<and> b \<le> i) \<and>
     (\<forall>x i. ts_index s x = Some i \<longrightarrow> b \<le> i \<longrightarrow> (\<exists>l. ts_low s x = Some l \<and> b \<le> l \<and> l \<le> i))"

lemma low_inv_enter: "low_inv b s \<Longrightarrow> ts_index s v = None \<Longrightarrow> low_inv b (ts_enter v s)"
  by (auto simp: low_inv_def ts_enter_def)

lemma low_inv_lower:
  assumes "low_inv b s" "ts_index s v = Some i" "b \<le> i" "b \<le> m"
  shows "low_inv b (ts_lower v (Some m) s)"
proof -
  obtain l where "ts_low s v = Some l" "b \<le> l" "l \<le> i" using assms(1-3) unfolding low_inv_def by blast
  then show ?thesis using assms by (auto simp: low_inv_def ts_lower_def min.coboundedI1)
qed

lemma low_inv_leave: "low_inv b s \<Longrightarrow> low_inv b (ts_leave v s)"
proof -
  assume inv: "low_inv b s"
  have "distinct (dropWhile (\<lambda>w. w \<noteq> v) (ts_stack s))" using inv by (simp add: low_inv_def distinct_dropWhile)
  then have "distinct (tl (dropWhile (\<lambda>w. w \<noteq> v) (ts_stack s)))" by (rule distinct_tl)
  moreover have "set (tl (dropWhile (\<lambda>w. w \<noteq> v) (ts_stack s))) \<subseteq> set (ts_stack s)"
  proof
    fix x assume "x \<in> set (tl (dropWhile (\<lambda>w. w \<noteq> v) (ts_stack s)))"
    then have "x \<in> set (dropWhile (\<lambda>w. w \<noteq> v) (ts_stack s))" by (cases "dropWhile (\<lambda>w. w \<noteq> v) (ts_stack s)") simp_all
    then show "x \<in> set (ts_stack s)" by (rule set_dropWhileD)
  qed
  ultimately show ?thesis using inv by (auto simp: low_inv_def ts_leave_def Let_def)
qed

lemma low_search:
  "(\<forall>v s s'. strongconnect k adj v s = Some s' \<longrightarrow> ts_index s v = None \<longrightarrow>
      (\<forall>b. low_inv b s \<longrightarrow> low_inv b s' \<and> ts_index s' v = Some (ts_counter s))) \<and>
   (\<forall>v ws s s'. connect_all k adj v ws s = Some s' \<longrightarrow>
      (\<forall>b i. low_inv b s \<longrightarrow> ts_index s v = Some i \<longrightarrow> b \<le> i \<longrightarrow> low_inv b s'))"
proof (induct rule: search_run)
  case (strong v s s1)
  show ?case
  proof (intro allI impI)
    fix b assume inv: "low_inv b s"
    have iv: "ts_index s1 v = Some (ts_counter s)" using extends_index [OF strong(2)] by (simp add: ts_enter_def)
    have "low_inv b s1"
      using strong(3) low_inv_enter [OF inv strong(1)] inv by (auto simp: ts_enter_def low_inv_def)
    moreover have "ts_index (ts_leave v s1) = ts_index s1" by (simp add: ts_leave_def Let_def)
    ultimately show "low_inv b (ts_leave v s1) \<and> ts_index (ts_leave v s1) v = Some (ts_counter s)"
      using low_inv_leave iv by simp
  qed
next
  case (new v w ws s s1 s')
  show ?case
  proof (intro allI impI)
    fix b i assume a: "low_inv b s" "ts_index s v = Some i" "b \<le> i"
    have s1: "low_inv b s1" "ts_index s1 w = Some (ts_counter s)" using new(4) a(1) by simp_all
    have "b \<le> ts_counter s" using a(1) by (simp add: low_inv_def)
    then obtain l where l: "ts_low s1 w = Some l" "b \<le> l" using s1 unfolding low_inv_def by blast
    have "low_inv b (ts_lower v (Some l) s1)"
      by (rule low_inv_lower [OF s1(1) extends_index [OF new(2) a(2)] a(3) l(2)])
    then show "low_inv b s'" using new(5) l(1) extends_index [OF new(2) a(2)] a(3) by auto
  qed
next
  case (on_stack v w ws s s')
  show ?case
  proof (intro allI impI)
    fix b i assume a: "low_inv b s" "ts_index s v = Some i" "b \<le> i"
    obtain j where j: "ts_index s w = Some j" "b \<le> j" using a(1) on_stack(2) unfolding low_inv_def by blast
    have "low_inv b (ts_lower v (Some j) s)" by (rule low_inv_lower [OF a j(2)])
    then show "low_inv b s'" using on_stack(4) j(1) a by auto
  qed
qed auto

lemma root_empties:
  assumes "strongconnect k adj v s = Some s'" "ts_index s v = None" "ts_stack s = []" "ts_on_stack s = []" "bounded s"
  shows "ts_stack s' = []"
proof -
  obtain k1 s1 where k: "k = Suc k1" "connect_all k1 adj v (adj_get adj v) (ts_enter v s) = Some s1" "s' = ts_leave v s1"
    using assms(1) by (cases k) auto
  have "low_inv (ts_counter s) s" using assms(3-5) by (fastforce simp: low_inv_def bounded_def)
  then have "low_inv (ts_counter s) (ts_enter v s)" using assms(2) by (rule low_inv_enter)
  then have inv: "low_inv (ts_counter s) s1"
    using low_search [of k1 adj] k(2) by (auto simp: ts_enter_def)
  have ext: "extends (ts_enter v s) s1" using search_extends [of k1 adj] k(2) by blast
  have iv: "ts_index s1 v = Some (ts_counter s)" using extends_index [OF ext] by (simp add: ts_enter_def)
  then obtain l where "ts_low s1 v = Some l" "ts_counter s \<le> l" "l \<le> ts_counter s" using inv unfolding low_inv_def by blast
  then have low: "ts_low s1 v = ts_index s1 v" using iv by simp
  obtain ys where ys: "ts_stack s1 = ys @ [v]" using ext assms(3) by (auto simp: extends_def ts_enter_def)
  then have "v \<notin> set ys" using inv by (simp add: low_inv_def)
  then have "dropWhile (\<lambda>w. w \<noteq> v) (ys @ [v]) = [v]" by (induction ys) auto
  then have "dropWhile (\<lambda>w. w \<noteq> v) (ts_stack s1) = [v]" by (simp add: ys)
  then show ?thesis using low by (simp add: k(3) ts_leave_def Let_def)
qed

subsection \<open>Correctness of the search\<close>

definition idle :: "('a \<times> 'a) set \<Rightarrow> 'a tarjan_state \<Rightarrow> bool" where
  "idle E s \<longleftrightarrow> ts_found s = [] \<and> ts_stack s = [] \<and> (\<exists>ord. popped E s ord)"

lemma idle_root:
  assumes "idle (edges_of adj) s" "ts_index s v = None" "strongconnect k adj v s = Some s'" "ts_found s' = []"
  shows "idle (edges_of adj) s'" "ts_index s' v \<noteq> None" "dom (ts_index s) \<subseteq> dom (ts_index s')"
proof -
  obtain ord where ord: "popped (edges_of adj) s ord" and s: "ts_stack s = []" using assms(1) by (auto simp: idle_def)
  have st: "ts_stack s' = []"
    using root_empties [OF assms(3,2) s] ord s by (auto simp: popped_def)
  then obtain ord' where "popped (edges_of adj) s' ord'" "v \<in> set ord'"
    using restoring_search [of k adj, THEN conjunct1, rule_format, OF assms(3,2,4) _ ord] s by auto
  then show "idle (edges_of adj) s'" "ts_index s' v \<noteq> None" using st assms(4) by (auto simp: idle_def popped_def)
  show "dom (ts_index s) \<subseteq> dom (ts_index s')"
    using strongconnect_extends [OF assms(3,2)] by (simp add: extends_def map_le_implies_dom_le)
qed

lemma roots_sound:
  "tarjan_roots k adj vs s = Some s' \<Longrightarrow> idle (edges_of adj) s \<Longrightarrow> ts_found s' = [] \<Longrightarrow>
   idle (edges_of adj) s' \<and> set vs \<subseteq> dom (ts_index s') \<and> dom (ts_index s) \<subseteq> dom (ts_index s')"
proof (induction vs arbitrary: s)
  case (Cons v vs)
  obtain s1 where s1: "(if ts_index s v = None then strongconnect k adj v s else Some s) = Some s1"
      "ts_found s1 \<noteq> [] \<longrightarrow> s' = s1" "ts_found s1 = [] \<longrightarrow> tarjan_roots k adj vs s1 = Some s'"
  proof (cases "if ts_index s v = None then strongconnect k adj v s else Some s")
    case None
    then show ?thesis using Cons.prems(1) by simp
  next
    case (Some s1)
    show ?thesis by (rule that [of s1]) (use Some Cons.prems(1) in \<open>simp_all split: if_splits\<close>)
  qed
  then have f: "ts_found s1 = []" using Cons.prems(3) by blast
  have i: "idle (edges_of adj) s1" "v \<in> dom (ts_index s1)" "dom (ts_index s) \<subseteq> dom (ts_index s1)"
    using s1(1) Cons.prems(2) idle_root [OF Cons.prems(2) _ _ f] by (auto split: if_splits)
  from Cons.IH [OF s1(3) [rule_format, OF f] i(1) Cons.prems(3)] show ?case using i(2,3) by (simp add: subset_iff)
qed auto

lemma roots_complete:
  assumes "\<not> has_cycle (edges_of adj)"
  shows "tarjan_roots k adj vs s = Some s' \<Longrightarrow> ts_found s = [] \<Longrightarrow> ts_stack s = [] \<Longrightarrow> set (ts_on_stack s) = {} \<Longrightarrow>
    bounded s \<Longrightarrow> ts_found s' = []"
proof (induction vs arbitrary: s)
  case (Cons v vs)
  show ?case
  proof (cases "ts_index s v = None")
    case True
    then obtain s1 where s1: "strongconnect k adj v s = Some s1" using Cons.prems(1) by (auto split: option.splits)
    have "path_inv adj v s" using Cons.prems by (simp add: path_inv_def)
    then have "undisturbed v s s1" using acyclic_search [OF assms, of k] s1 True by blast
    then show ?thesis using Cons.IH [of s1] Cons.prems s1 True by (auto simp: undisturbed_def)
  next
    case False
    then show ?thesis using Cons by auto
  qed
qed simp

lemma roots_return:
  assumes "finite N" "\<And>x y. (x, y) \<in> edges_of adj \<Longrightarrow> y \<in> N"
  shows "set vs \<subseteq> N \<Longrightarrow> card (N - dom (ts_index s)) \<le> k \<Longrightarrow> \<exists>s'. tarjan_roots k adj vs s = Some s'"
proof (induction vs arbitrary: s)
  case (Cons v vs)
  show ?case
  proof (cases "ts_index s v = None")
    case True
    have "\<forall>v s. ts_index s v = None \<longrightarrow> v \<in> N \<longrightarrow> card (N - dom (ts_index s)) \<le> k \<longrightarrow> (\<exists>s'. strongconnect k adj v s = Some s')"
      using enough_frames [of N adj k, OF assms] by (rule conjunct1)
    from this [rule_format, OF True] obtain s1 where s1: "strongconnect k adj v s = Some s1" using Cons.prems by auto
    have "dom (ts_index s) \<subseteq> dom (ts_index s1)"
      using strongconnect_extends [OF s1 True] by (simp add: extends_def map_le_implies_dom_le)
    then have "card (N - dom (ts_index s1)) \<le> card (N - dom (ts_index s))" using assms(1) by (intro card_mono) auto
    then show ?thesis using Cons True s1 by auto
  qed (use Cons in auto)
qed simp

lemma idle_init: "idle E ts_init" "bounded ts_init"
  by (auto simp: idle_def ts_init_def popped_def bounded_def intro!: exI [of _ "[]"])

text \<open>A search that returns is right, whatever the order in which the nodes are visited.\<close>

lemma tarjan_from_sound:
  assumes "tarjan_from k adj nodes = Some r"
    and "\<And>x y. (x, y) \<in> edges_of adj \<Longrightarrow> x \<in> set nodes \<and> y \<in> set nodes"
  shows "r \<noteq> None \<longleftrightarrow> has_cycle (edges_of adj)"
proof -
  obtain s where s: "tarjan_roots k adj nodes ts_init = Some s"
    and r: "r = (case ts_found s of [] \<Rightarrow> None | c # _ \<Rightarrow> Some c)"
    using assms(1) by (auto simp: tarjan_from_def)
  have "\<not> has_cycle (edges_of adj)" if f: "ts_found s = []"
  proof
    assume "has_cycle (edges_of adj)"
    then obtain v w where c: "v \<noteq> w" "(v, w) \<in> (edges_of adj)\<^sup>*" "(w, v) \<in> (edges_of adj)\<^sup>*" by (auto simp: has_cycle_def)
    then obtain u where "(v, u) \<in> edges_of adj" by (metis converse_rtranclE)
    then have "v \<in> set nodes" using assms(2) by blast
    moreover obtain ord where ord: "topo (edges_of adj) ord" "set ord = dom (ts_index s)" "set nodes \<subseteq> dom (ts_index s)"
      using roots_sound [OF s idle_init(1) f] by (auto simp: idle_def popped_def)
    ultimately have "v \<in> set ord" by auto
    from topo_acyclic [OF ord(1) this c(2,3)] show False using c(1) by simp
  qed
  moreover have "ts_found s = []" if "\<not> has_cycle (edges_of adj)"
    by (rule roots_complete [OF that s]) (use idle_init in \<open>auto simp: ts_init_def\<close>)
  ultimately have "ts_found s = [] \<longleftrightarrow> \<not> has_cycle (edges_of adj)" by blast
  then show ?thesis unfolding r by (cases "ts_found s") simp_all
qed

text \<open>One frame per node is enough for it to return.\<close>

lemma tarjan_from_returns:
  assumes "\<And>x y. (x, y) \<in> edges_of adj \<Longrightarrow> y \<in> set nodes" "card (set nodes) \<le> k"
  shows "\<exists>r. tarjan_from k adj nodes = Some r"
  using roots_return [of "set nodes" adj nodes ts_init k] assms by (auto simp: ts_init_def tarjan_from_def)

lemma all_nodes_cover: "(x, y) \<in> edges_of adj \<Longrightarrow> x \<in> set (all_nodes adj) \<and> y \<in> set (all_nodes adj)"
proof -
  assume "(x, y) \<in> edges_of adj"
  then obtain ns where "map_of adj x = Some ns" "y \<in> set ns"
    by (cases "map_of adj x") (auto simp: edges_of_def adj_get_def)
  then have "(x, ns) \<in> set adj" "y \<in> set ns" by (auto dest: map_of_SomeD)
  then show ?thesis by (force simp: all_nodes_def)
qed

lemma tarjan_find_cycle_sound: "tarjan_find_cycle k adj = Some r \<Longrightarrow> r \<noteq> None \<longleftrightarrow> has_cycle (edges_of adj)"
  unfolding tarjan_find_cycle_def by (rule tarjan_from_sound [OF _ all_nodes_cover])

lemma tarjan_find_cycle_returns: "card (set (all_nodes adj)) \<le> k \<Longrightarrow> \<exists>r. tarjan_find_cycle k adj = Some r"
  unfolding tarjan_find_cycle_def by (rule tarjan_from_returns) (simp_all add: all_nodes_cover)

lemma all_nodes_build: "set (all_nodes (build_adjacency_from_edges edges)) = fst ` set edges \<union> snd ` set edges"
proof -
  have cons: "set (all_nodes ((k, ns) # m)) = insert k (set ns \<union> set (all_nodes m))" for k ns and m :: "'a adjacency"
    by (auto simp: all_nodes_def)
  have add: "set (all_nodes (adj_add s t adj)) = {s, t} \<union> set (all_nodes adj)" for s t and adj :: "'a adjacency"
  proof (induction s t adj rule: adj_add.induct)
    case (1 s t)
    show ?case by (simp add: all_nodes_def)
  next
    case (2 s t k ns m)
    then show ?case by (cases "k = s") (auto simp: cons)
  qed
  have "set (all_nodes (fold (\<lambda>(s, t). adj_add s t) edges adj)) = fst ` set edges \<union> snd ` set edges \<union> set (all_nodes adj)" for adj
    by (induction edges arbitrary: adj) (simp, clarsimp simp: add, blast)
  then show ?thesis by (simp add: build_adjacency_from_edges_def all_nodes_def)
qed

end
