(* ===== verification/Link_Types.thy ===== *)
theory Link_Types
  imports Loom_Prelude "HOL-Library.List_Lexorder" "HOL-Library.Char_ord"
begin

text \<open>
  The link types of the traceability engine (\<^verbatim>\<open>link_types/\<close>): the validation of a tenant-authored definition
  (\<^verbatim>\<open>schema.py\<close>), the built-in types (\<^verbatim>\<open>builtin.py\<close>), the grandfathered pairs (\<^verbatim>\<open>grandfathered.py\<close>) and the matching
  of endpoint types (\<^verbatim>\<open>catalog.py\<close>).

  Python's \<open>ValidationError\<close> carries a text; here every \<open>raise\<close> has its own constructor of \<open>link_error\<close>. A weight is
  a rational; built-in weights are the decimal literals of the source. Umlauts are Latin-1 characters.
\<close>

subsection \<open>Values\<close>

datatype json =
    JNull
  | JBool bool
  | JInt int
  | JFloat rat
  | JStr string
  | JList "json list"
  | JObj "(string \<times> json) list"

record link_def =
  ld_label :: "(string \<times> (string \<times> string) list) list"
  ld_pairs :: "(string \<times> string) list"
  ld_coverage_relevant :: bool
  ld_suspect_rule :: string
  ld_impact_weight :: rat
  ld_manual_creatable :: bool
  ld_system_owned :: bool
  ld_active :: bool
  ld_built_in :: bool

text \<open>
  \<open>UnhashableRule\<close> is the \<open>TypeError\<close> of a membership test of a list or object in a \<open>frozenset\<close>; all others up to
  \<open>PairNotAllowed\<close> are \<open>ValidationError\<close>s.
\<close>

datatype link_error =
    DefinitionNotObject string
  | UnknownFields string "string list"
  | MissingFields string "string list"
  | FlagNotBoolean string string
  | LabelNotObject string
  | LabelLanguageMissing string string
  | LabelNotText string string string
  | PairsNotList string
  | PairNotObject string nat
  | PairSideNotText string nat string
  | PairSideTooLong string nat string nat
  | PairSideManyTags string nat string
  | PairSideEmptyTag string nat string
  | PairSideNoSubtypes string nat string
  | UnknownSuspectRule string json
  | UnhashableRule
  | WeightNotNumber string
  | WeightNegative string rat
  | KeyEmpty
  | KeyExists string
  | KeyNotFound string
  | FlagLocked string string
  | SystemOwnedDelete string
  | NoDefault string
  | UnknownLinkType string "string list"
  | NotManuallyCreatable string
  | PairNotAllowed string string string "(string \<times> string) list"

subsection \<open>Validation of a definition\<close>

definition SUSPECT_RULES :: "string list" where
  "SUSPECT_RULES =
     [''none'', ''target_change_flags_source'', ''source_change_flags_target'', ''parent_change_flags_children'']"

definition LANGS :: "string list" where
  "LANGS = [''de'', ''en'']"

definition PERSPECTIVES :: "string list" where
  "PERSPECTIVES = [''downstream'', ''upstream'', ''neutral'']"

definition OPTIONAL_DEFAULTS :: "(string \<times> json) list" where
  "OPTIONAL_DEFAULTS =
     [(''coverage_relevant'', JBool False), (''manual_creatable'', JBool True), (''system_owned'', JBool False),
      (''active'', JBool True), (''built_in'', JBool False)]"

definition REQUIRED :: "string list" where
  "REQUIRED = [''label'', ''allowed_pairs'', ''suspect_rule'', ''impact_weight'']"

definition KNOWN :: "string list" where
  "KNOWN = REQUIRED @ map fst OPTIONAL_DEFAULTS"

definition MAX_PAIR_SIDE_LENGTH :: nat where
  "MAX_PAIR_SIDE_LENGTH = 80"

definition SUBTYPE_FIELDS :: "(string \<times> string) list" where
  "SUBTYPE_FIELDS = [(''ArchitectureElement'', ''element_type''), (''Document'', ''kind'')]"

text \<open>\<open>[f x for x in xs]\<close> where \<open>f\<close> may raise.\<close>

fun map_res :: "('a \<Rightarrow> 'e + 'b) \<Rightarrow> 'a list \<Rightarrow> 'e + 'b list" where
  "map_res f [] = Inr []"
| "map_res f (x # xs) = res_bind (f x) (\<lambda>y. res_bind (map_res f xs) (\<lambda>ys. Inr (y # ys)))"

definition label_text :: "string \<Rightarrow> string \<Rightarrow> (string \<times> json) list \<Rightarrow> string \<Rightarrow> link_error + string \<times> string" where
  "label_text key lang entry perspective =
     (case map_of entry perspective of
        Some (JStr v) \<Rightarrow> if py_strip v = [] then Inl (LabelNotText key lang perspective) else Inr (perspective, v)
      | _ \<Rightarrow> Inl (LabelNotText key lang perspective))"

definition validate_label :: "string \<Rightarrow> json \<Rightarrow> link_error + (string \<times> (string \<times> string) list) list" where
  "validate_label key label =
     (case label of
        JObj langs \<Rightarrow>
          map_res (\<lambda>lang. case map_of langs lang of
              Some (JObj entry) \<Rightarrow>
                res_bind (map_res (label_text key lang entry) PERSPECTIVES) (\<lambda>ps. Inr (lang, ps))
            | _ \<Rightarrow> Inl (LabelLanguageMissing key lang)) LANGS
      | _ \<Rightarrow> Inl (LabelNotObject key))"

definition COLON :: char where
  "COLON = CHR '':''"

definition before_colon :: "string \<Rightarrow> string" where
  "before_colon s = takeWhile (\<lambda>c. c \<noteq> COLON) s"

definition after_colon :: "string \<Rightarrow> string" where
  "after_colon s = tl (dropWhile (\<lambda>c. c \<noteq> COLON) s)"

definition validate_pair_side :: "string \<Rightarrow> nat \<Rightarrow> string \<Rightarrow> string \<Rightarrow> link_error + string" where
  "validate_pair_side key index side v =
     (if length v > MAX_PAIR_SIDE_LENGTH then Inl (PairSideTooLong key index side (length v))
      else if COLON \<notin> set v then Inr v
      else if count_list v COLON > 1 then Inl (PairSideManyTags key index side)
      else if after_colon v = [] \<or> list_ex py_space v then Inl (PairSideEmptyTag key index side)
      else if map_of SUBTYPE_FIELDS (before_colon v) = None then Inl (PairSideNoSubtypes key index side)
      else Inr (before_colon v @ COLON # py_lower (after_colon v)))"

definition pair_side_text :: "string \<Rightarrow> nat \<Rightarrow> (string \<times> json) list \<Rightarrow> string \<Rightarrow> link_error + string" where
  "pair_side_text key index pair side =
     (case map_of pair side of
        Some (JStr v) \<Rightarrow> if py_strip v = [] then Inl (PairSideNotText key index side) else Inr v
      | _ \<Rightarrow> Inl (PairSideNotText key index side))"

definition validate_pair :: "string \<Rightarrow> nat \<times> json \<Rightarrow> link_error + string \<times> string" where
  "validate_pair key ip =
     (case snd ip of
        JObj pair \<Rightarrow>
          res_bind (pair_side_text key (fst ip) pair ''source_type'') (\<lambda>s.
          res_bind (pair_side_text key (fst ip) pair ''target_type'') (\<lambda>t.
          res_bind (validate_pair_side key (fst ip) ''source_type'' s) (\<lambda>s'.
          res_bind (validate_pair_side key (fst ip) ''target_type'' t) (\<lambda>t'. Inr (s', t')))))
      | _ \<Rightarrow> Inl (PairNotObject key (fst ip)))"

definition validate_pairs :: "string \<Rightarrow> json \<Rightarrow> link_error + (string \<times> string) list" where
  "validate_pairs key pairs =
     (case pairs of
        JList ps \<Rightarrow> map_res (validate_pair key) (enumerate 0 ps)
      | _ \<Rightarrow> Inl (PairsNotList key))"

definition validate_suspect_rule :: "string \<Rightarrow> json \<Rightarrow> link_error + string" where
  "validate_suspect_rule key rule =
     (case rule of
        JStr r \<Rightarrow> if r \<in> set SUSPECT_RULES then Inr r else Inl (UnknownSuspectRule key rule)
      | JList _ \<Rightarrow> Inl UnhashableRule
      | JObj _ \<Rightarrow> Inl UnhashableRule
      | _ \<Rightarrow> Inl (UnknownSuspectRule key rule))"

definition validate_weight :: "string \<Rightarrow> json \<Rightarrow> link_error + rat" where
  "validate_weight key weight =
     (case weight of
        JInt n \<Rightarrow> if n < 0 then Inl (WeightNegative key (of_int n)) else Inr (of_int n)
      | JFloat q \<Rightarrow> if q < 0 then Inl (WeightNegative key q) else Inr q
      | _ \<Rightarrow> Inl (WeightNotNumber key))"

definition flag_value :: "string \<Rightarrow> (string \<times> json) list \<Rightarrow> string \<Rightarrow> link_error + bool" where
  "flag_value key fs flag =
     (case (case map_of fs flag of Some v \<Rightarrow> Some v | None \<Rightarrow> map_of OPTIONAL_DEFAULTS flag) of
        Some (JBool b) \<Rightarrow> Inr b
      | _ \<Rightarrow> Inl (FlagNotBoolean key flag))"

definition the_field :: "(string \<times> json) list \<Rightarrow> string \<Rightarrow> json" where
  "the_field fs f = (case map_of fs f of Some v \<Rightarrow> v | None \<Rightarrow> JNull)"

definition validate_definition_json :: "json \<Rightarrow> string \<Rightarrow> link_error + link_def" where
  "validate_definition_json payload key =
     (case payload of
        JObj fs \<Rightarrow>
          (let unknown = filter (\<lambda>f. f \<notin> set KNOWN) (map fst fs);
               missing = filter (\<lambda>f. f \<notin> set (map fst fs)) REQUIRED
           in if unknown \<noteq> [] then Inl (UnknownFields key (sort unknown))
              else if missing \<noteq> [] then Inl (MissingFields key missing)
              else res_bind (validate_label key (the_field fs ''label'')) (\<lambda>label.
                   res_bind (validate_pairs key (the_field fs ''allowed_pairs'')) (\<lambda>pairs.
                   res_bind (validate_suspect_rule key (the_field fs ''suspect_rule'')) (\<lambda>rule.
                   res_bind (validate_weight key (the_field fs ''impact_weight'')) (\<lambda>weight.
                   res_bind (flag_value key fs ''coverage_relevant'') (\<lambda>coverage.
                   res_bind (flag_value key fs ''manual_creatable'') (\<lambda>manual.
                   res_bind (flag_value key fs ''system_owned'') (\<lambda>system.
                   res_bind (flag_value key fs ''active'') (\<lambda>active.
                   res_bind (flag_value key fs ''built_in'') (\<lambda>built_in.
                   Inr \<lparr>ld_label = label, ld_pairs = pairs, ld_coverage_relevant = coverage,
                        ld_suspect_rule = rule, ld_impact_weight = weight, ld_manual_creatable = manual,
                        ld_system_owned = system, ld_active = active, ld_built_in = built_in\<rparr>))))))))))
      | _ \<Rightarrow> Inl (DefinitionNotObject key))"

subsection \<open>Built-in types\<close>

definition builtin_derives_from :: link_def where
  "builtin_derives_from =
     \<lparr>ld_label =
        [(''de'', [(''downstream'', ''leitet sich ab von''), (''upstream'', ''ist Grundlage f'' @ [CHR 0xFC] @ ''r''), (''neutral'', ''Ableitung'')]),
         (''en'', [(''downstream'', ''derives from''), (''upstream'', ''is basis for''), (''neutral'', ''Derivation'')])],
      ld_pairs = [(''Requirement'', ''Requirement''), (''Requirement'', ''StakeholderNeed''),
        (''StakeholderNeed'', ''StakeholderNeed''),
        (''ArchitectureElement'', ''ArchitectureElement'')],
      ld_coverage_relevant = False, ld_suspect_rule = ''target_change_flags_source'', ld_impact_weight = 1,
      ld_manual_creatable = True, ld_system_owned = False, ld_active = True, ld_built_in = True\<rparr>"

definition builtin_decomposes :: link_def where
  "builtin_decomposes =
     \<lparr>ld_label =
        [(''de'', [(''downstream'', ''zerlegt sich in''), (''upstream'', ''ist Teil von''), (''neutral'', ''Zerlegung'')]),
         (''en'', [(''downstream'', ''decomposes into''), (''upstream'', ''is part of''), (''neutral'', ''Decomposition'')])],
      ld_pairs = [(''Requirement'', ''Requirement''), (''ArchitectureElement'', ''ArchitectureElement''),
        (''Document'', ''WorkItem''), (''WorkItem'', ''WorkItem'')],
      ld_coverage_relevant = False, ld_suspect_rule = ''parent_change_flags_children'', ld_impact_weight = 1,
      ld_manual_creatable = True, ld_system_owned = False, ld_active = True, ld_built_in = True\<rparr>"

definition builtin_refines :: link_def where
  "builtin_refines =
     \<lparr>ld_label =
        [(''de'', [(''downstream'', ''verfeinert''), (''upstream'', ''wird verfeinert durch''), (''neutral'', ''Verfeinerung'')]),
         (''en'', [(''downstream'', ''refines''), (''upstream'', ''is refined by''), (''neutral'', ''Refinement'')])],
      ld_pairs = [(''Requirement'', ''Requirement'')],
      ld_coverage_relevant = False, ld_suspect_rule = ''target_change_flags_source'', ld_impact_weight = 4/5,
      ld_manual_creatable = True, ld_system_owned = False, ld_active = True, ld_built_in = True\<rparr>"

definition builtin_satisfies :: link_def where
  "builtin_satisfies =
     \<lparr>ld_label =
        [(''de'', [(''downstream'', ''erf'' @ [CHR 0xFC] @ ''llt''), (''upstream'', ''wird erf'' @ [CHR 0xFC] @ ''llt von''), (''neutral'', ''Erf'' @ [CHR 0xFC] @ ''llung'')]),
         (''en'', [(''downstream'', ''satisfies''), (''upstream'', ''is satisfied by''), (''neutral'', ''Satisfaction'')])],
      ld_pairs = [(''Requirement'', ''Goal''), (''StakeholderNeed'', ''Goal''),
        (''Requirement'', ''ArchitectureElement:function'')],
      ld_coverage_relevant = True, ld_suspect_rule = ''target_change_flags_source'', ld_impact_weight = 1,
      ld_manual_creatable = True, ld_system_owned = False, ld_active = True, ld_built_in = True\<rparr>"

definition builtin_performs :: link_def where
  "builtin_performs =
     \<lparr>ld_label =
        [(''de'', [(''downstream'', ''f'' @ [CHR 0xFC] @ ''hrt aus''), (''upstream'', ''wird ausgef'' @ [CHR 0xFC] @ ''hrt von''), (''neutral'', ''Funktionszuordnung'')]),
         (''en'', [(''downstream'', ''performs''), (''upstream'', ''is performed by''), (''neutral'', ''Function allocation'')])],
      ld_pairs = [(''ArchitectureElement'', ''ArchitectureElement:function'')],
      ld_coverage_relevant = False, ld_suspect_rule = ''target_change_flags_source'', ld_impact_weight = 4/5,
      ld_manual_creatable = True, ld_system_owned = False, ld_active = True, ld_built_in = True\<rparr>"

definition builtin_realizes :: link_def where
  "builtin_realizes =
     \<lparr>ld_label =
        [(''de'', [(''downstream'', ''realisiert''), (''upstream'', ''wird realisiert durch''), (''neutral'', ''Realisierung'')]),
         (''en'', [(''downstream'', ''realizes''), (''upstream'', ''is realized by''), (''neutral'', ''Realization'')])],
      ld_pairs = [(''Requirement'', ''Goal'')],
      ld_coverage_relevant = False, ld_suspect_rule = ''target_change_flags_source'', ld_impact_weight = 4/5,
      ld_manual_creatable = True, ld_system_owned = False, ld_active = True, ld_built_in = True\<rparr>"

definition builtin_allocated_to :: link_def where
  "builtin_allocated_to =
     \<lparr>ld_label =
        [(''de'', [(''downstream'', ''ist zugewiesen an''), (''upstream'', ''erf'' @ [CHR 0xFC] @ ''llt''), (''neutral'', ''Zuweisung'')]),
         (''en'', [(''downstream'', ''is allocated to''), (''upstream'', ''fulfils''), (''neutral'', ''Allocation'')])],
      ld_pairs = [(''Requirement'', ''ArchitectureElement'')],
      ld_coverage_relevant = True, ld_suspect_rule = ''source_change_flags_target'', ld_impact_weight = 1,
      ld_manual_creatable = True, ld_system_owned = False, ld_active = True, ld_built_in = True\<rparr>"

definition builtin_grouped_in :: link_def where
  "builtin_grouped_in =
     \<lparr>ld_label =
        [(''de'', [(''downstream'', ''ist gruppiert in''), (''upstream'', ''enth'' @ [CHR 0xE4] @ ''lt''), (''neutral'', ''Gruppenzugeh'' @ [CHR 0xF6] @ ''rigkeit'')]),
         (''en'', [(''downstream'', ''is grouped in''), (''upstream'', ''contains''), (''neutral'', ''Group membership'')])],
      ld_pairs = [(''Requirement'', ''Group'')],
      ld_coverage_relevant = False, ld_suspect_rule = ''none'', ld_impact_weight = 1/5,
      ld_manual_creatable = True, ld_system_owned = False, ld_active = True, ld_built_in = True\<rparr>"

definition builtin_verifies :: link_def where
  "builtin_verifies =
     \<lparr>ld_label =
        [(''de'', [(''downstream'', ''verifiziert''), (''upstream'', ''wird verifiziert von''), (''neutral'', ''Verifikation'')]),
         (''en'', [(''downstream'', ''verifies''), (''upstream'', ''is verified by''), (''neutral'', ''Verification'')])],
      ld_pairs = [(''TestCase'', ''Requirement''), (''TestCase'', ''ArchitectureElement'')],
      ld_coverage_relevant = True, ld_suspect_rule = ''target_change_flags_source'', ld_impact_weight = 1,
      ld_manual_creatable = True, ld_system_owned = False, ld_active = True, ld_built_in = True\<rparr>"

definition builtin_validates :: link_def where
  "builtin_validates =
     \<lparr>ld_label =
        [(''de'', [(''downstream'', ''validiert''), (''upstream'', ''wird validiert durch''), (''neutral'', ''Validierung'')]),
         (''en'', [(''downstream'', ''validates''), (''upstream'', ''is validated by''), (''neutral'', ''Validation'')])],
      ld_pairs = [(''TestCase'', ''StakeholderNeed'')],
      ld_coverage_relevant = True, ld_suspect_rule = ''target_change_flags_source'', ld_impact_weight = 1,
      ld_manual_creatable = True, ld_system_owned = False, ld_active = True, ld_built_in = True\<rparr>"

definition builtin_decides :: link_def where
  "builtin_decides =
     \<lparr>ld_label =
        [(''de'', [(''downstream'', ''entscheidet '' @ [CHR 0xFC] @ ''ber''), (''upstream'', ''wird entschieden durch''), (''neutral'', ''Entscheidung'')]),
         (''en'', [(''downstream'', ''decides''), (''upstream'', ''is decided by''), (''neutral'', ''Decision'')])],
      ld_pairs = [(''Adr'', ''*'')],
      ld_coverage_relevant = False, ld_suspect_rule = ''none'', ld_impact_weight = 3/10,
      ld_manual_creatable = True, ld_system_owned = False, ld_active = True, ld_built_in = True\<rparr>"

definition builtin_mitigates :: link_def where
  "builtin_mitigates =
     \<lparr>ld_label =
        [(''de'', [(''downstream'', ''mindert''), (''upstream'', ''wird gemindert durch''), (''neutral'', ''Risikominderung'')]),
         (''en'', [(''downstream'', ''mitigates''), (''upstream'', ''is mitigated by''), (''neutral'', ''Mitigation'')])],
      ld_pairs = [(''Risk'', ''Requirement''), (''Risk'', ''ArchitectureElement'')],
      ld_coverage_relevant = False, ld_suspect_rule = ''none'', ld_impact_weight = 1/2,
      ld_manual_creatable = True, ld_system_owned = False, ld_active = True, ld_built_in = True\<rparr>"

definition builtin_blocks :: link_def where
  "builtin_blocks =
     \<lparr>ld_label =
        [(''de'', [(''downstream'', ''blockiert''), (''upstream'', ''wird blockiert durch''), (''neutral'', ''Blockade'')]),
         (''en'', [(''downstream'', ''blocks''), (''upstream'', ''is blocked by''), (''neutral'', ''Blocker'')])],
      ld_pairs = [(''Issue'', ''*'')],
      ld_coverage_relevant = False, ld_suspect_rule = ''none'', ld_impact_weight = 1/2,
      ld_manual_creatable = True, ld_system_owned = False, ld_active = True, ld_built_in = True\<rparr>"

definition builtin_resolves :: link_def where
  "builtin_resolves =
     \<lparr>ld_label =
        [(''de'', [(''downstream'', ''l'' @ [CHR 0xF6] @ ''st''), (''upstream'', ''wird gel'' @ [CHR 0xF6] @ ''st durch''), (''neutral'', ''L'' @ [CHR 0xF6] @ ''sung'')]),
         (''en'', [(''downstream'', ''resolves''), (''upstream'', ''is resolved by''), (''neutral'', ''Resolution'')])],
      ld_pairs = [(''*'', ''Issue'')],
      ld_coverage_relevant = False, ld_suspect_rule = ''none'', ld_impact_weight = 3/10,
      ld_manual_creatable = True, ld_system_owned = False, ld_active = True, ld_built_in = True\<rparr>"

definition builtin_threatens :: link_def where
  "builtin_threatens =
     \<lparr>ld_label =
        [(''de'', [(''downstream'', ''bedroht''), (''upstream'', ''wird bedroht durch''), (''neutral'', ''Bedrohung'')]),
         (''en'', [(''downstream'', ''threatens''), (''upstream'', ''is threatened by''), (''neutral'', ''Threat'')])],
      ld_pairs = [(''Risk'', ''*'')],
      ld_coverage_relevant = False, ld_suspect_rule = ''none'', ld_impact_weight = 1/2,
      ld_manual_creatable = True, ld_system_owned = False, ld_active = True, ld_built_in = True\<rparr>"

definition builtin_documented_in :: link_def where
  "builtin_documented_in =
     \<lparr>ld_label =
        [(''de'', [(''downstream'', ''dokumentiert in''), (''upstream'', ''dokumentiert''), (''neutral'', ''Dokumentation'')]),
         (''en'', [(''downstream'', ''documented in''), (''upstream'', ''documents''), (''neutral'', ''Documentation'')])],
      ld_pairs = [(''Requirement'', ''Document''), (''StakeholderNeed'', ''Document''),
        (''ArchitectureElement'', ''Document''), (''Adr'', ''Document''),
        (''Risk'', ''Document''), (''Issue'', ''Document''), (''Goal'', ''Document'')],
      ld_coverage_relevant = False, ld_suspect_rule = ''target_change_flags_source'', ld_impact_weight = 3/10,
      ld_manual_creatable = True, ld_system_owned = False, ld_active = True, ld_built_in = True\<rparr>"

definition builtin_evidences :: link_def where
  "builtin_evidences =
     \<lparr>ld_label =
        [(''de'', [(''downstream'', ''belegt''), (''upstream'', ''wird belegt durch''), (''neutral'', ''Beleg'')]),
         (''en'', [(''downstream'', ''evidences''), (''upstream'', ''is evidenced by''), (''neutral'', ''Evidence'')])],
      ld_pairs = [(''Document:conclusion'', ''Requirement''),
        (''Document:conclusion'', ''ArchitectureElement''),
        (''Document:conclusion'', ''StakeholderNeed''), (''Document:review'', ''Requirement''),
        (''Document:review'', ''ArchitectureElement''),
        (''Document:review'', ''StakeholderNeed''), (''Document:auditreport'', ''Requirement''),
        (''Document:auditreport'', ''ArchitectureElement''),
        (''Document:auditreport'', ''StakeholderNeed'')],
      ld_coverage_relevant = False, ld_suspect_rule = ''target_change_flags_source'', ld_impact_weight = 1/2,
      ld_manual_creatable = True, ld_system_owned = False, ld_active = True, ld_built_in = True\<rparr>"

definition builtin_depends_on :: link_def where
  "builtin_depends_on =
     \<lparr>ld_label =
        [(''de'', [(''downstream'', ''h'' @ [CHR 0xE4] @ ''ngt ab von''), (''upstream'', ''ist Voraussetzung f'' @ [CHR 0xFC] @ ''r''), (''neutral'', ''Abh'' @ [CHR 0xE4] @ ''ngigkeit'')]),
         (''en'', [(''downstream'', ''depends on''), (''upstream'', ''is prerequisite for''), (''neutral'', ''Dependency'')])],
      ld_pairs = [(''WorkItem'', ''WorkItem'')],
      ld_coverage_relevant = False, ld_suspect_rule = ''target_change_flags_source'', ld_impact_weight = 1/2,
      ld_manual_creatable = True, ld_system_owned = False, ld_active = True, ld_built_in = True\<rparr>"

definition builtin_references :: link_def where
  "builtin_references =
     \<lparr>ld_label =
        [(''de'', [(''downstream'', ''verweist auf''), (''upstream'', ''wird referenziert von''), (''neutral'', ''Verweis'')]),
         (''en'', [(''downstream'', ''references''), (''upstream'', ''is referenced by''), (''neutral'', ''Reference'')])],
      ld_pairs = [(''*'', ''GlossaryTerm''), (''*'', ''Diagram''), (''*'', ''Icd''), (''*'', ''Goal''),
        (''Goal'', ''*''), (''*'', ''MainGoal''), (''MainGoal'', ''*''), (''*'', ''Interview''),
        (''Interview'', ''*''), (''*'', ''Issue''), (''Issue'', ''*''), (''Document'', ''*''),
        (''*'', ''Document''), (''WorkItem'', ''*'')],
      ld_coverage_relevant = False, ld_suspect_rule = ''none'', ld_impact_weight = 1/5,
      ld_manual_creatable = True, ld_system_owned = False, ld_active = True, ld_built_in = True\<rparr>"

definition builtin_diagram_ref :: link_def where
  "builtin_diagram_ref =
     \<lparr>ld_label =
        [(''de'', [(''downstream'', ''stellt dar''), (''upstream'', ''wird dargestellt in''), (''neutral'', ''Diagrammbezug'')]),
         (''en'', [(''downstream'', ''depicts''), (''upstream'', ''is depicted in''), (''neutral'', ''Diagram reference'')])],
      ld_pairs = [(''Diagram'', ''*'')],
      ld_coverage_relevant = False, ld_suspect_rule = ''none'', ld_impact_weight = 1/5,
      ld_manual_creatable = False, ld_system_owned = True, ld_active = True, ld_built_in = True\<rparr>"

definition BUILTIN_LINK_TYPES :: "(string \<times> link_def) list" where
  "BUILTIN_LINK_TYPES =
     [(''derives-from'', builtin_derives_from),
      (''decomposes'', builtin_decomposes),
      (''refines'', builtin_refines),
      (''satisfies'', builtin_satisfies),
      (''performs'', builtin_performs),
      (''realizes'', builtin_realizes),
      (''allocated-to'', builtin_allocated_to),
      (''grouped-in'', builtin_grouped_in),
      (''verifies'', builtin_verifies),
      (''validates'', builtin_validates),
      (''decides'', builtin_decides),
      (''mitigates'', builtin_mitigates),
      (''blocks'', builtin_blocks),
      (''resolves'', builtin_resolves),
      (''threatens'', builtin_threatens),
      (''documented-in'', builtin_documented_in),
      (''evidences'', builtin_evidences),
      (''depends-on'', builtin_depends_on),
      (''references'', builtin_references),
      (''diagram-ref'', builtin_diagram_ref)]"

definition builtin_definition :: "string \<Rightarrow> link_def option" where
  "builtin_definition key = map_of BUILTIN_LINK_TYPES key"

definition GRANDFATHERED_PAIRS :: "(string \<times> (string \<times> string) list) list" where
  "GRANDFATHERED_PAIRS =
     [(''allocated-to'', [(''StakeholderNeed'', ''Requirement'')]),
      (''references'',
        [(''Adr'', ''ArchitectureElement''), (''Issue'', ''ArchitectureElement''), (''Risk'', ''Requirement''),
         (''Requirement'', ''Requirement'')])]"

fun merge_pairs :: "(string \<times> string) list \<Rightarrow> (string \<times> string) list \<Rightarrow> (string \<times> string) list" where
  "merge_pairs pairs [] = pairs"
| "merge_pairs pairs (p # ps) = merge_pairs (if p \<in> set pairs then pairs else pairs @ [p]) ps"

definition apply_grandfathered_pairs :: "link_def \<Rightarrow> string \<Rightarrow> link_def" where
  "apply_grandfathered_pairs d key =
     (case map_of GRANDFATHERED_PAIRS key of
        None \<Rightarrow> d
      | Some ps \<Rightarrow> d\<lparr>ld_pairs := merge_pairs (ld_pairs d) ps\<rparr>)"

text \<open>The members of the \<open>LinkType\<close> enumeration (\<^verbatim>\<open>traceability/types.py\<close>).\<close>

definition VALID_LINK_TYPES :: "string list" where
  "VALID_LINK_TYPES =
     [''derives-from'', ''decomposes'', ''allocated-to'', ''verifies'', ''validates'', ''decides'', ''mitigates'',
      ''references'', ''diagram-ref'', ''refines'', ''satisfies'', ''realizes'', ''performs'', ''blocks'',
      ''resolves'', ''threatens'', ''documented-in'', ''evidences'', ''depends-on'']"

subsection \<open>Matching endpoints\<close>

definition normalize_artifact_type :: "string \<Rightarrow> string" where
  "normalize_artifact_type ty = before_colon ty"

definition pair_side_matches :: "string \<Rightarrow> string \<Rightarrow> bool" where
  "pair_side_matches pair_type endpoint_type =
     (if pair_type = ''*'' then True
      else if pair_type = [] then False
      else if COLON \<in> set pair_type then pair_type = endpoint_type
      else pair_type = normalize_artifact_type endpoint_type)"

type_synonym catalog = "(string \<times> link_def) list"

definition check_pair :: "catalog \<Rightarrow> string \<Rightarrow> string \<Rightarrow> string \<Rightarrow> bool \<Rightarrow> link_error + unit" where
  "check_pair cat link_type source_type target_type manual =
     (case map_of cat link_type of
        None \<Rightarrow> Inl (UnknownLinkType link_type (sort (map fst cat)))
      | Some d \<Rightarrow>
          if manual \<and> \<not> ld_manual_creatable d then Inl (NotManuallyCreatable link_type)
          else if list_ex (\<lambda>(s, t). pair_side_matches s source_type \<and> pair_side_matches t target_type) (ld_pairs d)
          then Inr ()
          else Inl (PairNotAllowed link_type source_type target_type (ld_pairs d)))"

subsection \<open>A validated definition is in normal form\<close>

text \<open>The stored form of a definition.\<close>

definition json_of_def :: "link_def \<Rightarrow> json" where
  "json_of_def d =
     JObj [(''label'', JObj (map (\<lambda>(lang, ps). (lang, JObj (map (\<lambda>(p, v). (p, JStr v)) ps))) (ld_label d))),
           (''allowed_pairs'', JList (map (\<lambda>(s, t). JObj [(''source_type'', JStr s), (''target_type'', JStr t)]) (ld_pairs d))),
           (''suspect_rule'', JStr (ld_suspect_rule d)), (''impact_weight'', JFloat (ld_impact_weight d)),
           (''coverage_relevant'', JBool (ld_coverage_relevant d)), (''manual_creatable'', JBool (ld_manual_creatable d)),
           (''system_owned'', JBool (ld_system_owned d)), (''active'', JBool (ld_active d)),
           (''built_in'', JBool (ld_built_in d))]"

lemma map_res_Inr: "map_res f xs = Inr ys \<longleftrightarrow> list_all2 (\<lambda>x y. f x = Inr y) xs ys"
  by (induction xs arbitrary: ys) (auto simp: list_all2_Cons1)

lemma of_lower_char:
  "(of_char (lower_char c) :: nat) =
     (let n = of_char c in if (65 \<le> n \<and> n \<le> 90) \<or> (192 \<le> n \<and> n \<le> 222 \<and> n \<noteq> 215) then n + 32 else n)"
  by (auto simp: lower_char_def Let_def of_char_of)

lemma of_char_inj: "(of_char c :: nat) = of_char d \<longleftrightarrow> c = d"
  by (simp add: of_char_eq_iff)

lemma lower_char_facts:
  "lower_char (lower_char c) = lower_char c" "lower_char c = COLON \<longleftrightarrow> c = COLON" "py_space (lower_char c) = py_space c"
proof -
  show "lower_char (lower_char c) = lower_char c"
    unfolding of_char_inj [symmetric] of_lower_char [of "lower_char c"] by (simp add: of_lower_char Let_def)
  have "(of_char COLON :: nat) = 58" by (simp add: COLON_def)
  then show "lower_char c = COLON \<longleftrightarrow> c = COLON"
    unfolding of_char_inj [symmetric] by (auto simp: of_lower_char Let_def)
  show "py_space (lower_char c) = py_space c"
    unfolding py_space_def of_lower_char by (auto simp: Let_def)
qed

lemma py_lower_facts:
  "py_lower (py_lower s) = py_lower s" "count_list (py_lower s) COLON = count_list s COLON"
  "list_ex py_space (py_lower s) = list_ex py_space s" "py_lower s = [] \<longleftrightarrow> s = []" "length (py_lower s) = length s"
  by (induction s) (auto simp: py_lower_def lower_char_facts)

lemma colon_split: "COLON \<in> set v \<Longrightarrow> v = before_colon v @ COLON # after_colon v"
proof -
  assume c: "COLON \<in> set v"
  then have ne: "dropWhile (\<lambda>c. c \<noteq> COLON) v \<noteq> []" by (simp add: dropWhile_eq_Nil_conv)
  have "hd (dropWhile (\<lambda>c. c \<noteq> COLON) v) = COLON" using hd_dropWhile [OF ne] by simp
  then have "dropWhile (\<lambda>c. c \<noteq> COLON) v = COLON # after_colon v"
    using ne by (metis after_colon_def list.collapse)
  then show ?thesis using takeWhile_dropWhile_id [of "\<lambda>c. c \<noteq> COLON" v] by (simp add: before_colon_def)
qed

lemma no_colon_before: "COLON \<notin> set (before_colon v)"
  using set_takeWhileD [of COLON "\<lambda>c. c \<noteq> COLON" v] by (auto simp: before_colon_def)

lemma colon_parts [simp]:
  "COLON \<notin> set b \<Longrightarrow> before_colon (b @ COLON # t) = b" "COLON \<notin> set b \<Longrightarrow> after_colon (b @ COLON # t) = t"
  by (induction b) (auto simp: before_colon_def after_colon_def)

lemma validate_pair_side_Inr:
  "validate_pair_side k i sd v = Inr v' \<longleftrightarrow>
     length v \<le> MAX_PAIR_SIDE_LENGTH \<and>
     (if COLON \<notin> set v then v' = v
      else count_list v COLON \<le> 1 \<and> after_colon v \<noteq> [] \<and> \<not> list_ex py_space v \<and>
           map_of SUBTYPE_FIELDS (before_colon v) \<noteq> None \<and> v' = before_colon v @ COLON # py_lower (after_colon v))"
  by (auto simp: validate_pair_side_def simp del: map_of_eq_None_iff)

lemma pair_side_normal:
  assumes "validate_pair_side k i sd v = Inr v'"
  shows "validate_pair_side k' i' sd' v' = Inr v'" "\<not> py_blank v \<Longrightarrow> \<not> py_blank v'"
proof -
  have "validate_pair_side k' i' sd' v' = Inr v' \<and> (\<not> py_blank v \<longrightarrow> \<not> py_blank v')"
  proof (cases "COLON \<in> set v")
    case False
    then show ?thesis using assms unfolding validate_pair_side_Inr by simp
  next
    case True
    let ?b = "before_colon v" and ?t = "after_colon v"
    have a: "length v \<le> MAX_PAIR_SIDE_LENGTH" "count_list v COLON \<le> 1" "?t \<noteq> []" "\<not> list_ex py_space v"
      "map_of SUBTYPE_FIELDS ?b \<noteq> None" "v' = ?b @ COLON # py_lower ?t"
      using assms True unfolding validate_pair_side_Inr by simp_all
    have sizes: "length v' = length v" "count_list v' COLON = count_list v COLON" "list_ex py_space v' = list_ex py_space v"
      unfolding a(6) arg_cong [OF colon_split [OF True], of length] arg_cong2 [OF colon_split [OF True] refl, of count_list COLON]
        arg_cong [OF colon_split [OF True], of "list_ex py_space"]
      by (simp_all add: py_lower_facts)
    have parts: "before_colon v' = ?b" "after_colon v' = py_lower ?t" "COLON \<in> set v'"
      unfolding a(6) by (simp_all add: no_colon_before)
    have "\<not> py_blank v'" unfolding a(6) by (simp add: py_blank_iff COLON_def py_space_def)
    moreover have "validate_pair_side k' i' sd' v' = Inr v'"
      unfolding validate_pair_side_Inr sizes parts using a parts(3) by (simp add: py_lower_facts)
    ultimately show ?thesis by simp
  qed
  then show "validate_pair_side k' i' sd' v' = Inr v'" "\<not> py_blank v \<Longrightarrow> \<not> py_blank v'" by auto
qed

lemma validate_pair_normal:
  assumes "validate_pair k p = Inr st"
  shows "validate_pair k' (i, JObj [(''source_type'', JStr (fst st)), (''target_type'', JStr (snd st))]) = Inr st"
proof -
  obtain fs s t where "snd p = JObj fs" and s: "\<not> py_blank s" "validate_pair_side k (fst p) ''source_type'' s = Inr (fst st)"
      and t: "\<not> py_blank t" "validate_pair_side k (fst p) ''target_type'' t = Inr (snd st)"
    using assms by (auto simp: validate_pair_def pair_side_text_def py_blank_def split: json.splits option.splits if_splits)
  then show ?thesis
    using pair_side_normal [OF s(2)] pair_side_normal [OF t(2)]
    by (auto simp: validate_pair_def pair_side_text_def py_blank_def)
qed

lemma validate_pairs_normal:
  assumes "validate_pairs k js = Inr ps"
  shows "validate_pairs k' (JList (map (\<lambda>(s, t). JObj [(''source_type'', JStr s), (''target_type'', JStr t)]) ps)) = Inr ps"
proof -
  obtain qs where "js = JList qs" and all: "list_all2 (\<lambda>x y. validate_pair k x = Inr y) (enumerate 0 qs) ps"
    using assms by (auto simp: validate_pairs_def map_res_Inr split: json.splits)
  have "\<forall>y\<in>set ps. \<forall>i. validate_pair k' (i, JObj [(''source_type'', JStr (fst y)), (''target_type'', JStr (snd y))]) = Inr y"
  proof (intro ballI allI)
    fix y i
    assume "y \<in> set ps"
    then obtain j where "j < length ps" "ps ! j = y" by (auto simp: in_set_conv_nth)
    with all have "validate_pair k (enumerate 0 qs ! j) = Inr y" by (auto simp: list_all2_conv_all_nth)
    then show "validate_pair k' (i, JObj [(''source_type'', JStr (fst y)), (''target_type'', JStr (snd y))]) = Inr y"
      by (rule validate_pair_normal)
  qed
  then have "list_all2 (\<lambda>x y. validate_pair k' x = Inr y)
      (enumerate n (map (\<lambda>(s, t). JObj [(''source_type'', JStr s), (''target_type'', JStr t)]) ps)) ps" for n
    by (induction ps arbitrary: n) (auto simp: split_beta)
  then show ?thesis by (simp add: validate_pairs_def map_res_Inr)
qed

lemma label_text_Inr: "label_text k lang entry p = Inr pv \<longleftrightarrow> fst pv = p \<and> map_of entry p = Some (JStr (snd pv)) \<and> \<not> py_blank (snd pv)"
  by (cases pv) (auto simp: label_text_def py_blank_def split: option.splits json.splits)

lemma validate_label_normal:
  assumes "validate_label k js = Inr ls"
  shows "validate_label k' (JObj (map (\<lambda>(lang, ps). (lang, JObj (map (\<lambda>(p, v). (p, JStr v)) ps))) ls)) = Inr ls"
proof -
  from assms obtain ds us where ls: "ls = [(''de'', ds), (''en'', us)]"
    and d: "\<exists>e. list_all2 (\<lambda>p pv. label_text k ''de'' e p = Inr pv) PERSPECTIVES ds"
    and u: "\<exists>e. list_all2 (\<lambda>p pv. label_text k ''en'' e p = Inr pv) PERSPECTIVES us"
    by (auto simp: validate_label_def LANGS_def map_res_Inr split: json.splits option.splits)
  have shape: "\<exists>a b c. ps = [(''downstream'', a), (''upstream'', b), (''neutral'', c)] \<and> \<not> py_blank a \<and> \<not> py_blank b \<and> \<not> py_blank c"
    if "\<exists>e. list_all2 (\<lambda>p pv. label_text k lang e p = Inr pv) PERSPECTIVES ps" for lang ps
    using that by (auto simp: PERSPECTIVES_def list_all2_Cons1 label_text_Inr)
  show ?thesis using shape [OF d] shape [OF u]
    by (auto simp: ls validate_label_def LANGS_def map_res_Inr PERSPECTIVES_def label_text_Inr)
qed

text \<open>
  A validated definition is in normal form. Whatever payload is accepted, the stored form of the result is
  accepted again, under any key, and gives the same definition: defaults are filled in, tags are lower case, and
  saving an unchanged definition changes nothing.
\<close>

theorem validated_definition_normal:
  assumes "validate_definition_json payload key = Inr d"
  shows "validate_definition_json (json_of_def d) key' = Inr d"
proof -
  obtain fs where fs: "payload = JObj fs" using assms by (cases payload) (simp_all add: validate_definition_json_def)
  have v: "validate_label key (the_field fs ''label'') = Inr (ld_label d)"
    "validate_pairs key (the_field fs ''allowed_pairs'') = Inr (ld_pairs d)"
    "validate_suspect_rule key (the_field fs ''suspect_rule'') = Inr (ld_suspect_rule d)"
    "validate_weight key (the_field fs ''impact_weight'') = Inr (ld_impact_weight d)"
    using assms by (auto simp: validate_definition_json_def fs Let_def split: if_splits)
  have "validate_suspect_rule key' (JStr (ld_suspect_rule d)) = Inr (ld_suspect_rule d)"
    using v(3) by (auto simp: validate_suspect_rule_def split: json.splits if_splits)
  moreover have "validate_weight key' (JFloat (ld_impact_weight d)) = Inr (ld_impact_weight d)"
    using v(4) by (auto simp: validate_weight_def split: json.splits if_splits)
  ultimately show ?thesis
    using validate_label_normal [OF v(1)] validate_pairs_normal [OF v(2)]
    by (simp add: validate_definition_json_def json_of_def_def KNOWN_def REQUIRED_def OPTIONAL_DEFAULTS_def the_field_def
        flag_value_def)
qed

definition payload_example :: json where
  "payload_example =
     JObj [(''label'', JObj [(''de'', JObj [(''downstream'', JStr ''a''), (''upstream'', JStr ''b''), (''neutral'', JStr ''c'')]),
                             (''en'', JObj [(''downstream'', JStr ''d''), (''upstream'', JStr ''e''), (''neutral'', JStr ''f'')])]),
           (''allowed_pairs'', JList [JObj [(''source_type'', JStr ''Document:Review''), (''target_type'', JStr ''*'')]]),
           (''suspect_rule'', JStr ''none''), (''impact_weight'', JInt 2)]"

definition def_example :: link_def where
  "def_example =
     \<lparr>ld_label = [(''de'', [(''downstream'', ''a''), (''upstream'', ''b''), (''neutral'', ''c'')]),
                   (''en'', [(''downstream'', ''d''), (''upstream'', ''e''), (''neutral'', ''f'')])],
      ld_pairs = [(''Document:review'', ''*'')], ld_coverage_relevant = False, ld_suspect_rule = ''none'',
      ld_impact_weight = 2, ld_manual_creatable = True, ld_system_owned = False, ld_active = True, ld_built_in = False\<rparr>"

theorem validated_definition_normal_witness:
  "validate_definition_json payload_example ''k'' = Inr def_example \<and>
   validate_definition_json (json_of_def def_example) ''other'' = Inr def_example"
proof -
  have "validate_definition_json payload_example ''k'' = Inr def_example" by code_simp
  then show ?thesis using validated_definition_normal [of payload_example "''k''" def_example "''other''"] by simp
qed

end
