(* ===== verification/Trace_Links.thy ===== *)
theory Trace_Links
  imports Graph_Search Link_Types "HOL-Library.Product_Lexorder"
begin

text \<open>
  The trace link manager (\<^verbatim>\<open>traceability/trace_link_manager.py\<close>, class \<open>TraceLinkManager\<close>) over the link table of
  \<^verbatim>\<open>persistence/models.py\<close> with its constraints, and the direction table of the requirement hierarchy
  (\<^verbatim>\<open>traceability/audit/hierarchy.py\<close>).

  Every writing operation runs in one transaction: \<open>Inl e\<close> is a raise, after which the database is as before;
  \<open>Inr (x, db)\<close> returns \<open>x\<close> and commits \<open>db\<close>. Primary keys of links are numbered. The active tenant, the clock
  and the acting user are arguments. The recomputation of requirement levels is recorded as a call. The Tarjan
  check gets the number of Python frames left; running out of them is a \<open>RecursionError\<close>.
\<close>

subsection \<open>Tables\<close>

record artifact_row =
  ar_id :: uuid
  ar_tenant :: uuid
  ar_workspace :: "uuid option"
  ar_type :: string
  ar_lifecycle :: string

record link_row =
  l_id :: nat
  l_source :: uuid
  l_target :: uuid
  l_type :: string
  l_tenant :: uuid
  l_rationale :: string
  l_created_by :: "uuid option"
  l_modified_by :: "uuid option"
  l_created_at :: instant
  l_modified_at :: instant
  l_proposed_by :: "uuid option"
  l_proposed_at :: "instant option"
  l_suspect_at :: "instant option"
  l_suspect_change :: "uuid option"

record trace_db =
  td_artifacts :: "artifact_row list"
  td_links :: "link_row list"
  td_next :: nat
  td_recomputed :: "uuid list list"

datatype trace_error =
    InvalidLinkType string
  | SelfLink uuid
  | SourceNotFound uuid
  | TargetNotFound uuid
  | CrossTenantLink
  | CycleDetected string "string option"
  | ContradictoryHierarchyLink string uuid uuid string uuid uuid
  | LinkDoesNotExist nat
  | IntegrityError string
  | FramesExhausted

subsection \<open>Link types and the hierarchy\<close>

definition validate_link_type :: "string \<Rightarrow> trace_error + unit" where
  "validate_link_type link_type = raise_if (link_type \<notin> set VALID_LINK_TYPES) (InvalidLinkType link_type)"

definition PARENT_TO_CHILD_LINK_TYPES :: "string list" where
  "PARENT_TO_CHILD_LINK_TYPES = [''decomposes'']"

definition CHILD_TO_PARENT_LINK_TYPES :: "string list" where
  "CHILD_TO_PARENT_LINK_TYPES = [''derives-from'']"

definition HIERARCHY_LINK_TYPES :: "string list" where
  "HIERARCHY_LINK_TYPES = PARENT_TO_CHILD_LINK_TYPES @ CHILD_TO_PARENT_LINK_TYPES"

definition normalise_hierarchy_edge :: "string \<Rightarrow> 'a \<Rightarrow> 'a \<Rightarrow> ('a \<times> 'a) option" where
  "normalise_hierarchy_edge link_type source_id target_id =
     (if link_type \<in> set PARENT_TO_CHILD_LINK_TYPES then Some (source_id, target_id)
      else if link_type \<in> set CHILD_TO_PARENT_LINK_TYPES then Some (target_id, source_id)
      else None)"

subsection \<open>Queries\<close>

definition tenant_links :: "uuid \<Rightarrow> trace_db \<Rightarrow> link_row list" where
  "tenant_links tenant db = filter (\<lambda>l. l_tenant l = tenant) (td_links db)"

definition endpoints :: "link_row \<Rightarrow> uuid \<times> uuid" where
  "endpoints l = (l_source l, l_target l)"

definition type_edges :: "uuid \<Rightarrow> string \<Rightarrow> trace_db \<Rightarrow> (uuid \<times> uuid) list" where
  "type_edges tenant ty db = map endpoints (filter (\<lambda>l. l_type l = ty) (tenant_links tenant db))"

definition all_edges :: "uuid \<Rightarrow> trace_db \<Rightarrow> (uuid \<times> uuid) list" where
  "all_edges tenant db = map endpoints (tenant_links tenant db)"

definition hierarchy_rows :: "uuid \<Rightarrow> trace_db \<Rightarrow> link_row list" where
  "hierarchy_rows tenant db = filter (\<lambda>l. l_type l \<in> set HIERARCHY_LINK_TYPES) (tenant_links tenant db)"

definition row_edge :: "link_row \<Rightarrow> (uuid \<times> uuid) option" where
  "row_edge l = normalise_hierarchy_edge (l_type l) (l_source l) (l_target l)"

definition hierarchy_edges :: "uuid \<Rightarrow> trace_db \<Rightarrow> (uuid \<times> uuid) list" where
  "hierarchy_edges tenant db = List.map_filter row_edge (hierarchy_rows tenant db)"

definition get_artifact :: "uuid \<Rightarrow> trace_db \<Rightarrow> artifact_row option" where
  "get_artifact a db = find (\<lambda>r. ar_id r = a) (td_artifacts db)"

definition get_link :: "uuid \<Rightarrow> nat \<Rightarrow> trace_db \<Rightarrow> trace_error + link_row" where
  "get_link tenant link_id db =
     (case find (\<lambda>l. l_id l = link_id) (tenant_links tenant db) of
        None \<Rightarrow> Inl (LinkDoesNotExist link_id)
      | Some l \<Rightarrow> Inr l)"

text \<open>\<open>flt\<close> is the predicate of the caller's \<open>filters\<close>.\<close>

definition get_trace_links ::
  "uuid \<Rightarrow> uuid option \<Rightarrow> (link_row \<Rightarrow> bool) \<Rightarrow> string option \<Rightarrow> trace_db \<Rightarrow> link_row list" where
  "get_trace_links tenant workspace flt link_type db =
     sort_key (\<lambda>l. (l_created_at l, l_id l))
       (filter flt
         (filter (\<lambda>l. case link_type of None \<Rightarrow> True | Some ty \<Rightarrow> l_type l = ty)
           (filter (\<lambda>l. case workspace of
                 None \<Rightarrow> True
               | Some ws \<Rightarrow> (case get_artifact (l_source l) db of None \<Rightarrow> False | Some a \<Rightarrow> ar_workspace a = Some ws))
             (tenant_links tenant db))))"

subsection \<open>Writes\<close>

text \<open>The constraints of \<open>TraceLink.Meta\<close>: the violated constraint of a row against the other rows.\<close>

definition row_violation :: "link_row \<Rightarrow> link_row list \<Rightarrow> string option" where
  "row_violation l rows =
     (if l_source l = l_target l then Some ''ck_tracelink_no_self_link''
      else if l_type l = [] then Some ''ck_tracelink_link_type_nonempty''
      else if list_ex (\<lambda>r. endpoints r = endpoints l \<and> l_type r = l_type l) rows then Some ''uq_tracelink_edge''
      else if l_type l = ''allocated-to'' \<and> list_ex (\<lambda>r. l_source r = l_source l \<and> l_type r = ''allocated-to'') rows
      then Some ''uniq_tracelink_allocated_to_source''
      else None)"

definition insert_link :: "link_row \<Rightarrow> trace_db \<Rightarrow> trace_error + trace_db" where
  "insert_link l db =
     (case row_violation l (td_links db) of
        Some c \<Rightarrow> Inl (IntegrityError c)
      | None \<Rightarrow> Inr (db\<lparr>td_links := td_links db @ [l], td_next := Suc (td_next db)\<rparr>))"

definition recompute :: "uuid list \<Rightarrow> trace_db \<Rightarrow> trace_db" where
  "recompute seeds db = db\<lparr>td_recomputed := td_recomputed db @ [seeds]\<rparr>"

definition new_link ::
  "uuid \<Rightarrow> instant \<Rightarrow> uuid option \<Rightarrow> uuid \<Rightarrow> uuid \<Rightarrow> string \<Rightarrow> string \<Rightarrow> trace_db \<Rightarrow> link_row" where
  "new_link tenant now user source_id target_id link_type rationale db =
     \<lparr>l_id = td_next db, l_source = source_id, l_target = target_id, l_type = link_type, l_tenant = tenant,
      l_rationale = rationale, l_created_by = user, l_modified_by = user, l_created_at = now, l_modified_at = now,
      l_proposed_by = None, l_proposed_at = None, l_suspect_at = None, l_suspect_change = None\<rparr>"

text \<open>The checks \<open>create\<close> and \<open>batch_create\<close> share, in their order.\<close>

definition check_endpoints :: "uuid \<Rightarrow> uuid \<Rightarrow> uuid \<Rightarrow> string \<Rightarrow> trace_db \<Rightarrow> trace_error + unit" where
  "check_endpoints tenant source_id target_id link_type db =
     res_bind (validate_link_type link_type) (\<lambda>_.
     res_bind (raise_if (source_id = target_id) (SelfLink source_id)) (\<lambda>_.
     case get_artifact source_id db of
       None \<Rightarrow> Inl (SourceNotFound source_id)
     | Some source \<Rightarrow>
         (case get_artifact target_id db of
            None \<Rightarrow> Inl (TargetNotFound target_id)
          | Some target \<Rightarrow>
              res_bind (raise_if (ar_tenant source \<noteq> ar_tenant target) CrossTenantLink) (\<lambda>_.
              raise_if (ar_tenant source \<noteq> tenant) CrossTenantLink))))"

definition reject_hierarchy_contradiction ::
  "uuid \<Rightarrow> uuid \<Rightarrow> uuid \<Rightarrow> string \<Rightarrow> trace_db \<Rightarrow> trace_error + unit" where
  "reject_hierarchy_contradiction tenant source_id target_id link_type db =
     (case normalise_hierarchy_edge link_type source_id target_id of
        None \<Rightarrow> Inr ()
      | Some (parent_id, child_id) \<Rightarrow>
          if dfs_has_cycle_to child_id parent_id (build_adjacency_from_edges (hierarchy_edges tenant db))
          then (case find (\<lambda>l. row_edge l = Some (child_id, parent_id)) (rev (hierarchy_rows tenant db)) of
                  Some l \<Rightarrow> Inl (ContradictoryHierarchyLink link_type source_id target_id (l_type l) (l_source l) (l_target l))
                | None \<Rightarrow> Inl (ContradictoryHierarchyLink link_type source_id target_id link_type child_id parent_id))
          else Inr ())"

definition create_link ::
  "uuid \<Rightarrow> instant \<Rightarrow> uuid option \<Rightarrow> uuid \<Rightarrow> uuid \<Rightarrow> string \<Rightarrow> string \<Rightarrow> trace_db \<Rightarrow> trace_error + (link_row \<times> trace_db)" where
  "create_link tenant now user source_id target_id link_type rationale db =
     res_bind (check_endpoints tenant source_id target_id link_type db) (\<lambda>_.
     res_bind (raise_if (dfs_has_cycle_to target_id source_id (build_adjacency_from_edges (type_edges tenant link_type db)))
                 (CycleDetected link_type None)) (\<lambda>_.
     res_bind (if link_type \<in> set HIERARCHY_LINK_TYPES
               then reject_hierarchy_contradiction tenant source_id target_id link_type db else Inr ()) (\<lambda>_.
     let link = new_link tenant now user source_id target_id link_type rationale db
     in res_bind (insert_link link db) (\<lambda>db1.
        Inr (link, if link_type \<in> set HIERARCHY_LINK_TYPES then recompute [source_id, target_id] db1 else db1)))))"

definition update_link ::
  "uuid \<Rightarrow> instant \<Rightarrow> uuid option \<Rightarrow> nat \<Rightarrow> string option \<Rightarrow> trace_db \<Rightarrow> trace_error + (link_row \<times> trace_db)" where
  "update_link tenant now user link_id link_type db =
     res_bind (get_link tenant link_id db) (\<lambda>link.
     res_bind (case link_type of None \<Rightarrow> Inr () | Some ty \<Rightarrow> validate_link_type ty) (\<lambda>_.
     let link' = link\<lparr>l_type := (case link_type of None \<Rightarrow> l_type link | Some ty \<Rightarrow> ty),
                     l_modified_by := (case user of None \<Rightarrow> l_modified_by link | Some u \<Rightarrow> Some u), l_modified_at := now\<rparr>
     in case row_violation link' (filter (\<lambda>r. l_id r \<noteq> link_id) (td_links db)) of
          Some c \<Rightarrow> Inl (IntegrityError c)
        | None \<Rightarrow> Inr (link', db\<lparr>td_links := map (\<lambda>r. if l_id r = link_id then link' else r) (td_links db)\<rparr>)))"

definition remove_link :: "nat \<Rightarrow> trace_db \<Rightarrow> trace_db" where
  "remove_link link_id db = db\<lparr>td_links := filter (\<lambda>r. l_id r \<noteq> link_id) (td_links db)\<rparr>"

definition delete_link :: "uuid \<Rightarrow> nat \<Rightarrow> trace_db \<Rightarrow> trace_error + (unit \<times> trace_db)" where
  "delete_link tenant link_id db =
     res_bind (get_link tenant link_id db) (\<lambda>link.
     Inr ((), if l_type link \<in> set HIERARCHY_LINK_TYPES
              then recompute [l_source link, l_target link] (remove_link link_id db) else remove_link link_id db))"

text \<open>The loop of \<open>batch_create\<close> over the items \<open>(source, target, type)\<close>.\<close>

fun batch_insert ::
  "uuid \<Rightarrow> instant \<Rightarrow> uuid option \<Rightarrow> (uuid \<times> uuid \<times> string) list \<Rightarrow> trace_db \<Rightarrow>
     trace_error + (link_row list \<times> uuid list \<times> trace_db)" where
  "batch_insert tenant now user [] db = Inr ([], [], db)"
| "batch_insert tenant now user ((source_id, target_id, link_type) # items) db =
     res_bind (check_endpoints tenant source_id target_id link_type db) (\<lambda>_.
     let link = new_link tenant now user source_id target_id link_type [] db
     in res_bind (insert_link link db) (\<lambda>db1.
        res_bind (batch_insert tenant now user items db1) (\<lambda>(created, seeds, db2).
        Inr (link # created, (if link_type \<in> set HIERARCHY_LINK_TYPES then [source_id, target_id] else []) @ seeds, db2))))"

definition format_cycle_path :: "uuid list \<Rightarrow> string" where
  "format_cycle_path cycle = py_join '' -> '' cycle @ '' -> '' @ hd cycle"

definition batch_create ::
  "nat \<Rightarrow> uuid \<Rightarrow> instant \<Rightarrow> uuid option \<Rightarrow> (uuid \<times> uuid \<times> string) list \<Rightarrow> trace_db \<Rightarrow>
     trace_error + (link_row list \<times> trace_db)" where
  "batch_create k tenant now user items db =
     res_bind (batch_insert tenant now user items db) (\<lambda>(created, seeds, db1).
     case tarjan_find_cycle k (build_adjacency_from_edges (all_edges tenant db1)) of
       None \<Rightarrow> Inl FramesExhausted
     | Some (Some cycle) \<Rightarrow> Inl (CycleDetected ''batch'' (Some (format_cycle_path cycle)))
     | Some None \<Rightarrow> Inr (created, if seeds \<noteq> [] then recompute seeds db1 else db1))"

fun batch_remove :: "uuid \<Rightarrow> nat list \<Rightarrow> trace_db \<Rightarrow> trace_error + (nat \<times> uuid list \<times> trace_db)" where
  "batch_remove tenant [] db = Inr (0, [], db)"
| "batch_remove tenant (link_id # ids) db =
     res_bind (get_link tenant link_id db) (\<lambda>link.
     res_bind (batch_remove tenant ids (remove_link link_id db)) (\<lambda>(count, seeds, db1).
     Inr (Suc count, (if l_type link \<in> set HIERARCHY_LINK_TYPES then [l_source link, l_target link] else []) @ seeds, db1)))"

definition batch_delete :: "uuid \<Rightarrow> nat list \<Rightarrow> trace_db \<Rightarrow> trace_error + (nat \<times> trace_db)" where
  "batch_delete tenant ids db =
     res_bind (batch_remove tenant ids db) (\<lambda>(count, seeds, db1).
     Inr (count, if seeds \<noteq> [] then recompute seeds db1 else db1))"

definition validate_graph_integrity :: "nat \<Rightarrow> uuid \<Rightarrow> trace_db \<Rightarrow> trace_error + (bool \<times> string option)" where
  "validate_graph_integrity k tenant db =
     (case tarjan_find_cycle k (build_adjacency_from_edges (all_edges tenant db)) of
        None \<Rightarrow> Inl FramesExhausted
      | Some (Some cycle) \<Rightarrow> Inr (False, Some (format_cycle_path cycle))
      | Some None \<Rightarrow> Inr (True, None))"

subsection \<open>Consistency of the tables\<close>

text \<open>Two rows that may stand in the table together.\<close>

definition compatible :: "link_row \<Rightarrow> link_row \<Rightarrow> bool" where
  "compatible r l \<longleftrightarrow> l_id r \<noteq> l_id l \<and> \<not> (endpoints r = endpoints l \<and> l_type r = l_type l) \<and>
     \<not> (l_type r = ''allocated-to'' \<and> l_type l = ''allocated-to'' \<and> l_source r = l_source l)"

definition in_tenant :: "uuid \<Rightarrow> uuid \<Rightarrow> trace_db \<Rightarrow> bool" where
  "in_tenant tenant a db = (case get_artifact a db of None \<Rightarrow> False | Some r \<Rightarrow> ar_tenant r = tenant)"

definition row_ok :: "trace_db \<Rightarrow> link_row \<Rightarrow> bool" where
  "row_ok db l \<longleftrightarrow> l_id l < td_next db \<and> l_source l \<noteq> l_target l \<and> l_type l \<in> set VALID_LINK_TYPES \<and>
     in_tenant (l_tenant l) (l_source l) db \<and> in_tenant (l_tenant l) (l_target l) db"

definition links_wf :: "trace_db \<Rightarrow> bool" where
  "links_wf db \<longleftrightarrow> sorted_wrt compatible (td_links db) \<and> list_all (row_ok db) (td_links db)"

definition types_acyclic :: "trace_db \<Rightarrow> bool" where
  "types_acyclic db \<longleftrightarrow> (\<forall>tenant ty. acyclic (set (type_edges tenant ty db)))"

definition hierarchy_acyclic :: "trace_db \<Rightarrow> bool" where
  "hierarchy_acyclic db \<longleftrightarrow> (\<forall>tenant. acyclic (set (hierarchy_edges tenant db)))"

lemma compatible_sym: "compatible r l \<longleftrightarrow> compatible l r"
  by (auto simp: compatible_def)

lemma acyclic_iff_no_cycle: "acyclic E \<longleftrightarrow> \<not> has_cycle E \<and> (\<forall>x. (x, x) \<notin> E)"
proof
  assume a: "acyclic E"
  then show "\<not> has_cycle E \<and> (\<forall>x. (x, x) \<notin> E)"
    unfolding has_cycle_def acyclic_def by (metis r_into_trancl rtranclD trancl_rtrancl_trancl)
next
  assume n: "\<not> has_cycle E \<and> (\<forall>x. (x, x) \<notin> E)"
  show "acyclic E"
  proof (rule acyclicI, intro allI notI)
    fix x
    assume "(x, x) \<in> E\<^sup>+"
    then obtain y where "(x, y) \<in> E" "(y, x) \<in> E\<^sup>*" by (meson tranclD)
    with n show False unfolding has_cycle_def by (metis r_into_rtrancl)
  qed
qed

lemma recompute_simps [simp]:
  "td_links (recompute s db) = td_links db" "td_artifacts (recompute s db) = td_artifacts db"
  "td_next (recompute s db) = td_next db"
  by (simp_all add: recompute_def)

lemma queries_cong:
  assumes "td_links db' = td_links db"
  shows "tenant_links tenant db' = tenant_links tenant db" "type_edges tenant ty db' = type_edges tenant ty db"
    "hierarchy_rows tenant db' = hierarchy_rows tenant db" "hierarchy_edges tenant db' = hierarchy_edges tenant db"
    "all_edges tenant db' = all_edges tenant db"
  using assms by (simp_all add: tenant_links_def type_edges_def hierarchy_rows_def hierarchy_edges_def all_edges_def)

lemma invariants_cong:
  assumes "td_links db' = td_links db"
  shows "types_acyclic db' = types_acyclic db" "hierarchy_acyclic db' = hierarchy_acyclic db"
  by (simp_all add: types_acyclic_def hierarchy_acyclic_def queries_cong [OF assms])

lemma links_wf_cong:
  assumes "td_links db' = td_links db" "td_artifacts db' = td_artifacts db" "td_next db' = td_next db"
  shows "links_wf db' = links_wf db"
proof -
  have "row_ok db' = row_ok db"
    using assms by (simp add: fun_eq_iff row_ok_def in_tenant_def get_artifact_def)
  then show ?thesis using assms by (simp add: links_wf_def)
qed

lemma recompute_keeps [simp]:
  "links_wf (recompute s db) = links_wf db" "types_acyclic (recompute s db) = types_acyclic db"
  "hierarchy_acyclic (recompute s db) = hierarchy_acyclic db"
  by (rule links_wf_cong, simp_all) (rule invariants_cong, simp)+

text \<open>Which edges a set of rows contributes.\<close>

lemma type_edges_set: "set (type_edges tenant ty db) = endpoints ` {l \<in> set (td_links db). l_tenant l = tenant \<and> l_type l = ty}"
  by (auto simp: type_edges_def tenant_links_def)

lemma all_edges_set: "set (all_edges tenant db) = endpoints ` {l \<in> set (td_links db). l_tenant l = tenant}"
  by (auto simp: all_edges_def tenant_links_def)

lemma row_edge_hierarchy: "row_edge l \<noteq> None \<longleftrightarrow> l_type l \<in> set HIERARCHY_LINK_TYPES"
  by (auto simp: row_edge_def normalise_hierarchy_edge_def HIERARCHY_LINK_TYPES_def)

lemma hierarchy_edges_set:
  "set (hierarchy_edges tenant db) = {e. \<exists>l\<in>set (td_links db). l_tenant l = tenant \<and> row_edge l = Some e}"
  using row_edge_hierarchy
  by (force simp: hierarchy_edges_def hierarchy_rows_def tenant_links_def map_filter_def)

lemma fewer_rows:
  assumes "set (td_links db') \<subseteq> set (td_links db)"
  shows "types_acyclic db \<Longrightarrow> types_acyclic db'" "hierarchy_acyclic db \<Longrightarrow> hierarchy_acyclic db'"
proof -
  show "types_acyclic db'" if "types_acyclic db"
    unfolding types_acyclic_def
  proof (intro allI)
    fix tenant ty
    have "set (type_edges tenant ty db') \<subseteq> set (type_edges tenant ty db)"
      using assms by (auto simp: type_edges_set)
    then show "acyclic (set (type_edges tenant ty db'))"
      using that by (auto simp: types_acyclic_def intro: acyclic_subset)
  qed
  show "hierarchy_acyclic db'" if "hierarchy_acyclic db"
    unfolding hierarchy_acyclic_def
  proof (intro allI)
    fix tenant
    have "set (hierarchy_edges tenant db') \<subseteq> set (hierarchy_edges tenant db)"
      using assms unfolding hierarchy_edges_set by blast
    then show "acyclic (set (hierarchy_edges tenant db'))"
      using that by (auto simp: hierarchy_acyclic_def intro: acyclic_subset)
  qed
qed

subsection \<open>What the checks establish\<close>

lemma check_endpoints_Inr:
  "check_endpoints tenant s t ty db = Inr u \<longleftrightarrow>
     ty \<in> set VALID_LINK_TYPES \<and> s \<noteq> t \<and> in_tenant tenant s db \<and> in_tenant tenant t db"
  by (auto simp: check_endpoints_def validate_link_type_def in_tenant_def split: option.splits)

lemma row_violation_None:
  "row_violation l rows = None \<longleftrightarrow> l_source l \<noteq> l_target l \<and> l_type l \<noteq> [] \<and>
     (\<forall>r\<in>set rows. l_id r \<noteq> l_id l \<longrightarrow> compatible r l) \<and>
     (\<forall>r\<in>set rows. l_id r = l_id l \<longrightarrow> \<not> (endpoints r = endpoints l \<and> l_type r = l_type l) \<and>
        \<not> (l_type r = ''allocated-to'' \<and> l_type l = ''allocated-to'' \<and> l_source r = l_source l))"
  unfolding row_violation_def compatible_def list_ex_iff by (simp split: if_split) metis

lemma insert_link_Inr:
  "insert_link l db = Inr db' \<longleftrightarrow> row_violation l (td_links db) = None \<and>
     db' = db\<lparr>td_links := td_links db @ [l], td_next := Suc (td_next db)\<rparr>"
  by (auto simp: insert_link_def split: option.splits)

lemma new_link_simps [simp]:
  "l_id (new_link tenant now user s t ty why db) = td_next db" "l_source (new_link tenant now user s t ty why db) = s"
  "l_target (new_link tenant now user s t ty why db) = t" "l_type (new_link tenant now user s t ty why db) = ty"
  "l_tenant (new_link tenant now user s t ty why db) = tenant"
  "endpoints (new_link tenant now user s t ty why db) = (s, t)"
  "row_edge (new_link tenant now user s t ty why db) = normalise_hierarchy_edge ty s t"
  "l_proposed_by (new_link tenant now user s t ty why db) = None"
  "l_proposed_at (new_link tenant now user s t ty why db) = None"
  by (simp_all add: new_link_def endpoints_def row_edge_def)

lemma insert_keeps_wf:
  assumes "links_wf db" "check_endpoints tenant s t ty db = Inr u"
    and "insert_link (new_link tenant now user s t ty why db) db = Inr db'"
  shows "links_wf db'"
proof -
  let ?l = "new_link tenant now user s t ty why db"
  have rows: "sorted_wrt compatible (td_links db)" "list_all (row_ok db) (td_links db)"
    using assms(1) by (simp_all add: links_wf_def)
  have db': "db' = db\<lparr>td_links := td_links db @ [?l], td_next := Suc (td_next db)\<rparr>" and v: "row_violation ?l (td_links db) = None"
    using assms(3) by (simp_all add: insert_link_Inr)
  have grow: "row_ok db r \<Longrightarrow> row_ok db' r" for r
    by (auto simp: row_ok_def db' in_tenant_def get_artifact_def)
  have "row_ok db' ?l"
    using assms(2) by (simp add: check_endpoints_Inr row_ok_def db' in_tenant_def get_artifact_def)
  moreover have "compatible r ?l" if "r \<in> set (td_links db)" for r
  proof -
    have "l_id r \<noteq> l_id ?l" using rows(2) that by (auto simp: list_all_iff row_ok_def)
    with v that show ?thesis by (simp add: row_violation_None)
  qed
  ultimately show ?thesis
    using rows grow by (auto simp: links_wf_def db' sorted_wrt_append list_all_iff)
qed

lemma filter_keeps_wf:
  assumes "links_wf db" "td_artifacts db' = td_artifacts db" "td_next db' = td_next db"
    "td_links db' = filter P (td_links db)"
  shows "links_wf db'"
proof -
  have "row_ok db' = row_ok db"
    using assms by (simp add: fun_eq_iff row_ok_def in_tenant_def get_artifact_def)
  then show ?thesis using assms by (auto simp: links_wf_def list_all_iff sorted_wrt_filter)
qed

subsection \<open>Every operation keeps the tables consistent\<close>

text \<open>A successful \<open>create\<close>, decomposed.\<close>

lemma create_link_Inr:
  "create_link tenant now user s t ty why db = Inr (l, db') \<longleftrightarrow>
     l = new_link tenant now user s t ty why db \<and> check_endpoints tenant s t ty db = Inr () \<and>
     (t, s) \<notin> (set (type_edges tenant ty db))\<^sup>* \<and>
     (case normalise_hierarchy_edge ty s t of None \<Rightarrow> True | Some (p, c) \<Rightarrow> (c, p) \<notin> (set (hierarchy_edges tenant db))\<^sup>*) \<and>
     (\<exists>db1. insert_link l db = Inr db1 \<and> db' = (if ty \<in> set HIERARCHY_LINK_TYPES then recompute [s, t] db1 else db1))"
proof -
  have h: "(if ty \<in> set HIERARCHY_LINK_TYPES then reject_hierarchy_contradiction tenant s t ty db else Inr ()) = Inr u \<longleftrightarrow>
      (case normalise_hierarchy_edge ty s t of None \<Rightarrow> True | Some (p, c) \<Rightarrow> (c, p) \<notin> (set (hierarchy_edges tenant db))\<^sup>*)" for u
    by (cases "normalise_hierarchy_edge ty s t")
      (auto simp: reject_hierarchy_contradiction_def dfs_has_cycle_to_iff normalise_hierarchy_edge_def
        HIERARCHY_LINK_TYPES_def split: option.splits if_splits)
  show ?thesis
    by (auto simp: create_link_def h dfs_has_cycle_to_iff Let_def)
qed

lemma create_keeps_wf: "links_wf db \<Longrightarrow> create_link tenant now user s t ty why db = Inr (l, db') \<Longrightarrow> links_wf db'"
  by (auto simp: create_link_Inr dest: insert_keeps_wf)

lemma insert_rows:
  "insert_link (new_link tenant now user s t ty why db) db = Inr db' \<Longrightarrow>
     set (type_edges tenant' ty' db') =
       (if tenant' = tenant \<and> ty' = ty then insert (s, t) (set (type_edges tenant' ty' db)) else set (type_edges tenant' ty' db))"
  "insert_link (new_link tenant now user s t ty why db) db = Inr db' \<Longrightarrow>
     set (hierarchy_edges tenant' db') =
       (case normalise_hierarchy_edge ty s t of
          Some e \<Rightarrow> if tenant' = tenant then insert e (set (hierarchy_edges tenant' db)) else set (hierarchy_edges tenant' db)
        | None \<Rightarrow> set (hierarchy_edges tenant' db))"
proof -
  assume "insert_link (new_link tenant now user s t ty why db) db = Inr db'"
  then have rows: "set (td_links db') = insert (new_link tenant now user s t ty why db) (set (td_links db))"
    by (auto simp: insert_link_Inr)
  have ins: "{l \<in> insert x A. P l} = (if P x then insert x {l \<in> A. P l} else {l \<in> A. P l})" for x :: link_row and A P
    by auto
  show "set (type_edges tenant' ty' db') =
      (if tenant' = tenant \<and> ty' = ty then insert (s, t) (set (type_edges tenant' ty' db)) else set (type_edges tenant' ty' db))"
    unfolding type_edges_set rows ins by auto
  show "set (hierarchy_edges tenant' db') =
      (case normalise_hierarchy_edge ty s t of
         Some e \<Rightarrow> if tenant' = tenant then insert e (set (hierarchy_edges tenant' db)) else set (hierarchy_edges tenant' db)
       | None \<Rightarrow> set (hierarchy_edges tenant' db))"
    unfolding hierarchy_edges_set rows bex_simps by (auto split: option.split)
qed

lemma create_keeps_types:
  assumes "types_acyclic db" "create_link tenant now user s t ty why db = Inr (l, db')"
  shows "types_acyclic db'"
proof -
  obtain db1 where i: "insert_link (new_link tenant now user s t ty why db) db = Inr db1" and "td_links db' = td_links db1"
    and c: "(t, s) \<notin> (set (type_edges tenant ty db))\<^sup>*"
    using assms(2) by (auto simp: create_link_Inr)
  moreover have "types_acyclic db1"
    using assms(1) c unfolding types_acyclic_def insert_rows(1) [OF i] by (auto simp: acyclic_insert)
  ultimately show ?thesis by (metis invariants_cong(1))
qed

lemma create_keeps_hierarchy:
  assumes "hierarchy_acyclic db" "create_link tenant now user s t ty why db = Inr (l, db')"
  shows "hierarchy_acyclic db'"
proof -
  obtain db1 where i: "insert_link (new_link tenant now user s t ty why db) db = Inr db1" and "td_links db' = td_links db1"
    and c: "case normalise_hierarchy_edge ty s t of None \<Rightarrow> True | Some (p, c) \<Rightarrow> (c, p) \<notin> (set (hierarchy_edges tenant db))\<^sup>*"
    using assms(2) by (auto simp: create_link_Inr)
  moreover have "hierarchy_acyclic db1"
    using assms(1) c unfolding hierarchy_acyclic_def insert_rows(2) [OF i]
    by (auto simp: acyclic_insert split: option.splits)
  ultimately show ?thesis by (metis invariants_cong(2))
qed

lemma batch_insert_wf: "links_wf db \<Longrightarrow> batch_insert tenant now user items db = Inr (cs, seeds, db') \<Longrightarrow> links_wf db'"
proof (induction tenant now user items db arbitrary: cs seeds db' rule: batch_insert.induct)
  case (1 tenant now user db)
  then show ?case by simp
next
  case (2 tenant now user s t ty items db)
  obtain u db1 cs' seeds' where "check_endpoints tenant s t ty db = Inr u"
    "insert_link (new_link tenant now user s t ty [] db) db = Inr db1" "batch_insert tenant now user items db1 = Inr (cs', seeds', db')"
    using "2.prems"(2) by (auto simp: Let_def)
  then show ?case using "2.IH" insert_keeps_wf [OF "2.prems"(1)] by (metis (no_types, lifting))
qed

lemma wf_no_loops: "links_wf db \<Longrightarrow> (x, x) \<notin> set (all_edges tenant db)"
  by (auto simp: links_wf_def list_all_iff row_ok_def all_edges_set endpoints_def)

lemma all_edges_acyclic:
  assumes "acyclic (set (all_edges tenant db))"
  shows "acyclic (set (type_edges tenant ty db))"
  by (rule acyclic_subset [OF assms]) (auto simp: type_edges_set all_edges_set)

lemma tarjan_acyclic:
  assumes "tarjan_find_cycle k (build_adjacency_from_edges (all_edges tenant db)) = Some r" "links_wf db"
  shows "r = None \<longleftrightarrow> acyclic (set (all_edges tenant db))"
  using tarjan_find_cycle_sound [OF assms(1)] wf_no_loops [OF assms(2)] by (auto simp: acyclic_iff_no_cycle)

lemma batch_create_Inr:
  "batch_create k tenant now user items db = Inr (cs, db') \<longleftrightarrow>
     (\<exists>seeds db1. batch_insert tenant now user items db = Inr (cs, seeds, db1) \<and>
        tarjan_find_cycle k (build_adjacency_from_edges (all_edges tenant db1)) = Some None \<and>
        db' = (if seeds \<noteq> [] then recompute seeds db1 else db1))"
proof (cases "batch_insert tenant now user items db")
  case (Inr r)
  obtain cs1 seeds1 db1 where r: "r = (cs1, seeds1, db1)" by (cases r)
  show ?thesis
    by (cases "tarjan_find_cycle k (build_adjacency_from_edges (all_edges tenant db1))")
      (auto simp: batch_create_def Inr r split: option.split)
qed (simp add: batch_create_def)

lemma batch_insert_others:
  "batch_insert tenant now user items db = Inr (cs, seeds, db') \<Longrightarrow> tenant' \<noteq> tenant \<Longrightarrow>
     set (all_edges tenant' db') = set (all_edges tenant' db) \<and> set (type_edges tenant' ty db') = set (type_edges tenant' ty db)"
proof (induction tenant now user items db arbitrary: cs seeds db' rule: batch_insert.induct)
  case (2 tenant now user s t ty0 items db)
  obtain u db1 cs' seeds' where d: "check_endpoints tenant s t ty0 db = Inr u"
    "insert_link (new_link tenant now user s t ty0 [] db) db = Inr db1" "batch_insert tenant now user items db1 = Inr (cs', seeds', db')"
    using "2.prems"(1) by (auto simp: Let_def)
  have "set (all_edges tenant' db1) = set (all_edges tenant' db) \<and> set (type_edges tenant' ty db1) = set (type_edges tenant' ty db)"
    using d(2) "2.prems"(2) by (auto simp: insert_link_Inr all_edges_def type_edges_def tenant_links_def)
  with "2.IH" [OF d(1) refl d(2) d(3) "2.prems"(2)] show ?case by simp
qed simp

lemma batch_create_keeps:
  assumes "links_wf db" "batch_create k tenant now user items db = Inr (cs, db')"
  shows "links_wf db'" "types_acyclic db \<Longrightarrow> types_acyclic db'"
proof -
  obtain seeds db1 where b: "batch_insert tenant now user items db = Inr (cs, seeds, db1)"
    and t: "tarjan_find_cycle k (build_adjacency_from_edges (all_edges tenant db1)) = Some None"
    and db': "db' = (if seeds \<noteq> [] then recompute seeds db1 else db1)"
    using assms(2) by (auto simp: batch_create_Inr)
  have w: "links_wf db1" by (rule batch_insert_wf [OF assms(1) b])
  then show "links_wf db'" by (simp add: db')
  have a: "acyclic (set (all_edges tenant db1))" using tarjan_acyclic [OF t w] by simp
  have "types_acyclic db1" if "types_acyclic db"
    unfolding types_acyclic_def
  proof (intro allI)
    fix tenant' ty
    show "acyclic (set (type_edges tenant' ty db1))"
      using all_edges_acyclic [OF a] batch_insert_others [OF b] that by (cases "tenant' = tenant") (auto simp: types_acyclic_def)
  qed
  then show "types_acyclic db'" if "types_acyclic db" using that by (simp add: db')
qed

lemma get_link_Inr:
  "get_link tenant i db = Inr l \<Longrightarrow> l \<in> set (td_links db) \<and> l_id l = i \<and> l_tenant l = tenant"
  by (auto simp: get_link_def tenant_links_def split: option.splits dest!: find_SomeD)

lemma map_update_compatible:
  assumes "sorted_wrt compatible rows" "\<forall>r\<in>set rows. l_id r \<noteq> i \<longrightarrow> compatible r l"
  shows "sorted_wrt compatible (map (\<lambda>r. if l_id r = i then l else r) rows)"
  using assms
proof (induction rows)
  case (Cons r rows)
  have "l_id x \<noteq> i" if "l_id r = i" "x \<in> set rows" for x
    using Cons.prems(1) that by (auto simp: compatible_def)
  then show ?case using Cons by (auto simp: compatible_sym [of l])
qed simp

lemma update_keeps_wf:
  assumes "links_wf db" "update_link tenant now user i ty db = Inr (l, db')"
  shows "links_wf db'"
proof -
  obtain r where r: "get_link tenant i db = Inr r" and ty: "(case ty of None \<Rightarrow> Inr () | Some ty \<Rightarrow> validate_link_type ty) = Inr ()"
    and l: "l = r\<lparr>l_type := (case ty of None \<Rightarrow> l_type r | Some ty \<Rightarrow> ty),
             l_modified_by := (case user of None \<Rightarrow> l_modified_by r | Some u \<Rightarrow> Some u), l_modified_at := now\<rparr>"
    and v: "row_violation l (filter (\<lambda>r. l_id r \<noteq> i) (td_links db)) = None"
    and db': "db' = db\<lparr>td_links := map (\<lambda>r. if l_id r = i then l else r) (td_links db)\<rparr>"
    using assms(2) by (auto simp: update_link_def Let_def split: option.splits)
  have rr: "r \<in> set (td_links db)" "l_id r = i" using get_link_Inr [OF r] by simp_all
  have li: "l_id l = i" "l_source l = l_source r" "l_target l = l_target r" "l_tenant l = l_tenant r" by (simp_all add: l rr(2))
  have rows: "sorted_wrt compatible (td_links db)" "\<forall>x\<in>set (td_links db). row_ok db x"
    using assms(1) by (simp_all add: links_wf_def list_all_iff)
  have lt: "l_type l \<in> set VALID_LINK_TYPES"
    using ty rows(2) rr(1) by (cases ty) (auto simp: l row_ok_def validate_link_type_def)
  have eq: "row_ok db' = row_ok db" by (simp add: fun_eq_iff db' row_ok_def in_tenant_def get_artifact_def)
  have "row_ok db l" using rows(2) rr li lt by (auto simp: row_ok_def)
  moreover have "compatible x l" if "x \<in> set (td_links db)" "l_id x \<noteq> i" for x
    using v that li by (auto simp: row_violation_None)
  ultimately show ?thesis
    using rows map_update_compatible [OF rows(1), of i l] unfolding links_wf_def eq by (auto simp: db' list_all_iff)
qed

lemma remove_link_simps [simp]:
  "td_links (remove_link i db) = filter (\<lambda>r. l_id r \<noteq> i) (td_links db)"
  "td_artifacts (remove_link i db) = td_artifacts db" "td_next (remove_link i db) = td_next db"
  by (simp_all add: remove_link_def)

lemma batch_remove_rows:
  "batch_remove tenant ids db = Inr (n, seeds, db') \<Longrightarrow>
     td_links db' = filter (\<lambda>r. l_id r \<notin> set ids) (td_links db) \<and> td_artifacts db' = td_artifacts db \<and>
     td_next db' = td_next db \<and> n = length ids"
proof (induction tenant ids db arbitrary: n seeds db' rule: batch_remove.induct)
  case (2 tenant i ids db)
  obtain l m seeds1 where d: "get_link tenant i db = Inr l" "batch_remove tenant ids (remove_link i db) = Inr (m, seeds1, db')"
    "n = Suc m" using "2.prems" by (auto simp: split_beta)
  have "filter (\<lambda>r. l_id r \<notin> set ids) (filter (\<lambda>r. l_id r \<noteq> i) xs) = filter (\<lambda>r. l_id r \<notin> set (i # ids)) xs" for xs
    by (auto simp: filter_filter intro: filter_cong)
  with "2.IH" [OF d(1,2)] d(3) show ?case by simp
qed simp

text \<open>A deletion, of one link or of several, leaves exactly the rows it did not name.\<close>

lemma delete_link_rows:
  assumes "delete_link tenant i db = Inr ((), db')"
  shows "td_links db' = filter (\<lambda>r. l_id r \<noteq> i) (td_links db)" "td_artifacts db' = td_artifacts db" "td_next db' = td_next db"
  using assms by (auto simp: delete_link_def split: if_splits)

lemma batch_delete_rows:
  assumes "batch_delete tenant ids db = Inr (n, db')"
  shows "td_links db' = filter (\<lambda>r. l_id r \<notin> set ids) (td_links db)" "td_artifacts db' = td_artifacts db"
    "td_next db' = td_next db" "n = length ids"
  using assms by (auto simp: batch_delete_def split: if_splits dest: batch_remove_rows)

subsection \<open>Histories of operations\<close>

text \<open>
  Artifacts come and go beside the link operations; removing one removes its links (\<open>on_delete=CASCADE\<close>).
\<close>

definition add_artifact :: "artifact_row \<Rightarrow> trace_db \<Rightarrow> trace_db" where
  "add_artifact a db = (if get_artifact (ar_id a) db = None then db\<lparr>td_artifacts := td_artifacts db @ [a]\<rparr> else db)"

definition remove_artifact :: "uuid \<Rightarrow> trace_db \<Rightarrow> trace_db" where
  "remove_artifact a db =
     db\<lparr>td_artifacts := filter (\<lambda>r. ar_id r \<noteq> a) (td_artifacts db),
        td_links := filter (\<lambda>l. l_source l \<noteq> a \<and> l_target l \<noteq> a) (td_links db)\<rparr>"

datatype link_op =
    CreateOp uuid instant "uuid option" uuid uuid string string
  | UpdateOp uuid instant "uuid option" nat "string option"
  | DeleteOp uuid nat
  | BatchCreateOp nat uuid instant "uuid option" "(uuid \<times> uuid \<times> string) list"
  | BatchDeleteOp uuid "nat list"
  | AddArtifactOp artifact_row
  | RemoveArtifactOp uuid

definition committed :: "trace_db \<Rightarrow> 'e + ('a \<times> trace_db) \<Rightarrow> trace_db" where
  "committed db r = (case r of Inl _ \<Rightarrow> db | Inr (_, db') \<Rightarrow> db')"

fun run_link_op :: "link_op \<Rightarrow> trace_db \<Rightarrow> trace_db" where
  "run_link_op (CreateOp tenant now user s t ty why) db = committed db (create_link tenant now user s t ty why db)"
| "run_link_op (UpdateOp tenant now user i ty) db = committed db (update_link tenant now user i ty db)"
| "run_link_op (DeleteOp tenant i) db = committed db (delete_link tenant i db)"
| "run_link_op (BatchCreateOp k tenant now user items) db = committed db (batch_create k tenant now user items db)"
| "run_link_op (BatchDeleteOp tenant ids) db = committed db (batch_delete tenant ids db)"
| "run_link_op (AddArtifactOp a) db = add_artifact a db"
| "run_link_op (RemoveArtifactOp a) db = remove_artifact a db"

definition empty_trace_db :: trace_db where
  "empty_trace_db = \<lparr>td_artifacts = [], td_links = [], td_next = 0, td_recomputed = []\<rparr>"

definition run_link_ops :: "link_op list \<Rightarrow> trace_db" where
  "run_link_ops ops = fold run_link_op ops empty_trace_db"

fun is_update :: "link_op \<Rightarrow> bool" where
  "is_update (UpdateOp tenant now user i ty) = (ty \<noteq> None)"
| "is_update _ = False"

fun is_batch_create :: "link_op \<Rightarrow> bool" where
  "is_batch_create (BatchCreateOp k tenant now user items) = True"
| "is_batch_create _ = False"

lemma committed_cases:
  assumes "\<And>x db'. r = Inr (x, db') \<Longrightarrow> P db'" "P db"
  shows "P (committed db r)"
  using assms by (auto simp: committed_def split: sum.splits)

text \<open>Artifact operations keep the artifacts other rows refer to.\<close>

lemma in_tenant_add: "in_tenant t x db \<Longrightarrow> in_tenant t x (add_artifact a db)"
proof -
  have "find P (rs @ [a]) = Some r" if "find P rs = Some r" for P r and rs :: "artifact_row list"
    using that by (induction rs) (auto split: if_splits)
  then show "in_tenant t x db \<Longrightarrow> in_tenant t x (add_artifact a db)"
    by (cases "get_artifact x db") (simp_all add: in_tenant_def add_artifact_def get_artifact_def)
qed

lemma in_tenant_remove: "x \<noteq> a \<Longrightarrow> in_tenant t x (remove_artifact a db) = in_tenant t x db"
proof -
  assume "x \<noteq> a"
  then have "find (\<lambda>r. ar_id r = x) (filter (\<lambda>r. ar_id r \<noteq> a) rs) = find (\<lambda>r. ar_id r = x) rs" for rs :: "artifact_row list"
    by (induction rs) auto
  then show ?thesis by (simp add: in_tenant_def get_artifact_def remove_artifact_def)
qed

lemma add_artifact_wf:
  assumes "links_wf db"
  shows "links_wf (add_artifact a db)"
proof -
  have "td_links (add_artifact a db) = td_links db" "td_next (add_artifact a db) = td_next db"
    by (simp_all add: add_artifact_def)
  moreover from this have "row_ok db l \<Longrightarrow> row_ok (add_artifact a db) l" for l
    by (simp add: row_ok_def in_tenant_add)
  ultimately show ?thesis using assms by (auto simp: links_wf_def list_all_iff)
qed

lemma remove_artifact_wf:
  assumes "links_wf db"
  shows "links_wf (remove_artifact a db)"
proof -
  have l: "td_links (remove_artifact a db) = filter (\<lambda>l. l_source l \<noteq> a \<and> l_target l \<noteq> a) (td_links db)"
    "td_next (remove_artifact a db) = td_next db"
    by (simp_all add: remove_artifact_def)
  have "row_ok (remove_artifact a db) l" if "row_ok db l" "l_source l \<noteq> a" "l_target l \<noteq> a" for l
    using that l(2) by (simp add: row_ok_def in_tenant_remove)
  then show ?thesis using assms l(1) by (auto simp: links_wf_def list_all_iff sorted_wrt_filter)
qed

lemma run_link_op_wf: "links_wf db \<Longrightarrow> links_wf (run_link_op op db)"
proof (cases op)
  case (CreateOp tenant now user s t ty why)
  assume "links_wf db"
  then show ?thesis unfolding CreateOp run_link_op.simps
    by (intro committed_cases [where P = links_wf]) (rule create_keeps_wf)
next
  case (UpdateOp tenant now user i ty)
  assume "links_wf db"
  then show ?thesis unfolding UpdateOp run_link_op.simps
    by (intro committed_cases [where P = links_wf]) (rule update_keeps_wf)
next
  case (DeleteOp tenant i)
  assume w: "links_wf db"
  have "links_wf db'" if "delete_link tenant i db = Inr (x, db')" for x db'
    using filter_keeps_wf [OF w] delete_link_rows [of tenant i db db'] that by simp
  then show ?thesis unfolding DeleteOp run_link_op.simps using w by (rule committed_cases [where P = links_wf])
next
  case (BatchCreateOp k tenant now user items)
  assume "links_wf db"
  then show ?thesis unfolding BatchCreateOp run_link_op.simps
    by (intro committed_cases [where P = links_wf]) (rule batch_create_keeps)
next
  case (BatchDeleteOp tenant ids)
  assume w: "links_wf db"
  have "links_wf db'" if "batch_delete tenant ids db = Inr (x, db')" for x db'
    using filter_keeps_wf [OF w] batch_delete_rows [OF that] by simp
  then show ?thesis unfolding BatchDeleteOp run_link_op.simps using w by (rule committed_cases [where P = links_wf])
qed (simp_all add: add_artifact_wf remove_artifact_wf)

lemma run_link_op_fewer:
  assumes "op = DeleteOp tenant i \<or> op = BatchDeleteOp tenant ids \<or> op = AddArtifactOp x \<or> op = RemoveArtifactOp a"
  shows "set (td_links (run_link_op op db)) \<subseteq> set (td_links db)"
  using assms
  by (auto simp: committed_def add_artifact_def remove_artifact_def delete_link_rows batch_delete_rows split: sum.splits if_splits)

text \<open>An update that does not name a type moves no edge.\<close>

lemma update_untyped:
  assumes "update_link tenant now user i None db = Inr (x, db')"
  shows "types_acyclic db \<Longrightarrow> types_acyclic db'" "hierarchy_acyclic db \<Longrightarrow> hierarchy_acyclic db'"
proof -
  obtain r where r: "get_link tenant i db = Inr r"
    and rows: "td_links db' = map (\<lambda>q. if l_id q = i then x else q) (td_links db)"
    and x: "endpoints x = endpoints r" "l_type x = l_type r" "l_tenant x = l_tenant r" "row_edge x = row_edge r"
    using assms by (auto simp: update_link_def Let_def endpoints_def row_edge_def split: option.splits)
  have rin: "r \<in> set (td_links db)" using get_link_Inr [OF r] by simp
  have t: "set (type_edges tn ty' db') \<subseteq> set (type_edges tn ty' db)" for tn ty'
    using rin x unfolding type_edges_set rows by (auto split: if_splits)
  have h: "set (hierarchy_edges tn db') \<subseteq> set (hierarchy_edges tn db)" for tn
    using rin x unfolding hierarchy_edges_set rows by (auto split: if_splits)
  show "types_acyclic db'" if "types_acyclic db"
    using that acyclic_subset [OF _ t] unfolding types_acyclic_def by blast
  show "hierarchy_acyclic db'" if "hierarchy_acyclic db"
    using that acyclic_subset [OF _ h] unfolding hierarchy_acyclic_def by blast
qed

lemma run_link_op_types: "links_wf db \<Longrightarrow> types_acyclic db \<Longrightarrow> \<not> is_update op \<Longrightarrow> types_acyclic (run_link_op op db)"
proof (cases op)
  case (CreateOp tenant now user s t ty why)
  assume "types_acyclic db"
  then show ?thesis unfolding CreateOp run_link_op.simps
    by (intro committed_cases [where P = types_acyclic]) (rule create_keeps_types)
next
  case (UpdateOp tenant now user i ty)
  assume "types_acyclic db" "\<not> is_update op"
  then show ?thesis unfolding UpdateOp run_link_op.simps
    by (intro committed_cases [where P = types_acyclic]) (simp_all add: update_untyped(1))
next
  case (BatchCreateOp k tenant now user items)
  assume w: "links_wf db" "types_acyclic db"
  have "types_acyclic db'" if "batch_create k tenant now user items db = Inr (x, db')" for x db'
    by (rule batch_create_keeps(2) [OF w(1) that w(2)])
  then show ?thesis unfolding BatchCreateOp run_link_op.simps using w(2) by (rule committed_cases [where P = types_acyclic])
qed (use fewer_rows(1) run_link_op_fewer in blast)+

lemma run_link_op_hierarchy:
  "hierarchy_acyclic db \<Longrightarrow> \<not> is_update op \<Longrightarrow> \<not> is_batch_create op \<Longrightarrow> hierarchy_acyclic (run_link_op op db)"
proof (cases op)
  case (CreateOp tenant now user s t ty why)
  assume "hierarchy_acyclic db"
  then show ?thesis unfolding CreateOp run_link_op.simps
    by (intro committed_cases [where P = hierarchy_acyclic]) (rule create_keeps_hierarchy)
next
  case (UpdateOp tenant now user i ty)
  assume "hierarchy_acyclic db" "\<not> is_update op"
  then show ?thesis unfolding UpdateOp run_link_op.simps
    by (intro committed_cases [where P = hierarchy_acyclic]) (simp_all add: update_untyped(2))
next
  case (BatchCreateOp k tenant now user items)
  assume "\<not> is_batch_create op"
  then show ?thesis by (simp add: BatchCreateOp)
qed (use fewer_rows(2) run_link_op_fewer in blast)+

lemma empty_ok: "links_wf empty_trace_db" "types_acyclic empty_trace_db" "hierarchy_acyclic empty_trace_db"
  by (simp_all add: links_wf_def empty_trace_db_def types_acyclic_def hierarchy_acyclic_def type_edges_set hierarchy_edges_set
      acyclic_def)

lemma run_link_ops_wf: "links_wf (run_link_ops ops)"
proof -
  have "links_wf db \<Longrightarrow> links_wf (fold run_link_op ops db)" for db
    by (induction ops arbitrary: db) (simp_all add: run_link_op_wf)
  then show ?thesis by (simp add: run_link_ops_def empty_ok)
qed

subsection \<open>Properties\<close>

definition artifact_example :: "uuid \<Rightarrow> artifact_row" where
  "artifact_example a = \<lparr>ar_id = a, ar_tenant = ''t'', ar_workspace = Some ''w'', ar_type = ''Requirement'', ar_lifecycle = ''active''\<rparr>"

definition ops_example :: "link_op list" where
  "ops_example =
     [AddArtifactOp (artifact_example ''a''), AddArtifactOp (artifact_example ''b''),
      CreateOp ''t'' 1 None ''a'' ''b'' ''decomposes'' [], CreateOp ''t'' 2 None ''b'' ''a'' ''derives-from'' []]"

lemma ops_example_edges:
  "type_edges ''t'' ''decomposes'' (run_link_ops ops_example) = [(''a'', ''b'')]"
  "hierarchy_edges ''t'' (run_link_ops ops_example) = [(''a'', ''b''), (''a'', ''b'')]"
  by code_simp+

text \<open>
  C11: the link table is consistent after any sequence of operations, successful or rejected. Every link has a
  valid type and two different endpoints that exist in the tenant of the link; no two links have the same
  endpoints and type; and no artifact is allocated twice.
\<close>

theorem link_table_consistent:
  "(\<forall>l\<in>set (td_links (run_link_ops ops)). l_type l \<in> set VALID_LINK_TYPES \<and> l_source l \<noteq> l_target l \<and>
     in_tenant (l_tenant l) (l_source l) (run_link_ops ops) \<and> in_tenant (l_tenant l) (l_target l) (run_link_ops ops)) \<and>
   sorted_wrt compatible (td_links (run_link_ops ops))"
  using run_link_ops_wf [of ops] by (auto simp: links_wf_def list_all_iff row_ok_def)

theorem link_table_consistent_witness:
  "map (\<lambda>l. (endpoints l, l_type l)) (td_links (run_link_ops ops_example)) =
     [((''a'', ''b''), ''decomposes''), ((''b'', ''a''), ''derives-from'')] \<and>
   sorted_wrt compatible (td_links (run_link_ops ops_example))"
proof -
  have "map (\<lambda>l. (endpoints l, l_type l)) (td_links (run_link_ops ops_example)) =
     [((''a'', ''b''), ''decomposes''), ((''b'', ''a''), ''derives-from'')]" by code_simp
  then show ?thesis using link_table_consistent [of ops_example] by blast
qed

text \<open>
  C9: cycles are kept out. After any sequence of operations that retypes no link, the links of each type of each
  tenant form an acyclic graph; when no batch is created either, the hierarchy of each tenant, which reads
  \<open>decomposes\<close> downwards and \<open>derives-from\<close> upwards, is acyclic too.
\<close>

theorem trace_graphs_acyclic:
  assumes "list_all (\<lambda>op. \<not> is_update op) ops"
  shows "acyclic (set (type_edges tenant ty (run_link_ops ops))) \<and>
    (list_all (\<lambda>op. \<not> is_batch_create op) ops \<longrightarrow> acyclic (set (hierarchy_edges tenant (run_link_ops ops))))"
proof -
  have "links_wf db \<Longrightarrow> types_acyclic db \<Longrightarrow> list_all (\<lambda>op. \<not> is_update op) ops \<Longrightarrow> types_acyclic (fold run_link_op ops db)" for db
    by (induction ops arbitrary: db) (simp_all add: run_link_op_wf run_link_op_types)
  moreover have "hierarchy_acyclic db \<Longrightarrow> list_all (\<lambda>op. \<not> is_update op) ops \<Longrightarrow> list_all (\<lambda>op. \<not> is_batch_create op) ops \<Longrightarrow>
      hierarchy_acyclic (fold run_link_op ops db)" for db
    by (induction ops arbitrary: db) (simp_all add: run_link_op_hierarchy)
  ultimately show ?thesis
    using assms empty_ok unfolding run_link_ops_def types_acyclic_def hierarchy_acyclic_def by blast
qed

theorem trace_graphs_acyclic_witness:
  "acyclic (set (type_edges ''t'' ''decomposes'' (run_link_ops ops_example))) \<and>
   acyclic (set (hierarchy_edges ''t'' (run_link_ops ops_example))) \<and>
   hierarchy_edges ''t'' (run_link_ops ops_example) = [(''a'', ''b''), (''a'', ''b'')]"
proof -
  have "list_all (\<lambda>op. \<not> is_update op) ops_example" "list_all (\<lambda>op. \<not> is_batch_create op) ops_example"
    by (simp_all add: ops_example_def)
  then show ?thesis using trace_graphs_acyclic [of ops_example "''t''" "''decomposes''"] ops_example_edges by blast
qed

text \<open>The links a tenant may add.\<close>

definition admissible :: "uuid \<Rightarrow> uuid \<Rightarrow> uuid \<Rightarrow> string \<Rightarrow> trace_db \<Rightarrow> bool" where
  "admissible tenant s t ty db \<longleftrightarrow>
     ty \<in> set VALID_LINK_TYPES \<and> s \<noteq> t \<and> in_tenant tenant s db \<and> in_tenant tenant t db \<and>
     (t, s) \<notin> (set (type_edges tenant ty db))\<^sup>* \<and>
     (case normalise_hierarchy_edge ty s t of None \<Rightarrow> True | Some (p, c) \<Rightarrow> (c, p) \<notin> (set (hierarchy_edges tenant db))\<^sup>*) \<and>
     (\<forall>l\<in>set (td_links db). \<not> (endpoints l = (s, t) \<and> l_type l = ty)) \<and>
     (ty = ''allocated-to'' \<longrightarrow> (\<forall>l\<in>set (td_links db). \<not> (l_source l = s \<and> l_type l = ''allocated-to'')))"

lemma valid_types_nonempty: "[] \<notin> set VALID_LINK_TYPES"
  by (simp add: VALID_LINK_TYPES_def)

lemma row_violation_new:
  assumes "links_wf db" "s \<noteq> t" "ty \<in> set VALID_LINK_TYPES"
  shows "row_violation (new_link tenant now user s t ty why db) (td_links db) = None \<longleftrightarrow>
    (\<forall>l\<in>set (td_links db). \<not> (endpoints l = (s, t) \<and> l_type l = ty)) \<and>
    (ty = ''allocated-to'' \<longrightarrow> (\<forall>l\<in>set (td_links db). \<not> (l_source l = s \<and> l_type l = ''allocated-to'')))"
proof -
  have "ty \<noteq> []" using assms(3) valid_types_nonempty by metis
  then show ?thesis using assms(2) by (auto simp: row_violation_def list_ex_iff)
qed

text \<open>
  C10: \<open>create\<close> accepts exactly the admissible links. On consistent tables a link is created iff its type is known,
  its endpoints are two artifacts of the active tenant, it closes no cycle among the links of its type, it does not
  contradict the hierarchy, the edge is new, and the source is not already allocated. The tables then have exactly
  one row more, and the levels of both endpoints are recomputed iff the type is a hierarchy type.
\<close>

theorem create_accepts_iff:
  assumes "links_wf db"
  shows "case create_link tenant now user s t ty why db of
      Inl e \<Rightarrow> \<not> admissible tenant s t ty db
    | Inr (l, db') \<Rightarrow> admissible tenant s t ty db \<and> l = new_link tenant now user s t ty why db \<and>
        td_links db' = td_links db @ [l] \<and> td_artifacts db' = td_artifacts db \<and>
        td_recomputed db' = td_recomputed db @ (if ty \<in> set HIERARCHY_LINK_TYPES then [[s, t]] else [])"
proof -
  let ?l = "new_link tenant now user s t ty why db"
  have adm: "admissible tenant s t ty db \<longleftrightarrow> check_endpoints tenant s t ty db = Inr () \<and>
      (t, s) \<notin> (set (type_edges tenant ty db))\<^sup>* \<and>
      (case normalise_hierarchy_edge ty s t of None \<Rightarrow> True | Some (p, c) \<Rightarrow> (c, p) \<notin> (set (hierarchy_edges tenant db))\<^sup>*) \<and>
      row_violation ?l (td_links db) = None"
    unfolding admissible_def check_endpoints_Inr using row_violation_new [OF assms] by blast
  have ok: "create_link tenant now user s t ty why db =
      Inr (?l, if ty \<in> set HIERARCHY_LINK_TYPES then recompute [s, t] db1 else db1)"
    if "admissible tenant s t ty db" "insert_link ?l db = Inr db1" for db1
    using that(1) unfolding create_link_Inr adm by (intro conjI exI [of _ db1]) (simp_all add: that(2))
  show ?thesis
  proof (cases "create_link tenant now user s t ty why db")
    case (Inl e)
    then show ?thesis using ok adm by (auto simp: insert_link_Inr)
  next
    case (Inr r)
    obtain l db' where r: "r = (l, db')" by (cases r)
    show ?thesis using Inr unfolding r create_link_Inr
      by (auto simp: Inr r adm insert_link_Inr recompute_def)
  qed
qed

theorem create_accepts_iff_witness:
  "(case create_link ''t'' 3 None ''b'' ''a'' ''decomposes'' [] (run_link_ops ops_example) of
      Inl e \<Rightarrow> e = CycleDetected ''decomposes'' None | Inr r \<Rightarrow> False) \<and>
   \<not> admissible ''t'' ''b'' ''a'' ''decomposes'' (run_link_ops ops_example)"
proof -
  have c: "create_link ''t'' 3 None ''b'' ''a'' ''decomposes'' [] (run_link_ops ops_example) = Inl (CycleDetected ''decomposes'' None)"
    by code_simp
  show ?thesis using create_accepts_iff [of "run_link_ops ops_example" "''t''" "''b''" "''a''" "''decomposes''" 3 None "[]", OF run_link_ops_wf]
    by (simp add: c)
qed

text \<open>
  C12: \<open>validate_graph_integrity\<close> is right. On consistent tables, with one Python frame per linked artifact, it returns
  \<open>valid\<close> exactly when the tenant's links form an acyclic graph, and names a cycle exactly when it is not valid.
\<close>

theorem graph_integrity_correct:
  assumes "links_wf db" "card (fst ` set (all_edges tenant db) \<union> snd ` set (all_edges tenant db)) \<le> k"
  shows "\<exists>path. validate_graph_integrity k tenant db = Inr (acyclic (set (all_edges tenant db)), path) \<and>
    (path = None \<longleftrightarrow> acyclic (set (all_edges tenant db)))"
proof -
  obtain r where r: "tarjan_find_cycle k (build_adjacency_from_edges (all_edges tenant db)) = Some r"
    using tarjan_find_cycle_returns assms(2) unfolding all_nodes_build [symmetric] by blast
  show ?thesis using tarjan_acyclic [OF r assms(1)] by (cases r) (auto simp: validate_graph_integrity_def r)
qed

theorem graph_integrity_correct_witness:
  "validate_graph_integrity 2 ''t'' (run_link_ops ops_example) = Inr (False, Some ''a -> b -> a'') \<and>
   \<not> acyclic (set (all_edges ''t'' (run_link_ops ops_example)))"
proof -
  have v: "validate_graph_integrity 2 ''t'' (run_link_ops ops_example) = Inr (False, Some ''a -> b -> a'')" by code_simp
  have e: "all_edges ''t'' (run_link_ops ops_example) = [(''a'', ''b''), (''b'', ''a'')]" by code_simp
  show ?thesis
    using graph_integrity_correct [of "run_link_ops ops_example" "''t''" 2, OF run_link_ops_wf] unfolding v unfolding e by auto
qed

subsection \<open>What the batch and update paths let through\<close>

lemma batch_insert_grows:
  "batch_insert tenant now user items db = Inr (cs, seeds, db') \<Longrightarrow> set (td_links db) \<subseteq> set (td_links db')"
proof (induction tenant now user items db arbitrary: cs seeds db' rule: batch_insert.induct)
  case (2 tenant now user s t ty items db)
  obtain u db1 cs' seeds' where d: "check_endpoints tenant s t ty db = Inr u"
    "insert_link (new_link tenant now user s t ty [] db) db = Inr db1" "batch_insert tenant now user items db1 = Inr (cs', seeds', db')"
    using "2.prems" by (auto simp: Let_def)
  have "set (td_links db) \<subseteq> set (td_links db1)" using d(2) by (auto simp: insert_link_Inr)
  with "2.IH" [OF d(1) refl d(2) d(3)] show ?case by simp
qed simp

text \<open>
  A decomposition in both spellings blocks every batch. Once a parent and a child are linked by \<open>decomposes\<close> and by
  the matching \<open>derives-from\<close>, which the audit rules demand together, every later \<open>batch_create\<close> of the tenant raises,
  whatever its items: the batch check reads both spellings as edges of one graph and finds a cycle.
\<close>

theorem counterpart_blocks_batches:
  assumes "links_wf db" "create_link tenant n1 u1 p c ''decomposes'' w1 db = Inr (l1, db1)"
    and "create_link tenant n2 u2 c p ''derives-from'' w2 db1 = Inr (l2, db2)"
  shows "\<exists>e. batch_create k tenant now user items db2 = Inl e"
proof (rule ccontr)
  assume "\<nexists>e. batch_create k tenant now user items db2 = Inl e"
  then obtain cs db' where "batch_create k tenant now user items db2 = Inr (cs, db')"
    by (cases "batch_create k tenant now user items db2") auto
  then obtain seeds db3 where b: "batch_insert tenant now user items db2 = Inr (cs, seeds, db3)"
    and t: "tarjan_find_cycle k (build_adjacency_from_edges (all_edges tenant db3)) = Some None"
    by (auto simp: batch_create_Inr)
  have wf: "links_wf db1" "links_wf db2" using create_keeps_wf assms by blast+
  have "acyclic (set (all_edges tenant db3))" using tarjan_acyclic [OF t batch_insert_wf [OF wf(2) b]] by simp
  moreover have "l1 \<in> set (td_links db2)" "l2 \<in> set (td_links db2)" "endpoints l1 = (p, c)" "endpoints l2 = (c, p)"
    "l_tenant l1 = tenant" "l_tenant l2 = tenant"
    using assms(2,3) by (auto simp: create_link_Inr insert_link_Inr)
  then have "(p, c) \<in> set (all_edges tenant db3)" "(c, p) \<in> set (all_edges tenant db3)"
    using batch_insert_grows [OF b] unfolding all_edges_set image_iff by (metis (mono_tags, lifting) mem_Collect_eq subsetD)+
  ultimately show False by (meson acyclic_def r_into_trancl trancl_into_trancl)
qed

theorem counterpart_blocks_batches_witness:
  "(\<exists>e. batch_create 100 ''t'' 5 None [] (run_link_ops ops_example) = Inl e)"
proof -
  let ?d0 = "run_link_ops (take 2 ops_example)" and ?d1 = "run_link_ops (take 3 ops_example)"
  have "create_link ''t'' 1 None ''a'' ''b'' ''decomposes'' [] ?d0 =
      Inr (new_link ''t'' 1 None ''a'' ''b'' ''decomposes'' [] ?d0, ?d1)" by code_simp
  moreover have "create_link ''t'' 2 None ''b'' ''a'' ''derives-from'' [] ?d1 =
      Inr (new_link ''t'' 2 None ''b'' ''a'' ''derives-from'' [] ?d1, run_link_ops ops_example)" by code_simp
  ultimately show ?thesis by (rule counterpart_blocks_batches [OF run_link_ops_wf])
qed

text \<open>
  The paths without the hierarchy check. A batch stores \<open>decomposes\<close> and \<open>derives-from\<close> on the same pair in the same
  direction, which makes each requirement its own ancestor, and retyping a link through \<open>update\<close> closes a cycle of one
  link type; \<open>create\<close> refuses both.
\<close>

theorem unchecked_paths_close_cycles:
  "\<not> acyclic (set (hierarchy_edges ''t'' (run_link_ops
      [AddArtifactOp (artifact_example ''a''), AddArtifactOp (artifact_example ''b''),
       BatchCreateOp 100 ''t'' 1 None [(''a'', ''b'', ''decomposes''), (''a'', ''b'', ''derives-from'')]]))) \<and>
   \<not> acyclic (set (type_edges ''t'' ''decomposes'' (run_link_ops
      [AddArtifactOp (artifact_example ''a''), AddArtifactOp (artifact_example ''b''),
       CreateOp ''t'' 1 None ''a'' ''b'' ''decomposes'' [], CreateOp ''t'' 2 None ''b'' ''a'' ''refines'' [],
       UpdateOp ''t'' 3 None 1 (Some ''decomposes'')])))"
proof -
  have two: "\<not> acyclic (set [(x, y), (y, x)])" for x y :: string
    unfolding acyclic_def by (auto intro: trancl_into_trancl [OF r_into_trancl])
  have "hierarchy_edges ''t'' (run_link_ops
      [AddArtifactOp (artifact_example ''a''), AddArtifactOp (artifact_example ''b''),
       BatchCreateOp 100 ''t'' 1 None [(''a'', ''b'', ''decomposes''), (''a'', ''b'', ''derives-from'')]]) =
     [(''a'', ''b''), (''b'', ''a'')]" by code_simp
  moreover have "type_edges ''t'' ''decomposes'' (run_link_ops
      [AddArtifactOp (artifact_example ''a''), AddArtifactOp (artifact_example ''b''),
       CreateOp ''t'' 1 None ''a'' ''b'' ''decomposes'' [], CreateOp ''t'' 2 None ''b'' ''a'' ''refines'' [],
       UpdateOp ''t'' 3 None 1 (Some ''decomposes'')]) = [(''a'', ''b''), (''b'', ''a'')]" by code_simp
  ultimately show ?thesis using two by metis
qed

text \<open>
  The coarse type check is not a superset of the catalog. The built-in \<open>grouped-in\<close> passes the pair check of the
  built-in catalog on the manual path, and the manager rejects it for every pair of endpoints.
\<close>

theorem builtin_type_rejected:
  "check_pair BUILTIN_LINK_TYPES ''grouped-in'' ''Requirement'' ''Group'' True = Inr () \<and>
   create_link tenant now user s t ''grouped-in'' why db = Inl (InvalidLinkType ''grouped-in'')"
proof
  show "check_pair BUILTIN_LINK_TYPES ''grouped-in'' ''Requirement'' ''Group'' True = Inr ()" by code_simp
qed (simp add: create_link_def check_endpoints_def validate_link_type_def VALID_LINK_TYPES_def)

end
