(* ===== verification/Requirement_Tiers.thy ===== *)
theory Requirement_Tiers
  imports Trace_Links
begin

text \<open>
  The tiers of requirements: the ladder of a workspace (\<^verbatim>\<open>application/tier_ladder_service.py\<close>) and the computation of the
  tier and level of every requirement (\<^verbatim>\<open>application/tier_compute.py\<close>), which the trace link manager triggers through
  \<open>recompute_requirement_levels\<close> (\<^verbatim>\<open>traceability/audit/hierarchy.py\<close>).

  The recursive inner functions get the number of Python frames left; \<open>None\<close> is a \<open>RecursionError\<close>. Sets are lists in
  the order in which Python happens to iterate over them. The permission check of the ladder service is a parameter.
\<close>

subsection \<open>Tables\<close>

record tier_row =
  te_workspace :: uuid
  te_key :: string
  te_name :: "(string \<times> string) list"
  te_position :: nat
  te_rule :: string
  te_from_end :: "int option"

record req_row =
  rq_artifact :: uuid
  rq_workspace :: uuid
  rq_tier_key :: "string option"
  rq_level :: "nat option"
  rq_source :: string

record element_row =
  el_id :: uuid
  el_artifact :: uuid
  el_workspace :: uuid
  el_parent :: "uuid option"

text \<open>\<open>tb_parents\<close> holds the workspace and the parent of each artifact of type Requirement.\<close>

record tier_db =
  tb_workspaces :: "uuid list"
  tb_tiers :: "tier_row list"
  tb_reqs :: "req_row list"
  tb_elements :: "element_row list"
  tb_parents :: "(uuid \<times> uuid \<times> uuid option) list"
  tb_links :: "link_row list"

datatype tier_error =
    TierValidation string
  | WorkspaceNotFound uuid
  | TierIntegrity string
  | PermissionDenied
  | TierFramesExhausted

definition FIRST_RULE :: string where "FIRST_RULE = ''first''"

definition MIDDLE_RULE :: string where "MIDDLE_RULE = ''middle''"

definition FROM_END_RULE :: string where "FROM_END_RULE = ''from_end''"

definition SRC_MANUAL :: string where "SRC_MANUAL = ''manual''"

definition SRC_ALLOCATION :: string where "SRC_ALLOCATION = ''derived_allocation''"

definition SRC_HIERARCHY :: string where "SRC_HIERARCHY = ''derived_hierarchy''"

definition SRC_TYPE :: string where "SRC_TYPE = ''derived_type''"

definition SRC_UNRESOLVED :: string where "SRC_UNRESOLVED = ''unresolved''"

subsection \<open>The ladder\<close>

type_synonym ladder = "tier_row list"

definition key_at :: "ladder \<Rightarrow> nat \<Rightarrow> string option" where
  "key_at entries position = (if position < length entries then Some (te_key (entries ! position)) else None)"

text \<open>A later entry of a dict comprehension wins.\<close>

definition position_of :: "ladder \<Rightarrow> string option \<Rightarrow> nat option" where
  "position_of entries tier_key =
     (case tier_key of None \<Rightarrow> None | Some key \<Rightarrow> map_of (rev (map (\<lambda>e. (te_key e, te_position e)) entries)) key)"

definition first_key :: "ladder \<Rightarrow> string option" where
  "first_key entries = map_option te_key (find (\<lambda>e. te_rule e = FIRST_RULE) entries)"

definition middle_key :: "ladder \<Rightarrow> string option" where
  "middle_key entries = map_option te_key (find (\<lambda>e. te_rule e = MIDDLE_RULE) entries)"

definition from_end_key :: "ladder \<Rightarrow> nat \<Rightarrow> string option" where
  "from_end_key entries h =
     map_option te_key (find (\<lambda>e. te_rule e = FROM_END_RULE \<and> te_from_end e = Some (int h)) entries)"

definition DEFAULT_LADDER :: "(string \<times> (string \<times> string) list \<times> string \<times> int option) list" where
  "DEFAULT_LADDER =
     [(''erste'', [(''de'', ''Erste''), (''en'', ''First'')], FIRST_RULE, None),
      (''dazwischen'', [(''de'', ''Dazwischen''), (''en'', ''Middle'')], MIDDLE_RULE, None),
      (''vorletzte'', [(''de'', ''Vorletzte''), (''en'', ''Second to last'')], FROM_END_RULE, Some 1),
      (''letzte'', [(''de'', ''Letzte''), (''en'', ''Last'')], FROM_END_RULE, Some 0)]"

definition THREE_NAME_TIERS :: "(string \<times> (string \<times> string) list \<times> string \<times> int option) list" where
  "THREE_NAME_TIERS =
     [(''erste'', [(''de'', ''Erste''), (''en'', ''First'')], FIRST_RULE, None),
      (''dazwischen'', [(''de'', ''Mitte''), (''en'', ''Middle'')], MIDDLE_RULE, None),
      (''letzte'', [(''de'', ''Letzte''), (''en'', ''Last'')], FROM_END_RULE, Some 0)]"

text \<open>Python's \<open>or\<close> over labels: a missing or empty one falls through.\<close>

definition label_or :: "string option \<Rightarrow> string \<Rightarrow> string" where
  "label_or label fallback = (case label of Some s \<Rightarrow> if s = [] then fallback else s | None \<Rightarrow> fallback)"

definition name_map :: "ladder \<Rightarrow> (string \<times> string) list" where
  "name_map entries =
     map (\<lambda>e. (te_key e, label_or (map_of (te_name e) ''en'') (label_or (map_of (te_name e) ''de'') (te_key e)))) entries"

definition workspace_tiers :: "uuid \<Rightarrow> tier_db \<Rightarrow> ladder" where
  "workspace_tiers ws db = sort_key te_position (filter (\<lambda>e. te_workspace e = ws) (tb_tiers db))"

text \<open>The constraints of \<open>WorkspaceTier\<close>, against the other rows.\<close>

definition tier_violation :: "tier_row \<Rightarrow> tier_row list \<Rightarrow> string option" where
  "tier_violation e rows =
     (if list_ex (\<lambda>r. te_workspace r = te_workspace e \<and> te_key r = te_key e) rows then Some ''uq_workspace_tier_key''
      else if list_ex (\<lambda>r. te_workspace r = te_workspace e \<and> te_position r = te_position e) rows
      then Some ''uq_workspace_tier_position''
      else if (case te_from_end e of None \<Rightarrow> False | Some n \<Rightarrow> n < 0) then Some ''pl_workspace_tier_from_end_check''
      else None)"

definition seed_row :: "uuid \<Rightarrow> nat \<times> string \<times> (string \<times> string) list \<times> string \<times> int option \<Rightarrow> tier_row" where
  "seed_row ws t =
     (case t of (position, key, name, rule, from_end) \<Rightarrow>
        \<lparr>te_workspace = ws, te_key = key, te_name = name, te_position = position, te_rule = rule, te_from_end = from_end\<rparr>)"

definition seed_if_empty :: "uuid \<Rightarrow> tier_db \<Rightarrow> tier_db" where
  "seed_if_empty ws db =
     (if list_ex (\<lambda>e. te_workspace e = ws) (tb_tiers db) then db
      else db\<lparr>tb_tiers := tb_tiers db @ map (seed_row ws) (enumerate 0 DEFAULT_LADDER)\<rparr>)"

definition ladder_get :: "uuid \<Rightarrow> tier_db \<Rightarrow> tier_error + (ladder \<times> tier_db)" where
  "ladder_get ws db =
     res_bind (raise_if (ws \<notin> set (tb_workspaces db)) (WorkspaceNotFound ws)) (\<lambda>_.
     let db1 = seed_if_empty ws db in Inr (workspace_tiers ws db1, db1))"

definition seed_default :: "uuid \<Rightarrow> tier_db \<Rightarrow> tier_error + (ladder \<times> tier_db)" where
  "seed_default ws db =
     res_bind (raise_if (\<not> list_ex (\<lambda>e. te_workspace e = ws) (tb_tiers db) \<and> ws \<notin> set (tb_workspaces db)) (WorkspaceNotFound ws)) (\<lambda>_.
     let db1 = seed_if_empty ws db in Inr (workspace_tiers ws db1, db1))"

subsection \<open>Heights of architecture elements\<close>

type_synonym heights = "uuid \<Rightarrow> nat option"

fun height :: "nat \<Rightarrow> uuid adjacency \<Rightarrow> uuid list \<Rightarrow> uuid \<Rightarrow> heights \<Rightarrow> (nat \<times> heights) option"
  and child_heights :: "nat \<Rightarrow> uuid adjacency \<Rightarrow> uuid list \<Rightarrow> uuid list \<Rightarrow> heights \<Rightarrow> (nat list \<times> heights) option" where
  "height 0 children visiting e hs = None"
| "height (Suc k) children visiting e hs =
     (case hs e of
        Some v \<Rightarrow> Some (v, hs)
      | None \<Rightarrow>
          if e \<in> set visiting then Some (0, hs)
          else (case child_heights k children (e # visiting) (adj_get children e) hs of
                  None \<Rightarrow> None
                | Some (vs, hs1) \<Rightarrow> (let v = (if vs = [] then 0 else 1 + Max (set vs)) in Some (v, hs1(e \<mapsto> v)))))"
| "child_heights k children visiting [] hs = Some ([], hs)"
| "child_heights k children visiting (c # cs) hs =
     (case height k children visiting c hs of
        None \<Rightarrow> None
      | Some (v, hs1) \<Rightarrow>
          (case child_heights k children visiting cs hs1 of None \<Rightarrow> None | Some (vs, hs2) \<Rightarrow> Some (v # vs, hs2)))"

definition element_children :: "element_row list \<Rightarrow> uuid adjacency" where
  "element_children els =
     build_adjacency_from_edges (List.map_filter (\<lambda>e. map_option (\<lambda>p. (p, el_id e)) (el_parent e)) els)"

fun all_heights :: "nat \<Rightarrow> uuid adjacency \<Rightarrow> uuid list \<Rightarrow> heights \<Rightarrow> heights option" where
  "all_heights k children [] hs = Some hs"
| "all_heights k children (e # es) hs =
     (case height k children [] e hs of None \<Rightarrow> None | Some (_, hs1) \<Rightarrow> all_heights k children es hs1)"

definition element_heights :: "nat \<Rightarrow> element_row list \<Rightarrow> (heights \<times> uuid list) option" where
  "element_heights k els =
     map_option (\<lambda>hs. (hs, map el_id (filter (\<lambda>e. el_parent e = None) els)))
       (all_heights k (element_children els) (map el_id els) Map.empty)"

definition tier_for_element :: "uuid \<Rightarrow> ladder \<Rightarrow> heights \<Rightarrow> uuid list \<Rightarrow> string option" where
  "tier_for_element e entries hs roots =
     (if e \<in> set roots then first_key entries
      else case from_end_key entries (case hs e of None \<Rightarrow> 0 | Some h \<Rightarrow> h) of
             Some key \<Rightarrow> Some key
           | None \<Rightarrow> if list_ex (\<lambda>t. te_rule t = MIDDLE_RULE) entries then middle_key entries else None)"

subsection \<open>Parents, allocations, cycles\<close>

definition TIER_PARENT_TO_CHILD :: "string list" where
  "TIER_PARENT_TO_CHILD = [''decomposes'']"

definition TIER_CHILD_TO_PARENT :: "string list" where
  "TIER_CHILD_TO_PARENT = [''derives-from'', ''refines'']"

definition tier_link_edge :: "link_row \<Rightarrow> (uuid \<times> uuid) option" where
  "tier_link_edge l =
     (if l_type l \<in> set TIER_PARENT_TO_CHILD then Some (l_target l, l_source l)
      else if l_type l \<in> set TIER_CHILD_TO_PARENT then Some (l_source l, l_target l)
      else None)"

text \<open>Edges lead from a requirement to its parents.\<close>

definition requirement_parents :: "uuid \<Rightarrow> uuid list \<Rightarrow> tier_db \<Rightarrow> uuid adjacency" where
  "requirement_parents ws ids db =
     build_adjacency_from_edges (remdups
       (List.map_filter (\<lambda>(a, w, p). if w = ws \<and> a \<in> set ids then map_option (\<lambda>p. (a, p)) p else None) (tb_parents db) @
        filter (\<lambda>(c, p). c \<in> set ids \<and> p \<in> set ids) (List.map_filter tier_link_edge (tb_links db))))"

definition allocations :: "uuid list \<Rightarrow> tier_db \<Rightarrow> (uuid \<times> uuid) list" where
  "allocations ids db =
     rev (map endpoints (filter (\<lambda>l. l_type l = ''allocated-to'' \<and> l_source l \<in> set ids) (tb_links db)))"

datatype walk_mark = OnStack | Done

type_synonym walk_state = "(uuid \<Rightarrow> walk_mark option) \<times> uuid list"

text \<open>\<open>stack\<close> has its top first; the second component of the state collects the nodes found on cycles.\<close>

fun walk :: "nat \<Rightarrow> uuid adjacency \<Rightarrow> uuid list \<Rightarrow> uuid list \<Rightarrow> uuid \<Rightarrow> walk_state \<Rightarrow> walk_state option"
  and walk_all :: "nat \<Rightarrow> uuid adjacency \<Rightarrow> uuid list \<Rightarrow> uuid list \<Rightarrow> uuid list \<Rightarrow> walk_state \<Rightarrow> walk_state option" where
  "walk 0 parents ids stack node s = None"
| "walk (Suc k) parents ids stack node s =
     (case fst s node of
        Some OnStack \<Rightarrow>
          Some (if node \<in> set stack then (fst s, takeWhile (\<lambda>x. x \<noteq> node) stack @ node # snd s) else s)
      | Some Done \<Rightarrow> Some s
      | None \<Rightarrow>
          map_option (\<lambda>s1. ((fst s1)(node \<mapsto> Done), snd s1))
            (walk_all k parents ids (node # stack) (adj_get parents node) ((fst s)(node \<mapsto> OnStack), snd s)))"
| "walk_all k parents ids stack [] s = Some s"
| "walk_all k parents ids stack (p # ps) s =
     (case (if p \<in> set ids then walk k parents ids stack p s else Some s) of
        None \<Rightarrow> None
      | Some s1 \<Rightarrow> walk_all k parents ids stack ps s1)"

definition cycle_nodes :: "nat \<Rightarrow> uuid adjacency \<Rightarrow> uuid list \<Rightarrow> uuid list option" where
  "cycle_nodes k parents ids = map_option snd (walk_all k parents ids [] ids (Map.empty, []))"

subsection \<open>Deriving the tiers\<close>

type_synonym tier_outcome = "string option \<times> nat option \<times> string"

definition UNRESOLVED :: tier_outcome where
  "UNRESOLVED = (None, None, SRC_UNRESOLVED)"

record tier_inputs =
  ti_reqs :: "req_row list"
  ti_ladder :: ladder
  ti_alloc :: "(uuid \<times> uuid) list"
  ti_element_tier :: "(uuid \<times> string option) list"
  ti_parents :: "uuid adjacency"
  ti_cyclic :: "uuid list"

definition find_req :: "req_row list \<Rightarrow> uuid \<Rightarrow> req_row option" where
  "find_req reqs a = find (\<lambda>r. rq_artifact r = a) reqs"

definition placed :: "ladder \<Rightarrow> string \<Rightarrow> string \<Rightarrow> tier_outcome" where
  "placed entries key source = (Some key, map_option Suc (position_of entries (Some key)), source)"

definition allocation_outcome :: "tier_inputs \<Rightarrow> uuid \<Rightarrow> tier_outcome" where
  "allocation_outcome ti target =
     (case map_of (ti_element_tier ti) target of
        Some (Some key) \<Rightarrow> placed (ti_ladder ti) key SRC_ALLOCATION
      | _ \<Rightarrow> UNRESOLVED)"

text \<open>The outcome of a requirement without allocation, from the tiers of its parents.\<close>

definition hierarchy_outcome :: "ladder \<Rightarrow> string option list \<Rightarrow> tier_outcome" where
  "hierarchy_outcome entries tiers =
     (let positions = List.map_filter (position_of entries) tiers
      in if positions \<noteq> []
         then (case key_at entries (Suc (Max (set positions))) of
                 None \<Rightarrow> UNRESOLVED
               | Some key \<Rightarrow> (Some key, Some (Suc (Suc (Max (set positions)))), SRC_HIERARCHY))
         else if tiers \<noteq> [] then UNRESOLVED
         else (case first_key entries of None \<Rightarrow> UNRESOLVED | Some key \<Rightarrow> placed entries key SRC_TYPE))"

type_synonym resolved = "uuid \<Rightarrow> tier_outcome option"

fun compute :: "nat \<Rightarrow> tier_inputs \<Rightarrow> uuid list \<Rightarrow> uuid \<Rightarrow> resolved \<Rightarrow> (tier_outcome \<times> resolved) option"
  and compute_all :: "nat \<Rightarrow> tier_inputs \<Rightarrow> uuid list \<Rightarrow> uuid list \<Rightarrow> resolved \<Rightarrow> (tier_outcome list \<times> resolved) option" where
  "compute 0 ti visiting a res = None"
| "compute (Suc k) ti visiting a res =
     (case res a of
        Some out \<Rightarrow> Some (out, res)
      | None \<Rightarrow>
          (case find_req (ti_reqs ti) a of
             None \<Rightarrow> Some (UNRESOLVED, res)
           | Some r \<Rightarrow>
               if rq_source r = SRC_MANUAL
               then (let out = (rq_tier_key r, rq_level r, SRC_MANUAL) in Some (out, res(a \<mapsto> out)))
               else if a \<in> set (ti_cyclic ti) then Some (UNRESOLVED, res(a \<mapsto> UNRESOLVED))
               else if a \<in> set visiting then Some (UNRESOLVED, res(a \<mapsto> UNRESOLVED))
               else case map_of (ti_alloc ti) a of
                      Some target \<Rightarrow> (let out = allocation_outcome ti target in Some (out, res(a \<mapsto> out)))
                    | None \<Rightarrow>
                        (case compute_all k ti (a # visiting) (adj_get (ti_parents ti) a) res of
                           None \<Rightarrow> None
                         | Some (outs, res1) \<Rightarrow>
                             (let out = hierarchy_outcome (ti_ladder ti) (map fst outs) in Some (out, res1(a \<mapsto> out))))))"
| "compute_all k ti visiting [] res = Some ([], res)"
| "compute_all k ti visiting (p # ps) res =
     (case compute k ti visiting p res of
        None \<Rightarrow> None
      | Some (out, res1) \<Rightarrow>
          (case compute_all k ti visiting ps res1 of
             None \<Rightarrow> None
           | Some (outs, res2) \<Rightarrow> Some (out # outs, res2)))"

definition derive_tiers :: "nat \<Rightarrow> tier_inputs \<Rightarrow> resolved option" where
  "derive_tiers k ti = map_option snd (compute_all k ti [] (map rq_artifact (ti_reqs ti)) Map.empty)"

subsection \<open>Recomputing a workspace\<close>

record level_change =
  lc_artifact :: uuid
  lc_old :: tier_outcome
  lc_new :: tier_outcome

definition parents_of_workspace :: "uuid \<Rightarrow> (uuid \<Rightarrow> uuid option) option \<Rightarrow> tier_db \<Rightarrow> uuid adjacency" where
  "parents_of_workspace ws parent_of_artifact db =
     (let ids = map rq_artifact (filter (\<lambda>r. rq_workspace r = ws) (tb_reqs db))
      in case parent_of_artifact of
           None \<Rightarrow> requirement_parents ws ids db
         | Some f \<Rightarrow> build_adjacency_from_edges
             (List.map_filter (\<lambda>a. case f a of None \<Rightarrow> None | Some p \<Rightarrow> if p \<in> set ids then Some (a, p) else None) ids))"

definition tier_inputs_of :: "nat \<Rightarrow> uuid \<Rightarrow> (uuid \<Rightarrow> uuid option) option \<Rightarrow> ladder \<Rightarrow> tier_db \<Rightarrow> tier_inputs option" where
  "tier_inputs_of k ws parent_of_artifact entries db =
     (let els = filter (\<lambda>e. el_workspace e = ws) (tb_elements db);
          reqs = filter (\<lambda>r. rq_workspace r = ws) (tb_reqs db);
          ids = map rq_artifact reqs;
          parents = parents_of_workspace ws parent_of_artifact db
      in case element_heights k els of
           None \<Rightarrow> None
         | Some (hs, roots) \<Rightarrow>
             (case cycle_nodes k parents ids of
                None \<Rightarrow> None
              | Some cyc \<Rightarrow>
                  Some \<lparr>ti_reqs = reqs, ti_ladder = entries, ti_alloc = allocations ids db,
                        ti_element_tier = rev (map (\<lambda>e. (el_artifact e, tier_for_element (el_id e) entries hs roots)) els),
                        ti_parents = parents, ti_cyclic = cyc\<rparr>))"

definition req_outcome :: "req_row \<Rightarrow> tier_outcome" where
  "req_outcome r = (rq_tier_key r, rq_level r, rq_source r)"

definition change_of :: "bool \<Rightarrow> resolved \<Rightarrow> req_row \<Rightarrow> level_change option" where
  "change_of fill_only res r =
     (case res (rq_artifact r) of
        None \<Rightarrow> None
      | Some out \<Rightarrow>
          if req_outcome r = out then None
          else if fill_only \<and> (rq_level r \<noteq> None \<or> fst (snd out) = None) then None
          else if rq_source r = SRC_MANUAL \<and> snd (snd out) = SRC_MANUAL then None
          else Some \<lparr>lc_artifact = rq_artifact r, lc_old = req_outcome r, lc_new = out\<rparr>)"

definition apply_change :: "level_change list \<Rightarrow> req_row \<Rightarrow> req_row" where
  "apply_change changes r =
     (case find (\<lambda>c. lc_artifact c = rq_artifact r) changes of
        None \<Rightarrow> r
      | Some c \<Rightarrow> r\<lparr>rq_tier_key := fst (lc_new c), rq_level := fst (snd (lc_new c)), rq_source := snd (snd (lc_new c))\<rparr>)"

definition recompute_workspace_tiers ::
  "nat \<Rightarrow> uuid \<Rightarrow> (uuid \<Rightarrow> uuid option) option \<Rightarrow> bool \<Rightarrow> bool \<Rightarrow> tier_db \<Rightarrow> tier_error + (level_change list \<times> tier_db)" where
  "recompute_workspace_tiers k ws parent_of_artifact dry_run fill_only db =
     res_bind (ladder_get ws db) (\<lambda>(entries, db1).
     case tier_inputs_of k ws parent_of_artifact entries db1 of
       None \<Rightarrow> Inl TierFramesExhausted
     | Some ti \<Rightarrow>
         (case derive_tiers k ti of
            None \<Rightarrow> Inl TierFramesExhausted
          | Some res \<Rightarrow>
              (let changes = List.map_filter (change_of fill_only res) (ti_reqs ti)
               in Inr (changes, if dry_run then db1 else db1\<lparr>tb_reqs := map (apply_change changes) (tb_reqs db1)\<rparr>))))"

subsection \<open>Replacing the ladder\<close>

record tier_item =
  it_key :: string
  it_name :: "(string \<times> string) list"
  it_rule :: string
  it_from_end :: "int option"
  it_merge_into :: "string option"

definition validate_ladder :: "tier_item list \<Rightarrow> tier_error + unit" where
  "validate_ladder payload =
     (let keys = map (\<lambda>i. py_strip (it_key i)) payload;
          rules = map it_rule payload;
          from_ends = map it_from_end (filter (\<lambda>i. it_rule i = FROM_END_RULE) payload)
      in res_bind (raise_if (payload = []) (TierValidation ''empty'')) (\<lambda>_.
         res_bind (raise_if ([] \<in> set keys) (TierValidation ''blank key'')) (\<lambda>_.
         res_bind (raise_if (\<not> distinct keys) (TierValidation ''duplicate key'')) (\<lambda>_.
         res_bind (raise_if (count_list rules FIRST_RULE \<noteq> 1) (TierValidation ''first'')) (\<lambda>_.
         res_bind (raise_if (count_list rules MIDDLE_RULE > 1) (TierValidation ''middle'')) (\<lambda>_.
         res_bind (raise_if (count_list from_ends (Some 0) \<noteq> 1) (TierValidation ''leaf'')) (\<lambda>_.
         res_bind (raise_if (list_ex (\<lambda>v. case v of None \<Rightarrow> True | Some n \<Rightarrow> n < 0) from_ends) (TierValidation ''from_end'')) (\<lambda>_.
         raise_if (\<not> distinct from_ends) (TierValidation ''duplicate from_end'')))))))))"

text \<open>The merge target of a removed tier, or the refusal.\<close>

definition merge_target ::
  "(string \<times> string) list \<Rightarrow> string list \<Rightarrow> req_row list \<Rightarrow> string \<Rightarrow> tier_error + (string \<times> string) option" where
  "merge_target merge_targets desired reqs key =
     (case map_of merge_targets key of
        None \<Rightarrow>
          if list_ex (\<lambda>r. rq_tier_key r = Some key) reqs then Inl (TierValidation key) else Inr None
      | Some target \<Rightarrow> if target \<notin> set desired then Inl (TierValidation target) else Inr (Some (key, target)))"

definition save_tier :: "uuid \<Rightarrow> nat \<Rightarrow> tier_item \<Rightarrow> tier_row list \<Rightarrow> tier_error + tier_row list" where
  "save_tier ws position i rows =
     (let old = find (\<lambda>r. te_workspace r = ws \<and> te_key r = it_key i) rows;
          others = filter (\<lambda>r. \<not> (te_workspace r = ws \<and> te_key r = it_key i)) rows;
          row = \<lparr>te_workspace = ws, te_key = it_key i,
                 te_name = (if it_name i \<noteq> [] then it_name i else case old of None \<Rightarrow> [] | Some r \<Rightarrow> te_name r),
                 te_position = position, te_rule = it_rule i, te_from_end = it_from_end i\<rparr>
      in case tier_violation row others of
           Some c \<Rightarrow> Inl (TierIntegrity c)
         | None \<Rightarrow> Inr (others @ [row]))"

fun save_tiers :: "uuid \<Rightarrow> nat \<Rightarrow> tier_item list \<Rightarrow> tier_row list \<Rightarrow> tier_error + tier_row list" where
  "save_tiers ws position [] rows = Inr rows"
| "save_tiers ws position (i # is) rows = res_bind (save_tier ws position i rows) (save_tiers ws (Suc position) is)"

definition replace_ladder :: "nat \<Rightarrow> bool \<Rightarrow> uuid \<Rightarrow> tier_item list \<Rightarrow> tier_db \<Rightarrow> tier_error + (ladder \<times> tier_db)" where
  "replace_ladder k admin ws tiers db =
     res_bind (raise_if (\<not> admin) PermissionDenied) (\<lambda>_.
     res_bind (raise_if (ws \<notin> set (tb_workspaces db)) (WorkspaceNotFound ws)) (\<lambda>_.
     res_bind (validate_ladder tiers) (\<lambda>_.
     let desired = map it_key tiers;
         merge_targets = rev (List.map_filter (\<lambda>i. case it_merge_into i of None \<Rightarrow> None | Some t \<Rightarrow> if t = [] then None else Some (it_key i, t)) tiers);
         removed = filter (\<lambda>key. key \<notin> set desired) (map te_key (filter (\<lambda>e. te_workspace e = ws) (tb_tiers db)));
         reqs = filter (\<lambda>r. rq_workspace r = ws) (tb_reqs db)
     in res_bind (map_res (merge_target merge_targets desired reqs) removed) (\<lambda>merged.
        let merges = List.map_filter id merged;
            db1 = db\<lparr>tb_reqs := map (\<lambda>r. if rq_workspace r = ws then r\<lparr>rq_tier_key := (case rq_tier_key r of None \<Rightarrow> None
                          | Some key \<Rightarrow> (case map_of merges key of None \<Rightarrow> Some key | Some t \<Rightarrow> Some t))\<rparr> else r) (tb_reqs db)\<rparr>;
            rows = filter (\<lambda>e. \<not> (te_workspace e = ws \<and> te_key e \<in> set removed)) (tb_tiers db)
        in res_bind (save_tiers ws 0 tiers rows) (\<lambda>rows1.
           res_bind (recompute_workspace_tiers k ws None False False (db1\<lparr>tb_tiers := rows1\<rparr>)) (\<lambda>(_, db2).
           Inr (workspace_tiers ws db2, db2)))))))"

definition three_name_payload :: "(string \<times> string) list \<Rightarrow> tier_item list" where
  "three_name_payload names =
     map (\<lambda>(index, key, names0, rule, from_end).
            let label = label_or (map_of names key) (label_or (map_of names (py_nat index)) (the (map_of names0 ''de'')))
            in \<lparr>it_key = key, it_name = [(''de'', label), (''en'', label)], it_rule = rule, it_from_end = from_end, it_merge_into = None\<rparr>)
         (enumerate 0 THREE_NAME_TIERS)"

definition apply_three_names :: "nat \<Rightarrow> bool \<Rightarrow> uuid \<Rightarrow> (string \<times> string) list \<Rightarrow> tier_db \<Rightarrow> tier_error + (ladder \<times> tier_db)" where
  "apply_three_names k admin ws names db = replace_ladder k admin ws (three_name_payload names) db"

subsection \<open>Memoised recursion\<close>

text \<open>
  A recursive function with a memo table and a list of the calls in progress, as \<open>height\<close> and \<open>compute\<close> are: \<open>deps\<close>
  are the recursive calls of an argument, \<open>rule\<close> combines their results, and \<open>keep\<close> says which results are stored.
  When the calls are well-founded the function computes the solution of the equations \<open>val a = rule a (map val (deps a))\<close>,
  whatever is already in the table, and one frame per argument is enough.
\<close>

locale memo_recursion =
  fixes run :: "nat \<Rightarrow> 'a list \<Rightarrow> 'a \<Rightarrow> ('a \<Rightarrow> 'v option) \<Rightarrow> ('v \<times> ('a \<Rightarrow> 'v option)) option"
    and run_all :: "nat \<Rightarrow> 'a list \<Rightarrow> 'a list \<Rightarrow> ('a \<Rightarrow> 'v option) \<Rightarrow> ('v list \<times> ('a \<Rightarrow> 'v option)) option"
    and deps :: "'a \<Rightarrow> 'a list"
    and rule :: "'a \<Rightarrow> 'v list \<Rightarrow> 'v"
    and keep :: "'a \<Rightarrow> bool"
  assumes run_memo: "m a = Some v \<Longrightarrow> run (Suc k) vis a m = Some (v, m)"
    and run_new: "m a = None \<Longrightarrow> a \<notin> set vis \<Longrightarrow>
      run (Suc k) vis a m = map_option (\<lambda>(vs, m1). (rule a vs, if keep a then m1(a \<mapsto> rule a vs) else m1)) (run_all k (a # vis) (deps a) m)"
    and run_busy: "m a = None \<Longrightarrow> a \<in> set vis \<Longrightarrow> \<exists>r. run (Suc k) vis a m = Some r"
    and run_all_Nil: "run_all k vis [] m = Some ([], m)"
    and run_all_Cons: "run_all k vis (d # ds) m =
      (case run k vis d m of None \<Rightarrow> None
       | Some (v, m1) \<Rightarrow> (case run_all k vis ds m1 of None \<Rightarrow> None | Some (vs, m2) \<Rightarrow> Some (v # vs, m2)))"
begin

definition calls :: "('a \<times> 'a) set" where
  "calls = {(d, a). d \<in> set (deps a)}"

definition solves :: "('a \<Rightarrow> 'v) \<Rightarrow> bool" where
  "solves val \<longleftrightarrow> (\<forall>a. val a = rule a (map val (deps a)))"

lemma solution_exists:
  assumes "wf calls"
  shows "\<exists>val. solves val"
proof -
  let ?F = "\<lambda>f a. rule a (map f (deps a))"
  have "wfrec calls ?F a = rule a (map (wfrec calls ?F) (deps a))" for a
  proof -
    have "wfrec calls ?F a = rule a (map (cut (wfrec calls ?F) calls a) (deps a))" by (rule wfrec [OF assms, of ?F a])
    also have "map (cut (wfrec calls ?F) calls a) (deps a) = map (wfrec calls ?F) (deps a)"
      by (rule map_cong) (auto simp: cut_def calls_def)
    finally show ?thesis .
  qed
  then show ?thesis unfolding solves_def by blast
qed

lemma solution_unique:
  assumes "wf calls" "solves val" "solves val'"
  shows "val a = val' a"
  using assms(1)
proof (induction a rule: wf_induct_rule)
  case (less a)
  have "map val (deps a) = map val' (deps a)" using less by (auto simp: calls_def)
  then show ?case using assms(2,3) unfolding solves_def by metis
qed

text \<open>One frame more than there are arguments is always enough to return, well-founded or not.\<close>

lemma run_returns:
  assumes "finite N" "\<And>a. a \<in> N \<Longrightarrow> set (deps a) \<subseteq> N"
  shows "a \<in> N \<Longrightarrow> card (N - set vis) < k \<Longrightarrow> \<exists>r. run k vis a m = Some r"
proof (induction k arbitrary: a vis m)
  case (Suc k a vis m)
  show ?case
  proof (cases "m a = None \<and> a \<notin> set vis")
    case True
    have "N - set (a # vis) \<subset> N - set vis" using Suc.prems(1) True by auto
    then have "card (N - set (a # vis)) < card (N - set vis)" by (rule psubset_card_mono [OF finite_Diff [OF assms(1)]])
    then have card: "card (N - set (a # vis)) < k" using Suc.prems(2) by linarith
    have "set ds \<subseteq> N \<Longrightarrow> \<exists>r. run_all k (a # vis) ds m0 = Some r" for ds m0
    proof (induction ds arbitrary: m0)
      case (Cons d ds)
      then obtain v m1 where "run k (a # vis) d m0 = Some (v, m1)" using Suc.IH [OF _ card, of d m0] by auto
      then show ?case using Cons.IH [of m1] Cons.prems by (auto simp: run_all_Cons)
    qed (simp add: run_all_Nil)
    then show ?thesis using True run_new [of m a vis k] assms(2) [OF Suc.prems(1)] by auto
  next
    case False
    then show ?thesis using run_memo [of m a] run_busy [of m a vis k] by (cases "m a") auto
  qed
qed simp

lemma run_all_returns:
  assumes "finite N" "\<And>a. a \<in> N \<Longrightarrow> set (deps a) \<subseteq> N" "card (N - set vis) < k"
  shows "set ds \<subseteq> N \<Longrightarrow> \<exists>r. run_all k vis ds m = Some r"
proof (induction ds arbitrary: m)
  case (Cons d ds)
  then obtain v m1 where "run k vis d m = Some (v, m1)" using run_returns [OF assms(1,2) _ assms(3), of d m] by auto
  then show ?case using Cons.IH [of m1] Cons.prems by (auto simp: run_all_Cons)
qed (simp add: run_all_Nil)

definition memo_ok :: "('a \<Rightarrow> 'v) \<Rightarrow> ('a \<Rightarrow> 'v option) \<Rightarrow> bool" where
  "memo_ok val m \<longleftrightarrow> (\<forall>x v. m x = Some v \<longrightarrow> keep x \<and> v = val x)"

definition good :: "('a \<Rightarrow> 'v) \<Rightarrow> 'a set \<Rightarrow> 'v list \<Rightarrow> 'a list \<Rightarrow> ('a \<Rightarrow> 'v option) \<Rightarrow> ('a \<Rightarrow> 'v option) \<Rightarrow> bool" where
  "good val N vs ds m m' \<longleftrightarrow> vs = map val ds \<and> memo_ok val m' \<and> m \<subseteq>\<^sub>m m' \<and> (\<forall>d\<in>set ds. keep d \<longrightarrow> m' d = Some (val d))"

lemma run_correct:
  assumes "wf calls" "solves val" "finite N" "\<And>a. a \<in> N \<Longrightarrow> set (deps a) \<subseteq> N"
  shows "memo_ok val m \<Longrightarrow> a \<in> N \<Longrightarrow> \<forall>x\<in>set vis. (a, x) \<in> calls\<^sup>+ \<Longrightarrow> card (N - set vis) \<le> k \<Longrightarrow>
    \<exists>v m'. run k vis a m = Some (v, m') \<and> good val N [v] [a] m m'"
proof (induction k arbitrary: m a vis)
  case (0 m a vis)
  have "a \<notin> set vis" using "0.prems"(3) wf_acyclic [OF assms(1)] by (auto simp: acyclic_def)
  then have "N - set vis \<noteq> {}" using "0.prems"(2) by blast
  then have "card (N - set vis) > 0" using assms(3) by (simp add: card_gt_0_iff)
  then show ?case using "0.prems"(4) by linarith
next
  case (Suc k m a vis)
  have av: "a \<notin> set vis" using Suc.prems(3) wf_acyclic [OF assms(1)] by (auto simp: acyclic_def)
  show ?case
  proof (cases "m a")
    case (Some v)
    then show ?thesis using Suc.prems(1) by (auto simp: run_memo good_def memo_ok_def)
  next
    case None
    have "N - set (a # vis) \<subset> N - set vis" using Suc.prems(2) av by auto
    then have "card (N - set (a # vis)) < card (N - set vis)" by (rule psubset_card_mono [OF finite_Diff [OF assms(3)]])
    then have card: "card (N - set (a # vis)) \<le> k" using Suc.prems(4) by linarith
    have all: "set ds \<subseteq> set (deps a) \<Longrightarrow> memo_ok val m0 \<Longrightarrow>
        \<exists>vs m'. run_all k (a # vis) ds m0 = Some (vs, m') \<and> good val N vs ds m0 m'" for ds m0
    proof (induction ds arbitrary: m0)
      case Nil
      then show ?case by (simp add: run_all_Nil good_def)
    next
      case (Cons d ds)
      have d: "(d, a) \<in> calls" "d \<in> N" using Cons.prems(1) assms(4) Suc.prems(2) by (auto simp: calls_def)
      have "\<forall>x\<in>set (a # vis). (d, x) \<in> calls\<^sup>+"
        using d(1) Suc.prems(3) by (auto intro: trancl_into_trancl2)
      from Suc.IH [OF Cons.prems(2) d(2) this card] obtain v m1
        where 1: "run k (a # vis) d m0 = Some (v, m1)" "good val N [v] [d] m0 m1" by blast
      have "memo_ok val m1" "set ds \<subseteq> set (deps a)" using 1(2) Cons.prems(1) by (auto simp: good_def)
      from Cons.IH [OF this(2,1)] obtain vs m2
        where 2: "run_all k (a # vis) ds m1 = Some (vs, m2)" "good val N vs ds m1 m2" by blast
      have "good val N (v # vs) (d # ds) m0 m2"
        using 1(2) 2(2) unfolding good_def by (auto intro: map_le_trans simp: map_le_def dom_def)
      then show ?case by (simp add: run_all_Cons 1(1) 2(1))
    qed
    from all [of "deps a" m] Suc.prems(1) obtain vs m1
      where r: "run_all k (a # vis) (deps a) m = Some (vs, m1)" "good val N vs (deps a) m m1" by blast
    have v: "rule a vs = val a" using r(2) assms(2) by (simp add: good_def solves_def)
    have "good val N [val a] [a] m (if keep a then m1(a \<mapsto> val a) else m1)"
      using r(2) None by (auto simp: good_def memo_ok_def map_le_def dom_def)
    then show ?thesis using run_new [of m a vis k, OF None av] r(1) v by (auto split: if_splits)
  qed
qed

end

context memo_recursion
begin

lemma run_all_correct:
  assumes "wf calls" "solves val" "finite N" "\<And>a. a \<in> N \<Longrightarrow> set (deps a) \<subseteq> N" "card N \<le> k"
  shows "set ds \<subseteq> N \<Longrightarrow> memo_ok val m \<Longrightarrow> \<exists>vs m'. run_all k [] ds m = Some (vs, m') \<and> good val N vs ds m m'"
proof (induction ds arbitrary: m)
  case Nil
  then show ?case by (simp add: run_all_Nil good_def)
next
  case (Cons d ds)
  have d: "d \<in> N" "\<forall>x\<in>set []. (d, x) \<in> calls\<^sup>+" "card (N - set []) \<le> k" using Cons.prems(1) assms(5) by simp_all
  from run_correct [OF assms(1-4) Cons.prems(2) d] obtain v m1
    where 1: "run k [] d m = Some (v, m1)" "good val N [v] [d] m m1" by blast
  have "set ds \<subseteq> N" "memo_ok val m1" using 1(2) Cons.prems(1) by (auto simp: good_def)
  from Cons.IH [OF this] obtain vs m2
    where 2: "run_all k [] ds m1 = Some (vs, m2)" "good val N vs ds m1 m2" by blast
  have "good val N (v # vs) (d # ds) m m2"
    using 1(2) 2(2) unfolding good_def by (auto intro: map_le_trans simp: map_le_def dom_def)
  then show ?case by (simp add: run_all_Cons 1(1) 2(1))
qed

end

definition height_rule :: "uuid \<Rightarrow> nat list \<Rightarrow> nat" where
  "height_rule e vs = (if vs = [] then 0 else 1 + Max (set vs))"

interpretation ht: memo_recursion "\<lambda>k. height k children" "\<lambda>k. child_heights k children" "adj_get children" height_rule "\<lambda>_. True"
  for children
  by unfold_locales (auto simp: height_rule_def Let_def split: option.splits)

text \<open>What determines the tier of a requirement, and how.\<close>

definition tier_deps :: "tier_inputs \<Rightarrow> uuid \<Rightarrow> uuid list" where
  "tier_deps ti a =
     (case find_req (ti_reqs ti) a of
        None \<Rightarrow> []
      | Some r \<Rightarrow> if rq_source r = SRC_MANUAL \<or> a \<in> set (ti_cyclic ti) \<or> map_of (ti_alloc ti) a \<noteq> None then []
                  else adj_get (ti_parents ti) a)"

definition tier_rule :: "tier_inputs \<Rightarrow> uuid \<Rightarrow> tier_outcome list \<Rightarrow> tier_outcome" where
  "tier_rule ti a outs =
     (case find_req (ti_reqs ti) a of
        None \<Rightarrow> UNRESOLVED
      | Some r \<Rightarrow>
          if rq_source r = SRC_MANUAL then (rq_tier_key r, rq_level r, SRC_MANUAL)
          else if a \<in> set (ti_cyclic ti) then UNRESOLVED
          else case map_of (ti_alloc ti) a of
                 Some target \<Rightarrow> allocation_outcome ti target
               | None \<Rightarrow> hierarchy_outcome (ti_ladder ti) (map fst outs))"

definition tier_kept :: "tier_inputs \<Rightarrow> uuid \<Rightarrow> bool" where
  "tier_kept ti a \<longleftrightarrow> find_req (ti_reqs ti) a \<noteq> None"

interpretation tc: memo_recursion "\<lambda>k. compute k ti" "\<lambda>k. compute_all k ti" "tier_deps ti" "tier_rule ti"
  "tier_kept ti"
  for ti
proof unfold_locales
  fix k vis a and m :: resolved
  assume "m a = None" "a \<notin> set vis"
  then show "compute (Suc k) ti vis a m =
      map_option (\<lambda>(outs, m1). (tier_rule ti a outs, if tier_kept ti a then m1(a \<mapsto> tier_rule ti a outs) else m1))
        (compute_all k ti (a # vis) (tier_deps ti a) m)"
    by (cases "find_req (ti_reqs ti) a"; cases "map_of (ti_alloc ti) a"; cases "compute_all k ti (a # vis) (adj_get (ti_parents ti) a) m")
      (auto simp: tier_rule_def tier_deps_def tier_kept_def Let_def)
qed (auto simp: UNRESOLVED_def Let_def split: option.splits)

subsection \<open>The nodes found on cycles\<close>

definition parent_edges :: "uuid adjacency \<Rightarrow> uuid list \<Rightarrow> (uuid \<times> uuid) set" where
  "parent_edges parents ids = {(a, p). p \<in> set (adj_get parents a) \<and> p \<in> set ids}"

text \<open>
  Nodes in the order in which they were finished, last first: the parents of a node outside \<open>C\<close> were finished before it.
\<close>

fun finished :: "('a \<times> 'a) set \<Rightarrow> 'a set \<Rightarrow> 'a list \<Rightarrow> bool" where
  "finished E C [] = True"
| "finished E C (x # xs) = (finished E C xs \<and> x \<notin> set xs \<and> (x \<in> C \<or> E `` {x} \<subseteq> set xs))"

fun path_stack :: "('a \<times> 'a) set \<Rightarrow> 'a list \<Rightarrow> bool" where
  "path_stack E (x # y # st) = ((y, x) \<in> E \<and> path_stack E (y # st))"
| "path_stack E _ = True"

lemma finished_mono: "finished E C xs \<Longrightarrow> C \<subseteq> D \<Longrightarrow> finished E D xs"
  by (induction xs) auto

lemma finished_grow:
  "\<exists>ord. finished E C ord \<and> set ord = X \<Longrightarrow> C \<subseteq> D \<Longrightarrow> \<exists>ord. finished E D ord \<and> set ord = X"
  using finished_mono by blast

lemma finished_acyclic:
  assumes "finished E C xs"
  shows "acyclic {(x, y). (x, y) \<in> E \<and> x \<in> set xs \<and> x \<notin> C}"
proof -
  define rank where "rank x = length (dropWhile (\<lambda>z. z \<noteq> x) xs)" for x
  have "finished E C zs \<Longrightarrow> x \<in> set zs \<Longrightarrow> x \<notin> C \<Longrightarrow> (x, y) \<in> E \<Longrightarrow>
      y \<in> set zs \<and> length (dropWhile (\<lambda>z. z \<noteq> y) zs) < length (dropWhile (\<lambda>z. z \<noteq> x) zs)" for x y zs
  proof (induction zs)
    case (Cons z zs)
    show ?case
    proof (cases "x = z")
      case True
      then have "y \<in> set zs" "y \<noteq> z" using Cons.prems by auto
      then show ?thesis using True length_dropWhile_le [of "\<lambda>z. z \<noteq> y" zs] by simp
    next
      case False
      then show ?thesis using Cons by auto
    qed
  qed simp
  then have "{(x, y). (x, y) \<in> E \<and> x \<in> set xs \<and> x \<notin> C} \<subseteq> (measure rank)\<inverse>" using assms by (auto simp: rank_def)
  moreover have "acyclic ((measure rank)\<inverse>)" by (simp add: wf_acyclic)
  ultimately show ?thesis by (rule acyclic_subset [rotated])
qed

lemma path_reaches: "path_stack E (x # st) \<Longrightarrow> y \<in> set st \<Longrightarrow> (y, x) \<in> E\<^sup>+"
proof (induction st arbitrary: x)
  case (Cons z st)
  then have "(z, x) \<in> E" "path_stack E (z # st)" by simp_all
  then show ?case using Cons.IH [of z] Cons.prems(2) by (auto intro: trancl_into_trancl)
qed simp

definition walk_inv :: "(uuid \<times> uuid) set \<Rightarrow> uuid list \<Rightarrow> walk_state \<Rightarrow> bool" where
  "walk_inv E stack s \<longleftrightarrow> (\<forall>x. fst s x = Some OnStack \<longleftrightarrow> x \<in> set stack) \<and> path_stack E stack \<and>
     (\<exists>ord. finished E (set (snd s)) ord \<and> set ord = {x. fst s x = Some Done}) \<and> (\<forall>c\<in>set (snd s). (c, c) \<in> E\<^sup>+)"

definition walk_grows :: "walk_state \<Rightarrow> walk_state \<Rightarrow> bool" where
  "walk_grows s s' \<longleftrightarrow> set (snd s) \<subseteq> set (snd s') \<and> (\<forall>x. fst s x = Some Done \<longrightarrow> fst s' x = Some Done)"

text \<open>After a parent was visited it is finished, or it is on the stack and the child was found to be on a cycle.\<close>

definition visited :: "uuid list \<Rightarrow> uuid \<Rightarrow> walk_state \<Rightarrow> bool" where
  "visited stack p s \<longleftrightarrow> fst s p = Some Done \<or> (stack \<noteq> [] \<and> hd stack \<in> set (snd s))"

lemma walk_grows_trans: "walk_grows a b \<Longrightarrow> walk_grows b c \<Longrightarrow> walk_grows a c"
  by (auto simp: walk_grows_def)

lemma visited_grows: "visited stack p s \<Longrightarrow> walk_grows s s' \<Longrightarrow> visited stack p s'"
  by (auto simp: visited_def walk_grows_def)

lemma back_edge:
  assumes "walk_inv E stack s" "node \<in> set stack" "(hd stack, node) \<in> E"
  shows "walk_inv E stack (fst s, takeWhile (\<lambda>x. x \<noteq> node) stack @ node # snd s)"
    and "hd stack \<in> set (takeWhile (\<lambda>x. x \<noteq> node) stack @ node # snd s)"
proof -
  obtain top st where st: "stack = top # st" using assms(2) by (cases stack) auto
  show "hd stack \<in> set (takeWhile (\<lambda>x. x \<noteq> node) stack @ node # snd s)" by (simp add: st)
  have path: "path_stack E (top # st)" using assms(1) by (simp add: walk_inv_def st)
  have up: "y = top \<or> (y, top) \<in> E\<^sup>+" if "y \<in> set stack" for y
    using path_reaches [OF path] that by (auto simp: st)
  have down: "(node, y) \<in> E\<^sup>*" if "y \<in> set (takeWhile (\<lambda>x. x \<noteq> node) zs)" "node \<in> set zs" "path_stack E zs" for y zs
    using that
  proof (induction zs)
    case (Cons z zs)
    show ?case
    proof (cases "y = z")
      case True
      have "node \<in> set zs" using Cons.prems(1,2) by (auto split: if_splits)
      then show ?thesis using path_reaches [of E z zs node] Cons.prems(3) True by (simp add: trancl_into_rtrancl)
    next
      case False
      then have "y \<in> set (takeWhile (\<lambda>x. x \<noteq> node) zs)" "node \<in> set zs" using Cons.prems(1,2) by (auto split: if_splits)
      moreover have "path_stack E zs" using Cons.prems(3) by (cases zs) auto
      ultimately show ?thesis by (rule Cons.IH)
    qed
  qed simp
  have "(y, y) \<in> E\<^sup>+" if "y \<in> set stack" "(node, y) \<in> E\<^sup>*" for y
  proof -
    have "(top, node) \<in> E" using assms(3) by (simp add: st)
    then have "(top, y) \<in> E\<^sup>+" using that(2) by (rule rtrancl_into_trancl2)
    then show ?thesis using up [OF that(1)] by (auto intro: trancl_trans)
  qed
  then have "\<forall>c\<in>set (takeWhile (\<lambda>x. x \<noteq> node) stack @ [node]). (c, c) \<in> E\<^sup>+"
    using down [of _ stack] assms(2) path by (auto simp: st dest: set_takeWhileD)
  then show "walk_inv E stack (fst s, takeWhile (\<lambda>x. x \<noteq> node) stack @ node # snd s)"
    using assms(1) finished_grow [of E "set (snd s)" _ "set (takeWhile (\<lambda>x. x \<noteq> node) stack @ node # snd s)"]
    unfolding walk_inv_def by auto
qed

lemma enter_walk:
  assumes "walk_inv E stack s" "fst s node = None" "stack \<noteq> [] \<longrightarrow> (hd stack, node) \<in> E"
  shows "walk_inv E (node # stack) ((fst s)(node \<mapsto> OnStack), snd s)" "node \<notin> set stack"
proof -
  show "node \<notin> set stack" using assms(1,2) unfolding walk_inv_def by (metis option.distinct(1))
  have "{x. ((fst s)(node \<mapsto> OnStack)) x = Some Done} = {x. fst s x = Some Done}" using assms(2) by auto
  moreover have "path_stack E (node # stack)" using assms(1,3) by (cases stack) (auto simp: walk_inv_def)
  ultimately show "walk_inv E (node # stack) ((fst s)(node \<mapsto> OnStack), snd s)"
    using assms(1) unfolding walk_inv_def by simp
qed

lemma leave_walk:
  assumes "walk_inv E (node # stack) s" "node \<notin> set stack" "\<forall>p. (node, p) \<in> E \<longrightarrow> visited (node # stack) p s"
  shows "walk_inv E stack ((fst s)(node \<mapsto> Done), snd s)" "walk_grows s ((fst s)(node \<mapsto> Done), snd s)"
proof -
  obtain ord where ord: "finished E (set (snd s)) ord" "set ord = {x. fst s x = Some Done}"
    using assms(1) by (auto simp: walk_inv_def)
  have on: "fst s node = Some OnStack" using assms(1) by (simp add: walk_inv_def)
  then have "finished E (set (snd s)) (node # ord)" using assms(3) ord by (auto simp: visited_def)
  moreover have "set (node # ord) = {x. ((fst s)(node \<mapsto> Done)) x = Some Done}" using ord(2) by auto
  moreover have "path_stack E stack" using assms(1) by (cases stack) (auto simp: walk_inv_def)
  ultimately show "walk_inv E stack ((fst s)(node \<mapsto> Done), snd s)"
    using assms(1,2) unfolding walk_inv_def by (auto intro: exI [of _ "node # ord"])
  show "walk_grows s ((fst s)(node \<mapsto> Done), snd s)" by (simp add: walk_grows_def)
qed

lemma walk_all_step:
  assumes "\<And>p s s'. p \<in> set ids \<Longrightarrow> walk k parents ids stack p s = Some s' \<Longrightarrow> walk_inv E stack s \<Longrightarrow>
      (stack \<noteq> [] \<longrightarrow> (hd stack, p) \<in> E) \<Longrightarrow> walk_inv E stack s' \<and> walk_grows s s' \<and> visited stack p s'"
  shows "walk_all k parents ids stack ps s = Some s' \<Longrightarrow> walk_inv E stack s \<Longrightarrow>
      (\<forall>p\<in>set ps \<inter> set ids. stack \<noteq> [] \<longrightarrow> (hd stack, p) \<in> E) \<Longrightarrow>
      walk_inv E stack s' \<and> walk_grows s s' \<and> (\<forall>p\<in>set ps \<inter> set ids. visited stack p s')"
proof (induction ps arbitrary: s)
  case Nil
  then show ?case by (simp add: walk_grows_def)
next
  case (Cons p ps)
  obtain s1 where 1: "(if p \<in> set ids then walk k parents ids stack p s else Some s) = Some s1"
    "walk_all k parents ids stack ps s1 = Some s'" using Cons.prems(1) by (auto split: option.splits)
  have s1: "walk_inv E stack s1 \<and> walk_grows s s1 \<and> (p \<in> set ids \<longrightarrow> visited stack p s1)"
  proof (cases "p \<in> set ids")
    case True
    then have w: "walk k parents ids stack p s = Some s1" and e: "stack \<noteq> [] \<longrightarrow> (hd stack, p) \<in> E"
      using 1(1) Cons.prems(3) by simp_all
    from assms [OF True w Cons.prems(2) e] show ?thesis by blast
  next
    case False
    then show ?thesis using 1(1) Cons.prems(2) by (simp add: walk_grows_def)
  qed
  have "walk_inv E stack s' \<and> walk_grows s1 s' \<and> (\<forall>p\<in>set ps \<inter> set ids. visited stack p s')"
    using Cons.IH [OF 1(2)] s1 Cons.prems(3) by simp
  then show ?case using s1 walk_grows_trans visited_grows by fastforce
qed

lemma walk_correct:
  assumes "E = parent_edges parents ids"
  shows "walk k parents ids stack node s = Some s' \<Longrightarrow> walk_inv E stack s \<Longrightarrow>
      (stack \<noteq> [] \<longrightarrow> (hd stack, node) \<in> E) \<Longrightarrow> walk_inv E stack s' \<and> walk_grows s s' \<and> visited stack node s'"
proof (induction k arbitrary: stack node s s')
  case (Suc k)
  note inv = Suc.prems(2) and edge = Suc.prems(3)
  show ?case
  proof (cases "fst s node")
    case None
    let ?s0 = "((fst s)(node \<mapsto> OnStack), snd s)"
    obtain s1 where w: "walk_all k parents ids (node # stack) (adj_get parents node) ?s0 = Some s1"
      and s': "s' = ((fst s1)(node \<mapsto> Done), snd s1)"
      using Suc.prems(1) None by auto
    note ent = enter_walk [OF inv None edge]
    have "walk_inv E (node # stack) s1 \<and> walk_grows ?s0 s1 \<and> (\<forall>p\<in>set (adj_get parents node) \<inter> set ids. visited (node # stack) p s1)"
      by (rule walk_all_step [OF Suc.IH w ent(1)]) (auto simp: assms parent_edges_def)
    then have s1: "walk_inv E (node # stack) s1" "walk_grows ?s0 s1" "\<forall>p. (node, p) \<in> E \<longrightarrow> visited (node # stack) p s1"
      by (auto simp: assms parent_edges_def)
    note lv = leave_walk [OF s1(1) ent(2) s1(3)]
    have "walk_grows s ?s0" using None by (auto simp: walk_grows_def)
    then have "walk_grows s s'" using s1(2) lv(2) unfolding s' by (meson walk_grows_trans)
    then show ?thesis using lv(1) by (simp add: s' visited_def)
  next
    case (Some mark)
    show ?thesis
    proof (cases mark)
      case OnStack
      then have node: "node \<in> set stack" using inv Some by (auto simp: walk_inv_def)
      then have st: "stack \<noteq> []" and s': "s' = (fst s, takeWhile (\<lambda>x. x \<noteq> node) stack @ node # snd s)"
        using Suc.prems(1) Some OnStack by auto
      from back_edge [OF inv node] edge st show ?thesis by (auto simp: s' walk_grows_def visited_def)
    next
      case Done
      then show ?thesis using Suc.prems Some by (simp add: walk_grows_def visited_def)
    qed
  qed
qed simp

text \<open>
  The nodes collected as cyclic lie on cycles, and every cycle passes through one of them.
\<close>

lemma cycle_nodes_correct:
  assumes "cycle_nodes k parents ids = Some cyc"
  shows "\<forall>c\<in>set cyc. (c, c) \<in> (parent_edges parents ids)\<^sup>+"
    and "acyclic {(a, p). (a, p) \<in> parent_edges parents ids \<and> a \<in> set ids \<and> a \<notin> set cyc}"
proof -
  let ?E = "parent_edges parents ids"
  obtain s where w: "walk_all k parents ids [] ids (Map.empty, []) = Some s" and cyc: "cyc = snd s"
    using assms by (auto simp: cycle_nodes_def)
  have inv: "walk_inv ?E [] (Map.empty, [])" by (auto simp: walk_inv_def intro: exI [of _ "[]"])
  have r: "walk_inv ?E [] s \<and> walk_grows (Map.empty, []) s \<and> (\<forall>p\<in>set ids \<inter> set ids. visited [] p s)"
    by (rule walk_all_step [OF walk_correct w inv]) auto
  then show "\<forall>c\<in>set cyc. (c, c) \<in> ?E\<^sup>+" by (simp add: walk_inv_def cyc)
  obtain ord where ord: "finished ?E (set cyc) ord" "set ord = {x. fst s x = Some Done}"
    using r by (auto simp: walk_inv_def cyc)
  have "set ids \<subseteq> set ord" using r unfolding ord(2) by (auto simp: visited_def)
  with finished_acyclic [OF ord(1)]
  show "acyclic {(a, p). (a, p) \<in> ?E \<and> a \<in> set ids \<and> a \<notin> set cyc}" by (rule_tac acyclic_subset) auto
qed

end
