(* ===== verification/Tier_Recompute.thy ===== *)
theory Tier_Recompute
  imports Requirement_Tiers
begin

text \<open>
  What \<open>recompute_workspace_tiers\<close> leaves in the tables: the stored tiers satisfy the derivation rule, a second run
  changes nothing, a derived requirement sits below its parents; and what \<open>TierLadderService.replace\<close> refuses.
\<close>

subsection \<open>The derived tiers satisfy their rule\<close>

definition outcome_at :: "resolved \<Rightarrow> uuid \<Rightarrow> tier_outcome" where
  "outcome_at res p = (case res p of None \<Rightarrow> UNRESOLVED | Some out \<Rightarrow> out)"

definition req_ids :: "tier_inputs \<Rightarrow> uuid list" where
  "req_ids ti = map rq_artifact (ti_reqs ti)"

definition tier_nodes :: "tier_inputs \<Rightarrow> uuid set" where
  "tier_nodes ti = set (req_ids ti) \<union> (\<Union>a\<in>set (req_ids ti). set (adj_get (ti_parents ti) a))"

lemma find_req_ids: "find_req (ti_reqs ti) a \<noteq> None \<longleftrightarrow> a \<in> set (req_ids ti)"
  by (auto simp: find_req_def req_ids_def find_None_set)

lemma tier_kept_ids: "tier_kept ti a \<longleftrightarrow> a \<in> set (req_ids ti)"
  unfolding tier_kept_def by (rule find_req_ids)

lemma tier_deps_sub: "d \<in> set (tier_deps ti a) \<Longrightarrow> a \<in> set (req_ids ti) \<and> a \<notin> set (ti_cyclic ti) \<and> d \<in> set (adj_get (ti_parents ti) a)"
  using find_req_ids [of ti a] by (auto simp: tier_deps_def split: option.splits if_splits)

lemma tier_deps_nodes: "a \<in> tier_nodes ti \<Longrightarrow> set (tier_deps ti a) \<subseteq> tier_nodes ti"
  using tier_deps_sub [of _ ti a] by (auto simp: tier_nodes_def)

lemma acyclic_dead_ends:
  assumes "acyclic {(a, p). (a, p) \<in> R \<and> p \<in> D}" "\<And>a p. (a, p) \<in> R \<Longrightarrow> a \<in> D"
  shows "acyclic R"
proof (rule acyclicI, intro allI notI)
  fix x
  assume c: "(x, x) \<in> R\<^sup>+"
  then obtain y where "(x, y) \<in> R" by (meson tranclD)
  then have "x \<in> D" by (rule assms(2))
  have "(x, z) \<in> R\<^sup>+ \<Longrightarrow> z \<in> D \<Longrightarrow> (x, z) \<in> {(a, p). (a, p) \<in> R \<and> p \<in> D}\<^sup>+" for z
  proof (induction rule: trancl_induct)
    case (step y z)
    have "y \<in> D" using step.hyps(2) by (rule assms(2))
    with step show ?case by (auto intro: trancl_into_trancl)
  qed auto
  with c \<open>x \<in> D\<close> show False using assms(1) by (auto simp: acyclic_def)
qed

lemma tier_calls_wf:
  assumes "cycle_nodes k (ti_parents ti) (req_ids ti) = Some (ti_cyclic ti)"
  shows "wf (tc.calls ti)"
proof (rule finite_acyclic_wf)
  have "tc.calls ti \<subseteq> tier_nodes ti \<times> set (req_ids ti)"
    using tier_deps_sub by (auto simp: tc.calls_def tier_nodes_def)
  then show "finite (tc.calls ti)" by (rule finite_subset) (simp add: tier_nodes_def)
  let ?R = "{(a, d). d \<in> set (tier_deps ti a)}"
  have "acyclic ?R"
  proof (rule acyclic_dead_ends [where D = "set (req_ids ti)"])
    show "acyclic {(a, p). (a, p) \<in> ?R \<and> p \<in> set (req_ids ti)}"
      by (rule acyclic_subset [OF cycle_nodes_correct(2) [OF assms]]) (auto simp: parent_edges_def dest: tier_deps_sub)
  qed (auto dest: tier_deps_sub)
  then have "acyclic (?R\<inverse>)" by simp
  moreover have "?R\<inverse> = tc.calls ti" by (auto simp: tc.calls_def)
  ultimately show "acyclic (tc.calls ti)" by simp
qed

lemma derive_tiers_rule:
  assumes "cycle_nodes k (ti_parents ti) (req_ids ti) = Some (ti_cyclic ti)" "card (tier_nodes ti) \<le> k"
  shows "\<exists>res. derive_tiers k ti = Some res \<and> dom res = set (req_ids ti) \<and>
    (\<forall>a\<in>set (req_ids ti). res a = Some (tier_rule ti a (map (outcome_at res) (tier_deps ti a))))"
proof -
  note w = tier_calls_wf [OF assms(1)]
  obtain val where val: "tc.solves ti val" using tc.solution_exists [OF w] by blast
  have fin: "finite (tier_nodes ti)" by (simp add: tier_nodes_def)
  have ids: "set (req_ids ti) \<subseteq> tier_nodes ti" by (simp add: tier_nodes_def)
  have "tc.memo_ok ti val Map.empty" by (simp add: tc.memo_ok_def)
  from tc.run_all_correct [OF w val fin tier_deps_nodes assms(2) ids this]
  obtain vs res where r: "compute_all k ti [] (req_ids ti) Map.empty = Some (vs, res)"
    and g: "tc.good ti val (tier_nodes ti) vs (req_ids ti) Map.empty res" by blast
  have known: "res a = Some (val a)" if "a \<in> set (req_ids ti)" for a
    using g that by (simp add: tc.good_def tier_kept_ids)
  have unknown: "res a = None" "val a = UNRESOLVED" if "a \<notin> set (req_ids ti)" for a
  proof -
    have n: "find_req (ti_reqs ti) a = None" using that find_req_ids [of ti a] by blast
    show "res a = None" using g that by (cases "res a") (auto simp: tc.good_def tc.memo_ok_def tier_kept_ids)
    have "val a = tier_rule ti a (map val (tier_deps ti a))" using val by (simp add: tc.solves_def)
    then show "val a = UNRESOLVED" by (simp add: tier_rule_def n)
  qed
  have at: "outcome_at res = val"
  proof
    fix a
    show "outcome_at res a = val a"
      using known unknown by (cases "a \<in> set (req_ids ti)") (simp_all add: outcome_at_def)
  qed
  have "res a = Some (tier_rule ti a (map (outcome_at res) (tier_deps ti a)))" if "a \<in> set (req_ids ti)" for a
    unfolding at using known [OF that] val unfolding tc.solves_def by metis
  moreover have "dom res = set (req_ids ti)" using known unknown(1) by (metis (mono_tags, lifting) domI domIff subsetI subset_antisym)
  ultimately show ?thesis using r by (simp add: derive_tiers_def req_ids_def)
qed

subsection \<open>Enough frames\<close>

lemma walk_returns:
  assumes "E = parent_edges parents ids"
  shows "walk_inv E stack s \<Longrightarrow> (stack \<noteq> [] \<longrightarrow> (hd stack, node) \<in> E) \<Longrightarrow> node \<in> set ids \<Longrightarrow>
    card (set ids - set stack) < k \<Longrightarrow> \<exists>s'. walk k parents ids stack node s = Some s'"
proof (induction k arbitrary: stack node s)
  case (Suc k)
  show ?case
  proof (cases "fst s node")
    case None
    note ent = enter_walk [OF Suc.prems(1) None Suc.prems(2)]
    have "set ids - set (node # stack) \<subset> set ids - set stack" using Suc.prems(3) ent(2) by auto
    then have "card (set ids - set (node # stack)) < card (set ids - set stack)" by (rule psubset_card_mono [rotated]) simp
    then have card: "card (set ids - set (node # stack)) < k" using Suc.prems(4) by linarith
    have all: "set ps \<subseteq> set (adj_get parents node) \<Longrightarrow> walk_inv E (node # stack) s0 \<Longrightarrow>
        \<exists>s'. walk_all k parents ids (node # stack) ps s0 = Some s'" for ps s0
    proof (induction ps arbitrary: s0)
      case (Cons p ps)
      show ?case
      proof (cases "p \<in> set ids")
        case True
        have e: "node # stack \<noteq> [] \<longrightarrow> (hd (node # stack), p) \<in> E"
          using True Cons.prems(1) by (simp add: assms parent_edges_def)
        from Suc.IH [OF Cons.prems(2) e True card] obtain s1 where s1: "walk k parents ids (node # stack) p s0 = Some s1" by blast
        then have "walk_inv E (node # stack) s1" using walk_correct [OF assms s1 Cons.prems(2) e] by blast
        then show ?thesis using Cons.IH [of s1] Cons.prems(1) True s1 by simp
      next
        case False
        then show ?thesis using Cons by simp
      qed
    qed simp
    from all [OF subset_refl ent(1)] show ?thesis using None by auto
  qed (auto split: walk_mark.splits)
qed simp

lemma cycle_nodes_returns:
  assumes "card (set ids) < k"
  shows "\<exists>cyc. cycle_nodes k parents ids = Some cyc"
proof -
  let ?E = "parent_edges parents ids"
  have "set ps \<subseteq> set ids \<Longrightarrow> walk_inv ?E [] s \<Longrightarrow> \<exists>s'. walk_all k parents ids [] ps s = Some s'" for ps s
  proof (induction ps arbitrary: s)
    case (Cons p ps)
    then obtain s1 where s1: "walk k parents ids [] p s = Some s1"
      using walk_returns [OF refl Cons.prems(2), of p k] assms by auto
    then have "walk_inv ?E [] s1" using walk_correct [OF refl s1 Cons.prems(2)] by blast
    then show ?case using Cons.IH [of s1] Cons.prems(1) s1 by simp
  qed simp
  moreover have "walk_inv ?E [] (Map.empty, [])" by (auto simp: walk_inv_def intro: exI [of _ "[]"])
  ultimately show ?thesis unfolding cycle_nodes_def by (metis option.simps(9) order_refl)
qed

lemma element_children_ids: "set (adj_get (element_children els) e) \<subseteq> set (map el_id els)"
proof
  fix c
  assume "c \<in> set (adj_get (element_children els) e)"
  then have "(e, c) \<in> edges_of (element_children els)" by (simp add: edges_of_def)
  then show "c \<in> set (map el_id els)" by (auto simp: element_children_def map_filter_def)
qed

lemma element_heights_returns:
  assumes "card (set (map el_id els)) < k"
  shows "\<exists>r. element_heights k els = Some r"
proof -
  have "set es \<subseteq> set (map el_id els) \<Longrightarrow> \<exists>hs'. all_heights k (element_children els) es hs = Some hs'" for es hs
  proof (induction es arbitrary: hs)
    case (Cons e es)
    then obtain v hs1 where "height k (element_children els) [] e hs = Some (v, hs1)"
      using ht.run_returns [of "set (map el_id els)" "element_children els" e "[]" k hs] element_children_ids assms by auto
    then show ?case using Cons by simp
  qed simp
  then show ?thesis unfolding element_heights_def by (metis option.simps(9) order_refl)
qed

text \<open>The frames a recomputation needs: one per element or requirement, and one more.\<close>

definition frames_needed :: "uuid \<Rightarrow> (uuid \<Rightarrow> uuid option) option \<Rightarrow> tier_db \<Rightarrow> nat" where
  "frames_needed ws pf db =
     (let ids = map rq_artifact (filter (\<lambda>r. rq_workspace r = ws) (tb_reqs db))
      in Suc (max (card (set (map el_id (filter (\<lambda>e. el_workspace e = ws) (tb_elements db)))))
                  (card (set ids \<union> (\<Union>a\<in>set ids. set (adj_get (parents_of_workspace ws pf db) a))))))"

lemma tier_inputs_exist:
  assumes "frames_needed ws pf db \<le> k"
  shows "\<exists>ti. tier_inputs_of k ws pf entries db = Some ti \<and> ti_reqs ti = filter (\<lambda>r. rq_workspace r = ws) (tb_reqs db) \<and>
    ti_ladder ti = entries \<and> ti_parents ti = parents_of_workspace ws pf db \<and> card (tier_nodes ti) < k \<and>
    cycle_nodes k (ti_parents ti) (req_ids ti) = Some (ti_cyclic ti)"
proof -
  let ?els = "filter (\<lambda>e. el_workspace e = ws) (tb_elements db)"
  let ?ids = "map rq_artifact (filter (\<lambda>r. rq_workspace r = ws) (tb_reqs db))"
  let ?N = "set ?ids \<union> (\<Union>a\<in>set ?ids. set (adj_get (parents_of_workspace ws pf db) a))"
  have c: "card (set (map el_id ?els)) < k" "card ?N < k" using assms by (simp_all add: frames_needed_def Let_def)
  obtain hs roots where h: "element_heights k ?els = Some (hs, roots)" using element_heights_returns [OF c(1)] by auto
  have "card (set ?ids) \<le> card ?N" by (rule card_mono) auto
  then have "card (set ?ids) < k" using c(2) by linarith
  then obtain cyc where y: "cycle_nodes k (parents_of_workspace ws pf db) ?ids = Some cyc"
    using cycle_nodes_returns by blast
  show ?thesis using c(2) by (simp add: tier_inputs_of_def Let_def h y req_ids_def tier_nodes_def)
qed

subsection \<open>Recomputing a workspace\<close>

definition stored_outcome :: "uuid \<Rightarrow> tier_db \<Rightarrow> uuid \<Rightarrow> tier_outcome" where
  "stored_outcome ws db a =
     (case find (\<lambda>r. rq_workspace r = ws \<and> rq_artifact r = a) (tb_reqs db) of None \<Rightarrow> UNRESOLVED | Some r \<Rightarrow> req_outcome r)"

definition unique_reqs :: "tier_db \<Rightarrow> bool" where
  "unique_reqs db \<longleftrightarrow> distinct (map rq_artifact (tb_reqs db))"

definition set_outcome :: "tier_outcome \<Rightarrow> req_row \<Rightarrow> req_row" where
  "set_outcome out r = r\<lparr>rq_tier_key := fst out, rq_level := fst (snd out), rq_source := snd (snd out)\<rparr>"

lemma set_outcome_simps [simp]:
  "req_outcome (set_outcome out r) = out" "rq_artifact (set_outcome out r) = rq_artifact r"
  "rq_workspace (set_outcome out r) = rq_workspace r" "set_outcome (req_outcome r) r = r"
  by (simp_all add: req_outcome_def set_outcome_def)

lemma tier_rule_manual:
  assumes "find_req (ti_reqs ti) a = Some r" "rq_source r = SRC_MANUAL"
  shows "tier_rule ti a outs = req_outcome r"
  using assms by (simp add: tier_rule_def req_outcome_def)

lemma seed_fields [simp]:
  "tb_reqs (seed_if_empty ws db) = tb_reqs db" "tb_elements (seed_if_empty ws db) = tb_elements db"
  "tb_parents (seed_if_empty ws db) = tb_parents db" "tb_links (seed_if_empty ws db) = tb_links db"
  "tb_workspaces (seed_if_empty ws db) = tb_workspaces db"
  by (simp_all add: seed_if_empty_def)

lemma seed_idem [simp]: "seed_if_empty ws (seed_if_empty ws db) = seed_if_empty ws db"
  by (auto simp: seed_if_empty_def DEFAULT_LADDER_def seed_row_def)

lemma parents_cong:
  assumes "map rq_artifact (filter (\<lambda>r. rq_workspace r = ws) (tb_reqs db')) = map rq_artifact (filter (\<lambda>r. rq_workspace r = ws) (tb_reqs db))"
    "tb_parents db' = tb_parents db" "tb_links db' = tb_links db"
  shows "parents_of_workspace ws pf db' = parents_of_workspace ws pf db"
  unfolding parents_of_workspace_def requirement_parents_def Let_def assms ..

text \<open>The rows a recomputation writes: every requirement of the workspace gets its derived outcome.\<close>

lemma find_map_filter_None:
  assumes "\<And>x y. f x = Some y \<Longrightarrow> key y = g x" "b \<notin> g ` set xs"
  shows "find (\<lambda>y. key y = b) (List.map_filter f xs) = None"
proof -
  have "key y \<noteq> b" if y: "y \<in> set (List.map_filter f xs)" for y
  proof -
    obtain x where "x \<in> set xs" "f x = Some y" using y by (auto simp: map_filter_def)
    then show ?thesis using assms(1) [of x y] assms(2) by auto
  qed
  then show ?thesis by (simp add: find_None_set)
qed

lemma find_map_filter_key:
  assumes "\<And>x y. f x = Some y \<Longrightarrow> key y = g x" "distinct (map g xs)" "x \<in> set xs"
  shows "find (\<lambda>y. key y = g x) (List.map_filter f xs) = f x"
  using assms(2,3)
proof (induction xs)
  case (Cons z xs)
  have nf: "find (\<lambda>y. key y = g z) (List.map_filter f xs) = None" if "g z \<notin> g ` set xs"
    by (rule find_map_filter_None [OF assms(1) that])
  show ?case
  proof (cases "x = z")
    case True
    then show ?thesis using Cons.prems nf assms(1) by (cases "f z") (auto simp: List.map_filter_def)
  next
    case False
    then have "g z \<noteq> g x" using Cons.prems by auto
    then show ?thesis using Cons False assms(1) by (cases "f z") (auto simp: List.map_filter_def)
  qed
qed simp

lemma change_of_key: "change_of fill res r = Some c \<Longrightarrow> lc_artifact c = rq_artifact r"
  by (auto simp: change_of_def split: option.splits if_splits)

lemma apply_change_row:
  assumes "distinct (map rq_artifact rows)" "r \<in> set rows" "res (rq_artifact r) = Some out"
    and "rq_source r = SRC_MANUAL \<Longrightarrow> out = req_outcome r"
  shows "apply_change (List.map_filter (change_of False res) rows) r = set_outcome out r"
proof -
  have "find (\<lambda>c. lc_artifact c = rq_artifact r) (List.map_filter (change_of False res) rows) = change_of False res r"
    using change_of_key assms(1,2) by (rule find_map_filter_key)
  moreover have "change_of False res r =
      (if req_outcome r = out then None else Some \<lparr>lc_artifact = rq_artifact r, lc_old = req_outcome r, lc_new = out\<rparr>)"
    using assms(3,4) by (auto simp: change_of_def)
  ultimately show ?thesis by (auto simp: apply_change_def set_outcome_def req_outcome_def)
qed

lemma recompute_result:
  assumes "ws \<in> set (tb_workspaces db)" "unique_reqs db" "frames_needed ws pf (seed_if_empty ws db) \<le> k"
  shows "\<exists>ti res changes. tier_inputs_of k ws pf (workspace_tiers ws (seed_if_empty ws db)) (seed_if_empty ws db) = Some ti \<and>
    derive_tiers k ti = Some res \<and>
    recompute_workspace_tiers k ws pf False False db =
      Inr (changes, (seed_if_empty ws db)\<lparr>tb_reqs := map (\<lambda>r. if rq_workspace r = ws then set_outcome (outcome_at res (rq_artifact r)) r else r) (tb_reqs db)\<rparr>) \<and>
    changes = List.map_filter (change_of False res) (filter (\<lambda>r. rq_workspace r = ws) (tb_reqs db)) \<and>
    (\<forall>r\<in>set (tb_reqs db). rq_workspace r = ws \<longrightarrow>
       outcome_at res (rq_artifact r) = tier_rule ti (rq_artifact r) (map (outcome_at res) (tier_deps ti (rq_artifact r)))) \<and>
    (\<forall>a. a \<notin> set (req_ids ti) \<longrightarrow> outcome_at res a = UNRESOLVED) \<and>
    ti_reqs ti = filter (\<lambda>r. rq_workspace r = ws) (tb_reqs db)"
proof -
  let ?db = "seed_if_empty ws db" and ?rows = "filter (\<lambda>r. rq_workspace r = ws) (tb_reqs db)"
  obtain ti where ti: "tier_inputs_of k ws pf (workspace_tiers ws ?db) ?db = Some ti" "ti_reqs ti = ?rows"
      "card (tier_nodes ti) < k" "cycle_nodes k (ti_parents ti) (req_ids ti) = Some (ti_cyclic ti)"
    using tier_inputs_exist [OF assms(3), of "workspace_tiers ws ?db"] by auto
  obtain res where res: "derive_tiers k ti = Some res" "dom res = set (req_ids ti)"
      "\<And>a. a \<in> set (req_ids ti) \<Longrightarrow> res a = Some (tier_rule ti a (map (outcome_at res) (tier_deps ti a)))"
    using derive_tiers_rule [OF ti(4)] ti(3) by auto
  let ?ch = "List.map_filter (change_of False res) ?rows"
  have dist: "distinct (map rq_artifact ?rows)" using assms(2) by (simp add: unique_reqs_def distinct_map_filter)
  have row: "apply_change ?ch r = (if rq_workspace r = ws then set_outcome (outcome_at res (rq_artifact r)) r else r)"
    if r: "r \<in> set (tb_reqs db)" for r
  proof (cases "rq_workspace r = ws")
    case True
    have a: "rq_artifact r \<in> set (req_ids ti)" using True r by (simp add: req_ids_def ti(2))
    have f: "find_req (ti_reqs ti) (rq_artifact r) = Some r"
    proof -
      have "find (\<lambda>q. rq_artifact q = rq_artifact r) qs = Some r" if "distinct (map rq_artifact qs)" "r \<in> set qs" for qs
        using that by (induction qs) auto
      then show ?thesis using dist r True by (simp add: find_req_def ti(2))
    qed
    have "res (rq_artifact r) = Some (outcome_at res (rq_artifact r))" using res(3) [OF a] by (simp add: outcome_at_def)
    moreover have "outcome_at res (rq_artifact r) = req_outcome r" if "rq_source r = SRC_MANUAL"
      using res(3) [OF a] tier_rule_manual [OF f that] by (simp add: outcome_at_def)
    ultimately show ?thesis using apply_change_row [OF dist, of r res] r True by simp
  next
    case False
    have "rq_artifact r \<notin> rq_artifact ` set ?rows"
      using assms(2) r False unfolding unique_reqs_def by (auto simp: distinct_map inj_on_def)
    then have "find (\<lambda>c. lc_artifact c = rq_artifact r) ?ch = None"
      by (rule find_map_filter_None [where g = rq_artifact, rotated]) (rule change_of_key)
    then show ?thesis using False by (simp add: apply_change_def)
  qed
  have eq: "outcome_at res (rq_artifact r) = tier_rule ti (rq_artifact r) (map (outcome_at res) (tier_deps ti (rq_artifact r)))"
    if "r \<in> set (tb_reqs db)" "rq_workspace r = ws" for r
  proof -
    have "rq_artifact r \<in> set (req_ids ti)" using that by (simp add: req_ids_def ti(2))
    from res(3) [OF this] show ?thesis by (subst outcome_at_def) simp
  qed
  have un: "outcome_at res a = UNRESOLVED" if "a \<notin> set (req_ids ti)" for a
    using res(2) that by (simp add: outcome_at_def domIff split: option.split) (metis domI)
  have "recompute_workspace_tiers k ws pf False False db = Inr (?ch, ?db\<lparr>tb_reqs := map (apply_change ?ch) (tb_reqs db)\<rparr>)"
    using assms(1) by (simp add: recompute_workspace_tiers_def ladder_get_def ti(1,2) res(1) Let_def)
  also have "map (apply_change ?ch) (tb_reqs db) =
      map (\<lambda>r. if rq_workspace r = ws then set_outcome (outcome_at res (rq_artifact r)) r else r) (tb_reqs db)"
    by (rule map_cong) (simp_all add: row)
  finally show ?thesis using ti res(1) eq un by blast
qed

lemma frames_needed_seed [simp]: "frames_needed ws pf (seed_if_empty ws db) = frames_needed ws pf db"
  by (simp add: frames_needed_def parents_cong [of ws "seed_if_empty ws db" db])

lemma stored_after_update:
  assumes "unique_reqs db"
    and db': "db' = db0\<lparr>tb_reqs := map (\<lambda>r. if rq_workspace r = ws then set_outcome (f (rq_artifact r)) r else r) (tb_reqs db)\<rparr>"
  shows "stored_outcome ws db' a = (if a \<in> rq_artifact ` {r \<in> set (tb_reqs db). rq_workspace r = ws} then f a else UNRESOLVED)"
proof -
  have "find (\<lambda>r. rq_workspace r = ws \<and> rq_artifact r = a)
      (map (\<lambda>r. if rq_workspace r = ws then set_outcome (f (rq_artifact r)) r else r) rows) =
      map_option (set_outcome (f a)) (find (\<lambda>r. rq_workspace r = ws \<and> rq_artifact r = a) rows)" for rows
    by (induction rows) auto
  then have "stored_outcome ws db' a =
      (case find (\<lambda>r. rq_workspace r = ws \<and> rq_artifact r = a) (tb_reqs db) of None \<Rightarrow> UNRESOLVED | Some r \<Rightarrow> f a)"
    by (simp add: stored_outcome_def db' split: option.split)
  then show ?thesis
    by (cases "find (\<lambda>r. rq_workspace r = ws \<and> rq_artifact r = a) (tb_reqs db)") (auto simp: find_None_set dest!: find_SomeD)
qed

lemma recompute_stored:
  assumes "ws \<in> set (tb_workspaces db)" "unique_reqs db" "frames_needed ws pf db \<le> k"
  shows "\<exists>ti changes db'. tier_inputs_of k ws pf (workspace_tiers ws (seed_if_empty ws db)) (seed_if_empty ws db) = Some ti \<and>
    recompute_workspace_tiers k ws pf False False db = Inr (changes, db') \<and>
    ti_reqs ti = filter (\<lambda>r. rq_workspace r = ws) (tb_reqs db) \<and>
    db' = (seed_if_empty ws db)\<lparr>tb_reqs := map (\<lambda>r. if rq_workspace r = ws then set_outcome (stored_outcome ws db' (rq_artifact r)) r else r) (tb_reqs db)\<rparr> \<and>
    tc.solves ti (stored_outcome ws db') \<and>
    ((\<forall>r\<in>set (tb_reqs db). rq_workspace r = ws \<longrightarrow> req_outcome r = stored_outcome ws db' (rq_artifact r)) \<longrightarrow> changes = [])"
proof -
  obtain ti res changes where r: "tier_inputs_of k ws pf (workspace_tiers ws (seed_if_empty ws db)) (seed_if_empty ws db) = Some ti"
    "recompute_workspace_tiers k ws pf False False db =
      Inr (changes, (seed_if_empty ws db)\<lparr>tb_reqs := map (\<lambda>r. if rq_workspace r = ws then set_outcome (outcome_at res (rq_artifact r)) r else r) (tb_reqs db)\<rparr>)"
    "\<forall>r\<in>set (tb_reqs db). rq_workspace r = ws \<longrightarrow>
       outcome_at res (rq_artifact r) = tier_rule ti (rq_artifact r) (map (outcome_at res) (tier_deps ti (rq_artifact r)))"
    "\<forall>a. a \<notin> set (req_ids ti) \<longrightarrow> outcome_at res a = UNRESOLVED"
    "ti_reqs ti = filter (\<lambda>r. rq_workspace r = ws) (tb_reqs db)"
    and ch: "changes = List.map_filter (change_of False res) (filter (\<lambda>r. rq_workspace r = ws) (tb_reqs db))"
    using recompute_result [OF assms(1,2), of pf k] assms(3) by auto
  let ?db' = "(seed_if_empty ws db)\<lparr>tb_reqs := map (\<lambda>r. if rq_workspace r = ws then set_outcome (outcome_at res (rq_artifact r)) r else r) (tb_reqs db)\<rparr>"
  have ids: "rq_artifact ` {r \<in> set (tb_reqs db). rq_workspace r = ws} = set (req_ids ti)" by (simp add: req_ids_def r(5))
  have so: "stored_outcome ws ?db' = outcome_at res"
  proof
    fix a
    show "stored_outcome ws ?db' a = outcome_at res a"
      unfolding stored_after_update [OF assms(2) refl] ids using r(4) by simp
  qed
  have "tc.solves ti (outcome_at res)"
    unfolding tc.solves_def
  proof
    fix a
    show "outcome_at res a = tier_rule ti a (map (outcome_at res) (tier_deps ti a))"
    proof (cases "a \<in> set (req_ids ti)")
      case True
      then obtain q where "q \<in> set (tb_reqs db)" "rq_workspace q = ws" "rq_artifact q = a" unfolding ids [symmetric] by auto
      then show ?thesis using r(3) by metis
    next
      case False
      then have "find_req (ti_reqs ti) a = None" using find_req_ids [of ti a] by blast
      then show ?thesis using r(4) False by (simp add: tier_rule_def)
    qed
  qed
  moreover have "changes = []" if same: "\<forall>r\<in>set (tb_reqs db). rq_workspace r = ws \<longrightarrow> req_outcome r = outcome_at res (rq_artifact r)"
  proof -
    have "change_of False res q = None" if "q \<in> set (filter (\<lambda>r. rq_workspace r = ws) (tb_reqs db))" for q
      using same that by (cases "res (rq_artifact q)") (auto simp: change_of_def outcome_at_def)
    then show ?thesis by (simp add: ch map_filter_def filter_empty_conv)
  qed
  ultimately show ?thesis using r(1,2,5) so by (intro exI [of _ ti] exI [of _ changes] exI [of _ ?db']) simp
qed

text \<open>
  C18: recomputation places every requirement by the rule. With enough interpreter frames \<open>recompute_workspace_tiers\<close> returns, also
  on cyclic hierarchies, and afterwards the stored tier, level and source of every requirement of the workspace follow
  from the stored outcomes of its parents: a manual value is kept, a requirement found on a cycle is unresolved, an allocated
  one has the tier of its element, and any other sits one step below its lowest placed parent or, without parents, first.
\<close>

theorem recompute_places_requirements:
  assumes "ws \<in> set (tb_workspaces db)" "unique_reqs db" "frames_needed ws pf db \<le> k"
  shows "\<exists>ti changes db'. tier_inputs_of k ws pf (workspace_tiers ws (seed_if_empty ws db)) (seed_if_empty ws db) = Some ti \<and>
    recompute_workspace_tiers k ws pf False False db = Inr (changes, db') \<and>
    map rq_artifact (tb_reqs db') = map rq_artifact (tb_reqs db) \<and>
    (\<forall>r\<in>set (tb_reqs db'). rq_workspace r = ws \<longrightarrow>
       req_outcome r = tier_rule ti (rq_artifact r) (map (stored_outcome ws db') (tier_deps ti (rq_artifact r))))"
proof -
  obtain ti changes db' where r: "tier_inputs_of k ws pf (workspace_tiers ws (seed_if_empty ws db)) (seed_if_empty ws db) = Some ti"
    "recompute_workspace_tiers k ws pf False False db = Inr (changes, db')"
    and db': "db' = (seed_if_empty ws db)\<lparr>tb_reqs := map (\<lambda>r. if rq_workspace r = ws then set_outcome (stored_outcome ws db' (rq_artifact r)) r else r) (tb_reqs db)\<rparr>"
    and sol: "tc.solves ti (stored_outcome ws db')"
    using recompute_stored [OF assms] by blast
  have rows: "tb_reqs db' = map (\<lambda>r. if rq_workspace r = ws then set_outcome (stored_outcome ws db' (rq_artifact r)) r else r) (tb_reqs db)"
    by (subst db') simp
  have "req_outcome r = tier_rule ti (rq_artifact r) (map (stored_outcome ws db') (tier_deps ti (rq_artifact r)))"
    if r: "r \<in> set (tb_reqs db')" and w: "rq_workspace r = ws" for r
  proof -
    obtain x where "x \<in> set (tb_reqs db)" "r = (if rq_workspace x = ws then set_outcome (stored_outcome ws db' (rq_artifact x)) x else x)"
      using r unfolding rows by auto
    then have "req_outcome r = stored_outcome ws db' (rq_artifact r)" using w by (cases "rq_workspace x = ws") simp_all
    then show ?thesis using sol unfolding tc.solves_def by metis
  qed
  moreover have "map rq_artifact (tb_reqs db') = map rq_artifact (tb_reqs db)" unfolding rows by simp
  ultimately show ?thesis using r by blast
qed

text \<open>Derived sources are never the manual one.\<close>

lemma derived_not_manual:
  "snd (snd (allocation_outcome ti t)) \<noteq> SRC_MANUAL" "snd (snd (hierarchy_outcome l ts)) \<noteq> SRC_MANUAL" "snd (snd UNRESOLVED) \<noteq> SRC_MANUAL"
  by (auto simp: allocation_outcome_def hierarchy_outcome_def placed_def UNRESOLVED_def SRC_MANUAL_def SRC_ALLOCATION_def
      SRC_HIERARCHY_def SRC_TYPE_def SRC_UNRESOLVED_def Let_def split: option.split)

lemma recompute_keeps_manual:
  assumes sol: "tc.solves ti f" and fr: "find_req (ti_reqs ti) a = Some r"
  shows "rq_source (set_outcome (f a) r) = SRC_MANUAL \<longleftrightarrow> rq_source r = SRC_MANUAL"
    "rq_source r = SRC_MANUAL \<Longrightarrow> set_outcome (f a) r = r"
proof -
  have f: "f a = tier_rule ti a (map f (tier_deps ti a))" using sol by (simp only: tc.solves_def)
  show "set_outcome (f a) r = r" if "rq_source r = SRC_MANUAL"
    using f tier_rule_manual [OF fr that] by simp
  then show "rq_source (set_outcome (f a) r) = SRC_MANUAL \<longleftrightarrow> rq_source r = SRC_MANUAL"
  proof (cases "rq_source r = SRC_MANUAL")
    case False
    have "snd (snd (f a)) \<noteq> SRC_MANUAL"
      using f fr False derived_not_manual by (auto simp: tier_rule_def split: option.splits if_splits)
    then show ?thesis using False by (simp add: set_outcome_def)
  qed simp
qed

text \<open>Storing a solution does not change the rule.\<close>

lemma rule_after_storing:
  assumes sol: "tc.solves ti f" and ti': "ti' = ti\<lparr>ti_reqs := map (\<lambda>r. set_outcome (f (rq_artifact r)) r) (ti_reqs ti)\<rparr>"
  shows "tier_rule ti' = tier_rule ti" "tier_deps ti' = tier_deps ti"
proof -
  have fr: "find_req (ti_reqs ti') a = map_option (set_outcome (f a)) (find_req (ti_reqs ti) a)" for a
  proof -
    have "find (\<lambda>r. rq_artifact r = a) (map (\<lambda>r. set_outcome (f (rq_artifact r)) r) rs) =
        map_option (set_outcome (f a)) (find (\<lambda>r. rq_artifact r = a) rs)" for rs
      by (induction rs) auto
    then show ?thesis by (simp add: find_req_def ti')
  qed
  have al: "allocation_outcome ti' = allocation_outcome ti"
    by (rule ext) (simp add: allocation_outcome_def ti' split: option.split)
  have rest: "ti_cyclic ti' = ti_cyclic ti" "ti_alloc ti' = ti_alloc ti" "ti_ladder ti' = ti_ladder ti" "ti_parents ti' = ti_parents ti"
    by (simp_all add: ti')
  have "tier_rule ti' a outs = tier_rule ti a outs \<and> tier_deps ti' a = tier_deps ti a" for a outs
  proof (cases "find_req (ti_reqs ti) a")
    case None
    then show ?thesis by (simp add: tier_rule_def tier_deps_def fr)
  next
    case (Some r)
    note man = recompute_keeps_manual [OF sol Some]
    show ?thesis
      using man by (cases "rq_source r = SRC_MANUAL") (simp_all add: tier_rule_def tier_deps_def fr Some al rest split: option.split)
  qed
  then show "tier_rule ti' = tier_rule ti" "tier_deps ti' = tier_deps ti" by (simp_all add: fun_eq_iff)
qed

text \<open>
  Recomputation is idempotent. A second run right after the first reports no change and writes nothing, whatever
  the shape of the hierarchy.
\<close>

theorem recompute_idempotent:
  assumes "ws \<in> set (tb_workspaces db)" "unique_reqs db" "frames_needed ws pf db \<le> k"
    and "recompute_workspace_tiers k ws pf False False db = Inr (changes, db')"
  shows "recompute_workspace_tiers k ws pf False False db' = Inr ([], db')"
proof -
  let ?f = "stored_outcome ws db'" and ?rows = "\<lambda>d. filter (\<lambda>r. rq_workspace r = ws) (tb_reqs d)"
  obtain ti where ti: "tier_inputs_of k ws pf (workspace_tiers ws (seed_if_empty ws db)) (seed_if_empty ws db) = Some ti"
    and reqs: "ti_reqs ti = ?rows db"
    and db': "db' = (seed_if_empty ws db)\<lparr>tb_reqs := map (\<lambda>r. if rq_workspace r = ws then set_outcome (?f (rq_artifact r)) r else r) (tb_reqs db)\<rparr>"
    and sol: "tc.solves ti ?f"
    using recompute_stored [OF assms(1-3)] assms(4) by auto
  have rows': "tb_reqs db' = map (\<lambda>r. if rq_workspace r = ws then set_outcome (?f (rq_artifact r)) r else r) (tb_reqs db)"
    by (subst db') simp
  have rest: "tb_elements db' = tb_elements db" "tb_parents db' = tb_parents db" "tb_links db' = tb_links db"
    "tb_workspaces db' = tb_workspaces db" "tb_tiers db' = tb_tiers (seed_if_empty ws db)"
    by (subst db', simp)+
  have seed: "seed_if_empty ws db' = db'"
  proof -
    have "list_ex (\<lambda>e. te_workspace e = ws) (tb_tiers (seed_if_empty ws db))"
      by (auto simp: seed_if_empty_def DEFAULT_LADDER_def seed_row_def)
    then show ?thesis by (simp add: seed_if_empty_def rest(5))
  qed
  have "filter (\<lambda>r. rq_workspace r = ws) (map (\<lambda>r. if rq_workspace r = ws then set_outcome (?f (rq_artifact r)) r else r) rs) =
      map (\<lambda>r. set_outcome (?f (rq_artifact r)) r) (filter (\<lambda>r. rq_workspace r = ws) rs)" for rs
    by (induction rs) auto
  then have filt: "?rows db' = map (\<lambda>r. set_outcome (?f (rq_artifact r)) r) (?rows db)" unfolding rows' .
  have ids: "map rq_artifact (?rows db') = map rq_artifact (?rows db)" unfolding filt by simp
  have uniq: "unique_reqs db'" using assms(2) unfolding unique_reqs_def rows' by (simp add: comp_def if_distrib cong: if_cong)
  have par: "parents_of_workspace ws pf db' = parents_of_workspace ws pf db" by (rule parents_cong [OF ids rest(2,3)])
  have frames: "frames_needed ws pf db' \<le> k" using assms(3) unfolding frames_needed_def ids par rest(1) .
  obtain ti' changes' db'' where ti': "tier_inputs_of k ws pf (workspace_tiers ws db') db' = Some ti'"
    and run: "recompute_workspace_tiers k ws pf False False db' = Inr (changes', db'')"
    and db'': "db'' = db'\<lparr>tb_reqs := map (\<lambda>r. if rq_workspace r = ws then set_outcome (stored_outcome ws db'' (rq_artifact r)) r else r) (tb_reqs db')\<rparr>"
    and sol': "tc.solves ti' (stored_outcome ws db'')"
    and none: "(\<forall>r\<in>set (tb_reqs db'). rq_workspace r = ws \<longrightarrow> req_outcome r = stored_outcome ws db'' (rq_artifact r)) \<longrightarrow> changes' = []"
    using recompute_stored [of ws db' pf k] assms(1) uniq frames rest(4) unfolding seed by auto
  have w: "workspace_tiers ws db' = workspace_tiers ws (seed_if_empty ws db)" by (simp add: workspace_tiers_def rest(5))
  have al: "allocations ids db' = allocations ids (seed_if_empty ws db)" for ids by (simp add: allocations_def rest(3))
  have par': "parents_of_workspace ws pf (seed_if_empty ws db) = parents_of_workspace ws pf db" by (rule parents_cong) simp_all
  have eq: "ti' = ti\<lparr>ti_reqs := map (\<lambda>r. set_outcome (?f (rq_artifact r)) r) (ti_reqs ti)\<rparr>"
    using ti ti' unfolding tier_inputs_of_def Let_def ids par par' w al rest(1) filt reqs
    by (auto simp: reqs par' comp_def split: option.splits)
  have cyc: "cycle_nodes k (ti_parents ti) (req_ids ti) = Some (ti_cyclic ti)"
    using tier_inputs_exist [of ws pf "seed_if_empty ws db" k "workspace_tiers ws (seed_if_empty ws db)"] assms(3) ti by auto
  have "tc.solves ti (stored_outcome ws db'')" using sol' by (simp add: tc.solves_def rule_after_storing [OF sol eq])
  then have same: "stored_outcome ws db'' a = ?f a" for a by (rule tc.solution_unique [OF tier_calls_wf [OF cyc] _ sol])
  have done': "req_outcome r = ?f (rq_artifact r)" if r: "r \<in> set (tb_reqs db')" and ws: "rq_workspace r = ws" for r
  proof -
    obtain x where "x \<in> set (tb_reqs db)" "r = (if rq_workspace x = ws then set_outcome (?f (rq_artifact x)) x else x)"
      using r unfolding rows' by auto
    then show ?thesis using ws by (cases "rq_workspace x = ws") simp_all
  qed
  have "map (\<lambda>r. if rq_workspace r = ws then set_outcome (?f (rq_artifact r)) r else r) (tb_reqs db') = tb_reqs db'"
    by (rule map_idI) (auto simp: done' [symmetric])
  then have "db'' = db'" using db'' unfolding same by simp
  moreover have "changes' = []" using none done' unfolding same by blast
  ultimately show ?thesis using run by simp
qed

definition ladder_ok :: "ladder \<Rightarrow> bool" where
  "ladder_ok entries \<longleftrightarrow> map te_position entries = [0..<length entries] \<and> distinct (map te_key entries)"

lemma position_key_at:
  assumes "ladder_ok entries" "key_at entries n = Some key"
  shows "position_of entries (Some key) = Some n"
proof -
  have n: "n < length entries" "te_key (entries ! n) = key" using assms(2) by (auto simp: key_at_def split: if_splits)
  have d: "distinct (map fst (rev (map (\<lambda>e. (te_key e, te_position e)) entries)))"
    using assms(1) by (simp add: ladder_ok_def comp_def rev_map [symmetric])
  have "te_position (entries ! n) = n" using assms(1) n(1) unfolding ladder_ok_def by (metis add_0 nth_map nth_upt length_map)
  then have "(key, n) \<in> set (rev (map (\<lambda>e. (te_key e, te_position e)) entries))"
    using n by (auto simp: image_iff intro!: bexI [of _ "entries ! n"])
  then show ?thesis using d by (simp add: position_of_def map_of_eq_Some_iff del: rev_map)
qed

lemma hierarchy_outcome_below:
  assumes "ladder_ok entries" "hierarchy_outcome entries tiers = (key, level, SRC_HIERARCHY)" "t \<in> set tiers" "position_of entries t = Some n"
  shows "\<exists>m. n < m \<and> position_of entries key = Some m \<and> level = Some (Suc m)"
proof -
  let ?ps = "List.map_filter (position_of entries) tiers"
  have n: "n \<in> set ?ps" using assms(3,4) by (force simp: map_filter_def)
  then have "?ps \<noteq> []" by auto
  then obtain k where k: "key_at entries (Suc (Max (set ?ps))) = Some k" "key = Some k" "level = Some (Suc (Suc (Max (set ?ps))))"
    using assms(2) by (auto simp: hierarchy_outcome_def Let_def UNRESOLVED_def SRC_UNRESOLVED_def SRC_HIERARCHY_def split: option.splits)
  have "n \<le> Max (set ?ps)" using n by simp
  then show ?thesis using position_key_at [OF assms(1) k(1)] k(2,3) by auto
qed

text \<open>
  C19: a derived requirement sits below its parents. On a ladder without gaps a requirement placed by the hierarchy is,
  after a recomputation, on a strictly lower rung than each of its placed parents, and its level is its rung plus one.
\<close>

theorem placed_below_parents:
  assumes "ws \<in> set (tb_workspaces db)" "unique_reqs db" "frames_needed ws pf db \<le> k"
    and "ladder_ok (workspace_tiers ws (seed_if_empty ws db))"
    and "recompute_workspace_tiers k ws pf False False db = Inr (changes, db')"
    and "r \<in> set (tb_reqs db')" "rq_workspace r = ws" "rq_source r = SRC_HIERARCHY"
    and "p \<in> set (adj_get (parents_of_workspace ws pf db) (rq_artifact r))"
    and "position_of (workspace_tiers ws (seed_if_empty ws db)) (fst (stored_outcome ws db' p)) = Some n"
  shows "\<exists>m. n < m \<and> position_of (workspace_tiers ws (seed_if_empty ws db)) (rq_tier_key r) = Some m \<and> rq_level r = Some (Suc m)"
proof -
  let ?l = "workspace_tiers ws (seed_if_empty ws db)" and ?f = "stored_outcome ws db'"
  obtain ti where ti: "tier_inputs_of k ws pf ?l (seed_if_empty ws db) = Some ti" and sol: "tc.solves ti ?f"
    and db': "db' = (seed_if_empty ws db)\<lparr>tb_reqs := map (\<lambda>r. if rq_workspace r = ws then set_outcome (?f (rq_artifact r)) r else r) (tb_reqs db)\<rparr>"
    using recompute_stored [OF assms(1-3)] assms(5) by auto
  have par': "parents_of_workspace ws pf (seed_if_empty ws db) = parents_of_workspace ws pf db" by (rule parents_cong) simp_all
  have lp: "ti_ladder ti = ?l" "ti_parents ti = parents_of_workspace ws pf db"
    using tier_inputs_exist [of ws pf "seed_if_empty ws db" k ?l] assms(3) ti par' by auto
  have "r \<in> set (map (\<lambda>r. if rq_workspace r = ws then set_outcome (?f (rq_artifact r)) r else r) (tb_reqs db))"
    using assms(6) by (subst (asm) db') simp
  then obtain x where "r = (if rq_workspace x = ws then set_outcome (?f (rq_artifact x)) x else x)" unfolding set_map by blast
  then have out: "req_outcome r = ?f (rq_artifact r)" using assms(7) by (cases "rq_workspace x = ws") simp_all
  have rule: "?f (rq_artifact r) = tier_rule ti (rq_artifact r) (map ?f (tier_deps ti (rq_artifact r)))"
    using sol by (simp only: tc.solves_def)
  have src: "snd (snd (?f (rq_artifact r))) = SRC_HIERARCHY" using assms(8) unfolding out [symmetric] by (simp add: req_outcome_def)
  have "?f (rq_artifact r) = hierarchy_outcome ?l (map (\<lambda>p. fst (?f p)) (adj_get (parents_of_workspace ws pf db) (rq_artifact r)))"
    using rule src unfolding tier_rule_def tier_deps_def
    by (auto simp: lp allocation_outcome_def placed_def UNRESOLVED_def SRC_MANUAL_def SRC_HIERARCHY_def SRC_UNRESOLVED_def
        SRC_ALLOCATION_def comp_def split: option.splits if_splits)
  then have "hierarchy_outcome ?l (map (\<lambda>p. fst (?f p)) (adj_get (parents_of_workspace ws pf db) (rq_artifact r))) =
      (rq_tier_key r, rq_level r, SRC_HIERARCHY)"
    using out assms(8) by (simp add: req_outcome_def)
  from hierarchy_outcome_below [OF assms(4) this _ assms(10)] assms(9) show ?thesis by auto
qed

subsection \<open>An example\<close>

definition tier_example :: tier_db where
  "tier_example =
     \<lparr>tb_workspaces = [''w''], tb_tiers = [],
      tb_reqs = [\<lparr>rq_artifact = ''p'', rq_workspace = ''w'', rq_tier_key = None, rq_level = None, rq_source = SRC_UNRESOLVED\<rparr>,
                 \<lparr>rq_artifact = ''c'', rq_workspace = ''w'', rq_tier_key = None, rq_level = None, rq_source = SRC_UNRESOLVED\<rparr>],
      tb_elements = [], tb_parents = [(''c'', ''w'', Some ''p''), (''p'', ''w'', None)], tb_links = []\<rparr>"

definition tier_example_done :: tier_db where
  "tier_example_done = snd (projr (recompute_workspace_tiers 5 ''w'' None False False tier_example))"

lemma tier_example_run:
  "recompute_workspace_tiers 5 ''w'' None False False tier_example =
     Inr (fst (projr (recompute_workspace_tiers 5 ''w'' None False False tier_example)), tier_example_done)"
  by code_simp

lemma tier_example_hyps:
  "''w'' \<in> set (tb_workspaces tier_example)" "unique_reqs tier_example" "frames_needed ''w'' None tier_example \<le> 5"
  by code_simp+

lemma tier_example_reqs:
  "tb_reqs tier_example_done =
     [\<lparr>rq_artifact = ''p'', rq_workspace = ''w'', rq_tier_key = Some ''erste'', rq_level = Some 1, rq_source = SRC_TYPE\<rparr>,
      \<lparr>rq_artifact = ''c'', rq_workspace = ''w'', rq_tier_key = Some ''dazwischen'', rq_level = Some 2, rq_source = SRC_HIERARCHY\<rparr>]"
  by code_simp

theorem recompute_places_requirements_witness:
  "frames_needed ''w'' None tier_example \<le> 5 \<and>
   (\<exists>ti changes db'. recompute_workspace_tiers 5 ''w'' None False False tier_example = Inr (changes, db') \<and>
     tier_inputs_of 5 ''w'' None (workspace_tiers ''w'' (seed_if_empty ''w'' tier_example)) (seed_if_empty ''w'' tier_example) = Some ti)"
  using recompute_places_requirements [OF tier_example_hyps] tier_example_hyps(3) by blast

theorem recompute_idempotent_witness:
  "tier_example_done \<noteq> tier_example \<and>
   recompute_workspace_tiers 5 ''w'' None False False tier_example_done = Inr ([], tier_example_done)"
proof
  show "tier_example_done \<noteq> tier_example" by code_simp
qed (rule recompute_idempotent [OF tier_example_hyps tier_example_run])

theorem placed_below_parents_witness:
  "\<exists>m. 0 < m \<and> position_of (workspace_tiers ''w'' (seed_if_empty ''w'' tier_example)) (Some ''dazwischen'') = Some m \<and>
       Some 2 = Some (Suc m)"
proof -
  have "ladder_ok (workspace_tiers ''w'' (seed_if_empty ''w'' tier_example))"
    "''p'' \<in> set (adj_get (parents_of_workspace ''w'' None tier_example) ''c'')"
    "position_of (workspace_tiers ''w'' (seed_if_empty ''w'' tier_example)) (fst (stored_outcome ''w'' tier_example_done ''p'')) = Some 0"
    by code_simp+
  then show ?thesis
    using placed_below_parents [OF tier_example_hyps _ tier_example_run, of
      "\<lparr>rq_artifact = ''c'', rq_workspace = ''w'', rq_tier_key = Some ''dazwischen'', rq_level = Some 2, rq_source = SRC_HIERARCHY\<rparr>" "''p''" 0]
    by (simp add: tier_example_reqs)
qed

subsection \<open>What the ladder cannot do\<close>

lemma map_res_Inl: "x \<in> set xs \<Longrightarrow> f x = Inl e \<Longrightarrow> \<exists>e'. map_res f xs = Inl e'"
  by (induction xs) (auto simp: res_bind_def split: sum.splits)

lemma bind_Inl: "\<exists>e. f = Inl e \<Longrightarrow> \<exists>e. res_bind f g = Inl e"
  by auto

lemma bind_Inl_right: "(\<And>x. f = Inr x \<Longrightarrow> \<exists>e. g x = Inl e) \<Longrightarrow> \<exists>e. res_bind f g = Inl e"
  by (cases f) auto

lemma save_tiers_occupied:
  assumes "e \<in> set rows" "te_workspace e = ws" "te_position e = position + length before"
    and "te_key e \<notin> set (map it_key before)" "te_key e \<noteq> it_key i"
  shows "\<exists>err. save_tiers ws position (before @ i # after) rows = Inl err"
  using assms
proof (induction before arbitrary: position rows)
  case Nil
  then have "tier_violation row (filter (\<lambda>r. \<not> (te_workspace r = ws \<and> te_key r = it_key i)) rows) \<noteq> None"
    if "te_workspace row = ws" "te_position row = position" for row
    using that by (auto simp: tier_violation_def list_ex_iff)
  then have "\<exists>err. save_tier ws position i rows = Inl err"
    unfolding save_tier_def Let_def by (subst option.case_eq_if) simp
  then show ?case by auto
next
  case (Cons b bs)
  have "\<exists>err. save_tiers ws (Suc position) (bs @ i # after) rows1 = Inl err" if "save_tier ws position b rows = Inr rows1" for rows1
  proof (rule Cons.IH)
    show "e \<in> set rows1" using that Cons.prems by (auto simp: save_tier_def Let_def split: option.splits)
  qed (use Cons.prems in auto)
  then show ?case by (auto intro: bind_Inl_right)
qed

lemma validate_ladder_distinct:
  assumes "validate_ladder tiers = Inr u"
  shows "distinct (map it_key tiers)"
proof -
  have "distinct (map py_strip (map it_key tiers))"
    using assms by (auto simp: validate_ladder_def Let_def raise_if_def comp_def split: if_splits)
  then show ?thesis by (metis distinct_map)
qed

lemma replace_ladder_refused:
  assumes "\<And>merged desired mt. desired = map it_key tiers \<Longrightarrow> fst ` set mt \<subseteq> set desired \<Longrightarrow> distinct desired \<Longrightarrow>
      map_res (merge_target mt desired (filter (\<lambda>r. rq_workspace r = ws) (tb_reqs db)))
        (filter (\<lambda>key. key \<notin> set desired) (map te_key (filter (\<lambda>e. te_workspace e = ws) (tb_tiers db)))) = Inr merged \<Longrightarrow>
      \<exists>err. save_tiers ws 0 tiers
        (filter (\<lambda>e. \<not> (te_workspace e = ws \<and> te_key e \<in> set (filter (\<lambda>key. key \<notin> set desired) (map te_key (filter (\<lambda>e. te_workspace e = ws) (tb_tiers db)))))) (tb_tiers db)) = Inl err"
  shows "\<exists>err. replace_ladder k admin ws tiers db = Inl err"
  unfolding replace_ladder_def Let_def
  by (rule bind_Inl_right, rule bind_Inl_right, rule bind_Inl_right, rule bind_Inl_right, rule bind_Inl, rule assms [OF refl])
    (auto simp: validate_ladder_distinct map_filter_def split: option.splits if_splits)

text \<open>
  A tier never moves down. Whenever a kept tier's position is claimed by another tier of the new ladder and the kept tier follows
  later, for instance after an insertion or a swap, \<open>replace\<close> raises: the rows are saved one by one and the
  uniqueness of positions is checked on each save.
\<close>

theorem ladder_cannot_shift_down:
  assumes "e \<in> set (tb_tiers db)" "te_workspace e = ws"
    and "te_position e < j" "j < length tiers" "it_key (tiers ! j) = te_key e"
  shows "\<exists>err. replace_ladder k admin ws tiers db = Inl err"
proof (rule replace_ladder_refused)
  fix desired :: "string list" and merged mt
  assume d: "desired = map it_key tiers" "distinct desired"
  let ?p = "te_position e"
  have split: "tiers = take ?p tiers @ tiers ! ?p # drop (Suc ?p) tiers" using assms(3,4) by (simp add: id_take_nth_drop)
  have no: "it_key (tiers ! n) \<noteq> te_key e" if "n < j" for n
    using d that assms(4,5) by (metis length_map less_trans nat_neq_iff nth_eq_iff_index_eq nth_map)
  have fresh: "te_key e \<notin> set (map it_key (take ?p tiers))"
  proof
    assume "te_key e \<in> set (map it_key (take ?p tiers))"
    then obtain n where "n < ?p" "it_key (tiers ! n) = te_key e" by (auto simp: in_set_conv_nth)
    with no [of n] assms(3) show False by simp
  qed
  have "te_key e \<in> set desired" using assms(4,5) unfolding d(1) by (metis length_map nth_map nth_mem)
  then show "\<exists>err. save_tiers ws 0 tiers (filter (\<lambda>e. \<not> (te_workspace e = ws \<and>
      te_key e \<in> set (filter (\<lambda>key. key \<notin> set desired) (map te_key (filter (\<lambda>e. te_workspace e = ws) (tb_tiers db)))))) (tb_tiers db)) = Inl err"
    by (subst (1) split) (rule save_tiers_occupied, use assms fresh no [OF assms(3)] in auto)
qed

definition shifted_ladder :: "tier_item list" where
  "shifted_ladder =
     [\<lparr>it_key = ''neu'', it_name = [], it_rule = FIRST_RULE, it_from_end = None, it_merge_into = Some ''letzte''\<rparr>,
      \<lparr>it_key = ''erste'', it_name = [], it_rule = MIDDLE_RULE, it_from_end = None, it_merge_into = None\<rparr>,
      \<lparr>it_key = ''letzte'', it_name = [], it_rule = FROM_END_RULE, it_from_end = Some 0, it_merge_into = Some ''letzte''\<rparr>]"

lemma shifted_ladder_valid: "validate_ladder shifted_ladder = Inr ()"
  by code_simp

theorem ladder_cannot_shift_down_witness:
  "validate_ladder shifted_ladder = Inr () \<and> (\<exists>err. replace_ladder 9 True ''w'' shifted_ladder (seed_if_empty ''w'' tier_example) = Inl err)"
proof -
  let ?e = "seed_row ''w'' (0, ''erste'', [(''de'', ''Erste''), (''en'', ''First'')], FIRST_RULE, None)"
  have "?e \<in> set (tb_tiers (seed_if_empty ''w'' tier_example))" "te_workspace ?e = ''w''" "te_position ?e < 1"
    "1 < length shifted_ladder" "it_key (shifted_ladder ! 1) = te_key ?e"
    by code_simp+
  from ladder_cannot_shift_down [OF this] show ?thesis by (simp add: shifted_ladder_valid)
qed

lemma three_names_valid: "validate_ladder (three_name_payload names) = Inr ()"
proof -
  have "three_name_payload names =
      [\<lparr>it_key = ''erste'', it_name = it_name (three_name_payload names ! 0), it_rule = FIRST_RULE, it_from_end = None, it_merge_into = None\<rparr>,
       \<lparr>it_key = ''dazwischen'', it_name = it_name (three_name_payload names ! 1), it_rule = MIDDLE_RULE, it_from_end = None, it_merge_into = None\<rparr>,
       \<lparr>it_key = ''letzte'', it_name = it_name (three_name_payload names ! 2), it_rule = FROM_END_RULE, it_from_end = Some 0, it_merge_into = None\<rparr>]"
    by (simp only: three_name_payload_def THREE_NAME_TIERS_def enumerate_simps list.map prod.case Let_def nth_Cons_0 nth_Cons_numeral
        nth_Cons_pos One_nat_def nth_Cons_Suc tier_item.select_convs numeral_2_eq_2)
  moreover have "validate_ladder
      [\<lparr>it_key = ''erste'', it_name = a, it_rule = FIRST_RULE, it_from_end = None, it_merge_into = None\<rparr>,
       \<lparr>it_key = ''dazwischen'', it_name = b, it_rule = MIDDLE_RULE, it_from_end = None, it_merge_into = None\<rparr>,
       \<lparr>it_key = ''letzte'', it_name = c, it_rule = FROM_END_RULE, it_from_end = Some 0, it_merge_into = None\<rparr>] = Inr ()" for a b c
    by code_simp
  ultimately show ?thesis by metis
qed

text \<open>
  A tier in use cannot be removed. Whatever \<open>merge_into\<close> the new ladder carries, \<open>replace\<close> raises when a requirement still
  refers to a tier that is left out: merge targets are collected from the entries that stay.
\<close>

theorem used_tier_cannot_be_merged:
  assumes "e \<in> set (tb_tiers db)" "te_workspace e = ws" "te_key e \<notin> set (map it_key tiers)"
    and "r \<in> set (tb_reqs db)" "rq_workspace r = ws" "rq_tier_key r = Some (te_key e)"
  shows "\<exists>err. replace_ladder k admin ws tiers db = Inl err"
proof (rule replace_ladder_refused)
  fix desired :: "string list" and merged mt
  assume d: "desired = map it_key tiers" "fst ` set mt \<subseteq> set desired"
    and ok: "map_res (merge_target mt desired (filter (\<lambda>r. rq_workspace r = ws) (tb_reqs db)))
        (filter (\<lambda>key. key \<notin> set desired) (map te_key (filter (\<lambda>e. te_workspace e = ws) (tb_tiers db)))) = Inr merged"
  have "map_of mt (te_key e) = None" using d assms(3) by (auto simp: map_of_eq_None_iff)
  then have "merge_target mt desired (filter (\<lambda>r. rq_workspace r = ws) (tb_reqs db)) (te_key e) = Inl (TierValidation (te_key e))"
    using assms(4-6) unfolding merge_target_def list_ex_iff by (simp, blast)
  from map_res_Inl [of "te_key e" "filter (\<lambda>key. key \<notin> set desired) (map te_key (filter (\<lambda>e. te_workspace e = ws) (tb_tiers db)))"
      "merge_target mt desired (filter (\<lambda>r. rq_workspace r = ws) (tb_reqs db))", OF _ this]
  show "\<exists>err. save_tiers ws 0 tiers (filter (\<lambda>e. \<not> (te_workspace e = ws \<and>
      te_key e \<in> set (filter (\<lambda>key. key \<notin> set desired) (map te_key (filter (\<lambda>e. te_workspace e = ws) (tb_tiers db)))))) (tb_tiers db)) = Inl err"
    using ok assms(1-3) d(1) by auto
qed

theorem used_tier_cannot_be_merged_witness:
  "validate_ladder shifted_ladder = Inr () \<and> (\<exists>err. replace_ladder 9 True ''w'' shifted_ladder tier_example_done = Inl err)"
proof -
  let ?e = "seed_row ''w'' (1, ''dazwischen'', [(''de'', ''Dazwischen''), (''en'', ''Middle'')], MIDDLE_RULE, None)"
  have "?e \<in> set (tb_tiers tier_example_done)" "te_workspace ?e = ''w''" "te_key ?e \<notin> set (map it_key shifted_ladder)"
    "tb_reqs tier_example_done ! 1 \<in> set (tb_reqs tier_example_done)" "rq_workspace (tb_reqs tier_example_done ! 1) = ''w''"
    "rq_tier_key (tb_reqs tier_example_done ! 1) = Some (te_key ?e)"
    by code_simp+
  from used_tier_cannot_be_merged [OF this] show ?thesis by (simp add: shifted_ladder_valid)
qed

text \<open>
  Which requirements count as cyclic depends on the order of the parents. In one and the same hierarchy the requirement
  \<open>d\<close> lies on the cycle d, c, a, b; it is found when \<open>b\<close> lists \<open>d\<close> first and missed when \<open>b\<close> lists \<open>c\<close> first.
\<close>

theorem cycle_members_missed:
  "''d'' \<in> set (the (cycle_nodes 9 [(''a'', [''b'']), (''b'', [''d'', ''c'']), (''c'', [''a'']), (''d'', [''c''])] [''a'', ''b'', ''c'', ''d''])) \<and>
   ''d'' \<notin> set (the (cycle_nodes 9 [(''a'', [''b'']), (''b'', [''c'', ''d'']), (''c'', [''a'']), (''d'', [''c''])] [''a'', ''b'', ''c'', ''d'']))"
  by code_simp

end
