(* ===== verification/Recursive_Query.thy ===== *)
theory Recursive_Query
  imports Loom_Prelude
begin

text \<open>
  \<open>WITH RECURSIVE ... UNION ALL\<close> of the database: the recursive term is evaluated on the rows of the last round until a
  round yields none, and the result is the rows of all rounds. The loop is a \<open>partial_function\<close>; \<open>None\<close> is a query that
  never ends.
\<close>

partial_function (option) cte_rows :: "('r list \<Rightarrow> 'r list) \<Rightarrow> 'r list \<Rightarrow> 'r list \<Rightarrow> 'r list option" where
  "cte_rows step working rows =
     (if working = [] then Some rows else cte_rows step (step working) (rows @ step working))"

declare cte_rows.simps [code]

subsection \<open>Rounds of a recursive query\<close>

fun rounds :: "('r list \<Rightarrow> 'r list) \<Rightarrow> nat \<Rightarrow> 'r list \<Rightarrow> 'r list" where
  "rounds step 0 working = working"
| "rounds step (Suc n) working = rounds step n (step working)"

lemma rounds_Suc: "rounds step (Suc n) working = step (rounds step n working)"
  by (induction n arbitrary: working) simp_all

lemma cte_rows_returns:
  assumes "rounds step n working = []"
  shows "\<exists>m. cte_rows step working rows = Some (rows @ concat (map (\<lambda>i. rounds step (Suc i) working) [0..<m])) \<and> rounds step m working = []"
  using assms
proof (induction n arbitrary: working rows)
  case 0
  then show ?case by (intro exI [of _ 0]) (simp add: cte_rows.simps)
next
  case (Suc n)
  show ?case
  proof (cases "working = []")
    case True
    then show ?thesis by (intro exI [of _ 0]) (simp add: cte_rows.simps)
  next
    case False
    from Suc.IH [of "step working" "rows @ step working"] Suc.prems
    obtain m where m: "cte_rows step (step working) (rows @ step working) =
        Some ((rows @ step working) @ concat (map (\<lambda>i. rounds step (Suc i) (step working)) [0..<m]))" "rounds step m (step working) = []"
      by auto
    have "map (\<lambda>i. rounds step (Suc i) working) [0..<Suc m] = step working # map (\<lambda>i. rounds step (Suc i) (step working)) [0..<m]"
      by (simp add: upt_conv_Cons map_Suc_upt [symmetric] del: upt_Suc)
    with m False show ?thesis by (intro exI [of _ "Suc m"]) (subst cte_rows.simps, simp)
  qed
qed

lemma cte_rows_set:
  assumes "rounds step n base = []" "step [] = []"
  shows "\<exists>rows. cte_rows step base base = Some rows \<and> (\<forall>r. r \<in> set rows \<longleftrightarrow> (\<exists>i. r \<in> set (rounds step i base)))"
proof -
  obtain m where m: "cte_rows step base base = Some (base @ concat (map (\<lambda>i. rounds step (Suc i) base) [0..<m]))" "rounds step m base = []"
    using cte_rows_returns [OF assms(1)] by blast
  have "rounds step (m + j) base = []" for j
    by (induction j) (use m(2) assms(2) in \<open>simp_all add: rounds_Suc del: rounds.simps(2)\<close>)
  then have nil: "rounds step i base = []" if "m \<le> i" for i using that le_Suc_ex by blast
  have "r \<in> set (base @ concat (map (\<lambda>i. rounds step (Suc i) base) [0..<m])) \<longleftrightarrow> (\<exists>i. r \<in> set (rounds step i base))" for r
  proof
    assume "r \<in> set (base @ concat (map (\<lambda>i. rounds step (Suc i) base) [0..<m]))"
    then show "\<exists>i. r \<in> set (rounds step i base)" by (metis (no_types, lifting) UN_E in_set_conv_decomp set_append Un_iff rounds.simps(1) set_concat set_map imageE)
  next
    assume "\<exists>i. r \<in> set (rounds step i base)"
    then obtain i where i: "r \<in> set (rounds step i base)" by blast
    then have "i < m" using nil [of i] by (metis empty_iff list.set(1) not_le)
    with i show "r \<in> set (base @ concat (map (\<lambda>i. rounds step (Suc i) base) [0..<m]))"
      by (cases i) (auto intro!: bexI)
  qed
  then show ?thesis using m(1) by blast
qed

lemma cte_rows_ends:
  assumes "cte_rows step working rows = Some y"
  shows "\<exists>n. rounds step n working = []"
proof (rule cte_rows.raw_induct [where P = "\<lambda>step working rows y. \<exists>n. rounds step n working = []", OF _ assms])
  fix f :: "('a list \<Rightarrow> 'a list) \<Rightarrow> 'a list \<Rightarrow> 'a list \<Rightarrow> 'a list option" and step working rows y
  assume IH: "\<And>step working rows y. f step working rows = Some y \<Longrightarrow> \<exists>n. rounds step n working = []"
    and run: "(if working = [] then Some rows else f step (step working) (rows @ step working)) = Some y"
  show "\<exists>n. rounds step n working = []"
  proof (cases "working = []")
    case True
    then show ?thesis by (intro exI [of _ 0]) simp
  next
    case False
    then have "f step (step working) (rows @ step working) = Some y" using run by simp
    then obtain n where "rounds step n (step working) = []" using IH by blast
    then show ?thesis by (intro exI [of _ "Suc n"]) simp
  qed
qed

end
