(* ===== verification/Query_Engine.thy ===== *)
theory Query_Engine
  imports Recursive_Query Trace_Links
begin

text \<open>
  Graph queries on the link table (\<^verbatim>\<open>traceability/query_engine.py\<close>): direct neighbours, the transitive hull computed by a
  recursive common table expression, and the export of a workspace graph.

  The recursive query runs by \<open>cte_rows\<close>; \<open>None\<close> stands for a query that never ends. The statement timeout of the database
  is not modelled. Rows come in table order.
\<close>

subsection \<open>Direct neighbours\<close>

record neighbor_result =
  nr_entity :: uuid
  nr_type :: string
  nr_link_type :: string
  nr_direction :: string
  nr_workspace :: "uuid option"

definition query_upstream :: "uuid \<Rightarrow> uuid \<Rightarrow> trace_db \<Rightarrow> neighbor_result list" where
  "query_upstream tenant artifact_id db =
     List.map_filter (\<lambda>l. map_option
         (\<lambda>a. \<lparr>nr_entity = l_source l, nr_type = ar_type a, nr_link_type = l_type l, nr_direction = ''upstream'', nr_workspace = ar_workspace a\<rparr>)
         (get_artifact (l_source l) db))
       (filter (\<lambda>l. l_target l = artifact_id) (tenant_links tenant db))"

definition query_downstream :: "uuid \<Rightarrow> uuid \<Rightarrow> trace_db \<Rightarrow> neighbor_result list" where
  "query_downstream tenant artifact_id db =
     List.map_filter (\<lambda>l. map_option
         (\<lambda>a. \<lparr>nr_entity = l_target l, nr_type = ar_type a, nr_link_type = l_type l, nr_direction = ''downstream'', nr_workspace = ar_workspace a\<rparr>)
         (get_artifact (l_target l) db))
       (filter (\<lambda>l. l_source l = artifact_id) (tenant_links tenant db))"

subsection \<open>The recursive query\<close>

record transitive_result =
  tr_entity :: uuid
  tr_type :: string
  tr_link_type :: string
  tr_direction :: string
  tr_depth :: nat
  tr_workspace :: "uuid option"

record cte_row = transitive_result +
  cte_visited :: "uuid list"

text \<open>The end of a link the traversal comes from, and the end it goes to.\<close>

definition near_end :: "string \<Rightarrow> link_row \<Rightarrow> uuid" where
  "near_end direction l = (if direction = ''downstream'' then l_source l else l_target l)"

definition far_end :: "string \<Rightarrow> link_row \<Rightarrow> uuid" where
  "far_end direction l = (if direction = ''downstream'' then l_target l else l_source l)"

definition hop_row :: "string \<Rightarrow> nat \<Rightarrow> uuid list \<Rightarrow> trace_db \<Rightarrow> link_row \<Rightarrow> cte_row option" where
  "hop_row direction depth visited db l =
     map_option (\<lambda>a. \<lparr>tr_entity = far_end direction l, tr_type = ar_type a, tr_link_type = l_type l,
         tr_direction = (if direction = ''downstream'' then ''downstream'' else ''upstream''), tr_depth = depth,
         tr_workspace = ar_workspace a, cte_visited = visited @ [near_end direction l]\<rparr>)
       (get_artifact (far_end direction l) db)"

definition cte_base :: "uuid \<Rightarrow> uuid \<Rightarrow> string \<Rightarrow> trace_db \<Rightarrow> cte_row list" where
  "cte_base tenant artifact_id direction db =
     List.map_filter (hop_row direction 1 [] db) (filter (\<lambda>l. near_end direction l = artifact_id) (tenant_links tenant db))"

definition cte_step :: "uuid \<Rightarrow> string \<Rightarrow> trace_db \<Rightarrow> cte_row list \<Rightarrow> cte_row list" where
  "cte_step tenant direction db working =
     concat (map (\<lambda>tr. List.map_filter (hop_row direction (tr_depth tr + 1) (cte_visited tr) db)
         (filter (\<lambda>l. tr_entity tr = near_end direction l \<and> far_end direction l \<notin> set (cte_visited tr)) (tenant_links tenant db)))
       working)"

definition query_transitive :: "uuid \<Rightarrow> uuid \<Rightarrow> string \<Rightarrow> trace_db \<Rightarrow> transitive_result list option" where
  "query_transitive tenant artifact_id direction db =
     (let base = cte_base tenant artifact_id direction db
      in map_option (map transitive_result.truncate) (cte_rows (cte_step tenant direction db) base base))"

datatype query_result = Neighbors "neighbor_result list" | Transitive "transitive_result list"

definition graph_query :: "uuid \<Rightarrow> uuid \<Rightarrow> string \<Rightarrow> bool \<Rightarrow> trace_db \<Rightarrow> query_result option" where
  "graph_query tenant artifact_id direction transitive db =
     (if direction = ''upstream''
      then if transitive then map_option Transitive (query_transitive tenant artifact_id ''upstream'' db)
           else Some (Neighbors (query_upstream tenant artifact_id db))
      else if transitive then map_option Transitive (query_transitive tenant artifact_id ''downstream'' db)
           else Some (Neighbors (query_downstream tenant artifact_id db)))"

subsection \<open>The graph of a workspace\<close>

definition MAX_GRAPH_ITEMS :: nat where
  "MAX_GRAPH_ITEMS = 100000"

datatype query_error = PayloadTooLarge

definition collect_trace_graph :: "uuid \<Rightarrow> uuid \<Rightarrow> trace_db \<Rightarrow> query_error + (nat \<times> uuid \<times> uuid \<times> string \<times> uuid) list" where
  "collect_trace_graph tenant ws db =
     (let rows = filter (\<lambda>l. case get_artifact (l_source l) db of None \<Rightarrow> False | Some a \<Rightarrow> ar_workspace a = Some ws) (tenant_links tenant db)
      in res_bind (raise_if (length rows > MAX_GRAPH_ITEMS) PayloadTooLarge) (\<lambda>_.
         Inr (map (\<lambda>l. (l_id l, l_source l, l_target l, l_type l, l_tenant l)) (sort_key l_id rows))))"

subsection \<open>The recursive query finds what is reachable\<close>

definition hops :: "string \<Rightarrow> uuid \<Rightarrow> trace_db \<Rightarrow> (uuid \<times> uuid) set" where
  "hops direction tenant db = (\<lambda>l. (near_end direction l, far_end direction l)) ` set (tenant_links tenant db)"

lemma hops_edges:
  "hops direction tenant db = (if direction = ''downstream'' then set (all_edges tenant db) else (set (all_edges tenant db))\<inverse>)"
  by (auto simp: hops_def near_end_def far_end_def all_edges_def endpoints_def image_iff)

lemma links_wf_hop:
  assumes "links_wf db" "l \<in> set (tenant_links tenant db)"
  shows "near_end direction l \<noteq> far_end direction l" "get_artifact (far_end direction l) db \<noteq> None"
proof -
  have "row_ok db l" using assms by (auto simp: links_wf_def list_all_iff tenant_links_def)
  then show "near_end direction l \<noteq> far_end direction l" "get_artifact (far_end direction l) db \<noteq> None"
    by (auto simp: row_ok_def in_tenant_def near_end_def far_end_def split: option.splits)
qed

lemma hop_row_fields:
  assumes "hop_row direction depth visited db l = Some row"
  shows "tr_entity row = far_end direction l" "tr_depth row = depth" "cte_visited row = visited @ [near_end direction l]"
  using assms by (auto simp: hop_row_def)

lemma cte_step_Nil: "cte_step tenant direction db [] = []"
  by (simp add: cte_step_def)

lemma truncate_fields [simp]:
  "tr_entity (transitive_result.truncate r) = tr_entity r" "tr_depth (transitive_result.truncate r) = tr_depth r"
  by (simp_all add: transitive_result.truncate_def)

lemma cte_base_rows:
  "row \<in> set (cte_base tenant a direction db) \<longleftrightarrow>
     (\<exists>l\<in>set (tenant_links tenant db). near_end direction l = a \<and> hop_row direction 1 [] db l = Some row)"
  by (force simp: cte_base_def map_filter_def)

lemma cte_step_rows:
  "row \<in> set (cte_step tenant direction db working) \<longleftrightarrow>
     (\<exists>tr\<in>set working. \<exists>l\<in>set (tenant_links tenant db). tr_entity tr = near_end direction l \<and>
        far_end direction l \<notin> set (cte_visited tr) \<and> hop_row direction (tr_depth tr + 1) (cte_visited tr) db l = Some row)"
  by (force simp: cte_step_def map_filter_def)

definition cte_nodes :: "uuid \<Rightarrow> string \<Rightarrow> uuid \<Rightarrow> trace_db \<Rightarrow> uuid set" where
  "cte_nodes a direction tenant db = insert a (snd ` hops direction tenant db)"

definition cte_ok :: "uuid \<Rightarrow> string \<Rightarrow> uuid \<Rightarrow> trace_db \<Rightarrow> nat \<Rightarrow> cte_row \<Rightarrow> bool" where
  "cte_ok a direction tenant db n row \<longleftrightarrow> tr_depth row = Suc n \<and> length (cte_visited row) = Suc n \<and> a \<in> set (cte_visited row) \<and>
     distinct (tr_entity row # cte_visited row) \<and> set (tr_entity row # cte_visited row) \<subseteq> cte_nodes a direction tenant db \<and>
     (a, tr_entity row) \<in> hops direction tenant db ^^ Suc n"

lemma hopI: "l \<in> set (tenant_links tenant db) \<Longrightarrow> (near_end direction l, far_end direction l) \<in> hops direction tenant db"
  by (auto simp: hops_def)

lemma rounds_ok:
  assumes "links_wf db" "row \<in> set (rounds (cte_step tenant direction db) n (cte_base tenant a direction db))"
  shows "cte_ok a direction tenant db n row"
  using assms(2)
proof (induction n arbitrary: row)
  case 0
  then obtain l where l: "l \<in> set (tenant_links tenant db)" "near_end direction l = a" "hop_row direction 1 [] db l = Some row"
    by (auto simp: cte_base_rows)
  show ?case
    using hop_row_fields [OF l(3)] l(2) links_wf_hop(1) [OF assms(1) l(1), of direction] hopI [OF l(1), of direction]
    by (auto simp: cte_ok_def cte_nodes_def intro: rev_image_eqI)
next
  case (Suc n)
  then obtain tr l where tr: "tr \<in> set (rounds (cte_step tenant direction db) n (cte_base tenant a direction db))"
    and l: "l \<in> set (tenant_links tenant db)" "tr_entity tr = near_end direction l" "far_end direction l \<notin> set (cte_visited tr)"
      "hop_row direction (tr_depth tr + 1) (cte_visited tr) db l = Some row"
    unfolding rounds_Suc cte_step_rows by blast
  have ok: "cte_ok a direction tenant db n tr" by (rule Suc.IH [OF tr])
  show ?case
    using ok hop_row_fields [OF l(4)] l(2,3) links_wf_hop(1) [OF assms(1) l(1), of direction] hopI [OF l(1), of direction]
    by (auto simp: cte_ok_def cte_nodes_def intro: relpow_Suc_I rev_image_eqI)
qed

lemma finite_cte_nodes: "finite (cte_nodes a direction tenant db)"
  by (simp add: cte_nodes_def hops_def)

lemma rounds_end:
  assumes "links_wf db"
  shows "rounds (cte_step tenant direction db) (card (cte_nodes a direction tenant db)) (cte_base tenant a direction db) = []"
proof (rule ccontr)
  assume "rounds (cte_step tenant direction db) (card (cte_nodes a direction tenant db)) (cte_base tenant a direction db) \<noteq> []"
  then obtain row where "cte_ok a direction tenant db (card (cte_nodes a direction tenant db)) row"
    using rounds_ok [OF assms] by (metis last_in_set)
  then have "length (tr_entity row # cte_visited row) \<le> card (cte_nodes a direction tenant db)"
    "length (cte_visited row) = Suc (card (cte_nodes a direction tenant db))"
    unfolding cte_ok_def by (metis card_mono distinct_card finite_cte_nodes, simp)
  then show False by simp
qed

lemma rounds_complete:
  assumes "links_wf db" "(a, b) \<in> hops direction tenant db ^^ Suc n" "\<forall>k\<le>n. (a, b) \<notin> hops direction tenant db ^^ k"
  shows "\<exists>row\<in>set (rounds (cte_step tenant direction db) n (cte_base tenant a direction db)). tr_entity row = b \<and>
    (\<forall>v\<in>set (cte_visited row). \<exists>k\<le>n. (a, v) \<in> hops direction tenant db ^^ k)"
  using assms(2,3)
proof (induction n arbitrary: b)
  case 0
  then obtain l where l: "l \<in> set (tenant_links tenant db)" "near_end direction l = a" "far_end direction l = b"
    by (auto simp: hops_def)
  then obtain row where row: "hop_row direction 1 [] db l = Some row"
    using links_wf_hop(2) [OF assms(1) l(1), of direction] by (auto simp: hop_row_def)
  then have "row \<in> set (cte_base tenant a direction db)" using l by (auto simp: cte_base_rows)
  then show ?case using hop_row_fields [OF row] l by auto
next
  case (Suc n)
  let ?H = "hops direction tenant db"
  obtain c where c: "(a, c) \<in> ?H ^^ Suc n" "(c, b) \<in> ?H" using Suc.prems(1) by auto
  have "(a, c) \<notin> ?H ^^ k" if "k \<le> n" for k
    using Suc.prems(2) c(2) that by (meson Suc_le_mono relpow_Suc_I)
  then obtain tr where tr: "tr \<in> set (rounds (cte_step tenant direction db) n (cte_base tenant a direction db))" "tr_entity tr = c"
    and vis: "\<forall>v\<in>set (cte_visited tr). \<exists>k\<le>n. (a, v) \<in> ?H ^^ k"
    using Suc.IH [OF c(1)] by blast
  obtain l where l: "l \<in> set (tenant_links tenant db)" "near_end direction l = c" "far_end direction l = b" using c(2) by (auto simp: hops_def)
  then obtain row where row: "hop_row direction (tr_depth tr + 1) (cte_visited tr) db l = Some row"
    using links_wf_hop(2) [OF assms(1) l(1), of direction] by (auto simp: hop_row_def)
  have "b \<notin> set (cte_visited tr)" using vis Suc.prems(2) le_Suc_eq by blast
  then have "row \<in> set (rounds (cte_step tenant direction db) (Suc n) (cte_base tenant a direction db))"
    unfolding rounds_Suc cte_step_rows using tr l row by (intro bexI [of _ tr] bexI [of _ l]) auto
  moreover have "tr_entity row = b" "cte_visited row = cte_visited tr @ [c]" using hop_row_fields [OF row] l by simp_all
  moreover have "\<forall>v\<in>set (cte_visited tr @ [c]). \<exists>k\<le>Suc n. (a, v) \<in> ?H ^^ k" using vis c(1) by (metis le_SucI list.set_intros(1) order_refl rotate1.simps(2) set_ConsD set_rotate1)
  ultimately show ?case by (intro bexI [of _ row] conjI) simp_all
qed

text \<open>
  C20: the recursive query computes the transitive hull. On a consistent link table it ends, also when the graph has cycles; the
  artifacts it returns are those reachable from the start by one or more links in the direction asked for, without the start;
  every row's depth is the length of a path, and every artifact also appears with the length of a shortest one.
\<close>

theorem transitive_query_correct:
  assumes "links_wf db"
  shows "\<exists>rows. query_transitive tenant a direction db = Some rows \<and>
    tr_entity ` set rows = {b. (a, b) \<in> (hops direction tenant db)\<^sup>+ \<and> b \<noteq> a} \<and>
    (\<forall>r\<in>set rows. (a, tr_entity r) \<in> hops direction tenant db ^^ tr_depth r) \<and>
    (\<forall>b n. b \<noteq> a \<and> (a, b) \<in> hops direction tenant db ^^ n \<and> (\<forall>k<n. (a, b) \<notin> hops direction tenant db ^^ k) \<longrightarrow>
       (\<exists>r\<in>set rows. tr_entity r = b \<and> tr_depth r = n))"
proof -
  let ?H = "hops direction tenant db" and ?base = "cte_base tenant a direction db" and ?step = "cte_step tenant direction db"
  obtain rows where rows: "cte_rows ?step ?base ?base = Some rows"
    and iff: "\<And>r. r \<in> set rows \<longleftrightarrow> (\<exists>i. r \<in> set (rounds ?step i ?base))"
    using cte_rows_set [OF rounds_end [OF assms, of tenant direction a]] by (metis cte_step_Nil)
  have ok: "\<exists>n. cte_ok a direction tenant db n r" if "r \<in> set rows" for r
    using that iff rounds_ok [OF assms] by blast
  have near: "\<exists>r\<in>set rows. tr_entity r = b \<and> tr_depth r = n"
    if b: "b \<noteq> a" "(a, b) \<in> ?H ^^ n" "\<forall>k<n. (a, b) \<notin> ?H ^^ k" for b n
  proof (cases n)
    case (Suc m)
    then obtain r where "r \<in> set (rounds ?step m ?base)" "tr_entity r = b" using rounds_complete [OF assms, of a b m direction tenant] b by auto
    then show ?thesis using iff rounds_ok [OF assms] Suc unfolding cte_ok_def by metis
  qed (use b in simp)
  have "tr_entity ` set rows = {b. (a, b) \<in> ?H\<^sup>+ \<and> b \<noteq> a}"
  proof (intro set_eqI iffI)
    fix b
    assume "b \<in> tr_entity ` set rows"
    then obtain r where r: "r \<in> set rows" "tr_entity r = b" by auto
    obtain n where "cte_ok a direction tenant db n r" using ok [OF r(1)] by blast
    with r(2) show "b \<in> {b. (a, b) \<in> ?H\<^sup>+ \<and> b \<noteq> a}" unfolding cte_ok_def by (auto simp: trancl_power simp del: relpow.simps)
  next
    fix b
    assume b: "b \<in> {b. (a, b) \<in> ?H\<^sup>+ \<and> b \<noteq> a}"
    then obtain n where "(a, b) \<in> ?H ^^ n" by (auto simp: trancl_power)
    then have "(a, b) \<in> ?H ^^ (LEAST n. (a, b) \<in> ?H ^^ n)" "\<forall>k<(LEAST n. (a, b) \<in> ?H ^^ n). (a, b) \<notin> ?H ^^ k"
      by (auto intro: LeastI dest: not_less_Least)
    then show "b \<in> tr_entity ` set rows" using near [of b] b by blast
  qed
  moreover have "(a, tr_entity r) \<in> ?H ^^ tr_depth r" if "r \<in> set rows" for r
    using ok [OF that] unfolding cte_ok_def by metis
  moreover have "query_transitive tenant a direction db = Some (map transitive_result.truncate rows)"
    by (simp add: query_transitive_def rows)
  ultimately show ?thesis
    using near by (intro exI [of _ "map transitive_result.truncate rows"]) (auto simp: image_image)
qed

definition ring_example :: trace_db where
  "ring_example =
     \<lparr>td_artifacts = map (\<lambda>a. \<lparr>ar_id = a, ar_tenant = ''t'', ar_workspace = Some ''w'', ar_type = ''Requirement'', ar_lifecycle = ''active''\<rparr>)
        [''a'', ''b'', ''c''],
      td_links = [(new_link ''t'' 0 None ''a'' ''b'' ''references'' [] (\<lparr>td_artifacts = [], td_links = [], td_next = 0, td_recomputed = []\<rparr>)),
                  (new_link ''t'' 0 None ''b'' ''c'' ''references'' [] (\<lparr>td_artifacts = [], td_links = [], td_next = 1, td_recomputed = []\<rparr>)),
                  (new_link ''t'' 0 None ''c'' ''a'' ''refines'' [] (\<lparr>td_artifacts = [], td_links = [], td_next = 2, td_recomputed = []\<rparr>))],
      td_next = 3, td_recomputed = []\<rparr>"

theorem transitive_query_correct_witness:
  "links_wf ring_example \<and>
   map_option (map tr_entity) (query_transitive ''t'' ''a'' ''downstream'' ring_example) = Some [''b'', ''c''] \<and>
   {''b'', ''c''} = {b. (''a'', b) \<in> (hops ''downstream'' ''t'' ring_example)\<^sup>+ \<and> b \<noteq> ''a''}"
proof -
  have wf: "links_wf ring_example" by code_simp
  have rows: "map_option (map tr_entity) (query_transitive ''t'' ''a'' ''downstream'' ring_example) = Some [''b'', ''c'']" by code_simp
  from transitive_query_correct [OF wf, of "''t''" "''a''" "''downstream''"] rows
  have "{''b'', ''c''} = {b. (''a'', b) \<in> (hops ''downstream'' ''t'' ring_example)\<^sup>+ \<and> b \<noteq> ''a''}"
    by (metis (no_types, lifting) list.set_map list.simps(15) list.set(1) option.inject option.simps(9))
  with wf rows show ?thesis by blast
qed

end
