(* ===== verification/Architecture_Elements.thy ===== *)
theory Architecture_Elements
  imports Recursive_Query
begin

text \<open>
  Architecture elements: the rigor-gated invariants I1 to I5 (\<^verbatim>\<open>application/validators.py\<close>), the element service
  (\<^verbatim>\<open>application/architecture_service.py\<close>), and level and role of an element (\<^verbatim>\<open>persistence/models.py\<close>, class
  \<open>ArchitectureElement\<close>).

  A row carries the workspace, lifecycle flag and parent of its backing artifact. Every writing operation runs in one
  transaction. An update reads and validates first and writes later with a compare-and-swap on the version, so it is split
  into \<open>prepare_update\<close> and \<open>commit_update\<close>; another request may commit in between. The preset tier of a workspace, the roles
  check, the settings override and new identifiers are arguments. Sort keys, custom fields, the stored revisions and the
  initial workflow state are left out. \<open>LevelQueryHangs\<close> stands for a level query that never ends.
\<close>

subsection \<open>Tables\<close>

record arch_row =
  ae_id :: uuid
  ae_artifact :: uuid
  ae_tenant :: uuid
  ae_workspace :: uuid
  ae_title :: string
  ae_description :: string
  ae_type :: string
  ae_parent :: "uuid option"
  ae_asil :: "string option"
  ae_make_or_buy :: "string option"
  ae_uid :: "string option"
  ae_version :: nat
  ae_outdated :: bool
  ae_artifact_parent :: "uuid option"

record arch_db =
  ad_tenants :: "uuid list"
  ad_workspaces :: "(uuid \<times> uuid) list"
  ad_elements :: "arch_row list"
  ad_log :: "(string \<times> uuid) list"

text \<open>\<open>av_writer\<close>: the roles of the caller permit a write. \<open>av_tier\<close>: what the preset gate answers for a workspace, \<open>None\<close> when it fails.\<close>

record arch_env =
  av_tenant :: uuid
  av_writer :: bool
  av_tier :: "uuid \<Rightarrow> string option"
  av_override :: "(string \<times> string list option) list option"

datatype arch_error =
    I1_SelfParent uuid
  | I1_Cycle uuid
  | I2_Level nat nat
  | I3_Dangling uuid
  | I3_CrossWorkspace uuid uuid
  | I4_Ancestor uuid uuid
  | I5_SecondRoot uuid
  | ElementNotFound uuid
  | TenantNotFound uuid
  | ArchWorkspaceNotFound uuid
  | WriteDenied
  | OptimisticLock uuid
  | UidTaken string
  | ParentMissing uuid
  | NotOutdated uuid
  | LevelQueryHangs

subsection \<open>Rigor tiers\<close>

definition ALL_INVARIANTS :: "string list" where
  "ALL_INVARIANTS = [''I1'', ''I2'', ''I3'', ''I4'', ''I5'']"

definition RIGOR_INVARIANT_PRESETS :: "(string \<times> string list) list" where
  "RIGOR_INVARIANT_PRESETS =
     [(''minimal'', [''I3'', ''I5'']),
      (''standard'', [''I1'', ''I2'', ''I3'', ''I5'']),
      (''extended'', [''I1'', ''I2'', ''I3'', ''I4'', ''I5''])]"

text \<open>A value that cannot be iterated over (\<open>None\<close>) is skipped.\<close>

definition get_rigor_invariant_presets :: "(string \<times> string list option) list option \<Rightarrow> (string \<times> string list) list" where
  "get_rigor_invariant_presets override =
     (case override of
        None \<Rightarrow> RIGOR_INVARIANT_PRESETS
      | Some ts \<Rightarrow>
          rev (List.map_filter (\<lambda>(tier, codes). map_option (\<lambda>cs. (tier, filter (\<lambda>c. c \<in> set ALL_INVARIANTS) cs)) codes) ts) @
          RIGOR_INVARIANT_PRESETS)"

definition for_tier :: "arch_env \<Rightarrow> string \<Rightarrow> string list" where
  "for_tier env tier =
     (let presets = get_rigor_invariant_presets (av_override env)
      in case map_of presets tier of Some enabled \<Rightarrow> enabled | None \<Rightarrow> the (map_of presets ''standard''))"

definition for_workspace :: "arch_env \<Rightarrow> uuid option \<Rightarrow> string list" where
  "for_workspace env ws =
     for_tier env (case ws of None \<Rightarrow> ''minimal'' | Some w \<Rightarrow> (case av_tier env w of None \<Rightarrow> ''minimal'' | Some tier \<Rightarrow> tier))"

subsection \<open>Levels and roles\<close>

definition get_element :: "uuid \<Rightarrow> arch_row list \<Rightarrow> uuid \<Rightarrow> arch_row option" where
  "get_element tenant els e = find (\<lambda>r. ae_id r = e \<and> ae_tenant r = tenant) els"

text \<open>The rows of the recursive query of \<open>annotate_levels\<close>: start, element, its parent, depth.\<close>

type_synonym level_row = "uuid \<times> uuid \<times> uuid option \<times> nat"

definition level_base :: "uuid \<Rightarrow> uuid list \<Rightarrow> arch_row list \<Rightarrow> level_row list" where
  "level_base tenant ids els =
     map (\<lambda>r. (ae_id r, ae_id r, ae_parent r, 0)) (filter (\<lambda>r. ae_id r \<in> set ids \<and> ae_tenant r = tenant) els)"

definition level_step :: "uuid \<Rightarrow> arch_row list \<Rightarrow> level_row list \<Rightarrow> level_row list" where
  "level_step tenant els rows =
     concat (map (\<lambda>(start, e, parent, depth).
       map (\<lambda>r. (start, ae_id r, ae_parent r, depth + 1)) (filter (\<lambda>r. ae_tenant r = tenant \<and> Some (ae_id r) = parent) els)) rows)"

definition max_depth :: "level_row list \<Rightarrow> uuid \<Rightarrow> nat" where
  "max_depth rows e = Max (set (0 # map (\<lambda>(s, _, _, d). d) (filter (\<lambda>(s, _). s = e) rows)))"

definition annotate_levels :: "arch_row list \<Rightarrow> arch_row list \<Rightarrow> (uuid \<times> nat) list option" where
  "annotate_levels elements els =
     (let pending = filter (\<lambda>r. ae_parent r \<noteq> None) elements;
          roots = map (\<lambda>r. (ae_id r, 0)) (filter (\<lambda>r. ae_parent r = None) elements)
      in if pending = [] then Some roots
         else let base = level_base (ae_tenant (hd pending)) (map ae_id pending) els
              in map_option (\<lambda>rows. map (\<lambda>r. (ae_id r, max_depth rows (ae_id r))) pending @ roots)
                   (cte_rows (level_step (ae_tenant (hd pending)) els) base base))"

definition get_level :: "arch_row \<Rightarrow> arch_row list \<Rightarrow> nat option" where
  "get_level r els =
     (if ae_parent r = None then Some 0
      else map_option (\<lambda>levels. case map_of levels (ae_id r) of None \<Rightarrow> 0 | Some l \<Rightarrow> l) (annotate_levels [r] els))"

lemma card_Diff_less: "c \<in> A \<Longrightarrow> c \<notin> B \<Longrightarrow> finite A \<Longrightarrow> card (A - insert c B) < card (A - B)"
  by (intro psubset_card_mono) auto

text \<open>\<open>ArchitectureService._annotate_levels\<close>: the walk of \<open>resolve\<close> over the loaded elements.\<close>

function resolve_level :: "(uuid \<Rightarrow> uuid option option) \<Rightarrow> uuid list \<Rightarrow> (uuid \<times> nat) list \<Rightarrow> uuid list \<Rightarrow> nat \<Rightarrow> uuid \<Rightarrow> nat option" where
  "resolve_level parent_by_id ids level_cache seen depth current =
     (case map_of level_cache current of
        Some l \<Rightarrow> Some (depth + l)
      | None \<Rightarrow>
          if current \<notin> set ids \<or> current \<in> set seen then None
          else (case parent_by_id current of
                  None \<Rightarrow> None
                | Some None \<Rightarrow> Some depth
                | Some (Some parent) \<Rightarrow> resolve_level parent_by_id ids level_cache (current # seen) (depth + 1) parent))"
  by pat_completeness auto
termination
  by (relation "measure (\<lambda>(p, ids, lc, seen, d, c). card (set ids - set seen))") (simp_all add: card_Diff_less del: card_Diff_insert)

definition annotate_one :: "arch_row list \<Rightarrow> arch_row list \<Rightarrow> arch_row \<Rightarrow> (uuid \<times> nat) list \<Rightarrow> (uuid \<times> nat) list option" where
  "annotate_one elements els r level_cache =
     (case resolve_level (\<lambda>e. map_option ae_parent (find (\<lambda>x. ae_id x = e) elements)) (map ae_id elements) level_cache [] 0 (ae_id r) of
        Some l \<Rightarrow> Some ((ae_id r, l) # level_cache)
      | None \<Rightarrow> map_option (\<lambda>l. (ae_id r, l) # level_cache) (get_level r els))"

fun annotate_each :: "arch_row list \<Rightarrow> arch_row list \<Rightarrow> arch_row list \<Rightarrow> (uuid \<times> nat) list \<Rightarrow> (uuid \<times> nat) list option" where
  "annotate_each elements els [] level_cache = Some level_cache"
| "annotate_each elements els (r # rs) level_cache =
     (case annotate_one elements els r level_cache of None \<Rightarrow> None | Some lc \<Rightarrow> annotate_each elements els rs lc)"

definition annotate_levels_in_memory :: "arch_row list \<Rightarrow> arch_row list \<Rightarrow> (uuid \<times> nat) list option" where
  "annotate_levels_in_memory elements els = annotate_each elements els elements []"

definition derive_architecture_role :: "bool \<Rightarrow> bool \<Rightarrow> string" where
  "derive_architecture_role has_parent has_children =
     (if \<not> has_parent then ''system'' else if has_children then ''subsystem'' else ''component'')"

definition annotate_roles_in_memory :: "arch_row list \<Rightarrow> (uuid \<times> string) list" where
  "annotate_roles_in_memory elements =
     map (\<lambda>r. (ae_id r, derive_architecture_role (ae_parent r \<noteq> None) (list_ex (\<lambda>c. ae_parent c = Some (ae_id r)) elements))) elements"

definition get_role :: "arch_row \<Rightarrow> arch_row list \<Rightarrow> string" where
  "get_role r els =
     (if ae_parent r = None then ''system''
      else derive_architecture_role True
        (list_ex (\<lambda>c. ae_tenant c = ae_tenant r \<and> ae_parent c = Some (ae_id r) \<and> \<not> ae_outdated c) els))"

subsection \<open>The invariants\<close>

function chain_repeats :: "uuid \<Rightarrow> arch_row list \<Rightarrow> uuid list \<Rightarrow> uuid option \<Rightarrow> bool" where
  "chain_repeats tenant els visited None = False"
| "chain_repeats tenant els visited (Some current) =
     (if current \<in> set visited then True
      else case get_element tenant els current of
             None \<Rightarrow> False
           | Some r \<Rightarrow> chain_repeats tenant els (current # visited) (ae_parent r))"
  by pat_completeness auto

lemma get_element_Some:
  "get_element tenant els e = Some r \<Longrightarrow> r \<in> set els \<and> ae_id r = e \<and> ae_tenant r = tenant"
  by (auto simp: get_element_def find_Some_iff)

lemma visited_decreases:
  assumes "get_element tenant els c = Some r" "c \<notin> set visited"
  shows "card (ae_id ` set els - insert c (set visited)) < card (ae_id ` set els - set visited)"
  using get_element_Some [OF assms(1)] assms(2) by (intro psubset_card_mono) auto

termination chain_repeats
  by (relation "measure (\<lambda>(tn, els, visited, c). card (ae_id ` set els - set visited))") (simp_all add: visited_decreases)

definition check_i1 :: "string list \<Rightarrow> uuid \<Rightarrow> arch_row list \<Rightarrow> uuid option \<Rightarrow> uuid option \<Rightarrow> arch_error + unit" where
  "check_i1 enabled tenant els element_id parent_id =
     (case parent_id of
        None \<Rightarrow> Inr ()
      | Some p \<Rightarrow>
          raise_if (''I1'' \<in> set enabled \<and> chain_repeats tenant els (case element_id of None \<Rightarrow> [] | Some e \<Rightarrow> [e]) (Some p)) (I1_Cycle p))"

definition check_i2 :: "string list \<Rightarrow> arch_row list \<Rightarrow> arch_row option \<Rightarrow> arch_row option \<Rightarrow> arch_error + unit" where
  "check_i2 enabled els element parent =
     (case (element, parent) of
        (Some e, Some p) \<Rightarrow>
          if ''I2'' \<in> set enabled
          then (case get_level p els of
                  None \<Rightarrow> Inl LevelQueryHangs
                | Some pl \<Rightarrow> (case get_level e els of None \<Rightarrow> Inl LevelQueryHangs | Some cl \<Rightarrow> raise_if (cl \<le> pl) (I2_Level pl cl)))
          else Inr ()
      | _ \<Rightarrow> Inr ())"

definition check_i3 :: "string list \<Rightarrow> uuid \<Rightarrow> arch_row list \<Rightarrow> uuid option \<Rightarrow> uuid option \<Rightarrow> arch_error + arch_row option" where
  "check_i3 enabled tenant els parent_id ws =
     (case parent_id of
        None \<Rightarrow> Inr None
      | Some p \<Rightarrow>
          (let parent = get_element tenant els p
           in if ''I3'' \<notin> set enabled then Inr parent
              else case parent of
                     None \<Rightarrow> Inl (I3_Dangling p)
                   | Some r \<Rightarrow>
                       (case ws of
                          None \<Rightarrow> Inr parent
                        | Some w \<Rightarrow> if ae_workspace r \<noteq> w then Inl (I3_CrossWorkspace p (ae_workspace r)) else Inr parent)))"

function meets_ancestor :: "uuid \<Rightarrow> arch_row list \<Rightarrow> uuid \<Rightarrow> uuid list \<Rightarrow> uuid option \<Rightarrow> bool" where
  "meets_ancestor tenant els target visited None = False"
| "meets_ancestor tenant els target visited (Some current) =
     (if current = target then True
      else if current \<in> set visited then False
      else case get_element tenant els current of
             None \<Rightarrow> False
           | Some r \<Rightarrow> meets_ancestor tenant els target (current # visited) (ae_parent r))"
  by pat_completeness auto
termination
  by (relation "measure (\<lambda>(tn, els, t, visited, c). card (ae_id ` set els - set visited))") (simp_all add: visited_decreases)

definition check_i4 :: "string list \<Rightarrow> uuid \<Rightarrow> arch_row list \<Rightarrow> arch_row option \<Rightarrow> arch_row option \<Rightarrow> arch_error + unit" where
  "check_i4 enabled tenant els source_element target_element =
     (case (source_element, target_element) of
        (Some s, Some t) \<Rightarrow>
          raise_if (''I4'' \<in> set enabled \<and> meets_ancestor tenant els (ae_id t) [ae_id s] (ae_parent s)) (I4_Ancestor (ae_id s) (ae_id t))
      | _ \<Rightarrow> Inr ())"

definition get_existing_root :: "uuid \<Rightarrow> arch_row list \<Rightarrow> uuid \<Rightarrow> uuid option \<Rightarrow> arch_row option" where
  "get_existing_root tenant els ws exclude_id =
     find (\<lambda>r. ae_tenant r = tenant \<and> ae_workspace r = ws \<and> ae_parent r = None \<and> \<not> ae_outdated r \<and> exclude_id \<noteq> Some (ae_id r)) els"

definition check_i5 :: "string list \<Rightarrow> uuid \<Rightarrow> arch_row list \<Rightarrow> uuid option \<Rightarrow> uuid option \<Rightarrow> uuid option \<Rightarrow> arch_error + unit" where
  "check_i5 enabled tenant els new_parent_id ws element_id =
     (if ''I5'' \<notin> set enabled \<or> new_parent_id \<noteq> None then Inr ()
      else case ws of
             None \<Rightarrow> Inr ()
           | Some w \<Rightarrow> (case get_existing_root tenant els w element_id of None \<Rightarrow> Inr () | Some r \<Rightarrow> Inl (I5_SecondRoot (ae_id r))))"

definition validate_parent_assignment ::
  "string list \<Rightarrow> uuid \<Rightarrow> arch_row list \<Rightarrow> uuid option \<Rightarrow> arch_row option \<Rightarrow> uuid option \<Rightarrow> uuid option \<Rightarrow> arch_error + unit" where
  "validate_parent_assignment enabled tenant els parent_id element element_id ws =
     (let effective_id = (case element_id of Some e \<Rightarrow> Some e | None \<Rightarrow> map_option ae_id element)
      in case parent_id of
           None \<Rightarrow> check_i5 enabled tenant els None ws effective_id
         | Some p \<Rightarrow>
             res_bind (raise_if (effective_id = Some p) (I1_SelfParent p)) (\<lambda>_.
             res_bind (check_i3 enabled tenant els parent_id ws) (\<lambda>parent.
             res_bind (check_i1 enabled tenant els effective_id parent_id) (\<lambda>_.
             check_i2 enabled els element parent))))"

definition validate_hierarchy_change ::
  "arch_env \<Rightarrow> arch_row list \<Rightarrow> uuid option \<Rightarrow> uuid option \<Rightarrow> uuid option \<Rightarrow> arch_error + unit" where
  "validate_hierarchy_change env els parent_id element_id ws =
     (if parent_id = None then Inr ()
      else let element = (case element_id of None \<Rightarrow> None | Some e \<Rightarrow> get_element (av_tenant env) els e);
               ws' = (case (element, ws) of (Some r, None) \<Rightarrow> Some (ae_workspace r) | _ \<Rightarrow> ws)
           in validate_parent_assignment (for_workspace env ws') (av_tenant env) els parent_id element element_id ws')"

subsection \<open>The service\<close>

definition validate_element_type :: "string \<Rightarrow> string" where
  "validate_element_type ty = (let n = py_lower (py_strip ty) in if n = [] then ''component'' else n)"

definition parent_artifact_id :: "uuid \<Rightarrow> arch_row list \<Rightarrow> uuid option \<Rightarrow> uuid option" where
  "parent_artifact_id tenant els parent =
     (case parent of None \<Rightarrow> None | Some p \<Rightarrow> map_option ae_artifact (get_element tenant els p))"

text \<open>The constraint \<open>uq_architecture_element_workspace_uid\<close>.\<close>

definition uid_taken :: "arch_row \<Rightarrow> arch_row list \<Rightarrow> bool" where
  "uid_taken r rows \<longleftrightarrow> ae_uid r \<noteq> None \<and> ae_uid r \<noteq> Some [] \<and>
     list_ex (\<lambda>x. ae_workspace x = ae_workspace r \<and> ae_uid x = ae_uid r) rows"

text \<open>The foreign key of \<open>parent\<close>.\<close>

definition parent_exists :: "arch_row \<Rightarrow> arch_row list \<Rightarrow> bool" where
  "parent_exists r rows = (case ae_parent r of None \<Rightarrow> True | Some p \<Rightarrow> p \<in> ae_id ` set rows)"

definition row_constraints :: "arch_row \<Rightarrow> arch_row list \<Rightarrow> arch_row list \<Rightarrow> arch_error + unit" where
  "row_constraints r others rows =
     res_bind (raise_if (uid_taken r others) (UidTaken (the (ae_uid r)))) (\<lambda>_.
     raise_if (\<not> parent_exists r rows) (ParentMissing (the (ae_parent r))))"

definition create_architecture_element ::
  "arch_env \<Rightarrow> uuid \<Rightarrow> uuid \<Rightarrow> string \<Rightarrow> uuid \<Rightarrow> string \<Rightarrow> string \<Rightarrow> string \<Rightarrow> uuid option \<Rightarrow> string option \<Rightarrow> string option \<Rightarrow> string option \<Rightarrow>
     arch_db \<Rightarrow> arch_error + (arch_row \<times> arch_db)" where
  "create_architecture_element env new_id new_artifact local_uid ws title description element_type parent_id asil make_or_buy uid db =
     res_bind (raise_if (\<not> av_writer env) WriteDenied) (\<lambda>_.
     res_bind (raise_if (av_tenant env \<notin> set (ad_tenants db)) (TenantNotFound (av_tenant env))) (\<lambda>_.
     res_bind (raise_if ((ws, av_tenant env) \<notin> set (ad_workspaces db)) (ArchWorkspaceNotFound ws)) (\<lambda>_.
     res_bind (validate_parent_assignment (for_workspace env (Some ws)) (av_tenant env) (ad_elements db) parent_id None None (Some ws)) (\<lambda>_.
     let r = \<lparr>ae_id = new_id, ae_artifact = new_artifact, ae_tenant = av_tenant env, ae_workspace = ws, ae_title = title,
              ae_description = description, ae_type = validate_element_type element_type, ae_parent = parent_id, ae_asil = asil,
              ae_make_or_buy = make_or_buy, ae_uid = (case uid of Some u \<Rightarrow> if u = [] then Some local_uid else Some u | None \<Rightarrow> Some local_uid),
              ae_version = 1, ae_outdated = False, ae_artifact_parent = parent_artifact_id (av_tenant env) (ad_elements db) parent_id\<rparr>
     in res_bind (row_constraints r (ad_elements db) (ad_elements db @ [r])) (\<lambda>_.
        Inr (r, db\<lparr>ad_elements := ad_elements db @ [r], ad_log := ad_log db @ [(''create'', new_id), (''architecture_element.created'', new_id)]\<rparr>))))))"

text \<open>A patch: \<open>None\<close> is an omitted argument; \<open>pa_parent = Some None\<close> detaches.\<close>

record arch_patch =
  pa_title :: "string option"
  pa_description :: "string option"
  pa_type :: "string option"
  pa_asil :: "string option option"
  pa_make_or_buy :: "string option option"
  pa_uid :: "string option option"
  pa_parent :: "uuid option option"

definition or_else :: "'a option \<Rightarrow> 'a \<Rightarrow> 'a" where
  "or_else new old = (case new of None \<Rightarrow> old | Some x \<Rightarrow> x)"

definition apply_patch :: "arch_patch \<Rightarrow> arch_row \<Rightarrow> arch_row" where
  "apply_patch p r =
     r\<lparr>ae_title := or_else (pa_title p) (ae_title r), ae_description := or_else (pa_description p) (ae_description r),
       ae_type := or_else (map_option validate_element_type (pa_type p)) (ae_type r), ae_asil := or_else (pa_asil p) (ae_asil r),
       ae_make_or_buy := or_else (pa_make_or_buy p) (ae_make_or_buy r), ae_uid := or_else (pa_uid p) (ae_uid r),
       ae_parent := or_else (pa_parent p) (ae_parent r)\<rparr>"

record prepared =
  pr_version :: nat
  pr_patch :: arch_patch
  pr_artifact_parent :: "uuid option option"

definition prepare_update :: "arch_env \<Rightarrow> uuid \<Rightarrow> nat option \<Rightarrow> arch_patch \<Rightarrow> arch_db \<Rightarrow> arch_error + prepared" where
  "prepare_update env arch_el_id expected_version patch db =
     res_bind (raise_if (\<not> av_writer env) WriteDenied) (\<lambda>_.
     case get_element (av_tenant env) (ad_elements db) arch_el_id of
       None \<Rightarrow> Inl (ElementNotFound arch_el_id)
     | Some r \<Rightarrow>
         res_bind (raise_if (expected_version \<noteq> None \<and> expected_version \<noteq> Some (ae_version r)) (OptimisticLock arch_el_id)) (\<lambda>_.
         res_bind (raise_if (pa_parent patch = Some (Some arch_el_id)) (I1_SelfParent arch_el_id)) (\<lambda>_.
         res_bind (case pa_parent patch of
                     None \<Rightarrow> Inr ()
                   | Some parent_id \<Rightarrow>
                       validate_parent_assignment (for_workspace env (Some (ae_workspace r))) (av_tenant env) (ad_elements db)
                         parent_id (Some r) (Some arch_el_id) (Some (ae_workspace r))) (\<lambda>_.
         Inr \<lparr>pr_version = (case expected_version of Some v \<Rightarrow> v | None \<Rightarrow> ae_version r), pr_patch = patch,
              pr_artifact_parent = map_option (parent_artifact_id (av_tenant env) (ad_elements db)) (pa_parent patch)\<rparr>))))"

definition commit_update :: "arch_env \<Rightarrow> uuid \<Rightarrow> prepared \<Rightarrow> arch_db \<Rightarrow> arch_error + (arch_row \<times> arch_db)" where
  "commit_update env arch_el_id pr db =
     (case find (\<lambda>r. ae_id r = arch_el_id \<and> ae_tenant r = av_tenant env \<and> ae_version r = pr_version pr) (ad_elements db) of
        None \<Rightarrow> Inl (OptimisticLock arch_el_id)
      | Some r \<Rightarrow>
          (let r' = (apply_patch (pr_patch pr) r)\<lparr>ae_version := Suc (ae_version r), ae_artifact_parent := or_else (pr_artifact_parent pr) (ae_artifact_parent r)\<rparr>
           in res_bind (row_constraints r' (filter (\<lambda>x. ae_id x \<noteq> arch_el_id) (ad_elements db)) (ad_elements db)) (\<lambda>_.
              Inr (r', db\<lparr>ad_elements := map (\<lambda>x. if ae_id x = arch_el_id then r' else x) (ad_elements db),
                          ad_log := ad_log db @ [(''update'', arch_el_id), (''architecture_element.updated'', arch_el_id)]\<rparr>))))"

definition update_architecture_element ::
  "arch_env \<Rightarrow> uuid \<Rightarrow> nat option \<Rightarrow> arch_patch \<Rightarrow> arch_db \<Rightarrow> arch_error + (arch_row \<times> arch_db)" where
  "update_architecture_element env arch_el_id expected_version patch db =
     res_bind (prepare_update env arch_el_id expected_version patch db) (\<lambda>pr. commit_update env arch_el_id pr db)"

definition delete_architecture_element :: "arch_env \<Rightarrow> uuid \<Rightarrow> arch_db \<Rightarrow> arch_error + (unit \<times> arch_db)" where
  "delete_architecture_element env arch_el_id db =
     res_bind (raise_if (\<not> av_writer env) WriteDenied) (\<lambda>_.
     case get_element (av_tenant env) (ad_elements db) arch_el_id of
       None \<Rightarrow> Inl (ElementNotFound arch_el_id)
     | Some r \<Rightarrow>
         Inr ((), db\<lparr>ad_elements := map (\<lambda>x. if ae_id x = arch_el_id then x\<lparr>ae_outdated := True\<rparr> else x) (ad_elements db),
                     ad_log := ad_log db @ [(''delete'', arch_el_id), (''architecture_element.deleted'', arch_el_id)]\<rparr>))"

definition get_architecture_element :: "arch_env \<Rightarrow> uuid \<Rightarrow> arch_db \<Rightarrow> arch_error + arch_row" where
  "get_architecture_element env arch_el_id db =
     (case get_element (av_tenant env) (ad_elements db) arch_el_id of None \<Rightarrow> Inl (ElementNotFound arch_el_id) | Some r \<Rightarrow> Inr r)"

text \<open>Reactivation of a soft-deleted element, \<open>workflow.services.reactivate\<close>, which the tools call for an element.\<close>

definition reactivate_element :: "arch_env \<Rightarrow> uuid \<Rightarrow> arch_db \<Rightarrow> arch_error + (unit \<times> arch_db)" where
  "reactivate_element env arch_el_id db =
     (case get_element (av_tenant env) (ad_elements db) arch_el_id of
        None \<Rightarrow> Inl (ElementNotFound arch_el_id)
      | Some r \<Rightarrow>
          res_bind (raise_if (\<not> ae_outdated r) (NotOutdated arch_el_id)) (\<lambda>_.
          Inr ((), db\<lparr>ad_elements := map (\<lambda>x. if ae_id x = arch_el_id then x\<lparr>ae_outdated := False\<rparr> else x) (ad_elements db)\<rparr>)))"

subsection \<open>The parent relation\<close>

definition up :: "arch_row list \<Rightarrow> (uuid \<times> uuid) set" where
  "up els = {(ae_id r, p) | r p. r \<in> set els \<and> ae_parent r = Some p}"

definition unique_ids :: "arch_row list \<Rightarrow> bool" where
  "unique_ids els \<longleftrightarrow> distinct (map ae_id els)"

lemma unique_row: "unique_ids els \<Longrightarrow> r \<in> set els \<Longrightarrow> q \<in> set els \<Longrightarrow> ae_id r = ae_id q \<Longrightarrow> r = q"
  unfolding unique_ids_def by (meson distinct_map inj_onD)

lemma up_next:
  assumes "unique_ids els" "r \<in> set els" "(ae_id r, x) \<in> up els"
  shows "ae_parent r = Some x"
  using assms unique_row unfolding up_def by fastforce

lemma get_element_in:
  assumes "unique_ids els" "r \<in> set els" "ae_tenant r = tenant"
  shows "get_element tenant els (ae_id r) = Some r"
proof -
  have "get_element tenant els (ae_id r) \<noteq> None" using assms(2,3) by (auto simp: get_element_def find_None_iff)
  then obtain q where "get_element tenant els (ae_id r) = Some q" by blast
  then show ?thesis using get_element_Some unique_row assms by metis
qed

text \<open>Parents lie in the tenant and workspace of their children, and the artifact tree mirrors the element tree.\<close>

definition linked :: "arch_row list \<Rightarrow> arch_row \<Rightarrow> bool" where
  "linked els r \<longleftrightarrow>
     (case ae_parent r of
        None \<Rightarrow> ae_artifact_parent r = None
      | Some p \<Rightarrow> list_ex (\<lambda>q. ae_id q = p \<and> ae_tenant q = ae_tenant r \<and> ae_workspace q = ae_workspace r \<and>
          ae_artifact_parent r = Some (ae_artifact q)) els)"

lemma chain_repeats_sound:
  assumes "unique_ids els" "\<forall>r\<in>set els. linked els r" "\<not> chain_repeats tenant els visited (Some c)"
    "\<forall>r\<in>set els. ae_id r = c \<longrightarrow> ae_tenant r = tenant"
  shows "\<forall>v\<in>set visited. (c, v) \<notin> (up els)\<^sup>*"
  using assms
proof (induction tenant els visited "Some c" arbitrary: c rule: chain_repeats.induct)
  case (2 tenant els visited c)
  have c: "c \<notin> set visited" using 2(4) by (auto split: if_splits)
  show ?case
  proof (intro ballI notI)
    fix v
    assume v: "v \<in> set visited" "(c, v) \<in> (up els)\<^sup>*"
    then obtain x where x: "(c, x) \<in> up els" "(x, v) \<in> (up els)\<^sup>*" using c by (metis converse_rtranclE)
    then obtain r where r: "r \<in> set els" "ae_id r = c" "ae_parent r = Some x" by (auto simp: up_def)
    have el: "get_element tenant els c = Some r" using get_element_in [OF 2(2) r(1)] 2(5) r by auto
    then have "\<not> chain_repeats tenant els (c # visited) (Some x)" using 2(4) c r(3) by simp
    moreover obtain q where "q \<in> set els" "ae_id q = x" "ae_tenant q = ae_tenant r"
      using 2(3) r unfolding linked_def by (fastforce simp: list_ex_iff)
    then have "\<forall>q\<in>set els. ae_id q = x \<longrightarrow> ae_tenant q = tenant" using unique_row [OF 2(2)] r 2(5) by metis
    ultimately have "\<forall>v\<in>set (c # visited). (x, v) \<notin> (up els)\<^sup>*" using 2(1) [OF c el r(3)] 2(2,3) by blast
    with v(1) x(2) show False by simp
  qed
qed

lemma acyclic_new_parent:
  assumes "acyclic E" "(p, e) \<notin> E\<^sup>*" "E' \<subseteq> insert (e, p) E"
  shows "acyclic E'"
  using assms acyclic_subset by (metis acyclic_insert)

subsection \<open>Levels\<close>

inductive level_is :: "arch_row list \<Rightarrow> arch_row \<Rightarrow> nat \<Rightarrow> bool" for els where
  root: "r \<in> set els \<Longrightarrow> ae_parent r = None \<Longrightarrow> level_is els r 0"
| child: "r \<in> set els \<Longrightarrow> ae_parent r = Some (ae_id q) \<Longrightarrow> ae_tenant q = ae_tenant r \<Longrightarrow> level_is els q n \<Longrightarrow> level_is els r (Suc n)"

inductive_cases level_0E: "level_is els r 0"
inductive_cases level_SucE: "level_is els r (Suc n)"

lemma level_row: "level_is els r n \<Longrightarrow> r \<in> set els"
  by (cases rule: level_is.cases) auto

lemma level_exists:
  assumes "acyclic (up els)" "\<forall>r\<in>set els. linked els r" "r \<in> set els"
  shows "\<exists>n. level_is els r n"
proof -
  have "up els \<subseteq> (\<lambda>r. (ae_id r, the (ae_parent r))) ` set els" by (force simp: up_def)
  then have "finite ((up els)\<inverse>)" using finite_surj by blast
  then have "wf ((up els)\<inverse>)" using assms(1) by (simp add: finite_acyclic_wf acyclic_converse)
  then show ?thesis using assms(3)
  proof (induction "ae_id r" arbitrary: r rule: wf_induct_rule)
    case less
    show ?case
    proof (cases "ae_parent r")
      case None
      then show ?thesis using level_is.root [OF less.prems] by blast
    next
      case (Some p)
      then obtain q where q: "q \<in> set els" "ae_id q = p" "ae_tenant q = ae_tenant r"
        using assms(2) less.prems unfolding linked_def by (fastforce simp: list_ex_iff)
      then have "(ae_id q, ae_id r) \<in> (up els)\<inverse>" using Some less.prems by (auto simp: up_def)
      then obtain n where "level_is els q n" using less.hyps q(1) by blast
      then show ?thesis using level_is.child [OF less.prems] Some q by blast
    qed
  qed
qed

lemma level_ancestors:
  assumes "acyclic (up els)" "unique_ids els" "level_is els r n"
  shows "finite {x. (ae_id r, x) \<in> (up els)\<^sup>+} \<and> card {x. (ae_id r, x) \<in> (up els)\<^sup>+} = n"
  using assms(3)
proof (induction rule: level_is.induct)
  case (root r)
  have "(ae_id r, x) \<notin> (up els)\<^sup>+" for x using up_next [OF assms(2) root(1)] root(2) by (metis converse_tranclE option.distinct(1))
  then show ?case by simp
next
  case (child r q n)
  have e: "(ae_id r, ae_id q) \<in> up els" using child(1,2) by (auto simp: up_def)
  have "(ae_id r, x) \<in> (up els)\<^sup>+ \<longleftrightarrow> x = ae_id q \<or> (ae_id q, x) \<in> (up els)\<^sup>+" for x
    using e up_next [OF assms(2) child(1)] child(2) by (metis converse_tranclE option.inject trancl_into_trancl2 r_into_trancl)
  then have "{x. (ae_id r, x) \<in> (up els)\<^sup>+} = insert (ae_id q) {x. (ae_id q, x) \<in> (up els)\<^sup>+}" by auto
  moreover have "(ae_id q, ae_id q) \<notin> (up els)\<^sup>+" using assms(1) by (simp add: acyclic_def)
  ultimately show ?case using child.IH by simp
qed

lemma filter_unique_id:
  assumes "unique_ids els" "q \<in> set els" "ae_tenant q = tenant"
  shows "filter (\<lambda>r. ae_tenant r = tenant \<and> Some (ae_id r) = Some (ae_id q)) els = [q]"
  using assms unfolding unique_ids_def
proof (induction els)
  case (Cons a els)
  show ?case
  proof (cases "a = q")
    case True
    then have "\<forall>x\<in>set els. ae_id x \<noteq> ae_id q" using Cons.prems(1) by (metis distinct.simps(2) image_eqI list.set_map list.simps(9))
    then show ?thesis using True Cons.prems(3) by (auto simp: filter_empty_conv)
  next
    case False
    then have "q \<in> set els" "ae_id a \<noteq> ae_id q" using Cons.prems by auto
    then show ?thesis using Cons by auto
  qed
qed simp

lemma level_query:
  assumes "unique_ids els" "level_is els r n"
  shows "\<exists>rows'. cte_rows (level_step (ae_tenant r) els) [(s, ae_id r, ae_parent r, d)] rows = Some (rows @ rows') \<and>
    map (\<lambda>(s, _, _, d). (s, d)) rows' = map (\<lambda>i. (s, d + Suc i)) [0..<n]"
  using assms(2)
proof (induction arbitrary: d rows rule: level_is.induct)
  case (root r)
  then show ?case by (intro exI [of _ "[]"]) (simp add: cte_rows.simps level_step_def)
next
  case (child r q n)
  have q: "q \<in> set els" by (rule level_row [OF child(4)])
  have step: "level_step (ae_tenant r) els [(s, ae_id r, ae_parent r, d)] = [(s, ae_id q, ae_parent q, Suc d)]"
    unfolding level_step_def child(2) using filter_unique_id [OF assms(1) q child(3)] by simp
  obtain rows' where rows': "cte_rows (level_step (ae_tenant q) els) [(s, ae_id q, ae_parent q, Suc d)] (rows @ [(s, ae_id q, ae_parent q, Suc d)]) =
      Some ((rows @ [(s, ae_id q, ae_parent q, Suc d)]) @ rows')" "map (\<lambda>(s, _, _, d). (s, d)) rows' = map (\<lambda>i. (s, Suc d + Suc i)) [0..<n]"
    using child.IH by blast
  have "map (\<lambda>i. (s, d + Suc i)) [0..<Suc n] = (s, Suc d) # map (\<lambda>i. (s, Suc d + Suc i)) [0..<n]"
    by (simp add: upt_conv_Cons map_Suc_upt [symmetric] del: upt_Suc)
  then show ?case
    using rows' by (intro exI [of _ "(s, ae_id q, ae_parent q, Suc d) # rows'"]) (subst cte_rows.simps, simp add: step child(3))
qed

lemma depths_of_start:
  assumes "map (\<lambda>(s, _, _, d). (s, d)) rows = map (\<lambda>i. (x, f i)) is"
  shows "map (\<lambda>(s, _, _, d). d) (filter (\<lambda>(s, _). s = x) rows) = map f is"
  using assms
proof (induction rows arbitrary: "is")
  case (Cons a rows)
  then show ?case by (cases "is") auto
qed simp

lemma max_depth_upto:
  assumes "map (\<lambda>(s, _, _, d). (s, d)) rows = map (\<lambda>i. (x, Suc i)) [0..<n]"
  shows "max_depth ((x, e, p, 0) # rows) x = n"
proof -
  have "map (\<lambda>(s, _, _, d). d) (filter (\<lambda>(s, _). s = x) ((x, e, p, 0) # rows)) = 0 # map Suc [0..<n]"
    using depths_of_start [OF assms] by simp
  then have "max_depth ((x, e, p, 0) # rows) x = Max (set (0 # 0 # map Suc [0..<n]))" by (simp only: max_depth_def)
  also have "set (0 # 0 # map Suc [0..<n]) = {0..n}" by (simp add: image_Suc_atLeastLessThan) auto
  also have "Max {0..n} = n" by (rule Max_eqI) auto
  finally show ?thesis .
qed

lemma get_level_correct:
  assumes "unique_ids els" "level_is els r n"
  shows "get_level r els = Some n"
proof (cases n)
  case 0
  then show ?thesis using assms(2) by (auto simp: get_level_def elim: level_0E)
next
  case (Suc m)
  then have p: "ae_parent r \<noteq> None" using assms(2) by (auto elim: level_SucE)
  have r: "r \<in> set els" by (rule level_row [OF assms(2)])
  have "filter (\<lambda>x. ae_id x \<in> set [ae_id r] \<and> ae_tenant x = ae_tenant r) els =
      filter (\<lambda>x. ae_tenant x = ae_tenant r \<and> Some (ae_id x) = Some (ae_id r)) els"
    by (rule filter_cong) auto
  then have "filter (\<lambda>x. ae_id x \<in> set [ae_id r] \<and> ae_tenant x = ae_tenant r) els = [r]"
    unfolding filter_unique_id [OF assms(1) r refl] .
  then have base: "level_base (ae_tenant r) [ae_id r] els = [(ae_id r, ae_id r, ae_parent r, 0)]" by (simp add: level_base_def)
  obtain rows' where rows': "cte_rows (level_step (ae_tenant r) els) [(ae_id r, ae_id r, ae_parent r, 0)] [(ae_id r, ae_id r, ae_parent r, 0)] =
      Some ([(ae_id r, ae_id r, ae_parent r, 0)] @ rows')" "map (\<lambda>(s, _, _, d). (s, d)) rows' = map (\<lambda>i. (ae_id r, 0 + Suc i)) [0..<n]"
    using level_query [OF assms] by blast
  have "max_depth ([(ae_id r, ae_id r, ae_parent r, 0)] @ rows') (ae_id r) = n"
    using max_depth_upto [of rows' "ae_id r" n] rows'(2) by simp
  then show ?thesis using p rows'(1) by (auto simp: get_level_def annotate_levels_def base)
qed

lemma level_unique: "unique_ids els \<Longrightarrow> level_is els r n \<Longrightarrow> level_is els r m \<Longrightarrow> m = n"
  using get_level_correct by (metis option.inject)

declare resolve_level.simps [simp del]

definition cache_ok :: "arch_row list \<Rightarrow> (uuid \<times> nat) list \<Rightarrow> bool" where
  "cache_ok els lc \<longleftrightarrow> (\<forall>e l. map_of lc e = Some l \<longrightarrow> (\<exists>r. ae_id r = e \<and> level_is els r l))"

lemma cache_hit: "unique_ids els \<Longrightarrow> cache_ok els lc \<Longrightarrow> level_is els r n \<Longrightarrow> map_of lc (ae_id r) = Some l \<Longrightarrow> l = n"
  unfolding cache_ok_def by (metis level_row level_unique unique_row)

lemma find_own_row:
  assumes "unique_ids els" "set elements \<subseteq> set els" "r \<in> set els" "ae_id r \<in> set (map ae_id elements)"
  shows "find (\<lambda>x. ae_id x = ae_id r) elements = Some r"
proof -
  obtain q where q: "find (\<lambda>x. ae_id x = ae_id r) elements = Some q" using assms(4) by (fastforce simp: find_None_iff)
  then have "q \<in> set elements" "ae_id q = ae_id r" by (auto simp: find_Some_iff)
  then show ?thesis using q unique_row assms by (metis subsetD)
qed

lemma resolve_level_sound:
  assumes "unique_ids els" "set elements \<subseteq> set els" "cache_ok els lc" "level_is els r n"
    and "resolve_level (\<lambda>e. map_option ae_parent (find (\<lambda>x. ae_id x = e) elements)) (map ae_id elements) lc seen depth (ae_id r) = Some v"
  shows "v = depth + n"
  using assms(4,5)
proof (induction arbitrary: seen depth rule: level_is.induct)
  case (root r)
  show ?case
  proof (cases "map_of lc (ae_id r)")
    case None
    then show ?thesis using root find_own_row [OF assms(1,2) root(1)]
      by (subst (asm) resolve_level.simps) (auto split: if_splits)
  next
    case (Some l)
    then show ?thesis using root(3) cache_hit [OF assms(1,3) level_is.root [OF root(1,2)]] by (subst (asm) resolve_level.simps) simp
  qed
next
  case (child r q n)
  show ?case
  proof (cases "map_of lc (ae_id r)")
    case None
    then show ?thesis using child.prems child.IH [of "ae_id r # seen" "depth + 1"] find_own_row [OF assms(1,2) child(1)] child(2)
      by (subst (asm) resolve_level.simps) (auto split: if_splits)
  next
    case (Some l)
    then show ?thesis using child.prems cache_hit [OF assms(1,3) level_is.child [OF child(1-4)]] by (subst (asm) resolve_level.simps) simp
  qed
qed

lemma annotate_one_ok:
  assumes "acyclic (up els)" "unique_ids els" "\<forall>r\<in>set els. linked els r" "set elements \<subseteq> set els" "cache_ok els lc" "r \<in> set els"
  shows "\<exists>l. annotate_one elements els r lc = Some ((ae_id r, l) # lc) \<and> cache_ok els ((ae_id r, l) # lc)"
proof -
  obtain n where n: "level_is els r n" using level_exists [OF assms(1,3,6)] by blast
  then have "cache_ok els ((ae_id r, n) # lc)" using assms(5) by (auto simp: cache_ok_def)
  then show ?thesis
    using resolve_level_sound [OF assms(2,4,5) n] get_level_correct [OF assms(2) n] by (fastforce simp: annotate_one_def split: option.splits)
qed

lemma annotate_each_ok:
  assumes "acyclic (up els)" "unique_ids els" "\<forall>r\<in>set els. linked els r" "set elements \<subseteq> set els" "cache_ok els lc" "set rs \<subseteq> set els"
  shows "\<exists>lc'. annotate_each elements els rs lc = Some lc' \<and> cache_ok els lc' \<and> dom (map_of lc') = dom (map_of lc) \<union> ae_id ` set rs"
  using assms(5,6)
proof (induction rs arbitrary: lc)
  case (Cons r rs)
  obtain l where l: "annotate_one elements els r lc = Some ((ae_id r, l) # lc)" "cache_ok els ((ae_id r, l) # lc)"
    using annotate_one_ok [OF assms(1-4) Cons.prems(1)] Cons.prems(2) by auto
  from Cons.IH [OF l(2)] Cons.prems(2) show ?case by (auto simp: l(1))
qed simp

end
