(* ===== verification/Architecture_Tree.thy ===== *)
theory Architecture_Tree
  imports Architecture_Elements
begin

text \<open>
  What the invariants of the element service guarantee over sequences of operations, which concurrent moves they cover, and
  where the tree can still be broken.
\<close>

subsection \<open>Consistent tables\<close>

definition rigorous :: "string option \<Rightarrow> bool" where
  "rigorous tier \<longleftrightarrow> tier \<noteq> None \<and> tier \<noteq> Some ''minimal''"

definition ws_rows :: "uuid \<Rightarrow> arch_row list \<Rightarrow> arch_row list" where
  "ws_rows ws els = filter (\<lambda>r. ae_workspace r = ws) els"

definition live_root :: "arch_row \<Rightarrow> bool" where
  "live_root r \<longleftrightarrow> ae_parent r = None \<and> \<not> ae_outdated r"

definition one_root :: "arch_row list \<Rightarrow> bool" where
  "one_root els \<longleftrightarrow> (\<forall>r\<in>set els. \<forall>q\<in>set els. live_root r \<longrightarrow> live_root q \<longrightarrow>
     ae_tenant r = ae_tenant q \<longrightarrow> ae_workspace r = ae_workspace q \<longrightarrow> ae_id r = ae_id q)"

definition arch_ok :: "(uuid \<Rightarrow> string option) \<Rightarrow> arch_row list \<Rightarrow> bool" where
  "arch_ok tier els \<longleftrightarrow> unique_ids els \<and> (\<forall>r\<in>set els. linked els r) \<and> one_root els \<and>
     (\<forall>ws. rigorous (tier ws) \<longrightarrow> acyclic (up (ws_rows ws els)))"

lemma enabled_default:
  assumes "av_override env = None"
  shows "''I3'' \<in> set (for_workspace env (Some ws))" "''I5'' \<in> set (for_workspace env (Some ws))"
    "rigorous (av_tier env ws) \<Longrightarrow> ''I1'' \<in> set (for_workspace env (Some ws)) \<and> ''I2'' \<in> set (for_workspace env (Some ws))"
  using assms
  by (auto simp: for_workspace_def for_tier_def get_rigor_invariant_presets_def RIGOR_INVARIANT_PRESETS_def Let_def rigorous_def
      split: option.splits if_splits)

text \<open>An accepted parent: what the checks have established.\<close>

lemma accepted_parent:
  assumes "validate_parent_assignment enabled tenant els (Some p) element element_id (Some ws) = Inr u" "''I3'' \<in> set enabled"
  shows "\<exists>q. get_element tenant els p = Some q \<and> ae_workspace q = ws \<and>
    (''I1'' \<in> set enabled \<longrightarrow> \<not> chain_repeats tenant els (case (case element_id of Some e \<Rightarrow> Some e | None \<Rightarrow> map_option ae_id element) of None \<Rightarrow> [] | Some e \<Rightarrow> [e]) (Some p)) \<and>
    (''I2'' \<in> set enabled \<longrightarrow> (\<forall>e. element = Some e \<longrightarrow> (\<exists>pl cl. get_level q els = Some pl \<and> get_level e els = Some cl \<and> pl < cl)))"
proof -
  let ?eff = "case element_id of Some e \<Rightarrow> Some e | None \<Rightarrow> map_option ae_id element"
  obtain parent where i3: "check_i3 enabled tenant els (Some p) (Some ws) = Inr parent"
    and i1: "check_i1 enabled tenant els ?eff (Some p) = Inr ()" and i2: "check_i2 enabled els element parent = Inr ()"
    using assms(1) unfolding validate_parent_assignment_def Let_def by (simp, blast)
  obtain q where q: "get_element tenant els p = Some q" "parent = Some q" "ae_workspace q = ws"
    using i3 assms(2) by (auto simp: check_i3_def Let_def split: option.splits if_splits)
  have "\<exists>pl cl. get_level q els = Some pl \<and> get_level e els = Some cl \<and> pl < cl" if "''I2'' \<in> set enabled" "element = Some e" for e
    using i2 that q(2) unfolding check_i2_def by (auto simp: not_le split: option.splits)
  then show ?thesis using q i1 unfolding check_i1_def by auto
qed

lemma accepted_root:
  assumes "validate_parent_assignment enabled tenant els None element element_id (Some ws) = Inr u" "''I5'' \<in> set enabled"
    and "r \<in> set els" "live_root r" "ae_tenant r = tenant" "ae_workspace r = ws"
  shows "(case element_id of Some e \<Rightarrow> Some e | None \<Rightarrow> map_option ae_id element) = Some (ae_id r)"
  using assms
  by (auto simp: validate_parent_assignment_def check_i5_def get_existing_root_def live_root_def find_None_iff Let_def split: option.splits)

subsection \<open>Creation\<close>

lemma linked_append: "linked els r \<Longrightarrow> linked (els @ xs) r"
  by (auto simp: linked_def split: option.splits)

lemma up_append: "up (els @ [r]) = up els \<union> (case ae_parent r of None \<Rightarrow> {} | Some p \<Rightarrow> {(ae_id r, p)})"
  by (auto simp: up_def split: option.splits)

lemma up_mono: "set a \<subseteq> set b \<Longrightarrow> up a \<subseteq> up b"
  by (auto simp: up_def)

lemma up_targets:
  assumes "\<forall>r\<in>set els. linked els r" "(x, y) \<in> up els"
  shows "y \<in> ae_id ` set els"
  using assms unfolding up_def linked_def by (fastforce simp: list_ex_iff)

lemma one_rootI:
  "(\<And>r q. r \<in> set els \<Longrightarrow> q \<in> set els \<Longrightarrow> live_root r \<Longrightarrow> live_root q \<Longrightarrow> ae_tenant r = ae_tenant q \<Longrightarrow>
     ae_workspace r = ae_workspace q \<Longrightarrow> ae_id r = ae_id q) \<Longrightarrow> one_root els"
  unfolding one_root_def by (intro ballI impI)

lemma one_rootD:
  "one_root els \<Longrightarrow> r \<in> set els \<Longrightarrow> q \<in> set els \<Longrightarrow> live_root r \<Longrightarrow> live_root q \<Longrightarrow> ae_tenant r = ae_tenant q \<Longrightarrow>
     ae_workspace r = ae_workspace q \<Longrightarrow> ae_id r = ae_id q"
  unfolding one_root_def by blast

lemma one_root_append:
  assumes "one_root els"
    and "\<And>x. x \<in> set els \<Longrightarrow> live_root r \<Longrightarrow> live_root x \<Longrightarrow> ae_tenant x = ae_tenant r \<Longrightarrow> ae_workspace x \<noteq> ae_workspace r"
  shows "one_root (els @ [r])"
proof (rule one_rootI)
  fix a b
  assume "a \<in> set (els @ [r])" "b \<in> set (els @ [r])" "live_root a" "live_root b" "ae_tenant a = ae_tenant b" "ae_workspace a = ae_workspace b"
  then show "ae_id a = ae_id b"
    using one_rootD [OF assms(1), of a b] assms(2) [of a] assms(2) [of b] by (cases "a = r"; cases "b = r") simp_all
qed

lemma create_row:
  assumes "create_architecture_element env new_id new_artifact local_uid ws title description ty parent asil mob uid db = Inr (r, db')"
  shows "ad_elements db' = ad_elements db @ [r]" "ae_id r = new_id" "ae_tenant r = av_tenant env" "ae_workspace r = ws" "ae_parent r = parent"
    "ae_artifact_parent r = parent_artifact_id (av_tenant env) (ad_elements db) parent"
    "validate_parent_assignment (for_workspace env (Some ws)) (av_tenant env) (ad_elements db) parent None None (Some ws) = Inr ()"
  using assms by (auto simp: create_architecture_element_def Let_def)

lemma create_keeps:
  assumes ok: "arch_ok (av_tier env) (ad_elements db)" and ov: "av_override env = None" and fresh: "new_id \<notin> ae_id ` set (ad_elements db)"
    and c: "create_architecture_element env new_id new_artifact local_uid ws title description ty parent asil mob uid db = Inr (r, db')"
  shows "arch_ok (av_tier env) (ad_elements db')"
proof -
  note row = create_row [OF c]
  let ?els = "ad_elements db"
  have u: "unique_ids ?els" and l: "\<forall>r\<in>set ?els. linked ?els r" and o: "one_root ?els" using ok by (auto simp: arch_ok_def)
  have "linked (?els @ [r]) r"
  proof (cases parent)
    case None
    then show ?thesis by (simp add: linked_def row parent_artifact_id_def)
  next
    case (Some p)
    then obtain q where q: "get_element (av_tenant env) ?els p = Some q" "ae_workspace q = ws"
      using accepted_parent [OF row(7) [unfolded Some] enabled_default(1) [OF ov]] by blast
    then show ?thesis using get_element_Some [OF q(1)] Some by (simp add: linked_def row parent_artifact_id_def list_ex_iff) blast
  qed
  then have links: "\<forall>x\<in>set (?els @ [r]). linked (?els @ [r]) x" using l linked_append by auto
  have roots: "one_root (?els @ [r])"
  proof (rule one_root_append [OF o])
    fix x
    assume x: "x \<in> set ?els" "live_root r" "live_root x" "ae_tenant x = ae_tenant r"
    then have "parent = None" by (simp add: live_root_def row)
    then show "ae_workspace x \<noteq> ae_workspace r"
      using accepted_root [OF row(7) [unfolded \<open>parent = None\<close>] enabled_default(2) [OF ov] x(1,3)] x(4) by (auto simp: row)
  qed
  have "acyclic (up (ws_rows w (?els @ [r])))" if w: "rigorous (av_tier env w)" for w
  proof (cases "ae_parent r = None \<or> w \<noteq> ws")
    case True
    then have "up (ws_rows w (?els @ [r])) = up (ws_rows w ?els)" by (auto simp: ws_rows_def up_append row split: option.splits)
    then show ?thesis using ok w by (simp add: arch_ok_def)
  next
    case False
    then obtain p where p: "parent = Some p" "w = ws" by (auto simp: row)
    have ws: "ws_rows w (?els @ [r]) = ws_rows w ?els @ [r]" by (simp add: ws_rows_def row p)
    have "up (ws_rows w ?els) \<subseteq> up ?els" by (rule up_mono) (auto simp: ws_rows_def)
    moreover have "(p, new_id) \<notin> (up ?els)\<^sup>*"
    proof
      assume "(p, new_id) \<in> (up ?els)\<^sup>*"
      moreover obtain q where "get_element (av_tenant env) ?els p = Some q" using accepted_parent [OF row(7) [unfolded p(1)] enabled_default(1) [OF ov]] by blast
      then have "p \<noteq> new_id" using fresh get_element_Some by blast
      ultimately show False using up_targets [OF l] fresh by (metis rtranclE)
    qed
    ultimately have "(p, new_id) \<notin> (up (ws_rows w ?els))\<^sup>*" using rtrancl_mono by blast
    moreover have "acyclic (up (ws_rows w ?els))" using ok w by (simp add: arch_ok_def)
    moreover have "up (ws_rows w ?els @ [r]) = insert (new_id, p) (up (ws_rows w ?els))" by (simp add: up_append row p)
    ultimately show ?thesis unfolding ws by (simp add: acyclic_insert)
  qed
  moreover have "unique_ids (?els @ [r])" using u fresh by (simp add: unique_ids_def row)
  ultimately show ?thesis unfolding arch_ok_def row(1) using links roots by blast
qed

subsection \<open>Changes of rows\<close>

text \<open>Operations that replace rows keep what others refer to.\<close>

definition keeps_identity :: "(arch_row \<Rightarrow> arch_row) \<Rightarrow> bool" where
  "keeps_identity f \<longleftrightarrow> (\<forall>r. ae_id (f r) = ae_id r \<and> ae_tenant (f r) = ae_tenant r \<and> ae_workspace (f r) = ae_workspace r \<and>
     ae_artifact (f r) = ae_artifact r)"

lemma keeps_fields:
  assumes "keeps_identity f"
  shows "ae_id (f r) = ae_id r" "ae_tenant (f r) = ae_tenant r" "ae_workspace (f r) = ae_workspace r" "ae_artifact (f r) = ae_artifact r"
  using assms unfolding keeps_identity_def by blast+

lemma unique_map: "keeps_identity f \<Longrightarrow> unique_ids (map f els) = unique_ids els"
  by (simp add: unique_ids_def comp_def keeps_fields)

lemma linked_map: "keeps_identity f \<Longrightarrow> linked (map f els) r = linked els r"
  by (simp add: linked_def list.pred_map list_ex_iff keeps_fields split: option.splits)

lemma ws_rows_map: "keeps_identity f \<Longrightarrow> ws_rows ws (map f els) = map f (ws_rows ws els)"
  by (simp add: ws_rows_def filter_map comp_def keeps_fields)

lemma linked_cong: "ae_parent r = ae_parent q \<Longrightarrow> ae_artifact_parent r = ae_artifact_parent q \<Longrightarrow> ae_tenant r = ae_tenant q \<Longrightarrow>
  ae_workspace r = ae_workspace q \<Longrightarrow> linked els r = linked els q"
  by (simp add: linked_def split: option.split)

definition move_row :: "uuid \<Rightarrow> arch_row \<Rightarrow> arch_row \<Rightarrow> arch_row" where
  "move_row e r' x = (if ae_id x = e then r' else x)"

lemma commit_rows:
  assumes "commit_update env e pr db = Inr (r', db')"
  shows "\<exists>r. r \<in> set (ad_elements db) \<and> ae_id r = e \<and> ae_tenant r = av_tenant env \<and> ae_version r = pr_version pr \<and>
    r' = (apply_patch (pr_patch pr) r)\<lparr>ae_version := Suc (ae_version r), ae_artifact_parent := or_else (pr_artifact_parent pr) (ae_artifact_parent r)\<rparr> \<and>
    ad_elements db' = map (move_row e r') (ad_elements db)"
proof -
  obtain r where r: "find (\<lambda>r. ae_id r = e \<and> ae_tenant r = av_tenant env \<and> ae_version r = pr_version pr) (ad_elements db) = Some r"
    using assms by (auto simp: commit_update_def split: option.splits)
  then have "r \<in> set (ad_elements db) \<and> ae_id r = e \<and> ae_tenant r = av_tenant env \<and> ae_version r = pr_version pr"
    by (auto simp: find_Some_iff)
  with assms show ?thesis unfolding commit_update_def r option.case Let_def move_row_def [abs_def]
    by (intro exI [of _ r]) auto
qed

lemma patched_fields [simp]:
  "ae_id (apply_patch p r) = ae_id r" "ae_tenant (apply_patch p r) = ae_tenant r" "ae_workspace (apply_patch p r) = ae_workspace r"
  "ae_artifact (apply_patch p r) = ae_artifact r" "ae_outdated (apply_patch p r) = ae_outdated r"
  "ae_parent (apply_patch p r) = or_else (pa_parent p) (ae_parent r)" "ae_artifact_parent (apply_patch p r) = ae_artifact_parent r"
  by (simp_all add: apply_patch_def)

lemma prepare_facts:
  assumes "prepare_update env e expected patch db = Inr pr"
  shows "\<exists>r. get_element (av_tenant env) (ad_elements db) e = Some r \<and> pr_patch pr = patch \<and>
    pr_version pr = (case expected of Some v \<Rightarrow> v | None \<Rightarrow> ae_version r) \<and>
    pr_artifact_parent pr = map_option (parent_artifact_id (av_tenant env) (ad_elements db)) (pa_parent patch) \<and>
    (\<forall>parent. pa_parent patch = Some parent \<longrightarrow>
       validate_parent_assignment (for_workspace env (Some (ae_workspace r))) (av_tenant env) (ad_elements db) parent (Some r) (Some e) (Some (ae_workspace r)) = Inr ())"
  using assms unfolding prepare_update_def by (auto split: option.splits)

lemma keeps_move:
  assumes "unique_ids els" "r \<in> set els" "ae_id r = e" "ae_id r' = ae_id r" "ae_tenant r' = ae_tenant r" "ae_workspace r' = ae_workspace r"
    "ae_artifact r' = ae_artifact r"
  shows "unique_ids (map (move_row e r') els)" "linked (map (move_row e r') els) x = linked els x"
    "ws_rows ws (map (move_row e r') els) = map (move_row e r') (ws_rows ws els)"
proof -
  define f where "f x = (if x \<in> set els then move_row e r' x else x)" for x
  have "ae_id (f x) = ae_id x \<and> ae_tenant (f x) = ae_tenant x \<and> ae_workspace (f x) = ae_workspace x \<and> ae_artifact (f x) = ae_artifact x" for x
    using unique_row [OF assms(1,2), of x] assms(3-7) by (auto simp: f_def move_row_def)
  then have k: "keeps_identity f" by (simp add: keeps_identity_def)
  have m: "map (move_row e r') els = map f els" "map (move_row e r') (ws_rows ws els) = map f (ws_rows ws els)" by (auto simp: f_def ws_rows_def)
  show "unique_ids (map (move_row e r') els)" "linked (map (move_row e r') els) x = linked els x"
    "ws_rows ws (map (move_row e r') els) = map (move_row e r') (ws_rows ws els)"
    unfolding m using k assms(1) by (simp_all add: unique_map linked_map ws_rows_map)
qed

lemma up_move:
  assumes "ae_id r' = e"
  shows "up (map (move_row e r') els) \<subseteq> (case ae_parent r' of None \<Rightarrow> {} | Some p \<Rightarrow> {(e, p)}) \<union> up els"
  using assms by (auto simp: up_def move_row_def split: if_splits)

lemma moved_row:
  assumes "x' \<in> set (map (move_row e r') els)"
  shows "x' = r' \<or> (x' \<in> set els \<and> ae_id x' \<noteq> e)"
  using assms by (auto simp: move_row_def)

lemma one_root_move:
  assumes "one_root els" "r \<in> set els" "ae_id r = e" "ae_id r' = e" "ae_tenant r' = ae_tenant r" "ae_workspace r' = ae_workspace r"
    and "live_root r' \<Longrightarrow> live_root r \<or> (\<forall>x\<in>set els. live_root x \<longrightarrow> ae_tenant x = ae_tenant r \<longrightarrow> ae_workspace x = ae_workspace r \<longrightarrow> ae_id x = e)"
  shows "one_root (map (move_row e r') els)"
proof (rule one_rootI)
  fix a b
  assume ab: "a \<in> set (map (move_row e r') els)" "b \<in> set (map (move_row e r') els)" "live_root a" "live_root b"
    "ae_tenant a = ae_tenant b" "ae_workspace a = ae_workspace b"
  have other: "ae_id x = e" if "x \<in> set els" "live_root x" "live_root r'" "ae_tenant x = ae_tenant r" "ae_workspace x = ae_workspace r" for x
    using assms(7) [OF that(3)] one_rootD [OF assms(1) that(1) assms(2) that(2) _ that(4,5)] assms(3) that by blast
  show "ae_id a = ae_id b"
    using moved_row [OF ab(1)] moved_row [OF ab(2)] one_rootD [OF assms(1) _ _ ab(3-6)] other [of a] other [of b] ab(3-6) assms(4-6) by metis
qed

lemma update_keeps:
  assumes ok: "arch_ok (av_tier env) (ad_elements db)" and ov: "av_override env = None"
    and up: "update_architecture_element env e expected patch db = Inr (r', db')"
  shows "arch_ok (av_tier env) (ad_elements db')"
proof -
  let ?els = "ad_elements db"
  have u: "unique_ids ?els" and l: "\<forall>r\<in>set ?els. linked ?els r" and o: "one_root ?els" using ok by (auto simp: arch_ok_def)
  obtain pr where pr: "prepare_update env e expected patch db = Inr pr" "commit_update env e pr db = Inr (r', db')"
    using up by (auto simp: update_architecture_element_def)
  obtain r where r: "get_element (av_tenant env) ?els e = Some r" "pr_patch pr = patch"
    "pr_artifact_parent pr = map_option (parent_artifact_id (av_tenant env) ?els) (pa_parent patch)"
    and val: "\<And>parent. pa_parent patch = Some parent \<Longrightarrow>
       validate_parent_assignment (for_workspace env (Some (ae_workspace r))) (av_tenant env) ?els parent (Some r) (Some e) (Some (ae_workspace r)) = Inr ()"
    using prepare_facts [OF pr(1)] by blast
  note re = get_element_Some [OF r(1)]
  have r': "r' = (apply_patch patch r)\<lparr>ae_version := Suc (ae_version r), ae_artifact_parent := or_else (pr_artifact_parent pr) (ae_artifact_parent r)\<rparr>"
    and els': "ad_elements db' = map (move_row e r') ?els"
    using commit_rows [OF pr(2)] unique_row [OF u] re r(2) by metis+
  have f: "ae_id r' = ae_id r" "ae_tenant r' = ae_tenant r" "ae_workspace r' = ae_workspace r" "ae_artifact r' = ae_artifact r"
    "ae_outdated r' = ae_outdated r" "ae_parent r' = or_else (pa_parent patch) (ae_parent r)"
    "ae_artifact_parent r' = or_else (pr_artifact_parent pr) (ae_artifact_parent r)"
    by (simp_all add: r')
  note move = keeps_move [OF u, of r e r'] 
  have new: "\<exists>q. get_element (av_tenant env) ?els p = Some q \<and> ae_workspace q = ae_workspace r \<and>
      (rigorous (av_tier env (ae_workspace r)) \<longrightarrow> (p, e) \<notin> (up ?els)\<^sup>*)" if p: "pa_parent patch = Some (Some p)" for p
  proof -
    obtain q where q: "get_element (av_tenant env) ?els p = Some q" "ae_workspace q = ae_workspace r"
      "''I1'' \<in> set (for_workspace env (Some (ae_workspace r))) \<longrightarrow> \<not> chain_repeats (av_tenant env) ?els [e] (Some p)"
      using accepted_parent [OF val [OF p] enabled_default(1) [OF ov]] by auto
    have "\<forall>x\<in>set ?els. ae_id x = p \<longrightarrow> ae_tenant x = av_tenant env" using get_element_Some [OF q(1)] unique_row [OF u] by metis
    then show ?thesis using q chain_repeats_sound [OF u l, of "av_tenant env" "[e]" p] enabled_default(3) [OF ov] by auto
  qed
  have lr': "linked ?els r'"
  proof (cases "pa_parent patch")
    case None
    then have "linked ?els r' = linked ?els r" by (intro linked_cong) (simp_all add: f r(3) or_else_def)
    then show ?thesis using l re by blast
  next
    case (Some parent)
    show ?thesis
    proof (cases parent)
      case None
      then show ?thesis using Some by (simp add: linked_def f r(3) or_else_def parent_artifact_id_def)
    next
      case (Some p)
      then obtain q where "get_element (av_tenant env) ?els p = Some q" "ae_workspace q = ae_workspace r"
        using new [of p] \<open>pa_parent patch = Some parent\<close> by auto
      then show ?thesis using get_element_Some [of "av_tenant env" ?els p q] re \<open>pa_parent patch = Some parent\<close> Some
        by (auto simp: linked_def f r(3) or_else_def parent_artifact_id_def list_ex_iff)
    qed
  qed
  have "linked (ad_elements db') x" if x: "x \<in> set (ad_elements db')" for x
    using moved_row [OF x [unfolded els']] lr' l move(2) f re unfolding els' by metis
  moreover have "unique_ids (ad_elements db')" unfolding els' using move(1) f re by blast
  moreover have "one_root (ad_elements db')" unfolding els'
  proof (rule one_root_move [OF o])
    assume live: "live_root r'"
    show "live_root r \<or> (\<forall>x\<in>set ?els. live_root x \<longrightarrow> ae_tenant x = ae_tenant r \<longrightarrow> ae_workspace x = ae_workspace r \<longrightarrow> ae_id x = e)"
    proof (cases "pa_parent patch")
      case None
      then show ?thesis using live by (simp add: live_root_def f or_else_def)
    next
      case (Some parent)
      then have "parent = None" using live by (simp add: live_root_def f or_else_def)
      then show ?thesis using accepted_root [OF val [OF Some, unfolded \<open>parent = None\<close>] enabled_default(2) [OF ov]] re by auto
    qed
  qed (use re f in auto)
  moreover have "acyclic (up (ws_rows w (ad_elements db')))" if w: "rigorous (av_tier env w)" for w
  proof -
    have a: "acyclic (up (ws_rows w ?els))" using ok w by (simp add: arch_ok_def)
    have rows: "ws_rows w (ad_elements db') = map (move_row e r') (ws_rows w ?els)" unfolding els' using move(3) f re by blast
    have own: "x = r" if "x \<in> set (ws_rows w ?els)" "ae_id x = e" for x using that unique_row [OF u] re by (auto simp: ws_rows_def)
    show ?thesis
    proof (cases "\<exists>p. pa_parent patch = Some (Some p) \<and> w = ae_workspace r")
      case True
      then obtain p where p: "pa_parent patch = Some (Some p)" "w = ae_workspace r" by blast
      then have "(p, e) \<notin> (up ?els)\<^sup>*" using new [OF p(1)] w by blast
      moreover have "up (ws_rows w ?els) \<subseteq> up ?els" by (rule up_mono) (auto simp: ws_rows_def)
      ultimately have "(p, e) \<notin> (up (ws_rows w ?els))\<^sup>*" using rtrancl_mono by blast
      moreover have "up (map (move_row e r') (ws_rows w ?els)) \<subseteq> insert (e, p) (up (ws_rows w ?els))"
        using up_move [of r' e "ws_rows w ?els"] f(1,6) p(1) re by (simp add: or_else_def)
      ultimately show ?thesis unfolding rows by (rule acyclic_new_parent [OF a])
    next
      case False
      have "up (map (move_row e r') (ws_rows w ?els)) \<subseteq> up (ws_rows w ?els)"
      proof
        fix z
        assume "z \<in> up (map (move_row e r') (ws_rows w ?els))"
        then obtain x y where x: "x \<in> set (ws_rows w ?els)" "z = (ae_id (move_row e r' x), y)" "ae_parent (move_row e r' x) = Some y"
          by (auto simp: up_def)
        show "z \<in> up (ws_rows w ?els)"
        proof (cases "ae_id x = e")
          case True
          then have "x = r" "w = ae_workspace r" using own x(1) by (auto simp: ws_rows_def)
          then have "pa_parent patch = None" using False x(3) True by (auto simp: move_row_def f or_else_def split: option.splits)
          then show ?thesis using x \<open>x = r\<close> True f by (auto simp: move_row_def or_else_def up_def)
        next
          case False
          then show ?thesis using x by (auto simp: move_row_def up_def)
        qed
      qed
      then show ?thesis unfolding rows using a acyclic_subset by blast
    qed
  qed
  ultimately show ?thesis unfolding arch_ok_def by blast
qed

lemma up_map_parent: "(\<And>r. ae_id (f r) = ae_id r \<and> ae_parent (f r) = ae_parent r) \<Longrightarrow> up (map f els) = up els"
  by (auto simp: up_def) (metis imageI)

lemma delete_keeps:
  assumes ok: "arch_ok tier (ad_elements db)" and d: "delete_architecture_element env e db = Inr (u, db')"
  shows "arch_ok tier (ad_elements db')"
proof -
  let ?f = "\<lambda>x. if ae_id x = e then x\<lparr>ae_outdated := True\<rparr> else x"
  have els: "ad_elements db' = map ?f (ad_elements db)" using d by (auto simp: delete_architecture_element_def split: option.splits)
  have k: "keeps_identity ?f" by (simp add: keeps_identity_def)
  have p: "ae_id (?f r) = ae_id r \<and> ae_parent (?f r) = ae_parent r" for r by simp
  have l: "linked (map ?f (ad_elements db)) (?f r) = linked (ad_elements db) r" for r
    unfolding linked_map [OF k] by (rule linked_cong) simp_all
  have "\<forall>x\<in>set (ad_elements db'). linked (ad_elements db') x"
    using ok unfolding els set_map ball_simps l arch_ok_def by blast
  moreover have "one_root (ad_elements db')"
  proof (rule one_rootI)
    fix a b
    assume ab: "a \<in> set (ad_elements db')" "b \<in> set (ad_elements db')" "live_root a" "live_root b" "ae_tenant a = ae_tenant b" "ae_workspace a = ae_workspace b"
    have "x \<in> set (ad_elements db)" if "x \<in> set (ad_elements db')" "live_root x" for x
      using that unfolding els by (auto simp: live_root_def)
    then have "a \<in> set (ad_elements db)" "b \<in> set (ad_elements db)" using ab(1-4) by blast+
    then show "ae_id a = ae_id b" using one_rootD [OF _ _ _ ab(3-6)] ok unfolding arch_ok_def by metis
  qed
  moreover have "up (ws_rows w (ad_elements db')) = up (ws_rows w (ad_elements db))" for w
    unfolding els ws_rows_map [OF k] by (rule up_map_parent [OF p])
  moreover have "unique_ids (ad_elements db')" unfolding els using ok k by (simp add: unique_map arch_ok_def)
  ultimately show ?thesis using ok by (simp add: arch_ok_def)
qed

subsection \<open>Sequences of operations\<close>

text \<open>Tables reached from an empty one while the preset tiers of the workspaces stay as they are; new identifiers are unused.\<close>

inductive arch_reachable :: "(uuid \<Rightarrow> string option) \<Rightarrow> arch_db \<Rightarrow> bool" for tier where
  empty: "ad_elements db = [] \<Longrightarrow> arch_reachable tier db"
| create: "arch_reachable tier db \<Longrightarrow> av_tier env = tier \<Longrightarrow> av_override env = None \<Longrightarrow> new_id \<notin> ae_id ` set (ad_elements db) \<Longrightarrow>
    create_architecture_element env new_id new_artifact local_uid ws title description ty parent asil mob uid db = Inr (r, db') \<Longrightarrow>
    arch_reachable tier db'"
| update: "arch_reachable tier db \<Longrightarrow> av_tier env = tier \<Longrightarrow> av_override env = None \<Longrightarrow>
    update_architecture_element env e expected patch db = Inr (r, db') \<Longrightarrow> arch_reachable tier db'"
| delete: "arch_reachable tier db \<Longrightarrow> delete_architecture_element env e db = Inr (u, db') \<Longrightarrow> arch_reachable tier db'"

lemma reachable_ok: "arch_reachable tier db \<Longrightarrow> arch_ok tier (ad_elements db)"
proof (induction rule: arch_reachable.induct)
  case (empty db)
  then show ?case by (simp add: arch_ok_def unique_ids_def one_root_def ws_rows_def up_def acyclic_def)
next
  case (create db env)
  then show ?case using create_keeps by blast
next
  case (update db env)
  then show ?case using update_keeps by blast
next
  case (delete db env)
  then show ?case using delete_keeps by blast
qed

text \<open>
  C16: the element tree stays a tree. After any sequence of creations, updates and deletions every parent lies in the tenant and
  workspace of its child and the artifact tree mirrors the element tree, a workspace has at most one live root, and in every
  workspace of the standard or extended tier the parent relation has no cycle.
\<close>

theorem architecture_tree_consistent:
  assumes "arch_reachable tier db"
  shows "distinct (map ae_id (ad_elements db)) \<and>
    (\<forall>r\<in>set (ad_elements db). \<forall>p. ae_parent r = Some p \<longrightarrow>
       (\<exists>q\<in>set (ad_elements db). ae_id q = p \<and> ae_tenant q = ae_tenant r \<and> ae_workspace q = ae_workspace r \<and>
          ae_artifact_parent r = Some (ae_artifact q))) \<and>
    one_root (ad_elements db) \<and> (\<forall>ws. rigorous (tier ws) \<longrightarrow> acyclic (up (ws_rows ws (ad_elements db))))"
proof -
  have ok: "arch_ok tier (ad_elements db)" by (rule reachable_ok [OF assms])
  have "\<exists>q\<in>set (ad_elements db). ae_id q = p \<and> ae_tenant q = ae_tenant r \<and> ae_workspace q = ae_workspace r \<and>
      ae_artifact_parent r = Some (ae_artifact q)" if r: "r \<in> set (ad_elements db)" and p: "ae_parent r = Some p" for r p
  proof -
    have "linked (ad_elements db) r" using ok r by (simp add: arch_ok_def)
    then show ?thesis by (simp add: linked_def p list_ex_iff)
  qed
  then show ?thesis using ok unfolding arch_ok_def unique_ids_def by blast
qed

subsection \<open>Concurrent moves\<close>

lemma acyclic_by_measure:
  fixes f :: "'a \<Rightarrow> nat"
  assumes "\<And>x p. (x, p) \<in> E \<Longrightarrow> f p < f x"
  shows "acyclic E"
proof -
  have "E\<inverse> \<subseteq> measure f" using assms by auto
  then have "wf (E\<inverse>)" using wf_subset wf_measure by blast
  then show ?thesis using wf_acyclic acyclic_converse by blast
qed

lemma path_in_workspace:
  assumes "unique_ids els" "\<forall>r\<in>set els. linked els r" "r \<in> set els" "(ae_id r, y) \<in> (up els)\<^sup>+"
  shows "(ae_id r, y) \<in> (up (ws_rows (ae_workspace r) els))\<^sup>+ \<and> (\<exists>q\<in>set els. ae_id q = y \<and> ae_workspace q = ae_workspace r)"
proof -
  have step: "(ae_id x, z) \<in> up (ws_rows (ae_workspace x) els) \<and> (\<exists>q\<in>set els. ae_id q = z \<and> ae_workspace q = ae_workspace x)"
    if x: "x \<in> set els" and z: "(ae_id x, z) \<in> up els" for x z
  proof -
    have "ae_parent x = Some z" by (rule up_next [OF assms(1) x z])
    then show ?thesis using assms(2) x by (fastforce simp: linked_def up_def ws_rows_def list_ex_iff)
  qed
  from assms(4) show ?thesis
  proof (induction rule: trancl_induct)
    case (base y)
    then show ?case using step [OF assms(3)] by blast
  next
    case (step y z)
    then obtain q where q: "q \<in> set els" "ae_id q = y" "ae_workspace q = ae_workspace r" by blast
    then show ?case using step \<open>\<And>x z. x \<in> set els \<Longrightarrow> (ae_id x, z) \<in> up els \<Longrightarrow> _\<close> by (metis trancl.trancl_into_trancl)
  qed
qed

lemma acyclic_everywhere:
  assumes "arch_ok tier els" "\<forall>ws. rigorous (tier ws)"
  shows "acyclic (up els)"
  unfolding acyclic_def
proof (intro allI notI)
  fix x
  assume x: "(x, x) \<in> (up els)\<^sup>+"
  then obtain y where "(x, y) \<in> up els" by (meson tranclD)
  then obtain r where "r \<in> set els" "ae_id r = x" unfolding up_def by blast
  then show False using path_in_workspace [of els r x] x assms unfolding arch_ok_def acyclic_def by blast
qed

fun commit_all :: "arch_env \<Rightarrow> (uuid \<times> prepared) list \<Rightarrow> arch_db \<Rightarrow> arch_error + arch_db" where
  "commit_all env [] db = Inr db"
| "commit_all env ((e, pr) # ms) db = res_bind (commit_update env e pr db) (\<lambda>(_, db1). commit_all env ms db1)"

definition ancestors :: "arch_row list \<Rightarrow> uuid \<Rightarrow> nat" where
  "ancestors els x = card {y. (x, y) \<in> (up els)\<^sup>+}"

lemma parent_has_fewer_ancestors:
  assumes "acyclic (up els)" "(x, p) \<in> up els"
  shows "ancestors els p < ancestors els x"
  unfolding ancestors_def
proof (rule psubset_card_mono)
  have "up els \<subseteq> (\<lambda>r. (ae_id r, the (ae_parent r))) ` set els" by (force simp: up_def)
  then have "finite ((up els)\<^sup>+)" using finite_surj finite_trancl by blast
  moreover have "{y. (x, y) \<in> (up els)\<^sup>+} \<subseteq> snd ` (up els)\<^sup>+" by force
  ultimately show "finite {y. (x, y) \<in> (up els)\<^sup>+}" using finite_surj by blast
  have "(p, p) \<notin> (up els)\<^sup>+" using assms(1) by (simp add: acyclic_def)
  then show "{y. (p, y) \<in> (up els)\<^sup>+} \<subset> {y. (x, y) \<in> (up els)\<^sup>+}"
    using assms(2) by (auto intro: trancl_into_trancl2)
qed

lemma prepared_move_descends:
  assumes "arch_ok (av_tier env) (ad_elements db)" "\<forall>ws. rigorous (av_tier env ws)" "av_override env = None"
    and "prepare_update env e expected patch db = Inr pr" "pa_parent (pr_patch pr) = Some (Some p)"
  shows "ancestors (ad_elements db) p < ancestors (ad_elements db) e"
proof -
  let ?els = "ad_elements db"
  have u: "unique_ids ?els" and l: "\<forall>r\<in>set ?els. linked ?els r" using assms(1) by (auto simp: arch_ok_def)
  have a: "acyclic (up ?els)" by (rule acyclic_everywhere [OF assms(1,2)])
  obtain r where r: "get_element (av_tenant env) ?els e = Some r"
    and val: "validate_parent_assignment (for_workspace env (Some (ae_workspace r))) (av_tenant env) ?els (Some p) (Some r) (Some e) (Some (ae_workspace r)) = Inr ()"
    using prepare_facts [OF assms(4)] assms(5) by auto
  obtain q pl cl where q: "get_element (av_tenant env) ?els p = Some q" "get_level q ?els = Some pl" "get_level r ?els = Some cl" "pl < cl"
    using accepted_parent [OF val enabled_default(1) [OF assms(3)]] enabled_default(3) [OF assms(3)] assms(2) by auto
  have lv: "get_level x ?els = Some (ancestors ?els (ae_id x))" if "x \<in> set ?els" for x
    using level_exists [OF a l that] get_level_correct [OF u] level_ancestors [OF a u] unfolding ancestors_def by metis
  show ?thesis using lv [of q] lv [of r] get_element_Some [OF q(1)] get_element_Some [OF r] q(2-4) by auto
qed

text \<open>
  C17: concurrent moves cannot close a cycle. Any number of updates that are validated against the same state of the tables and
  then written one after the other, in any order, leave the parent relation without a cycle when the level rule I2 is active,
  although each was checked for cycles without knowing of the others.
\<close>

theorem concurrent_moves_safe:
  assumes "arch_ok (av_tier env) (ad_elements db)" "\<forall>ws. rigorous (av_tier env ws)" "av_override env = None"
    and "\<forall>(e, pr)\<in>set ms. \<exists>expected patch. prepare_update env e expected patch db = Inr pr"
    and "commit_all env ms db = Inr db'"
  shows "acyclic (up (ad_elements db'))"
proof -
  let ?f = "ancestors (ad_elements db)"
  have "\<forall>(x, p)\<in>up (ad_elements db'). ?f p < ?f x"
    if "\<forall>(x, p)\<in>up (ad_elements d). ?f p < ?f x" "\<forall>(e, pr)\<in>set ms. \<exists>expected patch. prepare_update env e expected patch db = Inr pr"
      "commit_all env ms d = Inr db'" for d
    using that
  proof (induction ms arbitrary: d)
    case (Cons m ms)
    obtain e pr where m: "m = (e, pr)" by force
    obtain r' d1 where c: "commit_update env e pr d = Inr (r', d1)" "commit_all env ms d1 = Inr db'" using Cons.prems(3) m by auto
    obtain r where r: "r \<in> set (ad_elements d)" "ae_id r = e"
      "r' = (apply_patch (pr_patch pr) r)\<lparr>ae_version := Suc (ae_version r), ae_artifact_parent := or_else (pr_artifact_parent pr) (ae_artifact_parent r)\<rparr>"
      "ad_elements d1 = map (move_row e r') (ad_elements d)"
      using commit_rows [OF c(1)] by blast
    have "?f p < ?f e" if p: "ae_parent r' = Some p" for p
    proof (cases "pa_parent (pr_patch pr)")
      case None
      then have "(e, p) \<in> up (ad_elements d)" using p r by (auto simp: or_else_def up_def)
      then show ?thesis using Cons.prems(1) by blast
    next
      case (Some parent)
      then show ?thesis using p r(3) prepared_move_descends [OF assms(1-3)] Cons.prems(2) m by (fastforce simp: or_else_def)
    qed
    then have "\<forall>(x, p)\<in>up (ad_elements d1). ?f p < ?f x"
      using up_move [of r' e "ad_elements d"] r Cons.prems(1) by (fastforce split: option.splits)
    then show ?case using Cons.IH Cons.prems(2) c(2) by auto
  qed simp
  moreover have "\<forall>(x, p)\<in>up (ad_elements db). ?f p < ?f x"
    using parent_has_fewer_ancestors [OF acyclic_everywhere [OF assms(1,2)]] by blast
  ultimately have "\<forall>(x, p)\<in>up (ad_elements db'). ?f p < ?f x" using assms(4,5) by blast
  then show ?thesis by (intro acyclic_by_measure [where f = ?f]) blast
qed

subsection \<open>Where the tree still breaks\<close>

lemma level_stepI:
  assumes "r \<in> set els" "ae_tenant r = tenant" "(s, e, Some (ae_id r), d) \<in> set w"
  shows "(s, ae_id r, ae_parent r, d + 1) \<in> set (level_step tenant els w)"
proof -
  show ?thesis unfolding level_step_def set_concat set_map image_image
    by (rule UN_I [OF assms(3)]) (use assms(1,2) in auto)
qed

lemma level_query_hangs:
  assumes "a \<in> set els" "b \<in> set els" "ae_parent a = Some (ae_id b)" "ae_parent b = Some (ae_id a)" "ae_tenant b = ae_tenant a"
  shows "get_level a els = None"
proof -
  define on where "on w \<longleftrightarrow> (\<exists>s d. (s, ae_id a, ae_parent a, d) \<in> set w \<or> (s, ae_id b, ae_parent b, d) \<in> set w)" for w :: "level_row list"
  have step: "on (level_step (ae_tenant a) els w)" if "on w" for w
    using that level_stepI [OF assms(2,5)] level_stepI [OF assms(1) refl] unfolding on_def assms(3,4) by blast
  have "on (rounds (level_step (ae_tenant a) els) n w)" if "on w" for n w
    using that by (induction n arbitrary: w) (auto intro: step)
  moreover have base: "on (level_base (ae_tenant a) [ae_id a] els)" using assms(1) by (force simp: on_def level_base_def)
  ultimately have "rounds (level_step (ae_tenant a) els) n (level_base (ae_tenant a) [ae_id a] els) \<noteq> []" for n
    unfolding on_def by (metis empty_iff list.set(1))
  then have "cte_rows (level_step (ae_tenant a) els) (level_base (ae_tenant a) [ae_id a] els) rows = None" for rows
    using cte_rows_ends by (metis not_None_eq)
  then show ?thesis using assms(3) by (simp add: get_level_def annotate_levels_def)
qed

definition arch_start :: arch_db where
  "arch_start = \<lparr>ad_tenants = [''t''], ad_workspaces = [(''w'', ''t'')], ad_elements = [], ad_log = []\<rparr>"

definition arch_env_of :: "string \<Rightarrow> arch_env" where
  "arch_env_of tier = \<lparr>av_tenant = ''t'', av_writer = True, av_tier = (\<lambda>_. Some tier), av_override = None\<rparr>"

definition new_element :: "string \<Rightarrow> uuid \<Rightarrow> uuid option \<Rightarrow> arch_db \<Rightarrow> arch_error + (arch_row \<times> arch_db)" where
  "new_element tier e parent db =
     create_architecture_element (arch_env_of tier) e (''A-'' @ e) (''AE-'' @ e) ''w'' e [] [] parent None None None db"

definition no_patch :: arch_patch where
  "no_patch = \<lparr>pa_title = None, pa_description = None, pa_type = None, pa_asil = None, pa_make_or_buy = None, pa_uid = None, pa_parent = None\<rparr>"

definition move_to :: "string \<Rightarrow> uuid \<Rightarrow> uuid \<Rightarrow> arch_db \<Rightarrow> arch_error + (arch_row \<times> arch_db)" where
  "move_to tier e parent db = update_architecture_element (arch_env_of tier) e None (no_patch\<lparr>pa_parent := Some (Some parent)\<rparr>) db"

text \<open>The tables after the operations of a list, ignoring those that raise.\<close>

definition after :: "(arch_db \<Rightarrow> arch_error + (arch_row \<times> arch_db)) list \<Rightarrow> arch_db" where
  "after ops = fold (\<lambda>f db. case f db of Inl _ \<Rightarrow> db | Inr (_, db') \<Rightarrow> db') ops arch_start"

lemma after_reachable:
  assumes "\<forall>f\<in>set ops. (\<exists>e parent. f = move_to tier e parent) \<or> (\<exists>e parent. f = new_element tier e parent)"
    and "distinct (map ae_id (ad_elements (after ops)))"
  shows "arch_reachable (\<lambda>_. Some tier) (after ops)"
  using assms
proof (induction ops rule: rev_induct)
  case Nil
  then show ?case by (auto simp: after_def arch_start_def intro: arch_reachable.empty)
next
  case (snoc f ops)
  have last: "after (ops @ [f]) = (case f (after ops) of Inl _ \<Rightarrow> after ops | Inr (_, db') \<Rightarrow> db')" by (simp add: after_def split: sum.split)
  show ?case
  proof (cases "f (after ops)")
    case (Inl e)
    then show ?thesis using snoc last by simp
  next
    case (Inr rd)
    obtain r db' where rd: "rd = (r, db')" by force
    from snoc.prems(1) consider (m) e parent where "f = move_to tier e parent" | (n) e parent where "f = new_element tier e parent" by auto
    then show ?thesis
    proof cases
      case m
      then have u: "update_architecture_element (arch_env_of tier) e None (no_patch\<lparr>pa_parent := Some (Some parent)\<rparr>) (after ops) = Inr (r, db')"
        using Inr rd by (simp add: move_to_def)
      obtain pr where "commit_update (arch_env_of tier) e pr (after ops) = Inr (r, db')" using u by (auto simp: update_architecture_element_def)
      then obtain r0 where "r0 \<in> set (ad_elements (after ops))" "ae_id r0 = e" "ae_id r = e" "ad_elements db' = map (move_row e r) (ad_elements (after ops))"
        using commit_rows by fastforce
      then have "map ae_id (ad_elements db') = map ae_id (ad_elements (after ops))" by (auto simp: move_row_def)
      then have "arch_reachable (\<lambda>_. Some tier) (after ops)" using snoc last Inr rd by simp
      then show ?thesis using arch_reachable.update [OF _ _ _ u] last Inr rd by (simp add: arch_env_of_def)
    next
      case n
      then have c: "create_architecture_element (arch_env_of tier) e (''A-'' @ e) (''AE-'' @ e) ''w'' e [] [] parent None None None (after ops) = Inr (r, db')"
        using Inr rd by (simp add: new_element_def)
      note row = create_row [OF c]
      have "distinct (map ae_id (ad_elements db'))" using snoc.prems(2) last Inr rd by simp
      then have d: "distinct (map ae_id (ad_elements (after ops)))" "e \<notin> ae_id ` set (ad_elements (after ops))" unfolding row(1) by (auto simp: row(2))
      then have "arch_reachable (\<lambda>_. Some tier) (after ops)" using snoc by simp
      then show ?thesis using arch_reachable.create [OF _ _ _ d(2) c] last Inr rd by (simp add: arch_env_of_def)
    qed
  qed
qed

text \<open>
  C38: on the minimal tier a cycle of two elements is accepted. The check for a self-parent, which holds on every tier because a
  cycle makes the level query run forever, does not cover a cycle of two: an element moved below its own child is accepted on the
  minimal tier and its level query never ends.
\<close>

theorem minimal_tier_cycle_hangs:
  "\<exists>db r. arch_reachable (\<lambda>_. Some ''minimal'') db \<and> r \<in> set (ad_elements db) \<and> get_level r (ad_elements db) = None"
proof -
  let ?ops = "[new_element ''minimal'' ''r'' None, new_element ''minimal'' ''a'' (Some ''r''), new_element ''minimal'' ''b'' (Some ''a''),
    move_to ''minimal'' ''a'' ''b'']"
  let ?els = "ad_elements (after ?ops)"
  have "arch_reachable (\<lambda>_. Some ''minimal'') (after ?ops)"
  proof (rule after_reachable)
    show "distinct (map ae_id ?els)" by code_simp
  qed auto
  moreover have "?els ! 1 \<in> set ?els" "?els ! 2 \<in> set ?els" "ae_parent (?els ! 1) = Some (ae_id (?els ! 2))"
    "ae_parent (?els ! 2) = Some (ae_id (?els ! 1))" "ae_tenant (?els ! 2) = ae_tenant (?els ! 1)"
    by code_simp+
  ultimately show ?thesis using level_query_hangs by blast
qed

text \<open>
  Reactivation can create a second root. A root that was deleted and replaced by a new root can be reactivated; the workspace
  then has two live roots, which the invariant I5 rejects on every other path.
\<close>

theorem reactivation_makes_second_root:
  "(case delete_architecture_element (arch_env_of ''extended'') ''r'' (after [new_element ''extended'' ''r'' None]) of
      Inl _ \<Rightarrow> False
    | Inr (_, db) \<Rightarrow>
        (case new_element ''extended'' ''s'' None db of
           Inl _ \<Rightarrow> False
         | Inr (_, db1) \<Rightarrow>
             (case reactivate_element (arch_env_of ''extended'') ''r'' db1 of
                Inl _ \<Rightarrow> False
              | Inr (_, db2) \<Rightarrow> \<not> one_root (ad_elements db2))))"
  by code_simp

subsection \<open>An example\<close>

definition tree_example :: arch_db where
  "tree_example = after [new_element ''extended'' ''r'' None, new_element ''extended'' ''a'' (Some ''r''),
     new_element ''extended'' ''b'' (Some ''a''), new_element ''extended'' ''c'' (Some ''b'')]"

lemma tree_example_reachable: "arch_reachable (\<lambda>_. Some ''extended'') tree_example"
  unfolding tree_example_def
proof (rule after_reachable)
  show "distinct (map ae_id (ad_elements (after [new_element ''extended'' ''r'' None, new_element ''extended'' ''a'' (Some ''r''),
     new_element ''extended'' ''b'' (Some ''a''), new_element ''extended'' ''c'' (Some ''b'')])))" by code_simp
qed auto

lemma tree_example_ok: "arch_ok (\<lambda>_. Some ''extended'') (ad_elements tree_example)"
  by (rule reachable_ok [OF tree_example_reachable])

lemma extended_rigorous: "rigorous (Some ''extended'')"
  by (simp add: rigorous_def)

theorem architecture_tree_consistent_witness:
  "map ae_parent (ad_elements tree_example) = [None, Some ''r'', Some ''a'', Some ''b''] \<and>
   acyclic (up (ws_rows ''w'' (ad_elements tree_example)))"
proof
  show "map ae_parent (ad_elements tree_example) = [None, Some ''r'', Some ''a'', Some ''b'']" by code_simp
  show "acyclic (up (ws_rows ''w'' (ad_elements tree_example)))"
    using architecture_tree_consistent [OF tree_example_reachable] extended_rigorous by blast
qed

text \<open>
  C21: three computations of a level agree. On a table whose parent relation has no cycle the in-memory pass of the element list
  returns for every listed element the level the recursive query computes, and it is the number of the element's ancestors.
\<close>

theorem levels_agree:
  assumes "acyclic (up els)" "unique_ids els" "\<forall>r\<in>set els. linked els r" "set elements \<subseteq> set els"
  shows "\<exists>levels. annotate_levels_in_memory elements els = Some levels \<and>
    (\<forall>r\<in>set elements. get_level r els = map_of levels (ae_id r) \<and>
       map_of levels (ae_id r) = Some (card {x. (ae_id r, x) \<in> (up els)\<^sup>+}))"
proof -
  obtain lc where lc: "annotate_levels_in_memory elements els = Some lc" "cache_ok els lc" "dom (map_of lc) = ae_id ` set elements"
    using annotate_each_ok [OF assms, of "[]" elements] assms(4) by (auto simp: annotate_levels_in_memory_def cache_ok_def)
  have "get_level r els = map_of lc (ae_id r) \<and> map_of lc (ae_id r) = Some (card {x. (ae_id r, x) \<in> (up els)\<^sup>+})" if r: "r \<in> set elements" for r
  proof -
    obtain n where n: "level_is els r n" using level_exists [OF assms(1,3)] r assms(4) by blast
    obtain l where "map_of lc (ae_id r) = Some l" using lc(3) r by (metis domD image_eqI)
    then show ?thesis
      using cache_hit [OF assms(2) lc(2) n] get_level_correct [OF assms(2) n] level_ancestors [OF assms(1,2) n] by simp
  qed
  then show ?thesis using lc(1) by blast
qed

theorem levels_agree_witness:
  "map_option (\<lambda>l. map_of l ''c'') (annotate_levels_in_memory (drop 2 (ad_elements tree_example)) (ad_elements tree_example)) = Some (Some 3) \<and>
   card {x. (''c'', x) \<in> (up (ad_elements tree_example))\<^sup>+} = 3"
proof -
  let ?els = "ad_elements tree_example"
  have m: "map_option (\<lambda>l. map_of l ''c'') (annotate_levels_in_memory (drop 2 ?els) ?els) = Some (Some 3)" by code_simp
  have c: "?els ! 3 \<in> set (drop 2 ?els)" "ae_id (?els ! 3) = ''c''" by code_simp+
  have ok: "unique_ids ?els" "\<forall>r\<in>set ?els. linked ?els r" "set (drop 2 ?els) \<subseteq> set ?els"
    using tree_example_ok by (auto simp: arch_ok_def dest: in_set_dropD)
  have "acyclic (up ?els)" using acyclic_everywhere [OF tree_example_ok] extended_rigorous by simp
  from levels_agree [OF this ok] m c show ?thesis by fastforce
qed

definition two_moves :: "(uuid \<times> prepared) list" where
  "two_moves = map (\<lambda>(e, p). (e, projr (prepare_update (arch_env_of ''extended'') e None (no_patch\<lparr>pa_parent := Some (Some p)\<rparr>) tree_example)))
     [(''c'', ''a''), (''b'', ''r'')]"

theorem concurrent_moves_safe_witness:
  "map_option (\<lambda>db. map ae_parent (ad_elements db)) (case commit_all (arch_env_of ''extended'') two_moves tree_example of Inl _ \<Rightarrow> None | Inr db \<Rightarrow> Some db) =
     Some [None, Some ''r'', Some ''r'', Some ''a''] \<and>
   acyclic (up (ad_elements (projr (commit_all (arch_env_of ''extended'') two_moves tree_example))))"
proof
  show "map_option (\<lambda>db. map ae_parent (ad_elements db)) (case commit_all (arch_env_of ''extended'') two_moves tree_example of Inl _ \<Rightarrow> None | Inr db \<Rightarrow> Some db) =
     Some [None, Some ''r'', Some ''r'', Some ''a'']" by code_simp
  have c: "commit_all (arch_env_of ''extended'') two_moves tree_example = Inr (projr (commit_all (arch_env_of ''extended'') two_moves tree_example))"
    by code_simp
  have p: "prepare_update (arch_env_of ''extended'') ''c'' None (no_patch\<lparr>pa_parent := Some (Some ''a'')\<rparr>) tree_example = Inr (snd (two_moves ! 0))"
    "prepare_update (arch_env_of ''extended'') ''b'' None (no_patch\<lparr>pa_parent := Some (Some ''r'')\<rparr>) tree_example = Inr (snd (two_moves ! 1))"
    by code_simp+
  have two: "two_moves = [(''c'', snd (two_moves ! 0)), (''b'', snd (two_moves ! 1))]" by (simp add: two_moves_def)
  have "\<forall>(e, pr)\<in>set two_moves. \<exists>expected patch. prepare_update (arch_env_of ''extended'') e expected patch tree_example = Inr pr"
    using p by (subst two) auto
  moreover have "av_tier (arch_env_of ''extended'') = (\<lambda>_. Some ''extended'')" "av_override (arch_env_of ''extended'') = None"
    by (simp_all add: arch_env_of_def)
  ultimately show "acyclic (up (ad_elements (projr (commit_all (arch_env_of ''extended'') two_moves tree_example))))"
    using concurrent_moves_safe [OF _ _ _ _ c] tree_example_ok extended_rigorous by simp
qed

end
