(* ===== verification/Trace_Service.thy ===== *)
theory Trace_Service
  imports State_Reader Query_Engine Architecture_Elements Tier_Recompute
begin

text \<open>
  The trace link service (\<^verbatim>\<open>application/trace_link_service.py\<close>), which composes the link manager, the link types, the query
  engine, the element invariants and the tier computation: creation of links with all checks, proposals of agents, deletion,
  allocation, and the propagation of suspect flags.

  \<open>Inl e\<close> is a raise. Creation, deletion and allocation are one transaction each, so the tables are then as before; the other
  operations raise before they write, except for a failing recomputation after a discarded proposal. What
  \<open>resolve_catalog\<close> returns for a workspace, the clock, the state and freeze readers of the workflow engine, the preset tier
  and the number of interpreter frames are arguments. Events and audit entries are recorded in order; embeddings and the
  delivery of notifications are left out. A \<open>recompute\<close> the link manager asks for is carried out right after its call.
\<close>

subsection \<open>Tables and errors\<close>

text \<open>A row of a business entity table other than the architecture elements.\<close>

record entity_row =
  en_model :: string
  en_id :: uuid
  en_artifact :: "uuid option"
  en_tenant :: uuid
  en_title :: string
  en_subtype :: "string option"
  en_intent :: string

record link_event =
  ev_type :: string
  ev_link :: nat
  ev_workspace :: "uuid option"
  ev_source :: uuid
  ev_target :: uuid

record service_db =
  sd_trace :: trace_db
  sd_tiers :: tier_db
  sd_elements :: "arch_row list"
  sd_entities :: "entity_row list"
  sd_suspect :: "(string \<times> uuid) list"
  sd_anchors :: "(uuid \<times> nat) list"
  sd_audit :: "(string \<times> nat) list"
  sd_events :: "link_event list"

record link_ctx =
  tx_user :: uuid
  tx_tenant :: uuid
  tx_actor_type :: string
  tx_api_key :: "uuid option"

record link_env =
  le_now :: instant
  le_frames :: nat
  le_catalog :: "uuid option \<Rightarrow> catalog"
  le_tier :: "uuid \<Rightarrow> string option"
  le_state :: "string \<Rightarrow> uuid \<Rightarrow> string option"
  le_freezes :: "uuid option \<Rightarrow> string \<Rightarrow> string \<Rightarrow> bool"

text \<open>The last three are not caught by the service; all constructors from \<open>LinkRejected\<close> to \<open>InvariantViolated\<close> are \<open>ValidationError\<close>s.\<close>

datatype service_error =
    EntityNotFound uuid
  | EndpointNotFound string
  | LinkNotFound nat
  | LinkRejected link_error
  | EndpointDeleted uuid
  | DuplicateLink
  | CrossWorkspaceLink
  | EngineRejected trace_error
  | NotAProposal
  | BadDirection string
  | InvariantViolated arch_error
  | AllocationConflict
  | AgentSelfConfirm
  | AnchorsPresent nat
  | WorkflowFrozen string
  | BadArtifactId
  | EngineFailed trace_error
  | TiersFailed tier_error

definition LINK_ALLOCATED_TO :: string where
  "LINK_ALLOCATED_TO = ''allocated-to''"

subsection \<open>Resolving entities\<close>

definition tenant_artifact :: "uuid \<Rightarrow> service_db \<Rightarrow> uuid \<Rightarrow> artifact_row option" where
  "tenant_artifact tenant s a = find (\<lambda>r. ar_id r = a \<and> ar_tenant r = tenant) (td_artifacts (sd_trace s))"

definition element_entity :: "arch_row \<Rightarrow> entity_row" where
  "element_entity r =
     \<lparr>en_model = ''ArchitectureElement'', en_id = ae_id r, en_artifact = Some (ae_artifact r), en_tenant = ae_tenant r,
      en_title = ae_title r, en_subtype = Some (ae_type r), en_intent = []\<rparr>"

definition entities :: "service_db \<Rightarrow> entity_row list" where
  "entities s = sd_entities s @ map element_entity (sd_elements s)"

definition entity_lookup :: "uuid \<Rightarrow> string \<Rightarrow> uuid \<Rightarrow> service_db \<Rightarrow> entity_row option" where
  "entity_lookup tenant model e s = find (\<lambda>r. en_model r = model \<and> en_id r = e \<and> en_tenant r = tenant) (entities s)"

text \<open>The probe table: model and whether an empty foreign key is skipped.\<close>

definition PROBES :: "(string \<times> bool) list" where
  "PROBES =
     [(''Requirement'', False), (''ArchitectureElement'', False), (''Adr'', True), (''Goal'', False), (''MainGoal'', False),
      (''TestCase'', False), (''StakeholderNeed'', False), (''Risk'', True), (''Issue'', True)]"

fun probe_entities :: "uuid \<Rightarrow> uuid \<Rightarrow> service_db \<Rightarrow> (string \<times> bool) list \<Rightarrow> service_error + uuid option" where
  "probe_entities tenant e s [] = Inr None"
| "probe_entities tenant e s ((model, guard) # ps) =
     (case entity_lookup tenant model e s of
        None \<Rightarrow> probe_entities tenant e s ps
      | Some r \<Rightarrow>
          (case en_artifact r of
             Some a \<Rightarrow> Inr (Some a)
           | None \<Rightarrow> if guard then probe_entities tenant e s ps else Inl BadArtifactId))"

definition resolve_business_entity_artifact :: "uuid \<Rightarrow> uuid \<Rightarrow> service_db \<Rightarrow> service_error + uuid option" where
  "resolve_business_entity_artifact tenant e s = probe_entities tenant e s PROBES"

fun resolve_backing_artifact_id :: "uuid \<Rightarrow> uuid \<Rightarrow> service_db \<Rightarrow> string list \<Rightarrow> uuid option" where
  "resolve_backing_artifact_id tenant e s [] = None"
| "resolve_backing_artifact_id tenant e s (model # ms) =
     (case find (\<lambda>r. en_model r = model \<and> en_id r = e \<and> en_tenant r = tenant \<and> en_artifact r \<noteq> None) (entities s) of
        Some r \<Rightarrow> en_artifact r
      | None \<Rightarrow> resolve_backing_artifact_id tenant e s ms)"

definition resolve_artifact_id :: "uuid \<Rightarrow> uuid \<Rightarrow> service_db \<Rightarrow> service_error + uuid" where
  "resolve_artifact_id tenant e s =
     (if tenant_artifact tenant s e \<noteq> None then Inr e
      else res_bind (resolve_business_entity_artifact tenant e s) (\<lambda>found.
           case found of
             Some a \<Rightarrow> Inr a
           | None \<Rightarrow>
               (case resolve_backing_artifact_id tenant e s ARTIFACT_TYPES of
                  Some a \<Rightarrow> Inr a
                | None \<Rightarrow> Inl (EntityNotFound e))))"

subsection \<open>Recomputing levels\<close>

text \<open>The tables the tier computation reads: the current links and elements.\<close>

definition tier_view :: "service_db \<Rightarrow> tier_db" where
  "tier_view s =
     (sd_tiers s)\<lparr>tb_links := td_links (sd_trace s),
       tb_elements := map (\<lambda>r. \<lparr>el_id = ae_id r, el_artifact = ae_artifact r, el_workspace = ae_workspace r, el_parent = ae_parent r\<rparr>) (sd_elements s)\<rparr>"

fun recompute_workspaces :: "nat \<Rightarrow> uuid list \<Rightarrow> service_db \<Rightarrow> service_error + service_db" where
  "recompute_workspaces k [] s = Inr s"
| "recompute_workspaces k (w # ws) s =
     (case recompute_workspace_tiers k w None False False (tier_view s) of
        Inl e \<Rightarrow> Inl (TiersFailed e)
      | Inr (_, db) \<Rightarrow> recompute_workspaces k ws (s\<lparr>sd_tiers := db\<rparr>))"

definition recompute_requirement_levels :: "nat \<Rightarrow> uuid list \<Rightarrow> service_db \<Rightarrow> service_error + service_db" where
  "recompute_requirement_levels k seeds s =
     recompute_workspaces k
       (remdups (List.map_filter ar_workspace
         (filter (\<lambda>a. ar_id a \<in> set seeds \<and> ar_type a = ''Requirement'') (td_artifacts (sd_trace s))))) s"

text \<open>Carries out the recomputations the link manager asked for.\<close>

fun carry_out :: "nat \<Rightarrow> uuid list list \<Rightarrow> service_db \<Rightarrow> service_error + service_db" where
  "carry_out k [] s = Inr s"
| "carry_out k (seeds # rest) s = res_bind (recompute_requirement_levels k seeds s) (carry_out k rest)"

definition run_recomputes :: "nat \<Rightarrow> service_db \<Rightarrow> service_error + service_db" where
  "run_recomputes k s =
     carry_out k (td_recomputed (sd_trace s)) (s\<lparr>sd_trace := (sd_trace s)\<lparr>td_recomputed := []\<rparr>\<rparr>)"

subsection \<open>Checks of a new link\<close>

definition catalog_uses_subtypes :: "catalog \<Rightarrow> string \<Rightarrow> bool" where
  "catalog_uses_subtypes cat link_type =
     (case map_of cat link_type of
        None \<Rightarrow> False
      | Some d \<Rightarrow> list_ex (\<lambda>(s, t). COLON \<in> set s \<or> COLON \<in> set t) (ld_pairs d))"

definition endpoint_type :: "uuid \<Rightarrow> artifact_row \<Rightarrow> service_db \<Rightarrow> string" where
  "endpoint_type tenant a s =
     (let base = normalize_artifact_type (ar_type a)
      in if map_of SUBTYPE_FIELDS base = None then ar_type a
         else (let tag = (case find (\<lambda>r. en_model r = base \<and> en_artifact r = Some (ar_id a) \<and> en_tenant r = tenant) (entities s) of
                            None \<Rightarrow> [] | Some r \<Rightarrow> (case en_subtype r of None \<Rightarrow> [] | Some t \<Rightarrow> py_lower (py_strip t)))
               in if tag = [] then base else base @ [COLON] @ tag))"

definition is_outdated :: "artifact_row \<Rightarrow> bool" where
  "is_outdated a \<longleftrightarrow> ar_lifecycle a = ''outdated''"

definition assert_endpoints_live :: "artifact_row \<Rightarrow> artifact_row \<Rightarrow> service_error + unit" where
  "assert_endpoints_live source target =
     res_bind (raise_if (is_outdated source) (EndpointDeleted (ar_id source))) (\<lambda>_.
     raise_if (is_outdated target) (EndpointDeleted (ar_id target)))"

definition lift_link :: "link_error + 'a \<Rightarrow> service_error + 'a" where
  "lift_link r = (case r of Inl e \<Rightarrow> Inl (LinkRejected e) | Inr x \<Rightarrow> Inr x)"

definition check_link_pair :: "link_env \<Rightarrow> uuid \<Rightarrow> uuid \<Rightarrow> uuid \<Rightarrow> string \<Rightarrow> bool \<Rightarrow> service_db \<Rightarrow> service_error + unit" where
  "check_link_pair env tenant source_id target_id link_type manual s =
     (case tenant_artifact tenant s source_id of
        None \<Rightarrow> Inl (EndpointNotFound ''Source entity not found'')
      | Some source \<Rightarrow>
          (case tenant_artifact tenant s target_id of
             None \<Rightarrow> Inl (EndpointNotFound ''Target entity not found'')
           | Some target \<Rightarrow>
               (let cat = le_catalog env (ar_workspace source);
                    tagged = catalog_uses_subtypes cat link_type
                in res_bind (lift_link (check_pair cat link_type
                     (if tagged then endpoint_type tenant source s else ar_type source)
                     (if tagged then endpoint_type tenant target s else ar_type target) manual)) (\<lambda>_.
                   if manual then assert_endpoints_live source target else Inr ()))))"

definition arch_env_at :: "link_env \<Rightarrow> uuid \<Rightarrow> arch_env" where
  "arch_env_at env tenant = \<lparr>av_tenant = tenant, av_writer = True, av_tier = le_tier env, av_override = None\<rparr>"

definition element_of :: "uuid \<Rightarrow> service_db \<Rightarrow> uuid \<Rightarrow> arch_row option" where
  "element_of tenant s a = find (\<lambda>r. ae_artifact r = a \<and> ae_tenant r = tenant) (sd_elements s)"

definition check_allocation_invariant :: "link_env \<Rightarrow> uuid \<Rightarrow> uuid \<Rightarrow> uuid \<Rightarrow> service_db \<Rightarrow> service_error + unit" where
  "check_allocation_invariant env tenant source_id target_id s =
     (case (element_of tenant s source_id, element_of tenant s target_id) of
        (Some source_el, Some target_el) \<Rightarrow>
          (case check_i4 (for_workspace (arch_env_at env tenant) (Some (ae_workspace source_el))) tenant (sd_elements s) (Some source_el) (Some target_el) of
             Inl e \<Rightarrow> Inl (InvariantViolated e)
           | Inr _ \<Rightarrow> Inr ())
      | _ \<Rightarrow> Inr ())"

definition allocation_links :: "uuid \<Rightarrow> uuid \<Rightarrow> service_db \<Rightarrow> link_row list" where
  "allocation_links tenant source_id s =
     filter (\<lambda>l. l_source l = source_id \<and> l_type l = LINK_ALLOCATED_TO) (tenant_links tenant (sd_trace s))"

definition validate_new_trace_link :: "link_env \<Rightarrow> uuid \<Rightarrow> uuid \<Rightarrow> uuid \<Rightarrow> string \<Rightarrow> service_db \<Rightarrow> service_error + unit" where
  "validate_new_trace_link env tenant source_id target_id link_type s =
     res_bind (check_link_pair env tenant source_id target_id link_type True s) (\<lambda>_.
     if link_type = LINK_ALLOCATED_TO
     then res_bind (check_allocation_invariant env tenant source_id target_id s) (\<lambda>_.
          raise_if (allocation_links tenant source_id s \<noteq> []) AllocationConflict)
     else Inr ())"

subsection \<open>Creation\<close>

definition map_engine_error :: "trace_error \<Rightarrow> service_error" where
  "map_engine_error e =
     (case e of
        SourceNotFound _ \<Rightarrow> EndpointNotFound ''Source entity not found''
      | TargetNotFound _ \<Rightarrow> EndpointNotFound ''Target entity not found''
      | IntegrityError _ \<Rightarrow> DuplicateLink
      | CrossTenantLink \<Rightarrow> CrossWorkspaceLink
      | LinkDoesNotExist _ \<Rightarrow> EngineFailed e
      | FramesExhausted \<Rightarrow> EngineFailed e
      | _ \<Rightarrow> EngineRejected e)"

definition persist_trace_link :: "link_env \<Rightarrow> link_ctx \<Rightarrow> uuid \<Rightarrow> uuid \<Rightarrow> string \<Rightarrow> string \<Rightarrow> service_db \<Rightarrow> service_error + (link_row \<times> service_db)" where
  "persist_trace_link env ctx source_id target_id link_type rationale s =
     (case create_link (tx_tenant ctx) (le_now env) (Some (tx_user ctx)) source_id target_id link_type rationale (sd_trace s) of
        Inl e \<Rightarrow> Inl (map_engine_error e)
      | Inr (link, db) \<Rightarrow> res_bind (run_recomputes (le_frames env) (s\<lparr>sd_trace := db\<rparr>)) (\<lambda>s1. Inr (link, s1)))"

definition update_links :: "(link_row \<Rightarrow> link_row) \<Rightarrow> service_db \<Rightarrow> service_db" where
  "update_links f s = s\<lparr>sd_trace := (sd_trace s)\<lparr>td_links := map f (td_links (sd_trace s))\<rparr>\<rparr>"

definition stamp_row :: "link_env \<Rightarrow> link_ctx \<Rightarrow> link_row \<Rightarrow> link_row" where
  "stamp_row env ctx l =
     (if tx_actor_type ctx \<noteq> ''agent'' \<or> tx_api_key ctx = None then l
      else l\<lparr>l_proposed_by := tx_api_key ctx, l_proposed_at := Some (le_now env)\<rparr>)"

definition stamp_proposed_trace_link :: "link_env \<Rightarrow> link_ctx \<Rightarrow> link_row \<Rightarrow> service_db \<Rightarrow> link_row \<times> service_db" where
  "stamp_proposed_trace_link env ctx link s =
     (stamp_row env ctx link, update_links (\<lambda>l. if l_id l = l_id link then stamp_row env ctx l else l) s)"

definition emit_trace_link_event :: "string \<Rightarrow> uuid \<Rightarrow> nat \<Rightarrow> uuid \<Rightarrow> uuid \<Rightarrow> service_db \<Rightarrow> service_db" where
  "emit_trace_link_event ty tenant link_id source_id target_id s =
     (case tenant_artifact tenant s source_id of
        None \<Rightarrow> s
      | Some a \<Rightarrow>
          if ar_workspace a = None then s
          else s\<lparr>sd_events := sd_events s @ [\<lparr>ev_type = ty, ev_link = link_id, ev_workspace = ar_workspace a, ev_source = source_id, ev_target = target_id\<rparr>]\<rparr>)"

definition audit_link :: "string \<Rightarrow> nat \<Rightarrow> service_db \<Rightarrow> service_db" where
  "audit_link operation link_id s = s\<lparr>sd_audit := sd_audit s @ [(operation, link_id)]\<rparr>"

definition record_trace_link_created :: "uuid \<Rightarrow> link_row \<Rightarrow> service_db \<Rightarrow> service_db" where
  "record_trace_link_created tenant link s =
     emit_trace_link_event ''TRACE_LINK_CREATED'' tenant (l_id link) (l_source link) (l_target link) (audit_link ''create'' (l_id link) s)"

definition create_trace_link ::
  "link_env \<Rightarrow> link_ctx \<Rightarrow> uuid \<Rightarrow> uuid \<Rightarrow> string \<Rightarrow> string \<Rightarrow> service_db \<Rightarrow> service_error + (link_row \<times> service_db)" where
  "create_trace_link env ctx source_id target_id link_type rationale s =
     res_bind (resolve_artifact_id (tx_tenant ctx) source_id s) (\<lambda>source.
     res_bind (resolve_artifact_id (tx_tenant ctx) target_id s) (\<lambda>target.
     res_bind (validate_new_trace_link env (tx_tenant ctx) source target link_type s) (\<lambda>_.
     res_bind (persist_trace_link env ctx source target link_type rationale s) (\<lambda>(link, s1).
     let (link', s2) = stamp_proposed_trace_link env ctx link s1;
         s3 = record_trace_link_created (tx_tenant ctx) link' s2
     in if link_type = LINK_ALLOCATED_TO
        then res_bind (recompute_requirement_levels (le_frames env) [source] s3) (\<lambda>s4. Inr (link', s4))
        else Inr (link', s3)))))"

subsection \<open>Proposals, deletion\<close>

definition own_link :: "uuid \<Rightarrow> nat \<Rightarrow> service_db \<Rightarrow> link_row option" where
  "own_link tenant link_id s = find (\<lambda>l. l_id l = link_id) (tenant_links tenant (sd_trace s))"

definition get_trace_link :: "link_ctx \<Rightarrow> nat \<Rightarrow> service_db \<Rightarrow> service_error + link_row" where
  "get_trace_link ctx link_id s = (case own_link (tx_tenant ctx) link_id s of None \<Rightarrow> Inl (LinkNotFound link_id) | Some l \<Rightarrow> Inr l)"

definition is_proposal :: "link_row \<Rightarrow> bool" where
  "is_proposal l \<longleftrightarrow> l_proposed_at l \<noteq> None"

definition unproposed :: "instant \<Rightarrow> link_row \<Rightarrow> link_row" where
  "unproposed now l = l\<lparr>l_proposed_by := None, l_proposed_at := None, l_modified_at := now\<rparr>"

definition confirm_proposed_link :: "link_env \<Rightarrow> link_ctx \<Rightarrow> nat \<Rightarrow> service_db \<Rightarrow> service_error + (link_row \<times> service_db)" where
  "confirm_proposed_link env ctx link_id s =
     res_bind (raise_if (tx_actor_type ctx = ''agent'') AgentSelfConfirm) (\<lambda>_.
     res_bind (get_trace_link ctx link_id s) (\<lambda>link.
     if l_proposed_at link \<noteq> None \<or> l_proposed_by link \<noteq> None
     then Inr (unproposed (le_now env) link,
               audit_link ''update'' link_id (update_links (\<lambda>l. if l_id l = link_id then unproposed (le_now env) l else l) s))
     else Inr (link, s)))"

text \<open>Deleting a row cascades to the anchors that refer to it.\<close>

definition drop_links :: "(link_row \<Rightarrow> bool) \<Rightarrow> service_db \<Rightarrow> service_db" where
  "drop_links P s =
     (let gone = map l_id (filter P (td_links (sd_trace s)))
      in s\<lparr>sd_trace := (sd_trace s)\<lparr>td_links := filter (\<lambda>l. \<not> P l) (td_links (sd_trace s))\<rparr>,
           sd_anchors := filter (\<lambda>(_, a). a \<notin> set gone) (sd_anchors s)\<rparr>)"

definition discard_proposed_link :: "link_env \<Rightarrow> link_ctx \<Rightarrow> nat \<Rightarrow> service_db \<Rightarrow> service_error + (unit \<times> service_db)" where
  "discard_proposed_link env ctx link_id s =
     res_bind (raise_if (tx_actor_type ctx = ''agent'') AgentSelfConfirm) (\<lambda>_.
     res_bind (get_trace_link ctx link_id s) (\<lambda>link.
     res_bind (raise_if (\<not> is_proposal link) NotAProposal) (\<lambda>_.
     let s1 = drop_links (\<lambda>l. l_id l = link_id) (audit_link ''delete'' link_id s)
     in if l_type link \<in> set HIERARCHY_LINK_TYPES
        then res_bind (recompute_requirement_levels (le_frames env) [l_source link, l_target link] s1) (\<lambda>s2. Inr ((), s2))
        else Inr ((), s1))))"

definition delete_trace_link :: "link_env \<Rightarrow> link_ctx \<Rightarrow> nat \<Rightarrow> nat option \<Rightarrow> service_db \<Rightarrow> service_error + (unit \<times> service_db)" where
  "delete_trace_link env ctx link_id confirm_anchor_count s =
     (let row = own_link (tx_tenant ctx) link_id s;
          anchors = count_list (sd_anchors s) (tx_tenant ctx, link_id)
      in res_bind (raise_if (tx_actor_type ctx = ''agent'' \<and> (case row of None \<Rightarrow> False | Some l \<Rightarrow> l_proposed_by l \<noteq> None \<or> l_proposed_at l \<noteq> None))
                     AgentSelfConfirm) (\<lambda>_.
         res_bind (raise_if (anchors \<noteq> 0 \<and> confirm_anchor_count \<noteq> Some anchors) (AnchorsPresent anchors)) (\<lambda>_.
         let s1 = s\<lparr>sd_anchors := filter (\<lambda>a. a \<noteq> (tx_tenant ctx, link_id)) (sd_anchors s)\<rparr>
         in case delete_link (tx_tenant ctx) link_id (sd_trace s1) of
              Inl e \<Rightarrow> Inl (LinkNotFound link_id)
            | Inr (_, db) \<Rightarrow>
                res_bind (run_recomputes (le_frames env) (s1\<lparr>sd_trace := db\<rparr>)) (\<lambda>s2.
                case row of
                  None \<Rightarrow> Inr ((), s2)
                | Some l \<Rightarrow>
                    res_bind (if l_type l = LINK_ALLOCATED_TO then recompute_requirement_levels (le_frames env) [l_source l] s2 else Inr s2) (\<lambda>s3.
                    Inr ((), emit_trace_link_event ''TRACE_LINK_DELETED'' (tx_tenant ctx) link_id (l_source l) (l_target l) s3))))))"

text \<open>\<open>hasattr(item, ''link_id'')\<close>: a neighbour result has no such attribute.\<close>

definition neighbor_link_id :: "neighbor_result \<Rightarrow> nat option" where
  "neighbor_link_id item = None"

definition cascade_delete_trace_links :: "link_env \<Rightarrow> link_ctx \<Rightarrow> uuid \<Rightarrow> service_db \<Rightarrow> service_error + (nat \<times> service_db)" where
  "cascade_delete_trace_links env ctx entity_id s =
     (let found = query_upstream (tx_tenant ctx) entity_id (sd_trace s) @ query_downstream (tx_tenant ctx) entity_id (sd_trace s);
          link_ids = List.map_filter neighbor_link_id found
      in if link_ids = [] then Inr (0, s)
         else let rows = filter (\<lambda>l. l_id l \<in> set link_ids) (tenant_links (tx_tenant ctx) (sd_trace s))
              in case batch_delete (tx_tenant ctx) link_ids (sd_trace s) of
                   Inl e \<Rightarrow> Inl (EngineFailed e)
                 | Inr (n, db) \<Rightarrow>
                     res_bind (run_recomputes (le_frames env) (s\<lparr>sd_trace := db, sd_anchors := filter (\<lambda>(_, a). a \<notin> set link_ids) (sd_anchors s)\<rparr>)) (\<lambda>s1.
                     Inr (n, fold (\<lambda>l. emit_trace_link_event ''TRACE_LINK_DELETED'' (tx_tenant ctx) (l_id l) (l_source l) (l_target l)) rows s1)))"

subsection \<open>Allocation\<close>

text \<open>\<open>artifact_freeze.is_frozen\<close> of the artifact behind a requirement: the name of the freezing state.\<close>

definition is_frozen :: "link_env \<Rightarrow> artifact_row \<Rightarrow> service_db \<Rightarrow> string option" where
  "is_frozen env a s =
     (if ar_type a \<notin> {''Requirement'', ''ArchitectureElement''} then None
      else case find (\<lambda>r. en_model r = ar_type a \<and> en_artifact r = Some (ar_id a)) (entities s) of
             None \<Rightarrow> None
           | Some r \<Rightarrow>
               (case le_state env (ar_type a) (en_id r) of
                  None \<Rightarrow> None
                | Some state \<Rightarrow> if le_freezes env (ar_workspace a) (ar_type a) state then Some state else None))"

definition assert_not_frozen :: "link_env \<Rightarrow> entity_row \<Rightarrow> service_db \<Rightarrow> service_error + unit" where
  "assert_not_frozen env r s =
     (case en_artifact r of
        None \<Rightarrow> Inr ()
      | Some a \<Rightarrow>
          (case get_artifact a (sd_trace s) of
             None \<Rightarrow> Inr ()
           | Some row \<Rightarrow> (case is_frozen env row s of None \<Rightarrow> Inr () | Some state \<Rightarrow> Inl (WorkflowFrozen state))))"

definition set_intent :: "uuid \<Rightarrow> uuid \<Rightarrow> string \<Rightarrow> service_db \<Rightarrow> service_db" where
  "set_intent tenant requirement_id intent s =
     s\<lparr>sd_entities := map (\<lambda>r. if en_model r = ''Requirement'' \<and> en_id r = requirement_id \<and> en_tenant r = tenant then r\<lparr>en_intent := intent\<rparr> else r) (sd_entities s)\<rparr>"

definition drop_allocations :: "uuid \<Rightarrow> uuid \<Rightarrow> service_db \<Rightarrow> service_db" where
  "drop_allocations tenant source_id = drop_links (\<lambda>l. l_tenant l = tenant \<and> l_source l = source_id \<and> l_type l = LINK_ALLOCATED_TO)"

definition allocate :: "link_env \<Rightarrow> link_ctx \<Rightarrow> uuid \<Rightarrow> uuid \<Rightarrow> service_db \<Rightarrow> service_error + (link_row \<times> service_db)" where
  "allocate env ctx requirement_id element_id s =
     (case entity_lookup (tx_tenant ctx) ''Requirement'' requirement_id s of
        None \<Rightarrow> Inl (EntityNotFound requirement_id)
      | Some req \<Rightarrow>
          res_bind (assert_not_frozen env req s) (\<lambda>_.
          res_bind (raise_if (entity_lookup (tx_tenant ctx) ''ArchitectureElement'' element_id s = None) (EntityNotFound element_id)) (\<lambda>_.
          case en_artifact req of
            None \<Rightarrow> Inl BadArtifactId
          | Some a \<Rightarrow>
              res_bind (create_trace_link env ctx requirement_id element_id LINK_ALLOCATED_TO [] (drop_allocations (tx_tenant ctx) a s)) (\<lambda>(link, s1).
              res_bind (recompute_requirement_levels (le_frames env) [a] (set_intent (tx_tenant ctx) requirement_id ''allocated'' s1)) (\<lambda>s2.
              Inr (link, s2))))))"

definition deallocate :: "link_env \<Rightarrow> link_ctx \<Rightarrow> uuid \<Rightarrow> service_db \<Rightarrow> service_error + (unit \<times> service_db)" where
  "deallocate env ctx requirement_id s =
     (case entity_lookup (tx_tenant ctx) ''Requirement'' requirement_id s of
        None \<Rightarrow> Inl (EntityNotFound requirement_id)
      | Some req \<Rightarrow>
          res_bind (assert_not_frozen env req s) (\<lambda>_.
          case en_artifact req of
            None \<Rightarrow> Inl BadArtifactId
          | Some a \<Rightarrow>
              res_bind (recompute_requirement_levels (le_frames env) [a]
                  (set_intent (tx_tenant ctx) requirement_id ''unassigned'' (drop_allocations (tx_tenant ctx) a s))) (\<lambda>s1.
              Inr ((), s1))))"

record coverage =
  cv_allocated :: nat
  cv_not_allocatable :: nat
  cv_ratio :: rat
  cv_unallocated :: "(uuid \<times> string) list"

definition workspace_requirements :: "uuid \<Rightarrow> uuid \<Rightarrow> service_db \<Rightarrow> entity_row list" where
  "workspace_requirements tenant ws s =
     filter (\<lambda>r. en_model r = ''Requirement'' \<and> en_tenant r = tenant \<and>
         (case en_artifact r of None \<Rightarrow> False | Some a \<Rightarrow>
            (case get_artifact a (sd_trace s) of None \<Rightarrow> False | Some row \<Rightarrow> ar_workspace row = Some ws)))
       (entities s)"

definition get_allocation_coverage :: "link_ctx \<Rightarrow> uuid \<Rightarrow> service_db \<Rightarrow> service_error + coverage" where
  "get_allocation_coverage ctx element_id s =
     (case get_element (tx_tenant ctx) (sd_elements s) element_id of
        None \<Rightarrow> Inl (EntityNotFound element_id)
      | Some el \<Rightarrow>
          (let reqs = workspace_requirements (tx_tenant ctx) (ae_workspace el) s;
               sources = map l_source (filter (\<lambda>l. l_target l = ae_artifact el \<and> l_type l = LINK_ALLOCATED_TO) (tenant_links (tx_tenant ctx) (sd_trace s)));
               is_allocated = (\<lambda>r. case en_artifact r of None \<Rightarrow> False | Some a \<Rightarrow> a \<in> set sources);
               allocated = length (filter is_allocated reqs);
               not_allocatable = length (filter (\<lambda>r. \<not> is_allocated r \<and> en_intent r = ''not_allocatable'') reqs);
               unallocated = filter (\<lambda>r. \<not> is_allocated r \<and> en_intent r \<noteq> ''not_allocatable'') reqs;
               total = length reqs - not_allocatable
           in Inr \<lparr>cv_allocated = allocated, cv_not_allocatable = not_allocatable,
                   cv_ratio = (if total > 0 then of_nat allocated / of_nat total * 100 else 0),
                   cv_unallocated = map (\<lambda>r. (en_id r, en_title r)) unallocated\<rparr>))"

subsection \<open>Queries\<close>

definition query_trace_links :: "link_ctx \<Rightarrow> uuid \<Rightarrow> string \<Rightarrow> string option \<Rightarrow> service_db \<Rightarrow> service_error + neighbor_result list" where
  "query_trace_links ctx entity_id direction link_type s =
     res_bind (resolve_artifact_id (tx_tenant ctx) entity_id s) (\<lambda>a.
     let results = (if direction = ''upstream'' then query_upstream (tx_tenant ctx) a (sd_trace s) else query_downstream (tx_tenant ctx) a (sd_trace s))
     in Inr (case link_type of None \<Rightarrow> results | Some ty \<Rightarrow> filter (\<lambda>r. nr_link_type r = ty) results))"

definition list_links_for_entity :: "link_ctx \<Rightarrow> uuid \<Rightarrow> string \<Rightarrow> string option \<Rightarrow> service_db \<Rightarrow> service_error + link_row list" where
  "list_links_for_entity ctx entity_id direction link_type s =
     res_bind (raise_if (direction \<notin> {''upstream'', ''downstream''}) (BadDirection direction)) (\<lambda>_.
     res_bind (resolve_artifact_id (tx_tenant ctx) entity_id s) (\<lambda>a.
     Inr (get_trace_links (tx_tenant ctx) None (\<lambda>l. (if direction = ''upstream'' then l_target l else l_source l) = a) link_type (sd_trace s))))"

definition list_links_for_workspace :: "link_ctx \<Rightarrow> uuid \<Rightarrow> string option \<Rightarrow> service_db \<Rightarrow> link_row list" where
  "list_links_for_workspace ctx ws link_type s = get_trace_links (tx_tenant ctx) (Some ws) (\<lambda>_. True) link_type (sd_trace s)"

text \<open>Pages are numbered from 1; \<open>count\<close> and the rows of the page.\<close>

definition list_workspace_links_page :: "link_ctx \<Rightarrow> uuid \<Rightarrow> string option \<Rightarrow> nat \<Rightarrow> nat \<Rightarrow> service_db \<Rightarrow> nat \<times> link_row list" where
  "list_workspace_links_page ctx ws link_type page page_size s =
     (let rows = list_links_for_workspace ctx ws link_type s
      in (length rows, take page_size (drop ((page - 1) * page_size) rows)))"

definition list_incoming :: "link_ctx \<Rightarrow> uuid \<Rightarrow> service_db \<Rightarrow> service_error + (uuid \<times> uuid \<times> string) list" where
  "list_incoming ctx entity_id s =
     res_bind (query_trace_links ctx entity_id ''upstream'' None s) (\<lambda>ns. Inr (map (\<lambda>n. (nr_entity n, entity_id, nr_link_type n)) ns))"

definition list_outgoing :: "link_ctx \<Rightarrow> uuid \<Rightarrow> service_db \<Rightarrow> service_error + (uuid \<times> uuid \<times> string) list" where
  "list_outgoing ctx entity_id s =
     res_bind (query_trace_links ctx entity_id ''downstream'' None s) (\<lambda>ns. Inr (map (\<lambda>n. (entity_id, nr_entity n, nr_link_type n)) ns))"

subsection \<open>Suspect propagation\<close>

text \<open>The artifact at the other end of a link whose rule fires for a change of \<open>a\<close>.\<close>

definition fires :: "uuid \<Rightarrow> catalog \<Rightarrow> link_row \<Rightarrow> uuid option" where
  "fires a cat l =
     (case map_of cat (l_type l) of
        None \<Rightarrow> None
      | Some d \<Rightarrow>
          (let other = (if ld_suspect_rule d = ''none'' then None
                        else if ld_suspect_rule d = ''target_change_flags_source'' then if l_target l \<noteq> a then None else Some (l_source l)
                        else if ld_suspect_rule d \<in> {''source_change_flags_target'', ''parent_change_flags_children''}
                        then if l_source l \<noteq> a then None else Some (l_target l)
                        else None)
           in if other = Some a then None else other))"

definition collect_suspect_dependents :: "uuid \<Rightarrow> catalog \<Rightarrow> link_row list \<Rightarrow> (nat \<times> uuid) list" where
  "collect_suspect_dependents a cat links = List.map_filter (\<lambda>l. map_option (\<lambda>other. (l_id l, other)) (fires a cat l)) links"

definition SUSPECT_MODELS :: "string list" where
  "SUSPECT_MODELS = [''Requirement'', ''ArchitectureElement'', ''TestCase'']"

text \<open>The unflagged rows of a model among the dependents, as (model, artifact).\<close>

definition flag_candidates :: "uuid \<Rightarrow> uuid list \<Rightarrow> service_db \<Rightarrow> string \<Rightarrow> (string \<times> uuid) list" where
  "flag_candidates tenant dependents s model =
     List.map_filter (\<lambda>r. case en_artifact r of
         None \<Rightarrow> None
       | Some a \<Rightarrow> if en_model r = model \<and> en_tenant r = tenant \<and> a \<in> set dependents \<and> (model, a) \<notin> set (sd_suspect s) then Some (model, a) else None)
       (entities s)"

definition flag_suspect_artifacts :: "uuid \<Rightarrow> uuid list \<Rightarrow> service_db \<Rightarrow> nat \<times> uuid list \<times> service_db" where
  "flag_suspect_artifacts tenant dependents s =
     (let new = concat (map (flag_candidates tenant dependents s) SUSPECT_MODELS)
      in (length new, map snd new, s\<lparr>sd_suspect := sd_suspect s @ new\<rparr>))"

definition stamp_suspect_provenance :: "link_env \<Rightarrow> uuid \<Rightarrow> (nat \<times> uuid) list \<Rightarrow> uuid list \<Rightarrow> uuid option \<Rightarrow> service_db \<Rightarrow> service_db" where
  "stamp_suspect_provenance env tenant fired newly audit_entry s =
     (let ids = map fst (filter (\<lambda>(_, other). other \<in> set newly) fired)
      in update_links (\<lambda>l. if l_tenant l = tenant \<and> l_id l \<in> set ids
           then l\<lparr>l_suspect_at := Some (le_now env), l_suspect_change := audit_entry\<rparr> else l) s)"

definition propagate_suspect_status :: "link_env \<Rightarrow> link_ctx \<Rightarrow> uuid \<Rightarrow> uuid option \<Rightarrow> service_db \<Rightarrow> service_error + (nat \<times> service_db)" where
  "propagate_suspect_status env ctx source_id audit_entry s =
     (case resolve_artifact_id (tx_tenant ctx) source_id s of
        Inl e \<Rightarrow> if e = BadArtifactId then Inl e else Inr (0, s)
      | Inr a \<Rightarrow>
          (case tenant_artifact (tx_tenant ctx) s a of
             None \<Rightarrow> Inr (0, s)
           | Some row \<Rightarrow>
               (let links = filter (\<lambda>l. l_source l = a \<or> l_target l = a) (tenant_links (tx_tenant ctx) (sd_trace s));
                    fired = collect_suspect_dependents a (le_catalog env (ar_workspace row)) links
                in if fired = [] then Inr (0, s)
                   else case flag_suspect_artifacts (tx_tenant ctx) (map snd fired) s of
                          (n, newly, s1) \<Rightarrow> Inr (n, stamp_suspect_provenance env (tx_tenant ctx) fired newly audit_entry s1))))"

end
