(* ===== verification/Trace_Guarantees.thy ===== *)
theory Trace_Guarantees
  imports Trace_Service
begin

text \<open>
  What the trace link service guarantees: what a created link has passed, that proposals of agents stay under human
  control, which artifacts and links a change makes suspect, what an allocation leaves behind, and the coverage figures.
  The closing theorems show where the service does less than its documentation says.
\<close>

subsection \<open>Frames: what each helper leaves alone\<close>

lemma recompute_workspaces_keeps: "recompute_workspaces k ws s = Inr s' \<Longrightarrow> \<exists>t. s' = s\<lparr>sd_tiers := t\<rparr>"
proof (induction ws arbitrary: s)
  case Nil
  then show ?case by (intro exI [of _ "sd_tiers s"]) simp
next
  case (Cons w ws)
  then obtain c db where "recompute_workspaces k ws (s\<lparr>sd_tiers := db\<rparr>) = Inr s'"
    by (auto split: sum.splits prod.splits)
  from Cons.IH [OF this] show ?case by auto
qed

lemma recompute_keeps_tables: "recompute_requirement_levels k seeds s = Inr s' \<Longrightarrow> \<exists>t. s' = s\<lparr>sd_tiers := t\<rparr>"
  by (simp add: recompute_requirement_levels_def recompute_workspaces_keeps)

lemma recompute_failure: "recompute_requirement_levels k seeds s = Inl err \<Longrightarrow> \<exists>x. err = TiersFailed x"
proof -
  have "recompute_workspaces k ws s = Inl err \<Longrightarrow> \<exists>x. err = TiersFailed x" for ws
    by (induction ws arbitrary: s) (auto split: sum.splits)
  then show "recompute_requirement_levels k seeds s = Inl err \<Longrightarrow> \<exists>x. err = TiersFailed x"
    by (simp add: recompute_requirement_levels_def)
qed

lemma carry_out_keeps: "carry_out k rs s = Inr s' \<Longrightarrow> \<exists>t. s' = s\<lparr>sd_tiers := t\<rparr>"
proof (induction rs arbitrary: s)
  case Nil
  then show ?case by (intro exI [of _ "sd_tiers s"]) simp
next
  case (Cons r rs)
  then obtain s1 where s1: "recompute_requirement_levels k r s = Inr s1" "carry_out k rs s1 = Inr s'" by auto
  from recompute_keeps_tables [OF s1(1)] Cons.IH [OF s1(2)] show ?case by auto
qed

lemma run_recomputes_keeps:
  assumes "run_recomputes k s = Inr s'"
  obtains t where "s' = s\<lparr>sd_trace := (sd_trace s)\<lparr>td_recomputed := []\<rparr>, sd_tiers := t\<rparr>"
  using carry_out_keeps [OF assms [unfolded run_recomputes_def]] by auto

lemma emit_keeps [simp]:
  "sd_trace (emit_trace_link_event ty tenant i a b s) = sd_trace s"
  "sd_suspect (emit_trace_link_event ty tenant i a b s) = sd_suspect s"
  "sd_entities (emit_trace_link_event ty tenant i a b s) = sd_entities s"
  "sd_elements (emit_trace_link_event ty tenant i a b s) = sd_elements s"
  "sd_anchors (emit_trace_link_event ty tenant i a b s) = sd_anchors s"
  "sd_audit (emit_trace_link_event ty tenant i a b s) = sd_audit s"
  by (auto simp: emit_trace_link_event_def split: option.split)

lemma audit_keeps [simp]:
  "sd_trace (audit_link op i s) = sd_trace s" "sd_suspect (audit_link op i s) = sd_suspect s"
  "sd_entities (audit_link op i s) = sd_entities s" "sd_elements (audit_link op i s) = sd_elements s"
  "sd_anchors (audit_link op i s) = sd_anchors s"
  by (simp_all add: audit_link_def)

lemma stamp_keeps [simp]:
  "l_id (stamp_row env ctx l) = l_id l" "l_source (stamp_row env ctx l) = l_source l" "l_target (stamp_row env ctx l) = l_target l"
  "l_type (stamp_row env ctx l) = l_type l" "l_tenant (stamp_row env ctx l) = l_tenant l"
  by (simp_all add: stamp_row_def)

lemma update_links_links [simp]: "td_links (sd_trace (update_links f s)) = map f (td_links (sd_trace s))"
  by (simp add: update_links_def)

lemma update_links_keeps [simp]:
  "sd_suspect (update_links f s) = sd_suspect s" "sd_entities (update_links f s) = sd_entities s"
  "sd_elements (update_links f s) = sd_elements s" "sd_anchors (update_links f s) = sd_anchors s"
  "td_artifacts (sd_trace (update_links f s)) = td_artifacts (sd_trace s)" "td_next (sd_trace (update_links f s)) = td_next (sd_trace s)"
  by (simp_all add: update_links_def)

lemma resolve_cong:
  assumes "td_artifacts (sd_trace s') = td_artifacts (sd_trace s)" "sd_entities s' = sd_entities s" "sd_elements s' = sd_elements s"
  shows "tenant_artifact tenant s' = tenant_artifact tenant s" "entities s' = entities s"
  using assms by (simp_all add: tenant_artifact_def entities_def fun_eq_iff)

subsection \<open>A created link has passed every check\<close>

lemma tenant_artifact_in_tenant:
  "tenant_artifact tenant s a = Some r \<Longrightarrow> ar_id r = a \<and> ar_tenant r = tenant"
  by (auto simp: tenant_artifact_def dest: find_SomeD)

text \<open>A row as the workspace catalog sees it: the endpoint types the pairs of the link type are matched against.\<close>

definition endpoint_types :: "catalog \<Rightarrow> uuid \<Rightarrow> artifact_row \<Rightarrow> artifact_row \<Rightarrow> string \<Rightarrow> service_db \<Rightarrow> string \<times> string" where
  "endpoint_types cat tenant ra rb ty s =
     (if catalog_uses_subtypes cat ty then (endpoint_type tenant ra s, endpoint_type tenant rb s) else (ar_type ra, ar_type rb))"

text \<open>The catalog allows a manual link of the type between two rows.\<close>

definition catalog_allows :: "catalog \<Rightarrow> uuid \<Rightarrow> artifact_row \<Rightarrow> artifact_row \<Rightarrow> string \<Rightarrow> service_db \<Rightarrow> bool" where
  "catalog_allows cat tenant ra rb ty s \<longleftrightarrow>
     (case map_of cat ty of
        None \<Rightarrow> False
      | Some d \<Rightarrow> ld_manual_creatable d \<and>
          (\<exists>(p, q)\<in>set (ld_pairs d). pair_side_matches p (fst (endpoint_types cat tenant ra rb ty s)) \<and>
             pair_side_matches q (snd (endpoint_types cat tenant ra rb ty s))))"

lemma check_pair_allows:
  "check_pair cat ty (fst (endpoint_types cat tenant ra rb ty s)) (snd (endpoint_types cat tenant ra rb ty s)) True = Inr u
     \<longleftrightarrow> catalog_allows cat tenant ra rb ty s"
  unfolding check_pair_def catalog_allows_def by (cases "map_of cat ty") (auto simp: list_ex_iff)

lemma check_link_pair_Inr:
  assumes "check_link_pair env tenant a b ty True s = Inr u"
  obtains ra rb where "tenant_artifact tenant s a = Some ra" "tenant_artifact tenant s b = Some rb"
    "catalog_allows (le_catalog env (ar_workspace ra)) tenant ra rb ty s" "\<not> is_outdated ra" "\<not> is_outdated rb"
proof -
  obtain ra rb where r: "tenant_artifact tenant s a = Some ra" "tenant_artifact tenant s b = Some rb"
    using assms by (auto simp: check_link_pair_def split: option.splits)
  let ?cat = "le_catalog env (ar_workspace ra)"
  let ?tagged = "catalog_uses_subtypes ?cat ty"
  have l: "lift_link (check_pair ?cat ty (if ?tagged then endpoint_type tenant ra s else ar_type ra)
        (if ?tagged then endpoint_type tenant rb s else ar_type rb) True) = Inr ()" "assert_endpoints_live ra rb = Inr ()"
    using assms by (simp_all add: check_link_pair_def r Let_def)
  have "check_pair ?cat ty (fst (endpoint_types ?cat tenant ra rb ty s)) (snd (endpoint_types ?cat tenant ra rb ty s)) True = Inr ()"
    using l(1) by (cases ?tagged) (simp_all add: lift_link_def endpoint_types_def split: sum.splits)
  then have "catalog_allows ?cat tenant ra rb ty s" by (simp only: check_pair_allows)
  moreover have "\<not> is_outdated ra" "\<not> is_outdated rb" using l(2) by (simp_all add: assert_endpoints_live_def)
  ultimately show ?thesis using r that by blast
qed

lemma validate_new_Inr:
  assumes "validate_new_trace_link env tenant a b ty s = Inr u"
  shows "check_link_pair env tenant a b ty True s = Inr ()" "ty = LINK_ALLOCATED_TO \<Longrightarrow> allocation_links tenant a s = []"
    "ty = LINK_ALLOCATED_TO \<Longrightarrow> check_allocation_invariant env tenant a b s = Inr ()"
  using assms by (auto simp: validate_new_trace_link_def)

lemma persist_Inr:
  assumes "persist_trace_link env ctx a b ty why s = Inr (l, s')"
  obtains db t where "create_link (tx_tenant ctx) (le_now env) (Some (tx_user ctx)) a b ty why (sd_trace s) = Inr (l, db)"
    "s' = s\<lparr>sd_trace := db\<lparr>td_recomputed := []\<rparr>, sd_tiers := t\<rparr>"
proof -
  obtain db where c: "create_link (tx_tenant ctx) (le_now env) (Some (tx_user ctx)) a b ty why (sd_trace s) = Inr (l, db)"
    "run_recomputes (le_frames env) (s\<lparr>sd_trace := db\<rparr>) = Inr s'"
    using assms by (auto simp: persist_trace_link_def split: sum.splits)
  from run_recomputes_keeps [OF c(2)] obtain t where "s' = s\<lparr>sd_trace := db\<lparr>td_recomputed := []\<rparr>, sd_tiers := t\<rparr>" by auto
  with c(1) that show ?thesis by blast
qed

lemma create_link_row:
  assumes "links_wf db" "create_link tenant now user a b ty why db = Inr (l, db')"
  shows "l = new_link tenant now user a b ty why db" "admissible tenant a b ty db" "td_links db' = td_links db @ [l]"
    "td_artifacts db' = td_artifacts db"
proof -
  have c: "l = new_link tenant now user a b ty why db" "check_endpoints tenant a b ty db = Inr ()"
    "(b, a) \<notin> (set (type_edges tenant ty db))\<^sup>*"
    "case normalise_hierarchy_edge ty a b of None \<Rightarrow> True | Some (p, c) \<Rightarrow> (c, p) \<notin> (set (hierarchy_edges tenant db))\<^sup>*"
    and i: "\<exists>db1. insert_link l db = Inr db1 \<and> db' = (if ty \<in> set HIERARCHY_LINK_TYPES then recompute [a, b] db1 else db1)"
    using assms(2) unfolding create_link_Inr by blast+
  from i obtain db1 where d: "insert_link l db = Inr db1" "db' = (if ty \<in> set HIERARCHY_LINK_TYPES then recompute [a, b] db1 else db1)" by blast
  have n: "row_violation l (td_links db) = None" "db1 = db\<lparr>td_links := td_links db @ [l], td_next := Suc (td_next db)\<rparr>"
    using d(1) by (simp_all add: insert_link_Inr)
  have e: "ty \<in> set VALID_LINK_TYPES" "a \<noteq> b" "in_tenant tenant a db" "in_tenant tenant b db"
    using c(2) by (simp_all add: check_endpoints_Inr)
  from row_violation_new [OF assms(1) e(2,1)] n(1) c(1)
  have v: "(\<forall>r\<in>set (td_links db). \<not> (endpoints r = (a, b) \<and> l_type r = ty)) \<and>
      (ty = ''allocated-to'' \<longrightarrow> (\<forall>r\<in>set (td_links db). \<not> (l_source r = a \<and> l_type r = ''allocated-to'')))"
    by simp
  show "l = new_link tenant now user a b ty why db" by (fact c)
  show "admissible tenant a b ty db" unfolding admissible_def using e c(3,4) v by blast
  show "td_links db' = td_links db @ [l]" "td_artifacts db' = td_artifacts db" by (simp_all add: d(2) n(2))
qed

text \<open>Marking rows keeps the table consistent.\<close>

definition row_key :: "link_row \<Rightarrow> nat \<times> (uuid \<times> uuid) \<times> string \<times> uuid" where
  "row_key l = (l_id l, endpoints l, l_type l, l_tenant l)"

lemma map_keeps_wf:
  assumes "links_wf db" "td_links db' = map f (td_links db)" "td_artifacts db' = td_artifacts db" "td_next db' = td_next db"
    and key: "\<And>l. row_key (f l) = row_key l"
  shows "links_wf db'"
proof -
  have k: "l_id (f l) = l_id l" "endpoints (f l) = endpoints l" "l_source (f l) = l_source l" "l_target (f l) = l_target l"
    "l_type (f l) = l_type l" "l_tenant (f l) = l_tenant l" for l
    using key [of l] by (auto simp: row_key_def endpoints_def)
  have "row_ok db' (f l) = row_ok db l" for l
    using assms(3,4) by (simp add: row_ok_def in_tenant_def get_artifact_def k)
  moreover have "compatible (f r) (f l) = compatible r l" for r l by (simp add: compatible_def k)
  ultimately show ?thesis using assms(1) by (simp add: links_wf_def assms(2) sorted_wrt_map list_all_iff)
qed

text \<open>A successful creation, decomposed.\<close>

lemma create_trace_link_Inr:
  assumes "create_trace_link env ctx src tgt ty why s = Inr (l, s')"
  obtains a b l0 db where
    "resolve_artifact_id (tx_tenant ctx) src s = Inr a" "resolve_artifact_id (tx_tenant ctx) tgt s = Inr b"
    "validate_new_trace_link env (tx_tenant ctx) a b ty s = Inr ()"
    "create_link (tx_tenant ctx) (le_now env) (Some (tx_user ctx)) a b ty why (sd_trace s) = Inr (l0, db)"
    "l = stamp_row env ctx l0"
    "td_links (sd_trace s') = map (\<lambda>r. if l_id r = l_id l0 then stamp_row env ctx r else r) (td_links db)"
    "td_artifacts (sd_trace s') = td_artifacts db" "td_next (sd_trace s') = td_next db"
    "sd_suspect s' = sd_suspect s" "sd_entities s' = sd_entities s" "sd_elements s' = sd_elements s" "sd_anchors s' = sd_anchors s"
    "sd_audit s' = sd_audit s @ [(''create'', l_id l0)]"
proof -
  obtain a b l0 s1 where c: "resolve_artifact_id (tx_tenant ctx) src s = Inr a" "resolve_artifact_id (tx_tenant ctx) tgt s = Inr b"
      "validate_new_trace_link env (tx_tenant ctx) a b ty s = Inr ()"
      "persist_trace_link env ctx a b ty why s = Inr (l0, s1)"
    and r: "(let (l1, s2) = stamp_proposed_trace_link env ctx l0 s1; s3 = record_trace_link_created (tx_tenant ctx) l1 s2
        in if ty = LINK_ALLOCATED_TO then res_bind (recompute_requirement_levels (le_frames env) [a] s3) (\<lambda>s4. Inr (l1, s4)) else Inr (l1, s3))
       = Inr (l, s')"
    using assms by (auto simp: create_trace_link_def)
  obtain db t where db: "create_link (tx_tenant ctx) (le_now env) (Some (tx_user ctx)) a b ty why (sd_trace s) = Inr (l0, db)"
    and s1: "s1 = s\<lparr>sd_trace := db\<lparr>td_recomputed := []\<rparr>, sd_tiers := t\<rparr>"
    by (rule persist_Inr [OF c(4)])
  define s3 where "s3 = record_trace_link_created (tx_tenant ctx) (stamp_row env ctx l0)
    (update_links (\<lambda>r. if l_id r = l_id l0 then stamp_row env ctx r else r) s1)"
  have r': "(if ty = LINK_ALLOCATED_TO then res_bind (recompute_requirement_levels (le_frames env) [a] s3) (\<lambda>s4. Inr (stamp_row env ctx l0, s4))
      else Inr (stamp_row env ctx l0, s3)) = Inr (l, s')"
    using r unfolding stamp_proposed_trace_link_def Let_def prod.case s3_def .
  have l: "l = stamp_row env ctx l0" using r' by (simp split: if_splits)
  have "s3 = s3\<lparr>sd_tiers := sd_tiers s3\<rparr>" by simp
  then have s': "\<exists>t. s' = s3\<lparr>sd_tiers := t\<rparr>"
    using r' recompute_keeps_tables [of "le_frames env" "[a]" s3 s'] by (cases "ty = LINK_ALLOCATED_TO") (simp, metis Inr_inject prod.inject)
  from s' obtain t' where t': "s' = s3\<lparr>sd_tiers := t'\<rparr>" by blast
  have "td_links (sd_trace s') = map (\<lambda>r. if l_id r = l_id l0 then stamp_row env ctx r else r) (td_links db)"
    "td_artifacts (sd_trace s') = td_artifacts db" "td_next (sd_trace s') = td_next db"
    "sd_suspect s' = sd_suspect s" "sd_entities s' = sd_entities s" "sd_elements s' = sd_elements s" "sd_anchors s' = sd_anchors s"
    by (simp_all add: t' s3_def record_trace_link_created_def s1)
  moreover have "sd_audit s' = sd_audit s @ [(''create'', l_id l0)]"
    by (simp add: t' s3_def record_trace_link_created_def s1 audit_link_def update_links_def)
  ultimately show ?thesis using that c(1-3) db l by blast
qed

text \<open>The row a creation adds.\<close>

lemma created_row:
  assumes "links_wf (sd_trace s)" "create_trace_link env ctx src tgt ty why s = Inr (l, s')"
  shows "td_links (sd_trace s') = td_links (sd_trace s) @ [l]" "links_wf (sd_trace s')" "l_type l = ty" "l_tenant l = tx_tenant ctx"
    "is_proposal l \<longleftrightarrow> tx_actor_type ctx = ''agent'' \<and> tx_api_key ctx \<noteq> None"
    "l_proposed_by l = (if is_proposal l then tx_api_key ctx else None)"
    "resolve_artifact_id (tx_tenant ctx) src s = Inr (l_source l)" "resolve_artifact_id (tx_tenant ctx) tgt s = Inr (l_target l)"
    "validate_new_trace_link env (tx_tenant ctx) (l_source l) (l_target l) ty s = Inr ()"
    "admissible (tx_tenant ctx) (l_source l) (l_target l) ty (sd_trace s)"
    "sd_audit s' = sd_audit s @ [(''create'', l_id l)]" "sd_suspect s' = sd_suspect s"
proof -
  obtain a b l0 db where c: "resolve_artifact_id (tx_tenant ctx) src s = Inr a" "resolve_artifact_id (tx_tenant ctx) tgt s = Inr b"
    "validate_new_trace_link env (tx_tenant ctx) a b ty s = Inr ()"
    "create_link (tx_tenant ctx) (le_now env) (Some (tx_user ctx)) a b ty why (sd_trace s) = Inr (l0, db)"
    "l = stamp_row env ctx l0"
    "td_links (sd_trace s') = map (\<lambda>r. if l_id r = l_id l0 then stamp_row env ctx r else r) (td_links db)"
    "td_artifacts (sd_trace s') = td_artifacts db" "td_next (sd_trace s') = td_next db"
    "sd_suspect s' = sd_suspect s" "sd_audit s' = sd_audit s @ [(''create'', l_id l0)]"
    by (rule create_trace_link_Inr [OF assms(2)])
  note e = create_link_row [OF assms(1) c(4)]
  have fresh: "l_id x \<noteq> l_id l0" if "x \<in> set (td_links (sd_trace s))" for x
    using assms(1) that by (auto simp: e links_wf_def list_all_iff row_ok_def)
  have "map (\<lambda>r. if l_id r = l_id l0 then stamp_row env ctx r else r) (td_links (sd_trace s)) = td_links (sd_trace s)"
    using fresh by (auto intro: map_idI)
  then show "td_links (sd_trace s') = td_links (sd_trace s) @ [l]" by (simp add: c(5,6) e)
  show "links_wf (sd_trace s')"
    by (rule map_keeps_wf [OF create_keeps_wf [OF assms(1) c(4)] c(6) c(7,8)]) (simp add: row_key_def endpoints_def)
  have l: "l_source l = a" "l_target l = b" "l_id l = l_id l0" by (simp_all add: c(5) e)
  show "l_type l = ty" "l_tenant l = tx_tenant ctx" by (simp_all add: c(5) e)
  show "is_proposal l \<longleftrightarrow> tx_actor_type ctx = ''agent'' \<and> tx_api_key ctx \<noteq> None"
    "l_proposed_by l = (if is_proposal l then tx_api_key ctx else None)"
    by (simp_all add: c(5) e stamp_row_def is_proposal_def)
  show "resolve_artifact_id (tx_tenant ctx) src s = Inr (l_source l)" "resolve_artifact_id (tx_tenant ctx) tgt s = Inr (l_target l)"
    "validate_new_trace_link env (tx_tenant ctx) (l_source l) (l_target l) ty s = Inr ()"
    "admissible (tx_tenant ctx) (l_source l) (l_target l) ty (sd_trace s)"
    "sd_audit s' = sd_audit s @ [(''create'', l_id l)]" "sd_suspect s' = sd_suspect s"
    using c(1-3,9,10) e(2) by (simp_all add: l)
qed

text \<open>
  C13: what a successful \<open>create_trace_link\<close> means. Both ids name artifacts of the tenant, neither of them deleted; the
  catalog of the source's workspace allows the link type between them by hand; the link table admits the edge, and a source
  that is already allocated is refused. The table then has exactly one row more, with the two artifacts as endpoints, which
  is a proposal of the API key iff an agent with a key created it; one audit entry is written, and nothing becomes suspect.
\<close>

theorem created_link_passed_checks:
  assumes "links_wf (sd_trace s)" "create_trace_link env ctx src tgt ty why s = Inr (l, s')"
  shows "\<exists>ra rb. resolve_artifact_id (tx_tenant ctx) src s = Inr (l_source l) \<and> resolve_artifact_id (tx_tenant ctx) tgt s = Inr (l_target l) \<and>
    tenant_artifact (tx_tenant ctx) s (l_source l) = Some ra \<and> tenant_artifact (tx_tenant ctx) s (l_target l) = Some rb \<and>
    \<not> is_outdated ra \<and> \<not> is_outdated rb \<and> catalog_allows (le_catalog env (ar_workspace ra)) (tx_tenant ctx) ra rb ty s \<and>
    admissible (tx_tenant ctx) (l_source l) (l_target l) ty (sd_trace s) \<and>
    td_links (sd_trace s') = td_links (sd_trace s) @ [l] \<and> l_type l = ty \<and> l_tenant l = tx_tenant ctx \<and>
    (is_proposal l \<longleftrightarrow> tx_actor_type ctx = ''agent'' \<and> tx_api_key ctx \<noteq> None) \<and>
    l_proposed_by l = (if is_proposal l then tx_api_key ctx else None) \<and>
    sd_audit s' = sd_audit s @ [(''create'', l_id l)] \<and> sd_suspect s' = sd_suspect s"
proof -
  note r = created_row [OF assms]
  obtain ra rb where "tenant_artifact (tx_tenant ctx) s (l_source l) = Some ra" "tenant_artifact (tx_tenant ctx) s (l_target l) = Some rb"
    "catalog_allows (le_catalog env (ar_workspace ra)) (tx_tenant ctx) ra rb ty s" "\<not> is_outdated ra" "\<not> is_outdated rb"
    by (rule check_link_pair_Inr [OF validate_new_Inr(1) [OF r(9)]])
  with r show ?thesis by simp
qed

text \<open>A workspace with a requirement, an element of the architecture, and a requirement of another workspace.\<close>

definition row_in :: "string \<Rightarrow> string \<Rightarrow> uuid \<Rightarrow> artifact_row" where
  "row_in ty ws a = \<lparr>ar_id = a, ar_tenant = ''t'', ar_workspace = Some ws, ar_type = ty, ar_lifecycle = ''active''\<rparr>"

definition req_entity :: "uuid \<Rightarrow> uuid \<Rightarrow> entity_row" where
  "req_entity e a =
     \<lparr>en_model = ''Requirement'', en_id = e, en_artifact = Some a, en_tenant = ''t'', en_title = [], en_subtype = None, en_intent = ''unassigned''\<rparr>"

definition svc_example :: service_db where
  "svc_example =
     \<lparr>sd_trace = \<lparr>td_artifacts = [row_in ''Requirement'' ''w'' ''a1'', row_in ''ArchitectureElement'' ''w'' ''a2'', row_in ''Requirement'' ''v'' ''a3''],
                  td_links = [], td_next = 0, td_recomputed = []\<rparr>,
      sd_tiers = \<lparr>tb_workspaces = [''w'', ''v''], tb_tiers = [], tb_reqs = [], tb_elements = [], tb_parents = [], tb_links = []\<rparr>,
      sd_elements = [\<lparr>ae_id = ''e2'', ae_artifact = ''a2'', ae_tenant = ''t'', ae_workspace = ''w'', ae_title = [], ae_description = [],
                      ae_type = ''system'', ae_parent = None, ae_asil = None, ae_make_or_buy = None, ae_uid = None, ae_version = 1,
                      ae_outdated = False, ae_artifact_parent = None\<rparr>],
      sd_entities = [req_entity ''e1'' ''a1'', req_entity ''e3'' ''a3''],
      sd_suspect = [], sd_anchors = [], sd_audit = [], sd_events = []\<rparr>"

definition svc_env :: link_env where
  "svc_env = \<lparr>le_now = 7, le_frames = 20, le_catalog = (\<lambda>_. BUILTIN_LINK_TYPES), le_tier = (\<lambda>_. None), le_state = (\<lambda>_ _. None),
              le_freezes = (\<lambda>_ _ _. False)\<rparr>"

definition human_ctx :: link_ctx where
  "human_ctx = \<lparr>tx_user = ''u'', tx_tenant = ''t'', tx_actor_type = ''user'', tx_api_key = None\<rparr>"

definition agent_ctx :: link_ctx where
  "agent_ctx = \<lparr>tx_user = ''u'', tx_tenant = ''t'', tx_actor_type = ''agent'', tx_api_key = Some ''k''\<rparr>"

definition result :: "service_db \<Rightarrow> service_error + ('a \<times> service_db) \<Rightarrow> service_db" where
  "result s r = (case r of Inl _ \<Rightarrow> s | Inr (_, s') \<Rightarrow> s')"

text \<open>The agent proposes an allocation of the requirement.\<close>

definition svc_proposed :: service_db where
  "svc_proposed = result svc_example (create_trace_link svc_env agent_ctx ''e1'' ''e2'' ''allocated-to'' [] svc_example)"

definition proposal_key where
  "proposal_key l = (l_id l, endpoints l, l_type l, l_tenant l, l_proposed_by l, l_proposed_at l)"

lemma svc_proposed_links:
  "map proposal_key (td_links (sd_trace svc_proposed)) = [(0, (''a1'', ''a2''), ''allocated-to'', ''t'', Some ''k'', Some 7)]"
  by code_simp

lemma svc_example_wf: "links_wf (sd_trace svc_example)"
  by code_simp

lemma svc_example_created:
  obtains l where "create_trace_link svc_env agent_ctx ''e1'' ''e2'' ''allocated-to'' [] svc_example = Inr (l, svc_proposed)"
proof -
  have "(case create_trace_link svc_env agent_ctx ''e1'' ''e2'' ''allocated-to'' [] svc_example of Inl _ \<Rightarrow> False | Inr _ \<Rightarrow> True)"
    by code_simp
  then show ?thesis
    using that by (cases "create_trace_link svc_env agent_ctx ''e1'' ''e2'' ''allocated-to'' [] svc_example")
      (auto simp: svc_proposed_def result_def)
qed

theorem created_link_passed_checks_witness:
  "\<exists>l. create_trace_link svc_env agent_ctx ''e1'' ''e2'' ''allocated-to'' [] svc_example = Inr (l, svc_proposed) \<and>
     td_links (sd_trace svc_proposed) = [l] \<and> l_type l = ''allocated-to'' \<and> is_proposal l"
proof -
  obtain l where l: "create_trace_link svc_env agent_ctx ''e1'' ''e2'' ''allocated-to'' [] svc_example = Inr (l, svc_proposed)"
    by (rule svc_example_created)
  have "td_links (sd_trace svc_example) = []" "tx_actor_type agent_ctx = ''agent''" "tx_api_key agent_ctx \<noteq> None" by code_simp+
  with created_link_passed_checks [OF svc_example_wf l] l show ?thesis by auto
qed

subsection \<open>Agents cannot dispose of proposals\<close>

text \<open>
  The successful steps of an agent that carries an API key, as any agent request does, through the operations that apply Rule 0 or
  create proposals. The cascade of an entity's deletion is left out: it is meant to delete proposals too.
\<close>

definition agent_with_key :: "link_ctx \<Rightarrow> bool" where
  "agent_with_key ctx \<longleftrightarrow> tx_actor_type ctx = ''agent'' \<and> tx_api_key ctx \<noteq> None"

inductive agent_step :: "service_db \<Rightarrow> service_db \<Rightarrow> bool" where
  agent_creates: "agent_with_key ctx \<Longrightarrow> create_trace_link env ctx src tgt ty why s = Inr (l, s') \<Longrightarrow> agent_step s s'"
| agent_confirms: "agent_with_key ctx \<Longrightarrow> confirm_proposed_link env ctx i s = Inr (l, s') \<Longrightarrow> agent_step s s'"
| agent_discards: "agent_with_key ctx \<Longrightarrow> discard_proposed_link env ctx i s = Inr (u, s') \<Longrightarrow> agent_step s s'"
| agent_deletes: "agent_with_key ctx \<Longrightarrow> delete_trace_link env ctx i n s = Inr (u, s') \<Longrightarrow> agent_step s s'"
| agent_propagates: "agent_with_key ctx \<Longrightarrow> propagate_suspect_status env ctx a audit s = Inr (k, s') \<Longrightarrow> agent_step s s'"

text \<open>The proposals of the first table are in the second, and what is new in the second is a proposal.\<close>

definition under_review :: "service_db \<Rightarrow> service_db \<Rightarrow> bool" where
  "under_review s s' \<longleftrightarrow>
     proposal_key ` {l \<in> set (td_links (sd_trace s)). is_proposal l} \<subseteq> proposal_key ` set (td_links (sd_trace s')) \<and>
     proposal_key ` {l \<in> set (td_links (sd_trace s')). \<not> is_proposal l} \<subseteq> proposal_key ` set (td_links (sd_trace s))"

lemma proposal_key_proposal: "proposal_key l = proposal_key l' \<Longrightarrow> is_proposal l \<longleftrightarrow> is_proposal l'"
  by (simp add: proposal_key_def is_proposal_def)

lemma under_review_refl: "under_review s s"
  by (auto simp: under_review_def)

lemma under_review_trans:
  assumes "under_review s s1" "under_review s1 s2"
  shows "under_review s s2"
proof -
  have "proposal_key l \<in> proposal_key ` set (td_links (sd_trace s2))" if l: "l \<in> set (td_links (sd_trace s))" "is_proposal l" for l
  proof -
    from assms(1) l obtain l1 where l1: "l1 \<in> set (td_links (sd_trace s1))" "proposal_key l = proposal_key l1"
      unfolding under_review_def by blast
    with proposal_key_proposal [OF l1(2)] l(2) assms(2) show ?thesis unfolding under_review_def by auto
  qed
  moreover have "proposal_key l \<in> proposal_key ` set (td_links (sd_trace s))" if l: "l \<in> set (td_links (sd_trace s2))" "\<not> is_proposal l" for l
  proof -
    from assms(2) l obtain l1 where l1: "l1 \<in> set (td_links (sd_trace s1))" "proposal_key l = proposal_key l1"
      unfolding under_review_def by blast
    with proposal_key_proposal [OF l1(2)] l(2) assms(1) show ?thesis unfolding under_review_def by auto
  qed
  ultimately show ?thesis unfolding under_review_def by blast
qed

lemma under_review_create:
  assumes "agent_with_key ctx" "links_wf (sd_trace s)" "create_trace_link env ctx src tgt ty why s = Inr (l, s')"
  shows "links_wf (sd_trace s') \<and> under_review s s'"
  using created_row(1,2,5) [OF assms(2,3)] assms(1) by (auto simp: under_review_def agent_with_key_def)

lemma under_review_map:
  assumes "links_wf (sd_trace s)" "td_links (sd_trace s') = map f (td_links (sd_trace s))"
    "td_artifacts (sd_trace s') = td_artifacts (sd_trace s)" "td_next (sd_trace s') = td_next (sd_trace s)"
    and key: "\<And>l. proposal_key (f l) = proposal_key l"
  shows "links_wf (sd_trace s') \<and> under_review s s'"
proof
  have "row_key (f l) = row_key l" for l using key [of l] by (simp add: proposal_key_def row_key_def)
  then show "links_wf (sd_trace s')" by (rule map_keeps_wf [OF assms(1-4)])
  show "under_review s s'"
    unfolding under_review_def assms(2) using key proposal_key_proposal [OF key] by (auto simp: image_iff)
qed

lemma own_link_in: "own_link tenant i s = Some l \<Longrightarrow> l \<in> set (td_links (sd_trace s)) \<and> l_id l = i \<and> l_tenant l = tenant"
  by (auto simp: own_link_def tenant_links_def dest!: find_SomeD)

lemma ids_unique:
  assumes "links_wf db" "l \<in> set (td_links db)" "r \<in> set (td_links db)" "l_id l = l_id r"
  shows "l = r"
proof -
  have "sorted_wrt (\<lambda>r l. l_id r \<noteq> l_id l) (td_links db)"
    using assms(1) by (auto simp: links_wf_def compatible_def intro: sorted_wrt_mono_rel [rotated])
  then have "distinct (map l_id (td_links db))"
    by (simp add: distinct_map sorted_wrt_iff_nth_less distinct_conv_nth inj_on_def) (metis in_set_conv_nth linorder_neqE_nat)
  then show ?thesis using assms(2-4) by (auto simp: distinct_map inj_on_def)
qed

lemma delete_trace_link_Inr:
  assumes "delete_trace_link env ctx i n s = Inr (u, s')"
  obtains l where "own_link (tx_tenant ctx) i s = Some l" "tx_actor_type ctx = ''agent'' \<Longrightarrow> \<not> is_proposal l \<and> l_proposed_by l = None"
    "td_links (sd_trace s') = filter (\<lambda>r. l_id r \<noteq> i) (td_links (sd_trace s))"
    "td_artifacts (sd_trace s') = td_artifacts (sd_trace s)" "td_next (sd_trace s') = td_next (sd_trace s)"
    "sd_suspect s' = sd_suspect s" "sd_entities s' = sd_entities s" "sd_elements s' = sd_elements s"
proof -
  let ?s1 = "s\<lparr>sd_anchors := filter (\<lambda>a. a \<noteq> (tx_tenant ctx, i)) (sd_anchors s)\<rparr>"
  obtain db s2 s3 where g: "\<not> (tx_actor_type ctx = ''agent'' \<and>
        (case own_link (tx_tenant ctx) i s of None \<Rightarrow> False | Some l \<Rightarrow> l_proposed_by l \<noteq> None \<or> l_proposed_at l \<noteq> None))"
    and d: "delete_link (tx_tenant ctx) i (sd_trace ?s1) = Inr ((), db)"
    and r: "run_recomputes (le_frames env) (?s1\<lparr>sd_trace := db\<rparr>) = Inr s2"
    and s3: "case own_link (tx_tenant ctx) i s of None \<Rightarrow> s3 = s2 \<and> s' = s2
      | Some l \<Rightarrow> (if l_type l = LINK_ALLOCATED_TO then recompute_requirement_levels (le_frames env) [l_source l] s2 else Inr s2) = Inr s3 \<and>
          s' = emit_trace_link_event ''TRACE_LINK_DELETED'' (tx_tenant ctx) i (l_source l) (l_target l) s3"
    using assms unfolding delete_trace_link_def Let_def res_bind_Inr_iff by (auto split: sum.splits option.splits)
  have "get_link (tx_tenant ctx) i (sd_trace s) \<noteq> Inl (LinkDoesNotExist i)" using d by (auto simp: delete_link_def)
  then obtain l where l: "own_link (tx_tenant ctx) i s = Some l" by (auto simp: get_link_def own_link_def split: option.splits)
  from run_recomputes_keeps [OF r] obtain t where s2: "s2 = ?s1\<lparr>sd_trace := db\<lparr>td_recomputed := []\<rparr>, sd_tiers := t\<rparr>" by auto
  have "\<exists>t. s3 = s2\<lparr>sd_tiers := t\<rparr>"
    using s3 recompute_keeps_tables [of "le_frames env" "[l_source l]" s2 s3] exI [of "\<lambda>t. s2 = s2\<lparr>sd_tiers := t\<rparr>" "sd_tiers s2"]
    by (auto simp: l split: if_splits)
  then obtain t' where t': "s3 = s2\<lparr>sd_tiers := t'\<rparr>" by blast
  have s': "s' = emit_trace_link_event ''TRACE_LINK_DELETED'' (tx_tenant ctx) i (l_source l) (l_target l) s3" using s3 by (simp add: l)
  show ?thesis
    using that [OF l] g delete_link_rows [OF d] by (simp add: l s' t' s2 is_proposal_def)
qed

lemma under_review_delete:
  assumes "tx_actor_type ctx = ''agent''" "links_wf (sd_trace s)" "delete_trace_link env ctx i n s = Inr (u, s')"
  shows "links_wf (sd_trace s') \<and> under_review s s'"
proof -
  obtain l where l: "own_link (tx_tenant ctx) i s = Some l" "\<not> is_proposal l"
    and s': "td_links (sd_trace s') = filter (\<lambda>r. l_id r \<noteq> i) (td_links (sd_trace s))"
      "td_artifacts (sd_trace s') = td_artifacts (sd_trace s)" "td_next (sd_trace s') = td_next (sd_trace s)"
    by (rule delete_trace_link_Inr [OF assms(3)]) (use assms(1) in blast)
  have "r = l" if "r \<in> set (td_links (sd_trace s))" "l_id r = i" for r
    using own_link_in [OF l(1)] ids_unique [OF assms(2)] that by metis
  with l(2) have "under_review s s'" by (auto simp: under_review_def s')
  with filter_keeps_wf [OF assms(2) s'(2,3,1)] show ?thesis by simp
qed

lemma cascade_noop: "cascade_delete_trace_links env ctx a s = Inr (0, s)"
proof -
  have "List.map_filter neighbor_link_id xs = []" for xs
    by (induction xs) (simp_all add: map_filter_simps neighbor_link_id_def)
  then show ?thesis by (simp add: cascade_delete_trace_links_def Let_def)
qed

text \<open>A propagation, decomposed.\<close>

lemma propagate_Inr:
  assumes "propagate_suspect_status env ctx src audit s = Inr (n, s')"
  obtains (unchanged) "n = 0" "s' = s"
      "\<forall>a row. resolve_artifact_id (tx_tenant ctx) src s = Inr a \<longrightarrow> tenant_artifact (tx_tenant ctx) s a = Some row \<longrightarrow>
         collect_suspect_dependents a (le_catalog env (ar_workspace row))
           (filter (\<lambda>l. l_source l = a \<or> l_target l = a) (tenant_links (tx_tenant ctx) (sd_trace s))) = []"
  | (fired) a row new stamped fired where "resolve_artifact_id (tx_tenant ctx) src s = Inr a" "tenant_artifact (tx_tenant ctx) s a = Some row"
      "fired = collect_suspect_dependents a (le_catalog env (ar_workspace row))
         (filter (\<lambda>l. l_source l = a \<or> l_target l = a) (tenant_links (tx_tenant ctx) (sd_trace s)))"
      "new = concat (map (flag_candidates (tx_tenant ctx) (map snd fired) s) SUSPECT_MODELS)" "n = length new"
      "stamped = map fst (filter (\<lambda>(_, other). other \<in> set (map snd new)) fired)"
      "s' = update_links (\<lambda>l. if l_tenant l = tx_tenant ctx \<and> l_id l \<in> set stamped
         then l\<lparr>l_suspect_at := Some (le_now env), l_suspect_change := audit\<rparr> else l) (s\<lparr>sd_suspect := sd_suspect s @ new\<rparr>)"
proof (cases "resolve_artifact_id (tx_tenant ctx) src s")
  case (Inl e)
  with assms have "n = 0" "s' = s" by (simp_all add: propagate_suspect_status_def split: if_splits)
  then show ?thesis by (rule unchanged) (simp add: Inl)
next
  case a: (Inr a)
  show ?thesis
  proof (cases "tenant_artifact (tx_tenant ctx) s a")
    case None
    with a assms have "n = 0" "s' = s" by (simp_all add: propagate_suspect_status_def)
    then show ?thesis by (rule unchanged) (use a None in simp)
  next
    case (Some row)
    define fs where "fs = collect_suspect_dependents a (le_catalog env (ar_workspace row))
      (filter (\<lambda>l. l_source l = a \<or> l_target l = a) (tenant_links (tx_tenant ctx) (sd_trace s)))"
    have p: "propagate_suspect_status env ctx src audit s = (if fs = [] then Inr (0, s)
        else case flag_suspect_artifacts (tx_tenant ctx) (map snd fs) s of
          (n, newly, s1) \<Rightarrow> Inr (n, stamp_suspect_provenance env (tx_tenant ctx) fs newly audit s1))"
      by (simp add: propagate_suspect_status_def a Some Let_def fs_def)
    show ?thesis
    proof (cases "fs = []")
      case True
      with p assms have "n = 0" "s' = s" by simp_all
      then show ?thesis by (rule unchanged) (use a Some True fs_def in simp)
    next
      case False
      with p assms have "n = length (concat (map (flag_candidates (tx_tenant ctx) (map snd fs) s) SUSPECT_MODELS))"
        "s' = stamp_suspect_provenance env (tx_tenant ctx) fs (map snd (concat (map (flag_candidates (tx_tenant ctx) (map snd fs) s) SUSPECT_MODELS)))
          audit (s\<lparr>sd_suspect := sd_suspect s @ concat (map (flag_candidates (tx_tenant ctx) (map snd fs) s) SUSPECT_MODELS)\<rparr>)"
        by (simp_all add: flag_suspect_artifacts_def Let_def)
      then show ?thesis
        by (intro fired [OF a Some fs_def refl _ refl]) (simp_all add: stamp_suspect_provenance_def Let_def)
    qed
  qed
qed

lemma under_review_propagate:
  assumes "links_wf (sd_trace s)" "propagate_suspect_status env ctx src audit s = Inr (n, s')"
  shows "links_wf (sd_trace s') \<and> under_review s s'"
  using assms(2)
proof (cases rule: propagate_Inr)
  case unchanged
  then show ?thesis using assms(1) by (simp add: under_review_refl)
next
  case (fired a row new stamped fired)
  show ?thesis
    by (rule under_review_map [OF assms(1), where f = "\<lambda>l. if l_tenant l = tx_tenant ctx \<and> l_id l \<in> set stamped
         then l\<lparr>l_suspect_at := Some (le_now env), l_suspect_change := audit\<rparr> else l"])
      (simp_all add: fired(7) proposal_key_def endpoints_def)
qed

lemma agent_step_ok:
  assumes "agent_step s s'" "links_wf (sd_trace s)"
  shows "links_wf (sd_trace s') \<and> under_review s s'"
  using assms
proof (cases rule: agent_step.cases)
  case agent_creates
  then show ?thesis using under_review_create assms(2) by blast
next
  case agent_confirms
  then show ?thesis by (simp add: agent_with_key_def confirm_proposed_link_def)
next
  case agent_discards
  then show ?thesis by (simp add: agent_with_key_def discard_proposed_link_def)
next
  case agent_deletes
  then show ?thesis using under_review_delete assms(2) unfolding agent_with_key_def by blast
next
  case agent_propagates
  then show ?thesis using under_review_propagate assms(2) by blast
qed

text \<open>
  C14: proposals stay under human review. Whatever creations, confirmations, rejections, single deletions and suspect
  propagations agents with an API key carry out, every proposal of the table stays in it with its endpoints, type and
  proposer, and every link that is not a proposal was there before: through these operations an agent can neither settle a proposal nor add
  an unreviewed link. Allocation and its removal are not among them, see \<open>agent_erases_proposal\<close>, nor is the cascade.
\<close>

theorem proposals_stay_under_review:
  assumes "links_wf (sd_trace s)" "agent_step\<^sup>*\<^sup>* s s'"
  shows "(\<forall>l\<in>set (td_links (sd_trace s)). is_proposal l \<longrightarrow> proposal_key l \<in> proposal_key ` set (td_links (sd_trace s'))) \<and>
    (\<forall>l\<in>set (td_links (sd_trace s')). \<not> is_proposal l \<longrightarrow> proposal_key l \<in> proposal_key ` set (td_links (sd_trace s)))"
proof -
  from assms(2,1) have "links_wf (sd_trace s') \<and> under_review s s'"
  proof (induction rule: rtranclp_induct)
    case base
    then show ?case by (simp add: under_review_refl)
  next
    case (step s1 s2)
    then show ?case using agent_step_ok [of s1 s2] under_review_trans [of s s1 s2] by blast
  qed
  then show ?thesis unfolding under_review_def by blast
qed

definition svc_flagged :: service_db where
  "svc_flagged = result svc_proposed (propagate_suspect_status svc_env agent_ctx ''e1'' (Some ''audit'') svc_proposed)"

lemma svc_proposed_wf: "links_wf (sd_trace svc_proposed)"
  by code_simp

lemma svc_flagged_step:
  "propagate_suspect_status svc_env agent_ctx ''e1'' (Some ''audit'') svc_proposed = Inr (1, svc_flagged)"
proof -
  have "(case propagate_suspect_status svc_env agent_ctx ''e1'' (Some ''audit'') svc_proposed of Inl _ \<Rightarrow> False | Inr (n, _) \<Rightarrow> n = 1)"
    by code_simp
  then show ?thesis
    by (cases "propagate_suspect_status svc_env agent_ctx ''e1'' (Some ''audit'') svc_proposed") (auto simp: svc_flagged_def result_def)
qed

theorem proposals_stay_under_review_witness:
  "agent_step svc_proposed svc_flagged \<and> map is_proposal (td_links (sd_trace svc_proposed)) = [True] \<and>
   (0, (''a1'', ''a2''), ''allocated-to'', ''t'', Some ''k'', Some 7) \<in> proposal_key ` set (td_links (sd_trace svc_flagged))"
proof -
  have "agent_with_key agent_ctx" by code_simp
  then have step: "agent_step svc_proposed svc_flagged" by (rule agent_propagates [OF _ svc_flagged_step])
  have p: "map is_proposal (td_links (sd_trace svc_proposed)) = [True]" by code_simp
  obtain l where l: "td_links (sd_trace svc_proposed) = [l]" "proposal_key l = (0, (''a1'', ''a2''), ''allocated-to'', ''t'', Some ''k'', Some 7)"
    using svc_proposed_links by auto
  with p have "is_proposal l" by simp
  with l conjunct1 [OF proposals_stay_under_review [OF svc_proposed_wf r_into_rtranclp [of agent_step, OF step]]] step p show ?thesis by auto
qed

subsection \<open>Suspect propagation\<close>

text \<open>
  The artifact a link makes questionable when artifact \<open>a\<close> changes, as the rule table of \<open>propagate_suspect_status\<close> documents
  it: the source of a link whose target changed, or the target of a link whose source (or parent) changed.
\<close>

definition questioned :: "uuid \<Rightarrow> catalog \<Rightarrow> link_row \<Rightarrow> uuid \<Rightarrow> bool" where
  "questioned a cat l x \<longleftrightarrow> x \<noteq> a \<and>
     (case map_of cat (l_type l) of
        None \<Rightarrow> False
      | Some d \<Rightarrow>
          (ld_suspect_rule d = ''target_change_flags_source'' \<and> l_target l = a \<and> l_source l = x) \<or>
          (ld_suspect_rule d \<in> {''source_change_flags_target'', ''parent_change_flags_children''} \<and> l_source l = a \<and> l_target l = x))"

lemma fires_iff: "fires a cat l = Some x \<longleftrightarrow> questioned a cat l x"
  by (cases "map_of cat (l_type l)") (auto simp: fires_def questioned_def Let_def)

lemma map_filter_Some: "y \<in> set (List.map_filter f xs) \<longleftrightarrow> (\<exists>x\<in>set xs. f x = Some y)"
  by (auto simp: List.map_filter_def image_iff)

lemma collect_set: "(i, x) \<in> set (collect_suspect_dependents a cat ls) \<longleftrightarrow> (\<exists>l\<in>set ls. l_id l = i \<and> questioned a cat l x)"
  by (auto simp: collect_suspect_dependents_def map_filter_Some fires_iff [symmetric])

lemma questioned_touches: "questioned a cat l x \<Longrightarrow> l_source l = a \<or> l_target l = a"
  by (auto simp: questioned_def split: option.splits)

lemma candidates_set:
  "(m, x) \<in> set (flag_candidates tenant xs s model) \<longleftrightarrow> m = model \<and> x \<in> set xs \<and> (model, x) \<notin> set (sd_suspect s) \<and>
     (\<exists>r\<in>set (entities s). en_model r = model \<and> en_artifact r = Some x \<and> en_tenant r = tenant)"
  by (auto simp: flag_candidates_def map_filter_Some split: option.splits if_splits)

text \<open>The rows a change of \<open>a\<close> newly makes suspect.\<close>

definition newly_suspect :: "uuid \<Rightarrow> catalog \<Rightarrow> uuid \<Rightarrow> service_db \<Rightarrow> string \<Rightarrow> uuid \<Rightarrow> bool" where
  "newly_suspect tenant cat a s model x \<longleftrightarrow> model \<in> set SUSPECT_MODELS \<and> (model, x) \<notin> set (sd_suspect s) \<and>
     (\<exists>r\<in>set (entities s). en_model r = model \<and> en_artifact r = Some x \<and> en_tenant r = tenant) \<and>
     (\<exists>l\<in>set (tenant_links tenant (sd_trace s)). questioned a cat l x)"

text \<open>
  C15: suspect propagation is exact. When artifact \<open>a\<close> of the tenant changes, the rows that become suspect are exactly the
  unflagged requirements, elements and test cases at the far end of a link of the tenant whose rule fires for the change, and
  the returned number is how many they are; exactly the links that caused a flag are stamped with the time and the audit
  entry, and no other link is touched.
\<close>

theorem suspect_propagation_exact:
  assumes "links_wf (sd_trace s)" "resolve_artifact_id (tx_tenant ctx) src s = Inr a" "tenant_artifact (tx_tenant ctx) s a = Some row"
    and p: "propagate_suspect_status env ctx src audit s = Inr (n, s')"
  shows "\<exists>new. sd_suspect s' = sd_suspect s @ new \<and> n = length new \<and>
    (\<forall>m x. (m, x) \<in> set new \<longleftrightarrow> newly_suspect (tx_tenant ctx) (le_catalog env (ar_workspace row)) a s m x) \<and>
    td_links (sd_trace s') = map (\<lambda>l.
      if l_tenant l = tx_tenant ctx \<and>
        (\<exists>m x. questioned a (le_catalog env (ar_workspace row)) l x \<and> newly_suspect (tx_tenant ctx) (le_catalog env (ar_workspace row)) a s m x)
      then l\<lparr>l_suspect_at := Some (le_now env), l_suspect_change := audit\<rparr> else l) (td_links (sd_trace s))"
proof -
  let ?cat = "le_catalog env (ar_workspace row)"
  let ?t = "tx_tenant ctx"
  let ?new = "newly_suspect ?t ?cat a s"
  define fs where "fs = collect_suspect_dependents a ?cat (filter (\<lambda>l. l_source l = a \<or> l_target l = a) (tenant_links ?t (sd_trace s)))"
  define new where "new = concat (map (flag_candidates ?t (map snd fs) s) SUSPECT_MODELS)"
  define stamped where "stamped = map fst (filter (\<lambda>(_, other). other \<in> set (map snd new)) fs)"
  have fs: "(i, x) \<in> set fs \<longleftrightarrow> (\<exists>l\<in>set (tenant_links ?t (sd_trace s)). l_id l = i \<and> questioned a ?cat l x)" for i x
    unfolding fs_def collect_set using questioned_touches by fastforce
  have "x \<in> set (map snd fs) \<longleftrightarrow> (\<exists>l\<in>set (tenant_links ?t (sd_trace s)). questioned a ?cat l x)" for x
    using fs by (metis (no_types) imageE image_eqI list.set_map prod.collapse snd_conv)
  then have new: "(m, x) \<in> set new \<longleftrightarrow> ?new m x" for m x
    unfolding new_def newly_suspect_def by (auto simp: candidates_set)
  have st: "l_id l \<in> set stamped \<longleftrightarrow> (\<exists>m x. questioned a ?cat l x \<and> ?new m x)"
    if l: "l \<in> set (td_links (sd_trace s))" "l_tenant l = ?t" for l
  proof -
    have "l_id l \<in> set stamped \<longleftrightarrow> (\<exists>m x. (l_id l, x) \<in> set fs \<and> (m, x) \<in> set new)"
      by (force simp: stamped_def)
    also have "\<dots> \<longleftrightarrow> (\<exists>m x. questioned a ?cat l x \<and> ?new m x)"
      unfolding fs new using ids_unique [OF assms(1) _ l(1)] l by (auto simp: tenant_links_def)
    finally show ?thesis .
  qed
  have "sd_suspect s' = sd_suspect s @ new \<and> n = length new \<and> td_links (sd_trace s') =
      map (\<lambda>l. if l_tenant l = ?t \<and> l_id l \<in> set stamped then l\<lparr>l_suspect_at := Some (le_now env), l_suspect_change := audit\<rparr> else l)
        (td_links (sd_trace s))"
    using p
  proof (cases rule: propagate_Inr)
    case unchanged
    note n = unchanged
    from n(3) [rule_format, OF assms(2,3)] have "fs = []" by (simp add: fs_def)
    then have "stamped = []" by (simp add: stamped_def)
    moreover have "new = []"
    proof (rule ccontr)
      assume "new \<noteq> []"
      then obtain m x where "(m, x) \<in> set new" by (cases new) auto
      with \<open>fs = []\<close> show False by (auto simp: new_def candidates_set)
    qed
    ultimately have "stamped = []" "new = []" by simp_all
    with n(1,2) show ?thesis by (simp add: map_idI)
  next
    case (fired a' row' new' stamped' fs')
    with assms(2,3) show ?thesis by (simp add: new_def stamped_def fs_def)
  qed
  moreover have "map (\<lambda>l. if l_tenant l = ?t \<and> l_id l \<in> set stamped then l\<lparr>l_suspect_at := Some (le_now env), l_suspect_change := audit\<rparr> else l)
        (td_links (sd_trace s)) =
      map (\<lambda>l. if l_tenant l = ?t \<and> (\<exists>m x. questioned a ?cat l x \<and> ?new m x)
        then l\<lparr>l_suspect_at := Some (le_now env), l_suspect_change := audit\<rparr> else l) (td_links (sd_trace s))"
    using st by (intro map_cong refl) auto
  ultimately show ?thesis using new by (intro exI [of _ new]) simp
qed

theorem suspect_propagation_exact_witness:
  "propagate_suspect_status svc_env agent_ctx ''e1'' (Some ''audit'') svc_proposed = Inr (1, svc_flagged) \<and>
   newly_suspect ''t'' BUILTIN_LINK_TYPES ''a1'' svc_proposed ''ArchitectureElement'' ''a2'' \<and>
   sd_suspect svc_flagged = [(''ArchitectureElement'', ''a2'')]"
proof -
  let ?row = "row_in ''Requirement'' ''w'' ''a1''"
  have r: "resolve_artifact_id (tx_tenant agent_ctx) ''e1'' svc_proposed = Inr ''a1''" by code_simp
  have a: "tenant_artifact (tx_tenant agent_ctx) svc_proposed ''a1'' = Some ?row" by code_simp
  have f: "sd_suspect svc_proposed = []" "sd_suspect svc_flagged = [(''ArchitectureElement'', ''a2'')]" by code_simp+
  have c: "le_catalog svc_env (ar_workspace ?row) = BUILTIN_LINK_TYPES" "tx_tenant agent_ctx = ''t''"
    by (simp_all add: svc_env_def agent_ctx_def)
  show ?thesis
    using suspect_propagation_exact [OF svc_proposed_wf r a svc_flagged_step] svc_flagged_step f unfolding c by auto
qed

subsection \<open>Allocation coverage\<close>

text \<open>
  The coverage figures are consistent. The requirements of the element's workspace are partitioned into those allocated to
  the element, those excluded from allocation, and the reported gaps; the ratio is a percentage, and it is 100 exactly when
  some requirement is allocated and there is no gap.
\<close>

theorem allocation_coverage_consistent:
  assumes "get_allocation_coverage ctx e s = Inr c"
  shows "\<exists>el. get_element (tx_tenant ctx) (sd_elements s) e = Some el \<and>
    cv_allocated c + cv_not_allocatable c + length (cv_unallocated c) = length (workspace_requirements (tx_tenant ctx) (ae_workspace el) s) \<and>
    0 \<le> cv_ratio c \<and> cv_ratio c \<le> 100 \<and> (cv_ratio c = 100 \<longleftrightarrow> cv_allocated c > 0 \<and> cv_unallocated c = [])"
proof -
  obtain el where el: "get_element (tx_tenant ctx) (sd_elements s) e = Some el"
    using assms by (auto simp: get_allocation_coverage_def split: option.splits)
  define reqs where "reqs = workspace_requirements (tx_tenant ctx) (ae_workspace el) s"
  define P :: "entity_row \<Rightarrow> bool" where "P = (\<lambda>r. case en_artifact r of None \<Rightarrow> False | Some a \<Rightarrow>
      a \<in> set (map l_source (filter (\<lambda>l. l_target l = ae_artifact el \<and> l_type l = LINK_ALLOCATED_TO) (tenant_links (tx_tenant ctx) (sd_trace s)))))"
  define A where "A = length (filter P reqs)"
  define N where "N = length (filter (\<lambda>r. \<not> P r \<and> en_intent r = ''not_allocatable'') reqs)"
  define U where "U = filter (\<lambda>r. \<not> P r \<and> en_intent r \<noteq> ''not_allocatable'') reqs"
  have c: "c = \<lparr>cv_allocated = A, cv_not_allocatable = N,
      cv_ratio = (if length reqs - N > 0 then of_nat A / of_nat (length reqs - N) * 100 else 0), cv_unallocated = map (\<lambda>r. (en_id r, en_title r)) U\<rparr>"
    using assms unfolding get_allocation_coverage_def el option.case Let_def sum.inject A_def N_def U_def P_def reqs_def by (rule sym)
  have total: "A + N + length U = length reqs"
    unfolding A_def N_def U_def by (induction reqs) auto
  then have "length reqs - N = A + length U" by simp
  then have ratio: "cv_ratio c = (if A + length U > 0 then of_nat A / of_nat (A + length U) * 100 else 0)" by (simp add: c)
  have "0 \<le> cv_ratio c \<and> cv_ratio c \<le> 100 \<and> (cv_ratio c = 100 \<longleftrightarrow> A > 0 \<and> U = [])"
    unfolding ratio by (cases "U = []") (simp_all add: divide_le_eq divide_eq_eq add_nonneg_pos)
  then show ?thesis using el total by (simp add: c reqs_def)
qed

theorem allocation_coverage_consistent_witness:
  "\<exists>c. get_allocation_coverage human_ctx ''e2'' svc_proposed = Inr c \<and> cv_ratio c = 100 \<and> cv_allocated c > 0 \<and> cv_unallocated c = []"
proof -
  have c: "(case get_allocation_coverage human_ctx ''e2'' svc_proposed of Inl _ \<Rightarrow> False | Inr c \<Rightarrow> cv_allocated c = 1 \<and> cv_unallocated c = [])"
    by code_simp
  obtain c where g: "get_allocation_coverage human_ctx ''e2'' svc_proposed = Inr c"
    using c by (cases "get_allocation_coverage human_ctx ''e2'' svc_proposed") auto
  from allocation_coverage_consistent [OF g] c show ?thesis by (auto simp: g)
qed

subsection \<open>Allocation\<close>

lemma allocation_links_append:
  "td_links (sd_trace s') = td_links (sd_trace s) @ [l] \<Longrightarrow> allocation_links tenant a s' =
     allocation_links tenant a s @ (if l_tenant l = tenant \<and> l_source l = a \<and> l_type l = LINK_ALLOCATED_TO then [l] else [])"
  by (simp add: allocation_links_def tenant_links_def)

lemma drop_allocations_links [simp]:
  "td_links (sd_trace (drop_allocations tenant a s)) =
     filter (\<lambda>l. \<not> (l_tenant l = tenant \<and> l_source l = a \<and> l_type l = LINK_ALLOCATED_TO)) (td_links (sd_trace s))"
  "td_artifacts (sd_trace (drop_allocations tenant a s)) = td_artifacts (sd_trace s)"
  "td_next (sd_trace (drop_allocations tenant a s)) = td_next (sd_trace s)"
  "sd_entities (drop_allocations tenant a s) = sd_entities s" "sd_elements (drop_allocations tenant a s) = sd_elements s"
  by (simp_all add: drop_allocations_def drop_links_def Let_def)

lemma no_allocations_left: "allocation_links tenant a (drop_allocations tenant a s) = []"
  by (auto simp: allocation_links_def tenant_links_def filter_empty_conv)

text \<open>A requirement's own id resolves to its artifact, unless an artifact has that id.\<close>

lemma resolve_requirement:
  assumes "tenant_artifact tenant s e = None" "entity_lookup tenant ''Requirement'' e s = Some r" "en_artifact r = Some a"
  shows "resolve_artifact_id tenant e s = Inr a"
  using assms by (simp add: resolve_artifact_id_def resolve_business_entity_artifact_def PROBES_def)

text \<open>A successful allocation, decomposed.\<close>

lemma allocate_Inr:
  assumes "allocate env ctx e x s = Inr (l, s')"
  obtains r a s1 t where "entity_lookup (tx_tenant ctx) ''Requirement'' e s = Some r" "en_artifact r = Some a"
    "assert_not_frozen env r s = Inr ()"
    "create_trace_link env ctx e x LINK_ALLOCATED_TO [] (drop_allocations (tx_tenant ctx) a s) = Inr (l, s1)"
    "s' = (set_intent (tx_tenant ctx) e ''allocated'' s1)\<lparr>sd_tiers := t\<rparr>"
proof -
  obtain r where r: "entity_lookup (tx_tenant ctx) ''Requirement'' e s = Some r"
    using assms by (auto simp: allocate_def split: option.splits)
  obtain a where a: "en_artifact r = Some a"
    using assms by (auto simp: allocate_def r split: option.splits)
  obtain s1 where c: "assert_not_frozen env r s = Inr ()"
    "create_trace_link env ctx e x LINK_ALLOCATED_TO [] (drop_allocations (tx_tenant ctx) a s) = Inr (l, s1)"
    "recompute_requirement_levels (le_frames env) [a] (set_intent (tx_tenant ctx) e ''allocated'' s1) = Inr s'"
    using assms by (auto simp: allocate_def r a)
  from recompute_keeps_tables [OF c(3)] r a c(1,2) that show ?thesis by blast
qed

text \<open>
  Allocation replaces. After a successful \<open>allocate\<close> the requirement, which is not frozen, has exactly one allocation,
  the returned link; every link that is not an allocation of the requirement is as before, and nothing else was added.
\<close>

theorem allocation_replaces:
  assumes "links_wf (sd_trace s)" "tenant_artifact (tx_tenant ctx) s e = None" "allocate env ctx e x s = Inr (l, s')"
  shows "\<exists>r a. entity_lookup (tx_tenant ctx) ''Requirement'' e s = Some r \<and> en_artifact r = Some a \<and>
    assert_not_frozen env r s = Inr () \<and> allocation_links (tx_tenant ctx) a s' = [l] \<and> l_source l = a \<and>
    td_links (sd_trace s') = filter (\<lambda>k. \<not> (l_tenant k = tx_tenant ctx \<and> l_source k = a \<and> l_type k = LINK_ALLOCATED_TO)) (td_links (sd_trace s)) @ [l]"
proof -
  obtain r a s1 t where r: "entity_lookup (tx_tenant ctx) ''Requirement'' e s = Some r" "en_artifact r = Some a"
    "assert_not_frozen env r s = Inr ()"
    and c: "create_trace_link env ctx e x LINK_ALLOCATED_TO [] (drop_allocations (tx_tenant ctx) a s) = Inr (l, s1)"
    and s': "s' = (set_intent (tx_tenant ctx) e ''allocated'' s1)\<lparr>sd_tiers := t\<rparr>"
    by (rule allocate_Inr [OF assms(3)])
  let ?s0 = "drop_allocations (tx_tenant ctx) a s"
  have w: "links_wf (sd_trace ?s0)" by (rule filter_keeps_wf [OF assms(1)]) simp_all
  have e: "tenant_artifact (tx_tenant ctx) ?s0 e = None" "entity_lookup (tx_tenant ctx) ''Requirement'' e ?s0 = Some r"
    using assms(2) r(1) by (simp_all add: tenant_artifact_def entity_lookup_def entities_def)
  note k = created_row [OF w c]
  have src: "l_source l = a" using k(7) resolve_requirement [OF e r(2)] by simp
  have links: "td_links (sd_trace s') = td_links (sd_trace ?s0) @ [l]" by (simp add: s' set_intent_def k(1))
  have "allocation_links (tx_tenant ctx) a s' = [l]"
    using allocation_links_append [OF links] k(3,4) src by (simp add: no_allocations_left)
  then show ?thesis using r src links by simp
qed

theorem allocation_replaces_witness:
  "\<exists>l s'. allocate svc_env human_ctx ''e1'' ''e2'' svc_proposed = Inr (l, s') \<and> td_links (sd_trace s') = [l] \<and> l_source l = ''a1''"
proof -
  have c: "(case allocate svc_env human_ctx ''e1'' ''e2'' svc_proposed of Inl _ \<Rightarrow> False | Inr (l, s') \<Rightarrow> td_links (sd_trace s') = [l])"
    by code_simp
  then obtain l s' where a: "allocate svc_env human_ctx ''e1'' ''e2'' svc_proposed = Inr (l, s')"
    by (cases "allocate svc_env human_ctx ''e1'' ''e2'' svc_proposed") auto
  have n: "tenant_artifact (tx_tenant human_ctx) svc_proposed ''e1'' = None" by code_simp
  have e: "map_option en_artifact (entity_lookup (tx_tenant human_ctx) ''Requirement'' ''e1'' svc_proposed) = Some (Some ''a1'')" by code_simp
  from allocation_replaces [OF svc_proposed_wf n a] c e show ?thesis by (auto simp: a)
qed

subsection \<open>Where the service does less than it says\<close>

text \<open>
  C39: an agent can erase any proposed allocation. Whatever the tables hold, an agent may neither confirm nor discard nor delete a
  link that is a proposal, as Rule 0 demands; but if it is an allocation of a requirement that is not frozen, \<open>deallocate\<close> by the
  same agent removes it, with every other allocation of the requirement and no other link, unless the recomputation of the
  levels fails, which rolls everything back.
\<close>

theorem agent_erases_proposal:
  assumes "tx_actor_type ctx = ''agent''" "links_wf (sd_trace s)"
    and "entity_lookup (tx_tenant ctx) ''Requirement'' e s = Some r" "en_artifact r = Some a" "assert_not_frozen env r s = Inr ()"
    and "l \<in> set (allocation_links (tx_tenant ctx) a s)" "is_proposal l"
  shows "confirm_proposed_link env ctx (l_id l) s = Inl AgentSelfConfirm \<and>
    discard_proposed_link env ctx (l_id l) s = Inl AgentSelfConfirm \<and>
    delete_trace_link env ctx (l_id l) n s = Inl AgentSelfConfirm \<and>
    (case deallocate env ctx e s of
       Inl err \<Rightarrow> \<exists>x. err = TiersFailed x
     | Inr (_, s') \<Rightarrow> l \<notin> set (td_links (sd_trace s')) \<and>
         td_links (sd_trace s') = filter (\<lambda>k. k \<notin> set (allocation_links (tx_tenant ctx) a s)) (td_links (sd_trace s)))"
proof -
  have l: "l \<in> set (td_links (sd_trace s))" "l_tenant l = tx_tenant ctx"
    using assms(6) by (simp_all add: allocation_links_def tenant_links_def)
  have "own_link (tx_tenant ctx) (l_id l) s \<noteq> None" using l by (auto simp: own_link_def tenant_links_def find_None_iff)
  then obtain k where k: "own_link (tx_tenant ctx) (l_id l) s = Some k" by blast
  with own_link_in [OF k] ids_unique [OF assms(2) _ l(1)] have "k = l" by blast
  then have del: "delete_trace_link env ctx (l_id l) n s = Inl AgentSelfConfirm"
    using k assms(1,7) by (simp add: delete_trace_link_def is_proposal_def)
  let ?s1 = "set_intent (tx_tenant ctx) e ''unassigned'' (drop_allocations (tx_tenant ctx) a s)"
  have links: "td_links (sd_trace ?s1) = filter (\<lambda>k. k \<notin> set (allocation_links (tx_tenant ctx) a s)) (td_links (sd_trace s))"
    by (auto simp: set_intent_def allocation_links_def tenant_links_def intro!: filter_cong)
  have "case deallocate env ctx e s of
       Inl err \<Rightarrow> \<exists>x. err = TiersFailed x
     | Inr (_, s') \<Rightarrow> l \<notin> set (td_links (sd_trace s')) \<and>
         td_links (sd_trace s') = filter (\<lambda>k. k \<notin> set (allocation_links (tx_tenant ctx) a s)) (td_links (sd_trace s))"
  proof (cases "recompute_requirement_levels (le_frames env) [a] ?s1")
    case (Inl err)
    then show ?thesis using recompute_failure [OF Inl] by (simp add: deallocate_def assms(3-5))
  next
    case (Inr s')
    from recompute_keeps_tables [OF Inr] have "td_links (sd_trace s') = td_links (sd_trace ?s1)" by auto
    with Inr links assms(6) show ?thesis by (simp add: deallocate_def assms(3-5))
  qed
  with del assms(1) show ?thesis by (simp add: confirm_proposed_link_def discard_proposed_link_def)
qed

theorem agent_erases_proposal_witness:
  "\<exists>l. td_links (sd_trace svc_proposed) = [l] \<and> is_proposal l \<and> delete_trace_link svc_env agent_ctx (l_id l) None svc_proposed = Inl AgentSelfConfirm \<and>
     (case deallocate svc_env agent_ctx ''e1'' svc_proposed of Inl _ \<Rightarrow> False | Inr (_, s') \<Rightarrow> td_links (sd_trace s') = [])"
proof -
  have d: "(case deallocate svc_env agent_ctx ''e1'' svc_proposed of Inl _ \<Rightarrow> False | Inr (_, s') \<Rightarrow> True)" by code_simp
  obtain l where l: "td_links (sd_trace svc_proposed) = [l]" using svc_proposed_links by auto
  have "map is_proposal (td_links (sd_trace svc_proposed)) = [True]" by code_simp
  then have p: "is_proposal l" by (simp add: l)
  have "map (\<lambda>k. l_tenant k = tx_tenant agent_ctx \<and> l_source k = ''a1'' \<and> l_type k = LINK_ALLOCATED_TO) (td_links (sd_trace svc_proposed)) = [True]"
    by code_simp
  then have a: "allocation_links (tx_tenant agent_ctx) ''a1'' svc_proposed = [l]" by (simp add: allocation_links_def tenant_links_def l)
  have "(case entity_lookup (tx_tenant agent_ctx) ''Requirement'' ''e1'' svc_proposed of None \<Rightarrow> False
      | Some r \<Rightarrow> en_artifact r = Some ''a1'' \<and> assert_not_frozen svc_env r svc_proposed = Inr ())" by code_simp
  then obtain r where r: "entity_lookup (tx_tenant agent_ctx) ''Requirement'' ''e1'' svc_proposed = Some r" "en_artifact r = Some ''a1''"
    "assert_not_frozen svc_env r svc_proposed = Inr ()" by (auto split: option.splits)
  have ag: "tx_actor_type agent_ctx = ''agent''" by code_simp
  have "l \<in> set (allocation_links (tx_tenant agent_ctx) ''a1'' svc_proposed)" by (simp add: a)
  note e = agent_erases_proposal [OF ag svc_proposed_wf r this p]
  have "(case deallocate svc_env agent_ctx ''e1'' svc_proposed of Inl _ \<Rightarrow> False | Inr (_, s') \<Rightarrow> td_links (sd_trace s') = [])"
    using e [THEN conjunct2, THEN conjunct2, THEN conjunct2] d by (auto simp: a l split: sum.splits)
  with l p e show ?thesis by blast
qed

text \<open>
  \<open>cascade_delete_trace_links\<close> deletes nothing. It collects the \<open>link_id\<close> of the neighbours it finds, which neighbour
  results do not have, so it reports zero deletions and leaves every link in place.
\<close>

theorem cascade_deletes_nothing:
  "cascade_delete_trace_links env ctx a s = Inr (0, s) \<and>
   map nr_entity (query_downstream ''t'' ''a1'' (sd_trace svc_proposed)) = [''a2'']"
proof -
  have "map nr_entity (query_downstream ''t'' ''a1'' (sd_trace svc_proposed)) = [''a2'']" by code_simp
  then show ?thesis by (simp add: cascade_noop)
qed

text \<open>
  Links across workspaces are accepted. The documentation of \<open>create_trace_link\<close> promises a validation error; the checks
  compare the tenants of the endpoints and use the catalog of the source's workspace alone.
\<close>

theorem cross_workspace_link_accepted:
  "map_option ar_workspace (tenant_artifact ''t'' svc_example ''a1'') = Some (Some ''w'') \<and>
   map_option ar_workspace (tenant_artifact ''t'' svc_example ''a3'') = Some (Some ''v'') \<and>
   (case create_trace_link svc_env human_ctx ''e1'' ''e3'' ''decomposes'' [] svc_example of
      Inl _ \<Rightarrow> False
    | Inr (l, s') \<Rightarrow> endpoints l = (''a1'', ''a3'') \<and> td_links (sd_trace s') = [l])"
  by code_simp

end
