(* ===== verification/Event_Outbox.thy ===== *)
theory Event_Outbox
  imports Loom_Prelude "HOL-Library.AList"
begin

text \<open>
  The transactional outbox of domain events (\<^verbatim>\<open>application/event_bus.py\<close>) with its dead letter queue and the replay service
  (\<^verbatim>\<open>application/dlq_service.py\<close>): tables, the subscriber registry, publication with tenant attribution, the claim, the
  dispatch and the write-back of one row, the poll cycle, and replay.

  \<open>Inl e\<close> is a raise, which rolls the caller's transaction back. Every claim and every write-back is one short transaction,
  hence one function on the tables; the clock, the behaviour of a subscriber and failing inserts into the dead letter queue
  are arguments. Log output, metrics and the commit hook that only shortens the wait for the next poll are left out.
\<close>

subsection \<open>Tables\<close>

record domain_event =
  de_type :: string
  de_entity :: uuid
  de_workspace :: uuid
  de_payload :: "(string \<times> string) list"
  de_event :: uuid
  de_tenant :: "uuid option"

record outbox_row =
  ob_pk :: nat
  ob_event :: uuid
  ob_type :: string
  ob_workspace :: uuid
  ob_tenant :: "uuid option"
  ob_entity :: uuid
  ob_payload :: "(string \<times> string) list"
  ob_created :: instant
  ob_published :: bool
  ob_published_at :: "instant option"
  ob_claimed :: "instant option"
  ob_retries :: nat

record dlq_row =
  dq_event :: uuid
  dq_type :: string
  dq_workspace :: uuid
  dq_tenant :: "uuid option"
  dq_entity :: uuid
  dq_payload :: "(string \<times> string) list"
  dq_error :: string
  dq_retries :: nat
  dq_moved :: instant

text \<open>\<open>od_workspaces\<close> is the relation from workspaces to their tenants.\<close>

record outbox_db =
  od_outbox :: "outbox_row list"
  od_dlq :: "dlq_row list"
  od_next :: nat
  od_workspaces :: "(uuid \<times> uuid) list"
  od_audit :: "(string \<times> uuid) list"

datatype bus_error =
    UnresolvedTenant uuid
  | TenantMismatch uuid uuid
  | DuplicateEvent uuid
  | UnknownWorkspace uuid
  | BusPermissionDenied
  | DlqWorkspaceNotFound uuid
  | DlqEventNotFound uuid

definition MAX_RETRIES :: nat where
  "MAX_RETRIES = 5"

definition POLL_BATCH_SIZE :: nat where
  "POLL_BATCH_SIZE = 100"

text \<open>300 seconds, in microseconds.\<close>

definition CLAIM_TIMEOUT :: instant where
  "CLAIM_TIMEOUT = 300 * 1000000"

subsection \<open>Subscribers\<close>

text \<open>A subscriber is named by its representation; the registry maps event types to subscribers in registration order.\<close>

type_synonym registry = "(string \<times> string list) list"

definition get_subscribers :: "registry \<Rightarrow> string \<Rightarrow> string list" where
  "get_subscribers reg ty = (case map_of reg ty of None \<Rightarrow> [] | Some subs \<Rightarrow> subs)"

definition register :: "registry \<Rightarrow> string \<Rightarrow> string \<Rightarrow> registry" where
  "register reg ty sub =
     (let subs = get_subscribers reg ty
      in AList.update ty (if sub \<in> set subs then subs else subs @ [sub]) reg)"

definition unregister :: "registry \<Rightarrow> string \<Rightarrow> string \<Rightarrow> registry" where
  "unregister reg ty sub =
     (case map_of reg ty of None \<Rightarrow> reg | Some subs \<Rightarrow> AList.update ty (remove1 sub subs) reg)"

text \<open>One call of a subscriber: what it raised, as an entry of the error list.\<close>

definition delivery_error :: "string \<Rightarrow> string option \<Rightarrow> string list" where
  "delivery_error sub raised = (case raised of None \<Rightarrow> [] | Some msg \<Rightarrow> [sub @ '': '' @ msg])"

definition dispatch_to_subscribers :: "registry \<Rightarrow> (string \<Rightarrow> domain_event \<Rightarrow> string option) \<Rightarrow> domain_event \<Rightarrow> string list" where
  "dispatch_to_subscribers reg behave e =
     concat (map (\<lambda>sub. delivery_error sub (behave sub e)) (get_subscribers reg (de_type e)))"

subsection \<open>Publication\<close>

text \<open>\<open>armed\<close> is the tenant of the request, \<open>enforced\<close> the flag \<open>RLS_AS_ENFORCED\<close>.\<close>

definition resolve_emission_tenant_id :: "bool \<Rightarrow> uuid option \<Rightarrow> outbox_db \<Rightarrow> uuid \<Rightarrow> bus_error + uuid option" where
  "resolve_emission_tenant_id enforced armed db ws =
     (if armed \<noteq> None \<and> \<not> enforced then Inr armed
      else (case map_of (od_workspaces db) ws of
              None \<Rightarrow> Inr (if enforced then None else armed)
            | Some tenant \<Rightarrow>
                (case armed of
                   None \<Rightarrow> Inr (Some tenant)
                 | Some t \<Rightarrow> if enforced \<and> t \<noteq> tenant then Inl (TenantMismatch t tenant) else Inr (Some tenant))))"

text \<open>The insert with its constraints: the workspace is a foreign key, the event id is unique.\<close>

definition insert_outbox :: "outbox_row \<Rightarrow> outbox_db \<Rightarrow> bus_error + outbox_db" where
  "insert_outbox r db =
     (if map_of (od_workspaces db) (ob_workspace r) = None then Inl (UnknownWorkspace (ob_workspace r))
      else if ob_event r \<in> set (map ob_event (od_outbox db)) then Inl (DuplicateEvent (ob_event r))
      else Inr (db\<lparr>od_outbox := od_outbox db @ [r], od_next := Suc (od_next db)\<rparr>))"

text \<open>The stored payload: the event's own fields, overridden and extended by the entries of its payload.\<close>

definition to_dict :: "domain_event \<Rightarrow> (string \<times> string) list" where
  "to_dict e =
     foldl (\<lambda>d (k, v). AList.update k v d)
       [(''event_id'', de_event e), (''event_type'', de_type e), (''entity_id'', de_entity e), (''workspace_id'', de_workspace e)]
       (de_payload e)"

definition publish :: "bool \<Rightarrow> uuid option \<Rightarrow> instant \<Rightarrow> domain_event \<Rightarrow> outbox_db \<Rightarrow> bus_error + outbox_db" where
  "publish enforced armed now e db =
     res_bind (resolve_emission_tenant_id enforced armed db (de_workspace e)) (\<lambda>tenant.
     res_bind (raise_if (tenant = None \<and> enforced) (UnresolvedTenant (de_workspace e))) (\<lambda>_.
     insert_outbox
       \<lparr>ob_pk = od_next db, ob_event = de_event e, ob_type = de_type e, ob_workspace = de_workspace e, ob_tenant = tenant,
        ob_entity = de_entity e, ob_payload = to_dict e, ob_created = now, ob_published = False, ob_published_at = None,
        ob_claimed = None, ob_retries = 0\<rparr> db))"

definition publish_entity_event ::
  "bool \<Rightarrow> uuid option \<Rightarrow> instant \<Rightarrow> uuid \<Rightarrow> string \<Rightarrow> uuid \<Rightarrow> uuid option \<Rightarrow> (string \<times> string) list \<Rightarrow> outbox_db \<Rightarrow> bus_error + outbox_db" where
  "publish_entity_event enforced armed now event_id ty entity ws payload db =
     (case ws of
        None \<Rightarrow> Inr db
      | Some w \<Rightarrow>
          publish enforced armed now
            \<lparr>de_type = ty, de_entity = entity, de_workspace = w, de_payload = payload, de_event = event_id, de_tenant = None\<rparr> db)"

subsection \<open>Claim and write-back\<close>

definition reclaim_cutoff :: "instant \<Rightarrow> instant" where
  "reclaim_cutoff now = now - CLAIM_TIMEOUT"

definition claimable :: "instant \<Rightarrow> outbox_row \<Rightarrow> bool" where
  "claimable now r \<longleftrightarrow> \<not> ob_published r \<and> (case ob_claimed r of None \<Rightarrow> True | Some t \<Rightarrow> t < reclaim_cutoff now)"

definition update_row :: "nat \<Rightarrow> (outbox_row \<Rightarrow> outbox_row) \<Rightarrow> outbox_db \<Rightarrow> outbox_db" where
  "update_row pk f db = db\<lparr>od_outbox := map (\<lambda>r. if ob_pk r = pk then f r else r) (od_outbox db)\<rparr>"

definition claimed_row :: "instant \<Rightarrow> outbox_row \<Rightarrow> outbox_row" where
  "claimed_row now r =
     r\<lparr>ob_claimed := Some now, ob_retries := (if ob_claimed r \<noteq> None then Suc (ob_retries r) else ob_retries r)\<rparr>"

definition claim_event :: "instant \<Rightarrow> nat \<Rightarrow> outbox_db \<Rightarrow> outbox_row option \<times> outbox_db" where
  "claim_event now pk db =
     (case find (\<lambda>r. ob_pk r = pk \<and> claimable now r) (od_outbox db) of
        None \<Rightarrow> (None, db)
      | Some r \<Rightarrow> (Some (claimed_row now r), update_row pk (\<lambda>_. claimed_row now r) db))"

definition finalize_success :: "instant \<Rightarrow> nat \<Rightarrow> outbox_db \<Rightarrow> bool \<times> outbox_db" where
  "finalize_success now pk db =
     (list_ex (\<lambda>r. ob_pk r = pk \<and> \<not> ob_published r) (od_outbox db),
      update_row pk (\<lambda>r. if ob_published r then r else r\<lparr>ob_published := True, ob_published_at := Some now, ob_claimed := None\<rparr>) db)"

text \<open>\<open>fails\<close>: the transaction raises, which is logged and leaves the tables alone.\<close>

definition move_to_dlq :: "instant \<Rightarrow> bool \<Rightarrow> outbox_row \<Rightarrow> string \<Rightarrow> outbox_db \<Rightarrow> outbox_db" where
  "move_to_dlq now fails r msg db =
     (if fails then db
      else db\<lparr>od_dlq := (if ob_event r \<in> set (map dq_event (od_dlq db)) then od_dlq db
                else od_dlq db @ [\<lparr>dq_event = ob_event r, dq_type = ob_type r, dq_workspace = ob_workspace r, dq_tenant = ob_tenant r,
                       dq_entity = ob_entity r, dq_payload = ob_payload r, dq_error = msg, dq_retries = ob_retries r, dq_moved = now\<rparr>]),
              od_outbox := filter (\<lambda>x. ob_pk x \<noteq> ob_pk r) (od_outbox db)\<rparr>)"

text \<open>The first transaction of \<open>_finalize_failure\<close>, and both together.\<close>

definition failed_row :: "outbox_row \<Rightarrow> outbox_row" where
  "failed_row r = r\<lparr>ob_retries := Suc (ob_retries r), ob_claimed := None\<rparr>"

definition record_failure :: "nat \<Rightarrow> outbox_db \<Rightarrow> outbox_row option \<times> outbox_db" where
  "record_failure pk db =
     (case find (\<lambda>r. ob_pk r = pk) (od_outbox db) of
        None \<Rightarrow> (None, db)
      | Some r \<Rightarrow> (Some (failed_row r), update_row pk (\<lambda>_. failed_row r) db))"

definition finalize_failure :: "instant \<Rightarrow> bool \<Rightarrow> nat \<Rightarrow> string \<Rightarrow> outbox_db \<Rightarrow> outbox_db" where
  "finalize_failure now fails pk msg db =
     (case record_failure pk db of
        (None, db1) \<Rightarrow> db1
      | (Some r, db1) \<Rightarrow> if ob_retries r < MAX_RETRIES then db1 else move_to_dlq now fails r msg db1)"

subsection \<open>The poll cycle\<close>

definition list_candidates :: "bool \<Rightarrow> instant \<Rightarrow> nat \<Rightarrow> outbox_db \<Rightarrow> nat list" where
  "list_candidates enforced now batch_size db =
     map ob_pk (take batch_size (sort_key ob_created
       (filter (\<lambda>r. claimable now r \<and> (enforced \<longrightarrow> ob_tenant r \<noteq> None)) (od_outbox db))))"

definition event_of_row :: "outbox_row \<Rightarrow> domain_event" where
  "event_of_row r =
     \<lparr>de_type = ob_type r, de_entity = ob_entity r, de_workspace = ob_workspace r, de_payload = ob_payload r, de_event = ob_event r,
      de_tenant = ob_tenant r\<rparr>"

definition STALE_CLAIM_MESSAGE :: string where
  "STALE_CLAIM_MESSAGE = ''max retries exceeded after repeated stale-claim reclaim''"

fun join_errors :: "string list \<Rightarrow> string" where
  "join_errors [] = []"
| "join_errors [e] = e"
| "join_errors (e # es) = e @ ''; '' @ join_errors es"

text \<open>What one run of the poller is given: registry, subscribers, the clock by step, and whether a move fails.\<close>

record poll_env =
  pe_registry :: registry
  pe_behave :: "string \<Rightarrow> domain_event \<Rightarrow> string option"
  pe_clock :: "nat \<Rightarrow> instant"
  pe_dlq_fails :: "nat \<Rightarrow> bool"

definition process_one :: "poll_env \<Rightarrow> nat \<Rightarrow> nat \<Rightarrow> outbox_db \<Rightarrow> nat \<times> outbox_db" where
  "process_one env k pk db =
     (case claim_event (pe_clock env k) pk db of
        (None, db1) \<Rightarrow> (0, db1)
      | (Some r, db1) \<Rightarrow>
          if ob_retries r \<ge> MAX_RETRIES
          then (0, move_to_dlq (pe_clock env (Suc k)) (pe_dlq_fails env pk) r STALE_CLAIM_MESSAGE db1)
          else (let msg = join_errors (dispatch_to_subscribers (pe_registry env) (pe_behave env) (event_of_row r))
                in if msg \<noteq> [] then (0, finalize_failure (pe_clock env (Suc k)) (pe_dlq_fails env pk) pk msg db1)
                   else (case finalize_success (pe_clock env (Suc k)) pk db1 of (ok, db2) \<Rightarrow> (if ok then 1 else 0, db2))))"

fun process_rows :: "poll_env \<Rightarrow> nat \<Rightarrow> nat list \<Rightarrow> outbox_db \<Rightarrow> nat \<times> outbox_db" where
  "process_rows env k [] db = (0, db)"
| "process_rows env k (pk # pks) db =
     (case process_one env k pk db of
        (n, db1) \<Rightarrow> (case process_rows env (k + 2) pks db1 of (m, db2) \<Rightarrow> (n + m, db2)))"

definition worker_backlog :: "outbox_db \<Rightarrow> nat \<times> nat \<times> nat" where
  "worker_backlog db =
     (length (filter (\<lambda>r. \<not> ob_published r) (od_outbox db)), length (od_dlq db),
      length (filter (\<lambda>r. \<not> ob_published r \<and> ob_tenant r = None) (od_outbox db)))"

definition poll_and_dispatch :: "poll_env \<Rightarrow> bool \<Rightarrow> nat \<Rightarrow> outbox_db \<Rightarrow> nat \<times> outbox_db" where
  "poll_and_dispatch env enforced batch_size db =
     process_rows env 1 (list_candidates enforced (pe_clock env 0) batch_size db) db"

subsection \<open>Inspection and replay of the dead letter queue\<close>

text \<open>\<open>tenant\<close> and \<open>admin\<close> are the caller's.\<close>

definition clamp_limit :: "int option \<Rightarrow> nat" where
  "clamp_limit limit = nat (max 1 (min (case limit of None \<Rightarrow> 100 | Some n \<Rightarrow> if n = 0 then 100 else n) 1000))"

definition list_dlq :: "bool \<Rightarrow> uuid \<Rightarrow> uuid \<Rightarrow> string option \<Rightarrow> int option \<Rightarrow> outbox_db \<Rightarrow> bus_error + dlq_row list" where
  "list_dlq admin tenant ws event_type limit db =
     res_bind (raise_if (\<not> admin) BusPermissionDenied) (\<lambda>_.
     res_bind (raise_if (map_of (od_workspaces db) ws \<noteq> Some tenant) (DlqWorkspaceNotFound ws)) (\<lambda>_.
     Inr (take (clamp_limit limit)
       (filter (\<lambda>d. case event_type of None \<Rightarrow> True | Some ty \<Rightarrow> ty = [] \<or> dq_type d = ty)
         (sort_key (\<lambda>d. - dq_moved d) (filter (\<lambda>d. dq_workspace d = ws) (od_dlq db)))))))"

definition replay_dlq_event :: "bool \<Rightarrow> uuid \<Rightarrow> instant \<Rightarrow> uuid \<Rightarrow> uuid \<Rightarrow> outbox_db \<Rightarrow> bus_error + (dlq_row \<times> outbox_db)" where
  "replay_dlq_event admin tenant now event_id ws db =
     res_bind (raise_if (\<not> admin) BusPermissionDenied) (\<lambda>_.
     res_bind (raise_if (map_of (od_workspaces db) ws \<noteq> Some tenant) (DlqWorkspaceNotFound ws)) (\<lambda>_.
     case find (\<lambda>d. dq_event d = event_id \<and> dq_workspace d = ws) (od_dlq db) of
       None \<Rightarrow> Inl (DlqEventNotFound event_id)
     | Some d \<Rightarrow>
         res_bind (insert_outbox
             \<lparr>ob_pk = od_next db, ob_event = dq_event d, ob_type = dq_type d, ob_workspace = dq_workspace d, ob_tenant = Some tenant,
              ob_entity = dq_entity d, ob_payload = dq_payload d, ob_created = now, ob_published = False, ob_published_at = None,
              ob_claimed = None, ob_retries = 0\<rparr> db) (\<lambda>db1.
         Inr (d, db1\<lparr>od_dlq := filter (\<lambda>x. dq_event x \<noteq> dq_event d) (od_dlq db1),
                    od_audit := od_audit db1 @ [(''events.replay'', dq_event d)]\<rparr>))))"

end
