(* ===== verification/Event_Delivery.thy ===== *)
theory Event_Delivery
  imports Event_Outbox
begin

text \<open>
  Workers that drain the outbox concurrently. A worker claims a row, calls its subscribers one after the other without holding
  a lock, and writes the outcome back; it may die at any point, and it is killed when its task reaches the time limit. Producers
  publish and administrators replay in between. Shown: no committed event is ever lost, a row counts as published only after
  every subscriber has returned, claims keep two live workers off the same row as long as the time limit does not exceed the
  claim timeout, the number of attempts is bounded, and (in \<open>Outbox_Drain\<close>) that one worker that keeps polling drains the outbox.
\<close>

subsection \<open>The steps\<close>

text \<open>
  What a worker is doing: nothing; calling the subscribers of a claimed row, with the time of the claim, the subscribers still
  to be called and the errors so far; or moving an exhausted row to the dead letter queue.
\<close>

datatype phase = Idle | Dispatching outbox_row instant "string list" "string list" | Moving outbox_row string

text \<open>The last three fields record the history: events committed, successful calls, and rows whose dispatch was started.\<close>

record bus =
  bs_db :: outbox_db
  bs_now :: instant
  bs_workers :: "nat \<Rightarrow> phase"
  bs_emitted :: "uuid list"
  bs_delivered :: "(uuid \<times> string) list"
  bs_attempts :: "nat list"

definition set_worker :: "nat \<Rightarrow> phase \<Rightarrow> bus \<Rightarrow> bus" where
  "set_worker w ph b = b\<lparr>bs_workers := (bs_workers b)(w := ph)\<rparr>"

definition start_dispatch :: "registry \<Rightarrow> instant \<Rightarrow> outbox_row \<Rightarrow> phase" where
  "start_dispatch reg now r =
     (if ob_retries r \<ge> MAX_RETRIES then Moving r STALE_CLAIM_MESSAGE else Dispatching r now (get_subscribers reg (ob_type r)) [])"

definition after_failure :: "outbox_row option \<Rightarrow> string \<Rightarrow> phase" where
  "after_failure res msg =
     (case res of None \<Rightarrow> Idle | Some r \<Rightarrow> if ob_retries r < MAX_RETRIES then Idle else Moving r msg)"

inductive bus_step :: "bool \<Rightarrow> registry \<Rightarrow> instant \<Rightarrow> bus \<Rightarrow> bus \<Rightarrow> bool" for enforced reg limit where
  passes: "bs_now b \<le> t \<Longrightarrow> bus_step enforced reg limit b (b\<lparr>bs_now := t\<rparr>)"
| publishes: "publish enforced armed (bs_now b) e (bs_db b) = Inr db \<Longrightarrow>
    bus_step enforced reg limit b (b\<lparr>bs_db := db, bs_emitted := de_event e # bs_emitted b\<rparr>)"
| claims: "bs_workers b w = Idle \<Longrightarrow> claim_event (bs_now b) pk (bs_db b) = (Some r, db) \<Longrightarrow>
    bus_step enforced reg limit b (set_worker w (start_dispatch reg (bs_now b) r)
      (b\<lparr>bs_db := db, bs_attempts := (if ob_retries r \<ge> MAX_RETRIES then bs_attempts b else pk # bs_attempts b)\<rparr>))"
| delivers: "bs_workers b w = Dispatching r t (sub # todo) errs \<Longrightarrow> bs_now b \<le> t + limit \<Longrightarrow>
    bus_step enforced reg limit b (set_worker w (Dispatching r t todo (errs @ delivery_error sub raised))
      (b\<lparr>bs_delivered := (if raised = None then (ob_event r, sub) # bs_delivered b else bs_delivered b)\<rparr>))"
| succeeds: "bs_workers b w = Dispatching r t [] [] \<Longrightarrow> bs_now b \<le> t + limit \<Longrightarrow>
    bus_step enforced reg limit b (set_worker w Idle (b\<lparr>bs_db := snd (finalize_success (bs_now b) (ob_pk r) (bs_db b))\<rparr>))"
| fails: "bs_workers b w = Dispatching r t [] errs \<Longrightarrow> errs \<noteq> [] \<Longrightarrow> bs_now b \<le> t + limit \<Longrightarrow>
    record_failure (ob_pk r) (bs_db b) = (res, db) \<Longrightarrow>
    bus_step enforced reg limit b (set_worker w (after_failure res (join_errors errs)) (b\<lparr>bs_db := db\<rparr>))"
| moves: "bs_workers b w = Moving r msg \<Longrightarrow>
    bus_step enforced reg limit b (set_worker w Idle (b\<lparr>bs_db := move_to_dlq (bs_now b) failing r msg (bs_db b)\<rparr>))"
| dies: "bus_step enforced reg limit b (set_worker w Idle b)"
| replays: "replay_dlq_event admin tenant (bs_now b) e ws (bs_db b) = Inr (d, db) \<Longrightarrow>
    bus_step enforced reg limit b (b\<lparr>bs_db := db\<rparr>)"

definition bus_start :: "(uuid \<times> uuid) list \<Rightarrow> bus" where
  "bus_start workspaces =
     \<lparr>bs_db = \<lparr>od_outbox = [], od_dlq = [], od_next = 0, od_workspaces = workspaces, od_audit = []\<rparr>, bs_now = 0, bs_workers = (\<lambda>_. Idle),
      bs_emitted = [], bs_delivered = [], bs_attempts = []\<rparr>"

subsection \<open>What the single transactions do\<close>

definition row_ident :: "outbox_row \<Rightarrow> nat \<times> uuid \<times> string" where
  "row_ident r = (ob_pk r, ob_event r, ob_type r)"

lemma row_ident_eq: "row_ident r = row_ident x \<longleftrightarrow> ob_pk r = ob_pk x \<and> ob_event r = ob_event x \<and> ob_type r = ob_type x"
  by (simp add: row_ident_def)

definition rows_distinct :: "outbox_db \<Rightarrow> bool" where
  "rows_distinct db \<longleftrightarrow> distinct (map ob_pk (od_outbox db)) \<and> distinct (map ob_event (od_outbox db)) \<and>
     list_all (\<lambda>r. ob_pk r < od_next db) (od_outbox db)"

lemma rows_distinct_unique:
  assumes "rows_distinct db" "r \<in> set (od_outbox db)" "x \<in> set (od_outbox db)" "ob_pk r = ob_pk x"
  shows "r = x"
  using assms by (auto simp: rows_distinct_def distinct_map inj_on_def)

text \<open>The tables keep the identity of their rows.\<close>

definition same_rows :: "outbox_db \<Rightarrow> outbox_db \<Rightarrow> bool" where
  "same_rows db db' \<longleftrightarrow> map row_ident (od_outbox db') = map row_ident (od_outbox db) \<and> od_next db' = od_next db \<and> od_dlq db' = od_dlq db \<and>
     od_workspaces db' = od_workspaces db"

lemma same_rows_maps:
  assumes "same_rows db db'"
  shows "map ob_pk (od_outbox db') = map ob_pk (od_outbox db)" "map ob_event (od_outbox db') = map ob_event (od_outbox db)"
    "row_ident ` set (od_outbox db') = row_ident ` set (od_outbox db)"
proof -
  have e: "map row_ident (od_outbox db') = map row_ident (od_outbox db)" using assms by (simp add: same_rows_def)
  from arg_cong [OF e, of "map fst"] show "map ob_pk (od_outbox db') = map ob_pk (od_outbox db)"
    by (simp add: row_ident_def comp_def)
  from arg_cong [OF e, of "map (fst \<circ> snd)"] show "map ob_event (od_outbox db') = map ob_event (od_outbox db)"
    by (simp add: row_ident_def comp_def)
  from arg_cong [OF e, of set] show "row_ident ` set (od_outbox db') = row_ident ` set (od_outbox db)" by simp
qed

lemma same_rows_distinct:
  assumes "same_rows db db'" "rows_distinct db"
  shows "rows_distinct db'"
proof -
  have "list_all (\<lambda>k. k < od_next db) (map ob_pk (od_outbox db))" using assms(2) by (simp add: rows_distinct_def list_all_iff)
  then have "list_all (\<lambda>r. ob_pk r < od_next db') (od_outbox db')"
    using assms(1) unfolding same_rows_maps(1) [OF assms(1), symmetric] by (simp add: list_all_iff same_rows_def)
  then show ?thesis using assms(2) by (simp add: rows_distinct_def same_rows_maps [OF assms(1)])
qed

lemma update_row_same:
  assumes "rows_distinct db" "r \<in> set (od_outbox db)" "row_ident r' = row_ident r"
  shows "same_rows db (update_row (ob_pk r) (\<lambda>_. r') db)"
proof -
  have "row_ident (if ob_pk x = ob_pk r then r' else x) = row_ident x" if "x \<in> set (od_outbox db)" for x
    using rows_distinct_unique [OF assms(1) that assms(2)] assms(3) by auto
  then show ?thesis by (simp add: same_rows_def update_row_def)
qed

lemma claim_event_Some:
  assumes "claim_event now pk db = (Some r', db')"
  obtains r where "r \<in> set (od_outbox db)" "ob_pk r = pk" "claimable now r" "r' = claimed_row now r"
    "db' = update_row (ob_pk r) (\<lambda>_. claimed_row now r) db"
proof -
  obtain r where r: "find (\<lambda>r. ob_pk r = pk \<and> claimable now r) (od_outbox db) = Some r"
    using assms by (auto simp: claim_event_def split: option.splits)
  from find_SomeD [OF r] have "r \<in> set (od_outbox db)" "ob_pk r = pk" "claimable now r" by simp_all
  moreover from assms r \<open>ob_pk r = pk\<close> have "r' = claimed_row now r" "db' = update_row (ob_pk r) (\<lambda>_. claimed_row now r) db"
    by (auto simp: claim_event_def)
  ultimately show ?thesis by (rule that)
qed

lemma claimed_row_simps [simp]:
  "row_ident (claimed_row now r) = row_ident r" "ob_pk (claimed_row now r) = ob_pk r" "ob_event (claimed_row now r) = ob_event r"
  "ob_type (claimed_row now r) = ob_type r" "ob_published (claimed_row now r) = ob_published r" "ob_claimed (claimed_row now r) = Some now"
  "ob_tenant (claimed_row now r) = ob_tenant r" "ob_workspace (claimed_row now r) = ob_workspace r"
  by (simp_all add: claimed_row_def row_ident_def)

lemma failed_row_simps [simp]:
  "row_ident (failed_row r) = row_ident r" "ob_pk (failed_row r) = ob_pk r" "ob_event (failed_row r) = ob_event r" "ob_type (failed_row r) = ob_type r"
  "ob_published (failed_row r) = ob_published r" "ob_claimed (failed_row r) = None" "ob_retries (failed_row r) = Suc (ob_retries r)"
  "ob_tenant (failed_row r) = ob_tenant r" "ob_workspace (failed_row r) = ob_workspace r"
  by (simp_all add: failed_row_def row_ident_def)

lemma record_failure_cases:
  assumes "record_failure pk db = (res, db')"
  obtains (missing) "res = None" "db' = db" "\<forall>x\<in>set (od_outbox db). ob_pk x \<noteq> pk"
  | (recorded) r where "r \<in> set (od_outbox db)" "ob_pk r = pk" "res = Some (failed_row r)" "db' = update_row (ob_pk r) (\<lambda>_. failed_row r) db"
proof (cases "find (\<lambda>r. ob_pk r = pk) (od_outbox db)")
  case None
  with assms missing show ?thesis by (simp add: record_failure_def find_None_iff)
next
  case (Some r)
  have m: "r \<in> set (od_outbox db)" "ob_pk r = pk" using find_SomeD [OF Some] by simp_all
  have "res = Some (failed_row r)" "db' = update_row (ob_pk r) (\<lambda>_. failed_row r) db"
    using assms Some m(2) by (auto simp: record_failure_def)
  with m show ?thesis by (rule recorded)
qed

lemma success_same: "same_rows db (snd (finalize_success now pk db))"
  by (simp add: same_rows_def finalize_success_def update_row_def row_ident_def)

subsection \<open>What holds whatever the time limit\<close>

text \<open>A row a worker has read is still the row its key names, if that row exists.\<close>

definition known_row :: "outbox_db \<Rightarrow> outbox_row \<Rightarrow> bool" where
  "known_row db r \<longleftrightarrow> ob_pk r < od_next db \<and> (\<forall>x\<in>set (od_outbox db). ob_pk x = ob_pk r \<longrightarrow> row_ident x = row_ident r)"

definition evolves :: "outbox_db \<Rightarrow> outbox_db \<Rightarrow> bool" where
  "evolves db db' \<longleftrightarrow> od_next db \<le> od_next db' \<and>
     (\<forall>x\<in>set (od_outbox db'). od_next db \<le> ob_pk x \<or> row_ident x \<in> row_ident ` set (od_outbox db))"

lemma known_row_evolves:
  assumes "known_row db r" "evolves db db'"
  shows "known_row db' r"
proof -
  have "row_ident x = row_ident r" if x: "x \<in> set (od_outbox db')" "ob_pk x = ob_pk r" for x
  proof -
    have "\<not> od_next db \<le> ob_pk x" using assms(1) x(2) by (simp add: known_row_def)
    then obtain y where y: "y \<in> set (od_outbox db)" "row_ident x = row_ident y"
      using assms(2) x(1) unfolding evolves_def by blast
    with assms(1) x(2) show ?thesis unfolding known_row_def row_ident_eq by metis
  qed
  moreover have "ob_pk r < od_next db'" using assms unfolding known_row_def evolves_def by linarith
  ultimately show ?thesis unfolding known_row_def by blast
qed

lemma same_rows_evolves: "same_rows db db' \<Longrightarrow> evolves db db'"
  using same_rows_maps(3) [of db db'] by (auto simp: evolves_def same_rows_def)

lemma fewer_rows_evolve: "set (od_outbox db') \<subseteq> set (od_outbox db) \<Longrightarrow> od_next db' = od_next db \<Longrightarrow> evolves db db'"
  by (auto simp: evolves_def)

fun phase_ok :: "registry \<Rightarrow> outbox_db \<Rightarrow> (uuid \<times> string) list \<Rightarrow> phase \<Rightarrow> bool" where
  "phase_ok reg db delivered Idle = True"
| "phase_ok reg db delivered (Moving r msg) = known_row db r"
| "phase_ok reg db delivered (Dispatching r t todo errs) =
     (known_row db r \<and>
      (\<exists>called. get_subscribers reg (ob_type r) = called @ todo \<and> (errs = [] \<longrightarrow> (\<forall>s\<in>set called. (ob_event r, s) \<in> set delivered))))"

lemma phase_ok_mono: "phase_ok reg db dl ph \<Longrightarrow> evolves db db' \<Longrightarrow> set dl \<subseteq> set dl' \<Longrightarrow> phase_ok reg db' dl' ph"
  by (cases ph) (auto intro: known_row_evolves)

definition row_delivered :: "registry \<Rightarrow> (uuid \<times> string) list \<Rightarrow> outbox_row \<Rightarrow> bool" where
  "row_delivered reg dl r \<longleftrightarrow> (ob_published r \<longrightarrow> (\<forall>s\<in>set (get_subscribers reg (ob_type r)). (ob_event r, s) \<in> set dl))"

definition bus_ok :: "registry \<Rightarrow> bus \<Rightarrow> bool" where
  "bus_ok reg b \<longleftrightarrow> rows_distinct (bs_db b) \<and> (\<forall>w. phase_ok reg (bs_db b) (bs_delivered b) (bs_workers b w)) \<and>
     list_all (row_delivered reg (bs_delivered b)) (od_outbox (bs_db b)) \<and>
     set (bs_emitted b) \<subseteq> ob_event ` set (od_outbox (bs_db b)) \<union> dq_event ` set (od_dlq (bs_db b))"

text \<open>A step that changes the tables and one worker.\<close>

lemma bus_okI:
  assumes "bus_ok reg b" "evolves (bs_db b) db'" "rows_distinct db'"
    and "list_all (row_delivered reg dl) (od_outbox db')" "set (bs_delivered b) \<subseteq> set dl"
    and "set em \<subseteq> ob_event ` set (od_outbox db') \<union> dq_event ` set (od_dlq db')"
    and "phase_ok reg db' dl ph"
    and b': "bs_db b' = db'" "bs_workers b' = (bs_workers b)(w := ph) \<or> bs_workers b' = bs_workers b" "bs_delivered b' = dl" "bs_emitted b' = em"
  shows "bus_ok reg b'"
proof -
  have "phase_ok reg db' dl (bs_workers b v)" for v
    using assms(1) phase_ok_mono [OF _ assms(2,5)] unfolding bus_ok_def by blast
  then have "\<forall>v. phase_ok reg (bs_db b') (bs_delivered b') (bs_workers b' v)"
    using b' assms(7) by auto
  then show ?thesis using assms(3,4,6) unfolding bus_ok_def b' by blast
qed

lemma same_rows_emitted:
  assumes "same_rows db db'" "em \<subseteq> ob_event ` set (od_outbox db) \<union> dq_event ` set (od_dlq db)"
  shows "em \<subseteq> ob_event ` set (od_outbox db') \<union> dq_event ` set (od_dlq db')"
proof -
  have "ob_event ` set (od_outbox db') = ob_event ` set (od_outbox db)"
    using arg_cong [OF same_rows_maps(2) [OF assms(1)], of set] by simp
  then show ?thesis using assms by (simp add: same_rows_def)
qed

lemma update_row_delivered:
  assumes "list_all (row_delivered reg dl) (od_outbox db)" "r \<in> set (od_outbox db)" "row_ident r' = row_ident r" "ob_published r' = ob_published r"
  shows "list_all (row_delivered reg dl) (od_outbox (update_row (ob_pk r) (\<lambda>_. r') db))"
  using assms by (auto simp: list_all_iff update_row_def row_delivered_def row_ident_def)

lemma insert_outbox_Inr:
  assumes "insert_outbox r db = Inr db'" "rows_distinct db" "ob_pk r = od_next db"
  shows "evolves db db'" "rows_distinct db'" "od_outbox db' = od_outbox db @ [r]" "od_dlq db' = od_dlq db" "od_workspaces db' = od_workspaces db"
    "od_next db' = Suc (od_next db)"
proof -
  have db': "db' = db\<lparr>od_outbox := od_outbox db @ [r], od_next := Suc (od_next db)\<rparr>" "ob_event r \<notin> set (map ob_event (od_outbox db))"
    using assms(1) by (auto simp: insert_outbox_def split: if_splits)
  show "od_outbox db' = od_outbox db @ [r]" "od_dlq db' = od_dlq db" "od_workspaces db' = od_workspaces db" "od_next db' = Suc (od_next db)"
    by (simp_all add: db'(1))
  show "evolves db db'" using assms(3) by (auto simp: evolves_def db'(1))
  have "ob_pk r \<notin> set (map ob_pk (od_outbox db))"
    using assms(2,3) by (auto simp: rows_distinct_def list_all_iff)
  then show "rows_distinct db'"
    using assms(2,3) db'(2) by (auto simp: rows_distinct_def db'(1) list_all_iff)
qed

lemma publish_Inr:
  assumes "publish enforced armed now e db = Inr db'" "rows_distinct db"
  obtains r where "od_outbox db' = od_outbox db @ [r]" "ob_pk r = od_next db" "ob_event r = de_event e" "\<not> ob_published r" "ob_claimed r = None"
    "ob_workspace r = de_workspace e" "resolve_emission_tenant_id enforced armed db (de_workspace e) = Inr (ob_tenant r)"
    "enforced \<Longrightarrow> ob_tenant r \<noteq> None"
    "evolves db db'" "rows_distinct db'" "od_dlq db' = od_dlq db" "od_workspaces db' = od_workspaces db" "od_next db' = Suc (od_next db)"
proof -
  let ?row = "\<lambda>t. \<lparr>ob_pk = od_next db, ob_event = de_event e, ob_type = de_type e, ob_workspace = de_workspace e, ob_tenant = t,
        ob_entity = de_entity e, ob_payload = to_dict e, ob_created = now, ob_published = False, ob_published_at = None,
        ob_claimed = None, ob_retries = 0\<rparr>"
  obtain t where t: "resolve_emission_tenant_id enforced armed db (de_workspace e) = Inr t" "\<not> (t = None \<and> enforced)"
    "insert_outbox (?row t) db = Inr db'"
    using assms(1) by (auto simp: publish_def)
  note ins = insert_outbox_Inr [OF t(3) assms(2)]
  show ?thesis by (rule that [of "?row t"]) (use t(1,2) ins in simp_all)
qed

lemma replay_Inr:
  assumes "replay_dlq_event admin tenant now e ws db = Inr (d, db')" "rows_distinct db"
  obtains r where "admin" "map_of (od_workspaces db) ws = Some tenant" "d \<in> set (od_dlq db)" "dq_event d = e" "dq_workspace d = ws"
    "od_outbox db' = od_outbox db @ [r]" "ob_pk r = od_next db" "ob_event r = e" "ob_type r = dq_type d" "\<not> ob_published r" "ob_claimed r = None"
    "ob_retries r = 0" "ob_workspace r = ws" "ob_tenant r = Some tenant"
    "evolves db db'" "rows_distinct db'" "od_dlq db' = filter (\<lambda>x. dq_event x \<noteq> e) (od_dlq db)" "od_workspaces db' = od_workspaces db"
    "od_next db' = Suc (od_next db)"
proof -
  obtain d' where d': "find (\<lambda>d. dq_event d = e \<and> dq_workspace d = ws) (od_dlq db) = Some d'"
    using assms(1) by (auto simp: replay_dlq_event_def split: option.splits)
  let ?row = "\<lparr>ob_pk = od_next db, ob_event = dq_event d', ob_type = dq_type d', ob_workspace = dq_workspace d', ob_tenant = Some tenant,
              ob_entity = dq_entity d', ob_payload = dq_payload d', ob_created = now, ob_published = False, ob_published_at = None,
              ob_claimed = None, ob_retries = 0\<rparr>"
  obtain db1 where g: "admin" "map_of (od_workspaces db) ws = Some tenant" and i: "insert_outbox ?row db = Inr db1" and d: "d = d'"
    and db': "db' = db1\<lparr>od_dlq := filter (\<lambda>x. dq_event x \<noteq> dq_event d') (od_dlq db1), od_audit := od_audit db1 @ [(''events.replay'', dq_event d')]\<rparr>"
    using assms(1) d' by (auto simp: replay_dlq_event_def)
  have s: "d' \<in> set (od_dlq db)" "dq_event d' = e" "dq_workspace d' = ws" using find_SomeD [OF d'] by simp_all
  note ins = insert_outbox_Inr [OF i assms(2)]
  have p: "ob_pk ?row = od_next db" by simp
  show ?thesis
    by (rule that [of ?row]) (use g s ins [OF p] in \<open>simp_all add: d db' evolves_def rows_distinct_def\<close>)
qed

lemma move_rows:
  assumes "known_row db r"
  shows "evolves db (move_to_dlq now failing r msg db)"
    "rows_distinct db \<Longrightarrow> rows_distinct (move_to_dlq now failing r msg db)"
    "set (od_outbox (move_to_dlq now failing r msg db)) \<subseteq> set (od_outbox db)"
    "ob_event ` set (od_outbox db) \<union> dq_event ` set (od_dlq db) \<subseteq>
       ob_event ` set (od_outbox (move_to_dlq now failing r msg db)) \<union> dq_event ` set (od_dlq (move_to_dlq now failing r msg db))"
proof -
  let ?db' = "move_to_dlq now failing r msg db"
  show sub: "set (od_outbox ?db') \<subseteq> set (od_outbox db)" by (auto simp: move_to_dlq_def)
  show "evolves db ?db'" by (rule fewer_rows_evolve [OF sub]) (simp add: move_to_dlq_def)
  show "rows_distinct ?db'" if "rows_distinct db"
    using that by (auto simp: move_to_dlq_def rows_distinct_def distinct_map inj_on_def list_all_iff)
  have d: "dq_event ` set (od_dlq db) \<subseteq> dq_event ` set (od_dlq ?db')" by (auto simp: move_to_dlq_def)
  have "ob_event x \<in> ob_event ` set (od_outbox ?db') \<union> dq_event ` set (od_dlq ?db')" if x: "x \<in> set (od_outbox db)" for x
  proof (cases "failing \<or> ob_pk x \<noteq> ob_pk r")
    case True
    with x show ?thesis by (auto simp: move_to_dlq_def)
  next
    case False
    with assms x have "ob_event x = ob_event r" by (auto simp: known_row_def row_ident_eq)
    with False show ?thesis by (auto simp: move_to_dlq_def)
  qed
  with d show "ob_event ` set (od_outbox db) \<union> dq_event ` set (od_dlq db) \<subseteq> ob_event ` set (od_outbox ?db') \<union> dq_event ` set (od_dlq ?db')"
    by blast
qed

lemma known_own_row:
  assumes "rows_distinct db" "r \<in> set (od_outbox db)" "row_ident r' = row_ident r"
  shows "known_row db r'"
proof -
  have "ob_pk r' < od_next db" using assms by (auto simp: rows_distinct_def list_all_iff row_ident_eq)
  moreover have "row_ident x = row_ident r'" if "x \<in> set (od_outbox db)" "ob_pk x = ob_pk r'" for x
    using rows_distinct_unique [OF assms(1) that(1) assms(2)] assms(3) that(2) by (simp add: row_ident_eq)
  ultimately show ?thesis unfolding known_row_def by blast
qed

lemma bus_ok_same_rows:
  assumes "bus_ok reg b" "same_rows (bs_db b) db'" "list_all (row_delivered reg (bs_delivered b)) (od_outbox db')"
    and "phase_ok reg db' (bs_delivered b) ph"
    and "bs_db b' = db'" "bs_workers b' = (bs_workers b)(w := ph)" "bs_delivered b' = bs_delivered b" "bs_emitted b' = bs_emitted b"
  shows "bus_ok reg b'"
proof (rule bus_okI [OF assms(1) same_rows_evolves [OF assms(2)] same_rows_distinct [OF assms(2)] assms(3) _ _ assms(4)])
  show "rows_distinct (bs_db b)" using assms(1) by (simp add: bus_ok_def)
  show "set (bs_emitted b) \<subseteq> ob_event ` set (od_outbox db') \<union> dq_event ` set (od_dlq db')"
    by (rule same_rows_emitted [OF assms(2)]) (use assms(1) in \<open>simp add: bus_ok_def\<close>)
qed (use assms(5-8) in auto)

lemma start_dispatch_ok: "known_row db r \<Longrightarrow> phase_ok reg db dl (start_dispatch reg now r)"
  by (simp add: start_dispatch_def)

lemma after_failure_ok: "(\<And>r. res = Some r \<Longrightarrow> known_row db r) \<Longrightarrow> phase_ok reg db dl (after_failure res msg)"
  by (simp add: after_failure_def split: option.split)

lemma set_worker_simps [simp]:
  "bs_db (set_worker w ph b) = bs_db b" "bs_now (set_worker w ph b) = bs_now b" "bs_workers (set_worker w ph b) = (bs_workers b)(w := ph)"
  "bs_emitted (set_worker w ph b) = bs_emitted b" "bs_delivered (set_worker w ph b) = bs_delivered b" "bs_attempts (set_worker w ph b) = bs_attempts b"
  by (simp_all add: set_worker_def)

lemma success_delivered:
  assumes "list_all (row_delivered reg dl) (od_outbox db)" "known_row db r" "\<forall>s\<in>set (get_subscribers reg (ob_type r)). (ob_event r, s) \<in> set dl"
  shows "list_all (row_delivered reg dl) (od_outbox (snd (finalize_success now (ob_pk r) db)))"
proof -
  have "row_delivered reg dl (if ob_pk x = ob_pk r then if ob_published x then x else x\<lparr>ob_published := True, ob_published_at := Some now, ob_claimed := None\<rparr> else x)"
    if x: "x \<in> set (od_outbox db)" for x
  proof (cases "ob_pk x = ob_pk r")
    case True
    with assms(2) x have "ob_event x = ob_event r" "ob_type x = ob_type r" by (auto simp: known_row_def row_ident_eq)
    with assms(1,3) x True show ?thesis by (auto simp: row_delivered_def list_all_iff)
  next
    case False
    with assms(1) x show ?thesis by (simp add: list_all_iff)
  qed
  then have "list_all (row_delivered reg dl \<circ> (\<lambda>x. if ob_pk x = ob_pk r then if ob_published x then x
      else x\<lparr>ob_published := True, ob_published_at := Some now, ob_claimed := None\<rparr> else x)) (od_outbox db)"
    unfolding list_all_iff comp_apply by blast
  then show ?thesis unfolding list.pred_map [symmetric] by (simp add: finalize_success_def update_row_def)
qed

lemma delivered_mono: "list_all (row_delivered reg dl) rows \<Longrightarrow> set dl \<subseteq> set dl' \<Longrightarrow> list_all (row_delivered reg dl') rows"
  by (auto simp: list_all_iff row_delivered_def)

lemma bus_ok_parts:
  assumes "bus_ok reg b"
  shows "rows_distinct (bs_db b)" "phase_ok reg (bs_db b) (bs_delivered b) (bs_workers b w)"
    "list_all (row_delivered reg (bs_delivered b)) (od_outbox (bs_db b))"
    "set (bs_emitted b) \<subseteq> ob_event ` set (od_outbox (bs_db b)) \<union> dq_event ` set (od_dlq (bs_db b))"
  using assms by (simp_all add: bus_ok_def)

lemma bus_step_ok:
  assumes "bus_step enforced reg limit b b'" "bus_ok reg b"
  shows "bus_ok reg b'"
  using assms(1)
proof cases
  case (passes t)
  then show ?thesis using assms(2) by (simp add: bus_ok_def)
next
  case (publishes armed e db)
  note ok = bus_ok_parts [OF assms(2)]
  obtain r where r: "od_outbox db = od_outbox (bs_db b) @ [r]" "ob_event r = de_event e" "\<not> ob_published r" "evolves (bs_db b) db" "rows_distinct db"
    "od_dlq db = od_dlq (bs_db b)"
    by (rule publish_Inr [OF publishes(2) ok(1)])
  show ?thesis
    by (rule bus_okI [OF assms(2) r(4,5), where ph = Idle and dl = "bs_delivered b" and em = "de_event e # bs_emitted b" and w = 0])
      (use ok(3,4) r in \<open>auto simp: publishes row_delivered_def\<close>)
next
  case (claims w pk r db)
  note ok = bus_ok_parts [OF assms(2)]
  obtain x where x: "x \<in> set (od_outbox (bs_db b))" "r = claimed_row (bs_now b) x" "db = update_row (ob_pk x) (\<lambda>_. claimed_row (bs_now b) x) (bs_db b)"
    by (rule claim_event_Some [OF claims(3)])
  have s: "same_rows (bs_db b) db" unfolding x(3) by (rule update_row_same [OF ok(1) x(1)]) simp
  have "known_row db r"
    by (rule known_row_evolves [OF known_own_row [OF ok(1) x(1)] same_rows_evolves [OF s]]) (simp add: x(2))
  then have ph: "phase_ok reg db (bs_delivered b) (start_dispatch reg (bs_now b) r)" by (rule start_dispatch_ok)
  have "list_all (row_delivered reg (bs_delivered b)) (od_outbox db)"
    unfolding x(3) by (rule update_row_delivered [OF ok(3) x(1)]) simp_all
  then show ?thesis by (rule bus_ok_same_rows [OF assms(2) s _ ph]) (simp_all add: claims)
next
  case (delivers w r t sub todo errs raised)
  note ok = bus_ok_parts [OF assms(2)]
  let ?dl = "if raised = None then (ob_event r, sub) # bs_delivered b else bs_delivered b"
  from ok(2) [of w] obtain called where c: "known_row (bs_db b) r" "get_subscribers reg (ob_type r) = called @ sub # todo"
    "errs = [] \<longrightarrow> (\<forall>s\<in>set called. (ob_event r, s) \<in> set (bs_delivered b))"
    by (auto simp: delivers)
  have ph: "phase_ok reg (bs_db b) ?dl (Dispatching r t todo (errs @ delivery_error sub raised))"
    using c by (auto intro!: exI [of _ "called @ [sub]"] simp: delivery_error_def split: option.splits)
  show ?thesis
    by (rule bus_okI [OF assms(2) _ ok(1) delivered_mono [OF ok(3)] _ ok(4) ph]) (auto simp: delivers evolves_def)
next
  case (succeeds w r t)
  note ok = bus_ok_parts [OF assms(2)]
  from ok(2) [of w] have c: "known_row (bs_db b) r" "\<forall>s\<in>set (get_subscribers reg (ob_type r)). (ob_event r, s) \<in> set (bs_delivered b)"
    by (auto simp: succeeds)
  show ?thesis
    by (rule bus_ok_same_rows [OF assms(2) success_same success_delivered [OF ok(3) c], where ph = Idle and w = w]) (simp_all add: succeeds)
next
  case (fails w r t errs res db)
  note ok = bus_ok_parts [OF assms(2)]
  show ?thesis
    using fails(5)
  proof (cases rule: record_failure_cases)
    case missing
    then show ?thesis
      by (intro bus_ok_same_rows [OF assms(2), where db' = "bs_db b" and ph = Idle and w = w])
        (use ok in \<open>simp_all add: fails after_failure_def same_rows_def\<close>)
  next
    case (recorded x)
    have s: "same_rows (bs_db b) db" unfolding recorded(4) by (rule update_row_same [OF ok(1) recorded(1)]) simp
    have "known_row db (failed_row x)"
      by (rule known_row_evolves [OF known_own_row [OF ok(1) recorded(1)] same_rows_evolves [OF s]]) simp
    then have ph: "phase_ok reg db (bs_delivered b) (after_failure res (join_errors errs))" by (auto simp: recorded(3) intro!: after_failure_ok)
    have "list_all (row_delivered reg (bs_delivered b)) (od_outbox db)"
      unfolding recorded(4) by (rule update_row_delivered [OF ok(3) recorded(1)]) simp_all
    then show ?thesis by (rule bus_ok_same_rows [OF assms(2) s _ ph]) (simp_all add: fails)
  qed
next
  case (moves w r msg failing)
  note ok = bus_ok_parts [OF assms(2)]
  from ok(2) [of w] have k: "known_row (bs_db b) r" by (simp add: moves)
  note m = move_rows [OF k, of "bs_now b" failing msg]
  have "list_all (row_delivered reg (bs_delivered b)) (od_outbox (move_to_dlq (bs_now b) failing r msg (bs_db b)))"
    using ok(3) m(3) by (auto simp: list_all_iff)
  then show ?thesis
    by (rule bus_okI [OF assms(2) m(1) m(2) [OF ok(1)] _ _ subset_trans [OF ok(4) m(4)], where ph = Idle and w = w]) (simp_all add: moves)
next
  case (dies w)
  then show ?thesis using assms(2) by (simp add: bus_ok_def)
next
  case (replays admin tenant e ws d db)
  note ok = bus_ok_parts [OF assms(2)]
  obtain r where r: "od_outbox db = od_outbox (bs_db b) @ [r]" "ob_event r = e" "\<not> ob_published r" "evolves (bs_db b) db" "rows_distinct db"
    "od_dlq db = filter (\<lambda>x. dq_event x \<noteq> e) (od_dlq (bs_db b))"
    by (rule replay_Inr [OF replays(2) ok(1)])
  show ?thesis
    by (rule bus_okI [OF assms(2) r(4,5), where ph = Idle and dl = "bs_delivered b" and em = "bs_emitted b" and w = 0])
      (use ok(3,4) r in \<open>auto simp: replays row_delivered_def\<close>)
qed

lemma bus_start_ok: "bus_ok reg (bus_start workspaces)"
  by (simp add: bus_ok_def bus_start_def rows_distinct_def)

lemma bus_reachable_ok:
  assumes "(bus_step enforced reg limit)\<^sup>*\<^sup>* (bus_start workspaces) b"
  shows "bus_ok reg b"
  using assms by (induction rule: rtranclp_induct) (auto intro: bus_start_ok bus_step_ok)

text \<open>
  C22: no committed event is lost and nothing counts as published too early. Whatever workers claim, die, retry and give up on,
  and whatever is replayed, every event that was committed is in the outbox or in the dead letter queue, and a row that is
  marked published has been handled without an error by every subscriber of its type.
\<close>

theorem no_event_lost:
  assumes "(bus_step enforced reg limit)\<^sup>*\<^sup>* (bus_start workspaces) b"
  shows "set (bs_emitted b) \<subseteq> ob_event ` set (od_outbox (bs_db b)) \<union> dq_event ` set (od_dlq (bs_db b)) \<and>
    (\<forall>r\<in>set (od_outbox (bs_db b)). ob_published r \<longrightarrow>
       (\<forall>sub\<in>set (get_subscribers reg (ob_type r)). (ob_event r, sub) \<in> set (bs_delivered b)))"
  using bus_reachable_ok [OF assms] by (auto simp: bus_ok_def list_all_iff row_delivered_def)

subsection \<open>What holds when claims outlive tasks\<close>

definition held :: "instant \<Rightarrow> instant \<Rightarrow> phase \<Rightarrow> nat option" where
  "held limit now ph =
     (case ph of Dispatching r t todo errs \<Rightarrow> if now \<le> t + limit then Some (ob_pk r) else None | _ \<Rightarrow> None)"

fun holds_ok :: "instant \<Rightarrow> instant \<Rightarrow> outbox_db \<Rightarrow> phase \<Rightarrow> bool" where
  "holds_ok limit now db Idle = True"
| "holds_ok limit now db (Moving r msg) =
     (ob_pk r < od_next db \<and> (\<forall>x\<in>set (od_outbox db). ob_pk x = ob_pk r \<longrightarrow> MAX_RETRIES \<le> ob_retries x))"
| "holds_ok limit now db (Dispatching r t todo errs) =
     (t \<le> now \<and> ob_claimed r = Some t \<and> ob_retries r < MAX_RETRIES \<and> \<not> ob_published r \<and> ob_pk r < od_next db \<and>
      (now \<le> t + limit \<longrightarrow> r \<in> set (od_outbox db)))"

text \<open>A change of the tables that concerns the rows with one key, and new rows.\<close>

definition touches :: "nat \<Rightarrow> outbox_db \<Rightarrow> outbox_db \<Rightarrow> bool" where
  "touches pk db db' \<longleftrightarrow> od_next db \<le> od_next db' \<and>
     (\<forall>x\<in>set (od_outbox db). ob_pk x \<noteq> pk \<longrightarrow> x \<in> set (od_outbox db')) \<and>
     (\<forall>x\<in>set (od_outbox db'). x \<in> set (od_outbox db) \<or> od_next db \<le> ob_pk x \<or>
        (\<exists>y\<in>set (od_outbox db). ob_pk y = ob_pk x \<and> ob_retries y \<le> ob_retries x))"

lemma touchesD:
  assumes "touches pk db db'"
  shows "od_next db \<le> od_next db'" "x \<in> set (od_outbox db) \<Longrightarrow> ob_pk x \<noteq> pk \<Longrightarrow> x \<in> set (od_outbox db')"
    "x \<in> set (od_outbox db') \<Longrightarrow> ob_pk x < od_next db \<Longrightarrow> \<exists>y\<in>set (od_outbox db). ob_pk y = ob_pk x \<and> ob_retries y \<le> ob_retries x"
  using assms unfolding touches_def by (auto simp: not_le[symmetric])

lemma holds_ok_touch:
  assumes "holds_ok limit now db ph" "touches pk db db'" "held limit now ph \<noteq> Some pk"
  shows "holds_ok limit now db' ph"
proof (cases ph)
  case (Moving r msg)
  have "MAX_RETRIES \<le> ob_retries x" if x: "x \<in> set (od_outbox db')" "ob_pk x = ob_pk r" for x
  proof -
    have "ob_pk x < od_next db" using assms(1) x(2) by (simp add: Moving)
    then obtain y where "y \<in> set (od_outbox db)" "ob_pk y = ob_pk x" "ob_retries y \<le> ob_retries x"
      using touchesD(3) [OF assms(2) x(1)] by blast
    with assms(1) x(2) show ?thesis unfolding Moving holds_ok.simps by (metis le_trans)
  qed
  then show ?thesis using assms(1) touchesD(1) [OF assms(2)] by (simp add: Moving)
next
  case (Dispatching r t todo errs)
  then show ?thesis
    using assms(1,3) touchesD(1,2) [OF assms(2)] by (auto simp: held_def split: if_splits)
qed simp

lemma append_touches:
  assumes "od_outbox db' = od_outbox db @ [r]" "ob_pk r = od_next db" "od_next db' = Suc (od_next db)"
  shows "touches (od_next db) db db'"
  using assms by (auto simp: touches_def)

lemma update_touches:
  assumes "rows_distinct db" "r \<in> set (od_outbox db)" "ob_pk r' = ob_pk r" "ob_retries r \<le> ob_retries r'"
  shows "touches (ob_pk r) db (update_row (ob_pk r) (\<lambda>_. r') db)"
  using assms by (auto simp: touches_def update_row_def)

lemma move_touches: "touches (ob_pk r) db (move_to_dlq now failing r msg db)"
  by (auto simp: touches_def move_to_dlq_def)

definition attempts_ok :: "outbox_db \<Rightarrow> nat list \<Rightarrow> bool" where
  "attempts_ok db att \<longleftrightarrow> (\<forall>pk. count_list att pk \<le> MAX_RETRIES) \<and> (\<forall>pk\<in>set att. pk < od_next db) \<and>
     list_all (\<lambda>r. \<not> ob_published r \<longrightarrow> count_list att (ob_pk r) \<le> ob_retries r + (if ob_claimed r = None then 0 else 1)) (od_outbox db)"

definition claims_ok :: "instant \<Rightarrow> bus \<Rightarrow> bool" where
  "claims_ok limit b \<longleftrightarrow> (\<forall>w. holds_ok limit (bs_now b) (bs_db b) (bs_workers b w)) \<and>
     (\<forall>v w. v \<noteq> w \<longrightarrow> held limit (bs_now b) (bs_workers b v) \<noteq> None \<longrightarrow>
        held limit (bs_now b) (bs_workers b v) \<noteq> held limit (bs_now b) (bs_workers b w)) \<and>
     attempts_ok (bs_db b) (bs_attempts b)"

lemma claims_okD:
  assumes "claims_ok limit b"
  shows "holds_ok limit (bs_now b) (bs_db b) (bs_workers b w)" "attempts_ok (bs_db b) (bs_attempts b)"
    "v \<noteq> w \<Longrightarrow> held limit (bs_now b) (bs_workers b v) = Some pk \<Longrightarrow> held limit (bs_now b) (bs_workers b w) \<noteq> Some pk"
proof -
  show "holds_ok limit (bs_now b) (bs_db b) (bs_workers b w)" "attempts_ok (bs_db b) (bs_attempts b)"
    using assms by (simp_all add: claims_ok_def)
  assume "v \<noteq> w" "held limit (bs_now b) (bs_workers b v) = Some pk"
  moreover from this assms have "held limit (bs_now b) (bs_workers b v) \<noteq> held limit (bs_now b) (bs_workers b w)"
    unfolding claims_ok_def by blast
  ultimately show "held limit (bs_now b) (bs_workers b w) \<noteq> Some pk" by metis
qed

lemma claims_okI:
  assumes ok: "claims_ok limit b" and t: "touches pk (bs_db b) db'" and free: "\<And>v. v \<noteq> w \<Longrightarrow> held limit (bs_now b) (bs_workers b v) \<noteq> Some pk"
    and ph: "holds_ok limit (bs_now b) db' ph" "held limit (bs_now b) ph \<in> {None, Some pk}"
    and att: "attempts_ok db' att"
    and b': "bs_db b' = db'" "bs_workers b' = (bs_workers b)(w := ph)" "bs_now b' = bs_now b" "bs_attempts b' = att"
  shows "claims_ok limit b'"
proof -
  have "holds_ok limit (bs_now b) db' (bs_workers b v)" if "v \<noteq> w" for v
    by (rule holds_ok_touch [OF claims_okD(1) [OF ok] t free [OF that]])
  moreover have "held limit (bs_now b) (bs_workers b v) \<noteq> held limit (bs_now b) (bs_workers b u)"
    if "v \<noteq> u" "held limit (bs_now b) (bs_workers b v) \<noteq> None" for u v
    using ok that unfolding claims_ok_def by blast
  ultimately show ?thesis
    using ph free att unfolding claims_ok_def b' by (auto simp: eq_commute [of "held limit (bs_now b) ph"])
qed

lemma idle_holds [simp]: "held limit now Idle = None" "held limit now (Moving r msg) = None"
  by (simp_all add: held_def)

lemma attempts_append:
  assumes "attempts_ok db att" "od_outbox db' = od_outbox db @ [r]" "ob_pk r = od_next db" "od_next db' = Suc (od_next db)"
  shows "attempts_ok db' att"
proof -
  have "count_list att (od_next db) = 0" using assms(1) by (intro count_notin) (auto simp: attempts_ok_def)
  then show ?thesis using assms by (auto simp: attempts_ok_def less_Suc_eq)
qed

lemma attempts_update:
  assumes "attempts_ok db att" "r \<in> set (od_outbox db)" "ob_pk r' = ob_pk r"
    "\<not> ob_published r' \<Longrightarrow> \<not> ob_published r \<and> ob_retries r + (if ob_claimed r = None then 0 else 1) \<le> ob_retries r' + (if ob_claimed r' = None then 0 else 1)"
  shows "attempts_ok (update_row (ob_pk r) (\<lambda>_. r') db) att"
proof -
  have "count_list att (ob_pk r') \<le> ob_retries r' + (if ob_claimed r' = None then 0 else 1)" if "\<not> ob_published r'"
  proof -
    have "count_list att (ob_pk r) \<le> ob_retries r + (if ob_claimed r = None then 0 else 1)"
      using assms(1,2) assms(4) [OF that] by (auto simp: attempts_ok_def list_all_iff)
    with assms(3) conjunct2 [OF assms(4) [OF that]] show ?thesis by (metis le_trans)
  qed
  then show ?thesis using assms(1) by (auto simp: attempts_ok_def list_all_iff update_row_def)
qed

lemma claims_ok_claim:
  assumes ok: "claims_ok limit b" and d: "rows_distinct (bs_db b)" and lim: "limit \<le> CLAIM_TIMEOUT"
    and c: "claim_event (bs_now b) pk (bs_db b) = (Some r, db)"
  shows "claims_ok limit (set_worker w (start_dispatch reg (bs_now b) r)
      (b\<lparr>bs_db := db, bs_attempts := (if ob_retries r \<ge> MAX_RETRIES then bs_attempts b else pk # bs_attempts b)\<rparr>))"
proof -
  obtain x where x: "x \<in> set (od_outbox (bs_db b))" "ob_pk x = pk" "claimable (bs_now b) x" "r = claimed_row (bs_now b) x"
      "db = update_row (ob_pk x) (\<lambda>_. claimed_row (bs_now b) x) (bs_db b)"
    by (rule claim_event_Some [OF c])
  have rr: "r \<in> set (od_outbox db)" "od_next db = od_next (bs_db b)" using x(1) by (auto simp: x(4,5) update_row_def)
  have pk: "ob_pk r = pk" "pk < od_next db" using d x(1,2) by (auto simp: x(4) rr(2) rows_distinct_def list_all_iff)
  have free: "held limit (bs_now b) (bs_workers b v) \<noteq> Some pk" for v
  proof
    assume h: "held limit (bs_now b) (bs_workers b v) = Some pk"
    then obtain y t todo errs where y: "bs_workers b v = Dispatching y t todo errs" "bs_now b \<le> t + limit" "ob_pk y = pk"
      by (auto simp: held_def split: phase.splits if_splits)
    with claims_okD(1) [OF ok, of v] have "y \<in> set (od_outbox (bs_db b))" "ob_claimed y = Some t" by simp_all
    with rows_distinct_unique [OF d this(1) x(1)] x(2,3) y lim show False by (simp add: claimable_def reclaim_cutoff_def)
  qed
  have t: "touches pk (bs_db b) db" using update_touches [OF d x(1), of "claimed_row (bs_now b) x"] x(2) by (simp add: x(5) claimed_row_def)
  have a: "attempts_ok db (bs_attempts b)"
    unfolding x(5) by (rule attempts_update [OF claims_okD(2) [OF ok] x(1)]) (auto simp: claimed_row_def)
  have n: "count_list (bs_attempts b) pk \<le> ob_retries r"
  proof -
    have "\<not> ob_published x" using x(3) by (simp add: claimable_def)
    then have "count_list (bs_attempts b) pk \<le> ob_retries x + (if ob_claimed x = None then 0 else 1)"
      using claims_okD(2) [OF ok] x(1,2) by (auto simp: attempts_ok_def list_all_iff)
    then show ?thesis by (cases "ob_claimed x") (simp_all add: x(4) claimed_row_def)
  qed
  have "attempts_ok db (if ob_retries r \<ge> MAX_RETRIES then bs_attempts b else pk # bs_attempts b)"
  proof (cases "ob_retries r \<ge> MAX_RETRIES")
    case False
    have "z = r" if "z \<in> set (od_outbox db)" "ob_pk z = pk" for z
      using rows_distinct_unique [OF d _ x(1)] x(2) that by (auto simp: x(4,5) update_row_def split: if_splits)
    then have "\<not> ob_published z \<longrightarrow> count_list (pk # bs_attempts b) (ob_pk z) \<le> ob_retries z + (if ob_claimed z = None then 0 else 1)"
      if z: "z \<in> set (od_outbox db)" for z
    proof (cases "ob_pk z = pk")
      case True
      with z \<open>\<And>z. z \<in> set (od_outbox db) \<Longrightarrow> ob_pk z = pk \<Longrightarrow> z = r\<close> have "z = r" by blast
      with n True show ?thesis by (simp add: x(4))
    next
      case False
      with a z show ?thesis by (auto simp: attempts_ok_def list_all_iff)
    qed
    then show ?thesis using a n False pk(2) by (auto simp: attempts_ok_def list_all_iff)
  qed (use a in simp)
  moreover have "holds_ok limit (bs_now b) db (start_dispatch reg (bs_now b) r)"
    using x(3) rr pk rows_distinct_unique [OF d _ x(1)] x(2)
    by (auto simp: start_dispatch_def claimable_def x(4,5) update_row_def)
  moreover have "held limit (bs_now b) (start_dispatch reg (bs_now b) r) \<in> {None, Some pk}"
    by (simp add: start_dispatch_def held_def pk)
  ultimately show ?thesis by (intro claims_okI [OF ok t free]) simp_all
qed

text \<open>A step of a worker that does not hold a row leaves the rows others hold alone; so does an appended row.\<close>

lemma others_free:
  assumes "claims_ok limit b" "held limit (bs_now b) (bs_workers b w) = Some pk" "v \<noteq> w"
  shows "held limit (bs_now b) (bs_workers b v) \<noteq> Some pk"
  using claims_okD(3) [OF assms(1), of w v pk] assms(2,3) by auto

lemma new_key_free:
  assumes "claims_ok limit b"
  shows "held limit (bs_now b) (bs_workers b v) \<noteq> Some (od_next (bs_db b))"
  using claims_okD(1) [OF assms, of v] by (auto simp: held_def split: phase.splits if_splits)

lemma claims_ok_append:
  assumes ok: "claims_ok limit b" and "od_outbox db = od_outbox (bs_db b) @ [r]" "ob_pk r = od_next (bs_db b)" "od_next db = Suc (od_next (bs_db b))"
    and b': "bs_db b' = db" "bs_workers b' = bs_workers b" "bs_now b' = bs_now b" "bs_attempts b' = bs_attempts b"
  shows "claims_ok limit b'"
proof -
  note t = append_touches [OF assms(2-4)]
  have "holds_ok limit (bs_now b) db (bs_workers b v)" for v by (rule holds_ok_touch [OF claims_okD(1) [OF ok] t new_key_free [OF ok]])
  then show ?thesis
    using ok attempts_append [OF claims_okD(2) [OF ok] assms(2-4)] unfolding claims_ok_def b' by blast
qed

lemma dispatching_held:
  "bs_workers b w = Dispatching r t todo errs \<Longrightarrow> bs_now b \<le> t + limit \<Longrightarrow> held limit (bs_now b) (bs_workers b w) = Some (ob_pk r)"
  by (simp add: held_def)

lemma touches_refl: "touches pk db db"
  by (auto simp: touches_def)

lemma success_touches: "touches pk db (snd (finalize_success now pk db))"
  by (auto simp: touches_def finalize_success_def update_row_def)

lemma success_attempts:
  assumes "attempts_ok db att"
  shows "attempts_ok (snd (finalize_success now pk db)) att"
  using assms by (auto simp: attempts_ok_def finalize_success_def update_row_def list_all_iff)

lemma move_attempts: "attempts_ok db att \<Longrightarrow> attempts_ok (move_to_dlq now failing r msg db) att"
  by (auto simp: attempts_ok_def move_to_dlq_def list_all_iff)

lemma claims_ok_step:
  assumes step: "bus_step enforced reg limit b b'" and ok: "claims_ok limit b" and d: "rows_distinct (bs_db b)" and lim: "limit \<le> CLAIM_TIMEOUT"
  shows "claims_ok limit b'"
  using step
proof cases
  case (passes t)
  have h: "held limit t ph = Some pk \<Longrightarrow> held limit (bs_now b) ph = Some pk" for ph pk
    using passes(2) by (auto simp: held_def split: phase.splits if_splits)
  have "holds_ok limit t (bs_db b) (bs_workers b w)" for w
    using claims_okD(1) [OF ok, of w] passes(2) by (cases "bs_workers b w") auto
  moreover have "held limit t (bs_workers b v) \<noteq> held limit t (bs_workers b w)" if "v \<noteq> w" "held limit t (bs_workers b v) \<noteq> None" for v w
    using that h claims_okD(3) [OF ok that(1)] by (metis option.exhaust)
  ultimately show ?thesis using claims_okD(2) [OF ok] by (simp add: passes claims_ok_def)
next
  case (publishes armed e db)
  obtain r where "od_outbox db = od_outbox (bs_db b) @ [r]" "ob_pk r = od_next (bs_db b)" "od_next db = Suc (od_next (bs_db b))"
    by (rule publish_Inr [OF publishes(2) d])
  then show ?thesis by (rule claims_ok_append [OF ok]) (simp_all add: publishes)
next
  case (claims w pk r db)
  then show ?thesis using claims_ok_claim [OF ok d lim claims(3)] by simp
next
  case (delivers w r t sub todo errs raised)
  have f: "held limit (bs_now b) (bs_workers b v) \<noteq> Some (ob_pk r)" if "v \<noteq> w" for v
    by (rule others_free [OF ok dispatching_held [OF delivers(2,3)] that])
  show ?thesis
    by (rule claims_okI [OF ok touches_refl f _ _ claims_okD(2) [OF ok], where ph = "Dispatching r t todo (errs @ delivery_error sub raised)"])
      (use claims_okD(1) [OF ok, of w] in \<open>simp_all add: delivers held_def\<close>)
next
  case (succeeds w r t)
  have f: "held limit (bs_now b) (bs_workers b v) \<noteq> Some (ob_pk r)" if "v \<noteq> w" for v
    by (rule others_free [OF ok dispatching_held [OF succeeds(2,3)] that])
  show ?thesis
    by (rule claims_okI [OF ok success_touches f _ _ success_attempts [OF claims_okD(2) [OF ok]], where ph = Idle]) (simp_all add: succeeds)
next
  case (fails w r t errs res db)
  have f: "held limit (bs_now b) (bs_workers b v) \<noteq> Some (ob_pk r)" if "v \<noteq> w" for v
    by (rule others_free [OF ok dispatching_held [OF fails(2,4)] that])
  have r: "r \<in> set (od_outbox (bs_db b))" "ob_claimed r = Some t" "ob_pk r < od_next (bs_db b)"
    using claims_okD(1) [OF ok, of w] fails(2,4) by simp_all
  have "res = Some (failed_row r) \<and> db = update_row (ob_pk r) (\<lambda>_. failed_row r) (bs_db b)"
    using fails(5)
  proof (cases rule: record_failure_cases)
    case missing
    then show ?thesis using r(1) by blast
  next
    case (recorded x)
    then have "x = r" using rows_distinct_unique [OF d recorded(1) r(1)] by simp
    with recorded show ?thesis by simp
  qed
  then have db: "res = Some (failed_row r)" "db = update_row (ob_pk r) (\<lambda>_. failed_row r) (bs_db b)" by simp_all
  have t: "touches (ob_pk r) (bs_db b) db" unfolding db(2) by (rule update_touches [OF d r(1)]) simp_all
  have a: "attempts_ok db (bs_attempts b)"
    unfolding db(2) by (rule attempts_update [OF claims_okD(2) [OF ok] r(1)]) (simp_all add: r(2))
  have "ob_retries x = Suc (ob_retries r)" if "x \<in> set (od_outbox db)" "ob_pk x = ob_pk r" for x
    using that rows_distinct_unique [OF d _ r(1)] by (auto simp: db(2) update_row_def split: if_splits)
  moreover have "od_next db = od_next (bs_db b)" by (simp add: db(2) update_row_def)
  ultimately have h: "holds_ok limit (bs_now b) db (after_failure res (join_errors errs))"
    using r(3) by (auto simp: after_failure_def db(1))
  show ?thesis
    by (rule claims_okI [OF ok t f h _ a]) (simp_all add: fails after_failure_def db(1))
next
  case (moves w r msg failing)
  have f: "held limit (bs_now b) (bs_workers b v) \<noteq> Some (ob_pk r)" for v
  proof
    assume "held limit (bs_now b) (bs_workers b v) = Some (ob_pk r)"
    then obtain y t todo errs where y: "bs_workers b v = Dispatching y t todo errs" "bs_now b \<le> t + limit" "ob_pk y = ob_pk r"
      by (auto simp: held_def split: phase.splits if_splits)
    with claims_okD(1) [OF ok, of v] have "y \<in> set (od_outbox (bs_db b))" "ob_retries y < MAX_RETRIES" by simp_all
    with claims_okD(1) [OF ok, of w] y(3) moves(2) show False by auto
  qed
  show ?thesis
    by (rule claims_okI [OF ok move_touches f _ _ move_attempts [OF claims_okD(2) [OF ok]], where ph = Idle]) (simp_all add: moves)
next
  case (dies w)
  have f: "held limit (bs_now b) (bs_workers b v) \<noteq> Some (od_next (bs_db b))" for v by (rule new_key_free [OF ok])
  show ?thesis
    by (rule claims_okI [OF ok touches_refl f _ _ claims_okD(2) [OF ok], where ph = Idle and w = w]) (simp_all add: dies)
next
  case (replays admin tenant e ws x db)
  obtain r where "od_outbox db = od_outbox (bs_db b) @ [r]" "ob_pk r = od_next (bs_db b)" "od_next db = Suc (od_next (bs_db b))"
    by (rule replay_Inr [OF replays(2) d])
  then show ?thesis by (rule claims_ok_append [OF ok]) (simp_all add: replays)
qed

lemma bus_reachable_claims:
  assumes "(bus_step enforced reg limit)\<^sup>*\<^sup>* (bus_start workspaces) b" "limit \<le> CLAIM_TIMEOUT"
  shows "claims_ok limit b"
  using assms(1)
proof (induction rule: rtranclp_induct)
  case base
  show ?case by (simp add: claims_ok_def bus_start_def attempts_ok_def)
next
  case (step b b')
  then show ?case
    using claims_ok_step [OF step(2,3) _ assms(2)] bus_reachable_ok [OF step(1)] by (simp add: bus_ok_def)
qed

text \<open>The event whose subscribers a worker is calling, while its task is within the time limit.\<close>

definition working_on :: "instant \<Rightarrow> bus \<Rightarrow> nat \<Rightarrow> uuid option" where
  "working_on limit b w =
     (case bs_workers b w of Dispatching r t todo errs \<Rightarrow> if bs_now b \<le> t + limit then Some (ob_event r) else None | _ \<Rightarrow> None)"

lemma working_on_row:
  assumes "working_on limit b w = Some e" "holds_ok limit (bs_now b) (bs_db b) (bs_workers b w)"
  obtains r where "r \<in> set (od_outbox (bs_db b))" "ob_event r = e" "held limit (bs_now b) (bs_workers b w) = Some (ob_pk r)"
  using assms by (auto simp: working_on_def held_def split: phase.splits if_splits)

text \<open>
  C23: the claim keeps workers apart. If no task may run longer than a claim is honoured, two live workers never call the
  subscribers of the same event at the same time.
\<close>

theorem one_live_worker_per_event:
  assumes "limit \<le> CLAIM_TIMEOUT" "(bus_step enforced reg limit)\<^sup>*\<^sup>* (bus_start workspaces) b"
    and "v \<noteq> w" "working_on limit b v = Some e"
  shows "working_on limit b w \<noteq> Some e"
proof
  note ok = bus_reachable_claims [OF assms(2,1)]
  have d: "rows_distinct (bs_db b)" using bus_reachable_ok [OF assms(2)] by (simp add: bus_ok_def)
  assume "working_on limit b w = Some e"
  then obtain x where x: "x \<in> set (od_outbox (bs_db b))" "ob_event x = e" "held limit (bs_now b) (bs_workers b w) = Some (ob_pk x)"
    using working_on_row claims_okD(1) [OF ok] by metis
  obtain y where y: "y \<in> set (od_outbox (bs_db b))" "ob_event y = e" "held limit (bs_now b) (bs_workers b v) = Some (ob_pk y)"
    using working_on_row [OF assms(4)] claims_okD(1) [OF ok] by metis
  have "x = y" using d x(1,2) y(1,2) by (auto simp: rows_distinct_def distinct_map inj_on_def)
  with claims_okD(3) [OF ok assms(3) y(3)] x(3) show False by simp
qed

text \<open>
  C24: retries are bounded. Under the same condition the subscribers of a row are started at most \<open>MAX_RETRIES\<close> times,
  crashes of workers included.
\<close>

theorem attempts_bounded:
  assumes "limit \<le> CLAIM_TIMEOUT" "(bus_step enforced reg limit)\<^sup>*\<^sup>* (bus_start workspaces) b"
  shows "count_list (bs_attempts b) pk \<le> MAX_RETRIES"
  using claims_okD(2) [OF bus_reachable_claims [OF assms(2,1)]] by (simp add: attempts_ok_def)

subsection \<open>Runs\<close>

definition event_example :: "uuid \<Rightarrow> domain_event" where
  "event_example e = \<lparr>de_type = ''RequirementCreated'', de_entity = ''r'', de_workspace = ''w'', de_payload = [], de_event = e, de_tenant = None\<rparr>"

definition registry_example :: registry where
  "registry_example = register (register [] ''RequirementCreated'' ''index'') ''RequirementCreated'' ''webhook''"

definition db_after :: "outbox_db \<Rightarrow> bus_error + outbox_db \<Rightarrow> outbox_db" where
  "db_after db r = (case r of Inl _ \<Rightarrow> db | Inr db' \<Rightarrow> db')"

text \<open>Two events are committed; worker 0 claims the first.\<close>

definition bus_two :: bus where
  "bus_two =
     (let b0 = bus_start [(''w'', ''t'')];
          db1 = db_after (bs_db b0) (publish False None 0 (event_example ''e1'') (bs_db b0));
          db2 = db_after db1 (publish False None 0 (event_example ''e2'') db1)
      in b0\<lparr>bs_db := db2, bs_emitted := [''e2'', ''e1'']\<rparr>)"

definition claim_by :: "nat \<Rightarrow> nat \<Rightarrow> bus \<Rightarrow> bus" where
  "claim_by w pk b =
     (case claim_event (bs_now b) pk (bs_db b) of
        (None, _) \<Rightarrow> b
      | (Some r, db) \<Rightarrow> set_worker w (start_dispatch registry_example (bs_now b) r)
          (b\<lparr>bs_db := db, bs_attempts := (if ob_retries r \<ge> MAX_RETRIES then bs_attempts b else pk # bs_attempts b)\<rparr>))"

lemma bus_two_reachable: "(bus_step False registry_example limit)\<^sup>*\<^sup>* (bus_start [(''w'', ''t'')]) bus_two"
proof -
  let ?b0 = "bus_start [(''w'', ''t'')]"
  let ?db1 = "db_after (bs_db ?b0) (publish False None 0 (event_example ''e1'') (bs_db ?b0))"
  let ?db2 = "db_after ?db1 (publish False None 0 (event_example ''e2'') ?db1)"
  let ?b1 = "?b0\<lparr>bs_db := ?db1, bs_emitted := [''e1'']\<rparr>"
  have n: "bs_now ?b0 = 0" "bs_emitted ?b0 = []" "de_event (event_example e) = e" for e by (simp_all add: bus_start_def event_example_def)
  have p: "publish False None 0 (event_example ''e1'') (bs_db ?b0) = Inr ?db1" "publish False None 0 (event_example ''e2'') ?db1 = Inr ?db2"
    by (simp_all add: db_after_def publish_def resolve_emission_tenant_id_def insert_outbox_def bus_start_def event_example_def)
  have "bus_step False registry_example limit ?b0 ?b1"
    using bus_step.publishes [where b = ?b0 and e = "event_example ''e1''" and db = ?db1 and armed = None] p(1) by (simp add: n)
  moreover have "bus_step False registry_example limit ?b1 bus_two"
    using bus_step.publishes [where b = ?b1 and e = "event_example ''e2''" and db = ?db2 and armed = None] p(2) by (simp add: n bus_two_def Let_def)
  ultimately show ?thesis by (meson converse_rtranclp_into_rtranclp rtranclp.rtrancl_refl)
qed

lemma claim_by_step:
  assumes "bs_workers b w = Idle" "fst (claim_event (bs_now b) pk (bs_db b)) \<noteq> None"
  shows "bus_step enforced registry_example limit b (claim_by w pk b)"
proof -
  obtain r db where "claim_event (bs_now b) pk (bs_db b) = (Some r, db)" using assms(2) by (cases "claim_event (bs_now b) pk (bs_db b)") auto
  with bus_step.claims [OF assms(1) this] show ?thesis by (simp add: claim_by_def)
qed

text \<open>
  The hard limit of a task, \<open>CELERY_TASK_TIME_LIMIT\<close> of \<^verbatim>\<open>reqogniloom/settings.py\<close>, from the environment variable
  \<open>LLM_LONG_RUNNING_TIMEOUT\<close> in seconds.
\<close>

definition task_time_limit :: "int \<Rightarrow> instant" where
  "task_time_limit llm_timeout = max llm_timeout 180 * 1000000"

definition bus_busy :: bus where
  "bus_busy = claim_by 1 1 (claim_by 0 0 bus_two)"

lemma bus_busy_reachable: "(bus_step False registry_example limit)\<^sup>*\<^sup>* (bus_start [(''w'', ''t'')]) bus_busy"
proof -
  have f: "fst (claim_event (bs_now bus_two) 0 (bs_db bus_two)) \<noteq> None"
    "fst (claim_event (bs_now (claim_by 0 0 bus_two)) 1 (bs_db (claim_by 0 0 bus_two))) \<noteq> None" by code_simp+
  have w: "bs_workers bus_two 0 = Idle" "bs_workers (claim_by 0 0 bus_two) 1 = Idle" by code_simp+
  from claim_by_step [OF w(1) f(1)] claim_by_step [OF w(2) f(2)] bus_two_reachable show ?thesis
    unfolding bus_busy_def by (meson rtranclp.rtrancl_into_rtrancl)
qed

theorem no_event_lost_witness:
  "{''e1'', ''e2''} \<subseteq> ob_event ` set (od_outbox (bs_db bus_busy)) \<union> dq_event ` set (od_dlq (bs_db bus_busy)) \<and>
   map ob_claimed (od_outbox (bs_db bus_busy)) = [Some 0, Some 0]"
proof -
  have e: "bs_emitted bus_busy = [''e2'', ''e1'']" "map ob_claimed (od_outbox (bs_db bus_busy)) = [Some 0, Some 0]" by code_simp+
  from no_event_lost [OF bus_busy_reachable [of 0]] e show ?thesis by auto
qed

theorem one_live_worker_per_event_witness:
  "working_on (task_time_limit 180) bus_busy 0 = Some ''e1'' \<and> working_on (task_time_limit 180) bus_busy 1 \<noteq> Some ''e1'' \<and>
   working_on (task_time_limit 180) bus_busy 1 = Some ''e2''"
proof -
  have w: "working_on (task_time_limit 180) bus_busy 0 = Some ''e1''" "working_on (task_time_limit 180) bus_busy 1 = Some ''e2''" by code_simp+
  have l: "task_time_limit 180 \<le> CLAIM_TIMEOUT" by (simp add: task_time_limit_def CLAIM_TIMEOUT_def)
  have "working_on (task_time_limit 180) bus_busy 1 \<noteq> Some ''e1''"
    by (rule one_live_worker_per_event [OF l bus_busy_reachable _ w(1)]) simp
  with w show ?thesis by blast
qed

theorem attempts_bounded_witness: "bs_attempts bus_busy = [1, 0] \<and> count_list (bs_attempts bus_busy) 1 \<le> MAX_RETRIES"
proof -
  have "bs_attempts bus_busy = [1, 0]" by code_simp
  moreover have "task_time_limit 180 \<le> CLAIM_TIMEOUT" by (simp add: task_time_limit_def CLAIM_TIMEOUT_def)
  ultimately show ?thesis using attempts_bounded [OF _ bus_busy_reachable] by blast
qed

text \<open>
  C40: the claim timeout does not follow the task limit. With \<open>LLM_LONG_RUNNING_TIMEOUT\<close> at 600 seconds the hard limit of every
  task becomes 600 seconds while claims are honoured for 300, and two live workers call the subscribers of the same event.
\<close>

theorem long_tasks_share_a_row:
  "\<exists>b. (bus_step False registry_example (task_time_limit 600))\<^sup>*\<^sup>* (bus_start [(''w'', ''t'')]) b \<and>
     working_on (task_time_limit 600) b 0 = Some ''e1'' \<and> working_on (task_time_limit 600) b 1 = Some ''e1''"
proof -
  let ?late = "(claim_by 0 0 bus_two)\<lparr>bs_now := 301 * 1000000\<rparr>"
  have f: "fst (claim_event (bs_now bus_two) 0 (bs_db bus_two)) \<noteq> None" "fst (claim_event (bs_now ?late) 0 (bs_db ?late)) \<noteq> None"
    by code_simp+
  have w: "bs_workers bus_two 0 = Idle" "bs_workers ?late 1 = Idle" by code_simp+
  have n: "bs_now (claim_by 0 0 bus_two) \<le> 301 * 1000000" by code_simp
  have "(bus_step False registry_example (task_time_limit 600))\<^sup>*\<^sup>* (bus_start [(''w'', ''t'')]) (claim_by 1 0 ?late)"
    using bus_two_reachable claim_by_step [OF w(1) f(1)] bus_step.passes [OF n] claim_by_step [OF w(2) f(2)]
    by (meson rtranclp.rtrancl_into_rtrancl)
  moreover have "working_on (task_time_limit 600) (claim_by 1 0 ?late) 0 = Some ''e1''"
    "working_on (task_time_limit 600) (claim_by 1 0 ?late) 1 = Some ''e1''" by code_simp+
  ultimately show ?thesis by blast
qed

end
