(* ===== verification/Outbox_Drain.thy ===== *)
theory Outbox_Drain
  imports Event_Delivery
begin

text \<open>
  One worker that keeps polling (\<^verbatim>\<open>poll_and_dispatch\<close> of \<^verbatim>\<open>application/event_bus.py\<close>, run for ever by the scheduler) and that may be
  killed in the middle of any cycle: between two rows, while it calls the subscribers of a claimed row, or after a recorded failure
  before the move to the dead letter queue. Shown: the backlog left by any history of producers, workers, crashes and replays drains.
  A weight of the pending rows falls with every cycle that claims something, and every abandoned claim becomes claimable again. The
  last section shows to which tenant a row is attributed.
\<close>

subsection \<open>Transactions on one row\<close>

definition keeps_events :: "outbox_db \<Rightarrow> outbox_db \<Rightarrow> bool" where
  "keeps_events db db' \<longleftrightarrow> ob_event ` set (od_outbox db) \<union> dq_event ` set (od_dlq db) \<subseteq> ob_event ` set (od_outbox db') \<union> dq_event ` set (od_dlq db')"

lemma keeps_events_refl: "keeps_events db db"
  by (simp add: keeps_events_def)

lemma keeps_events_trans: "keeps_events db db1 \<Longrightarrow> keeps_events db1 db2 \<Longrightarrow> keeps_events db db2"
  unfolding keeps_events_def by blast

lemma same_rows_keeps: "same_rows db db' \<Longrightarrow> keeps_events db db'"
  unfolding keeps_events_def by (erule same_rows_emitted) (rule subset_refl)

lemma update_row_set:
  assumes "rows_distinct db" "r \<in> set (od_outbox db)" "ob_pk r' = ob_pk r"
  shows "set (od_outbox (update_row (ob_pk r) (\<lambda>_. r') db)) = insert r' {x \<in> set (od_outbox db). ob_pk x \<noteq> ob_pk r}"
  using assms(2,3) by (auto simp: update_row_def)

lemma record_own_failure:
  assumes "rows_distinct db" "r \<in> set (od_outbox db)"
  shows "record_failure (ob_pk r) db = (Some (failed_row r), update_row (ob_pk r) (\<lambda>_. failed_row r) db)"
proof -
  have "find (\<lambda>x. ob_pk x = ob_pk r) (od_outbox db) \<noteq> None" using assms(2) by (auto simp: find_None_iff)
  then obtain x where x: "find (\<lambda>x. ob_pk x = ob_pk r) (od_outbox db) = Some x" by blast
  with rows_distinct_unique [OF assms(1) _ assms(2)] have "x = r" by (auto dest: find_SomeD)
  with x show ?thesis by (simp add: record_failure_def)
qed

lemma finalize_own_success:
  assumes "rows_distinct db" "r \<in> set (od_outbox db)" "\<not> ob_published r"
  shows "finalize_success now (ob_pk r) db =
    (True, update_row (ob_pk r) (\<lambda>_. r\<lparr>ob_published := True, ob_published_at := Some now, ob_claimed := None\<rparr>) db)"
proof -
  have "(if ob_pk x = ob_pk r then if ob_published x then x else x\<lparr>ob_published := True, ob_published_at := Some now, ob_claimed := None\<rparr> else x) =
      (if ob_pk x = ob_pk r then r\<lparr>ob_published := True, ob_published_at := Some now, ob_claimed := None\<rparr> else x)"
    if "x \<in> set (od_outbox db)" for x
    using rows_distinct_unique [OF assms(1) that assms(2)] assms(3) by (cases "ob_pk x = ob_pk r") simp_all
  then show ?thesis
    using assms(2,3) unfolding finalize_success_def update_row_def by (auto simp: list_ex_iff intro!: arg_cong [of _ _ "\<lambda>z. od_outbox_update z db"])
qed

lemma update_row_twice:
  assumes "rows_distinct db" "r \<in> set (od_outbox db)" "ob_pk x = ob_pk r"
  shows "update_row (ob_pk r) (\<lambda>_. y) (update_row (ob_pk r) (\<lambda>_. x) db) = update_row (ob_pk r) (\<lambda>_. y) db"
  using assms(3) by (simp add: update_row_def comp_def if_distrib cong: if_cong)

definition pending :: "outbox_db \<Rightarrow> outbox_row list" where
  "pending db = filter (\<lambda>r. \<not> ob_published r) (od_outbox db)"

subsection \<open>Cycles that may be cut short\<close>

datatype interruption = BeforeClaim | WhileDispatching | BeforeMove

text \<open>
  \<open>dies pk\<close> says where the worker is killed when it comes to the row \<open>pk\<close>. A row at its limit is moved without a dispatch, so a
  subscriber cannot kill the worker there.
\<close>

fun process_until :: "poll_env \<Rightarrow> (nat \<Rightarrow> interruption option) \<Rightarrow> nat \<Rightarrow> nat list \<Rightarrow> outbox_db \<Rightarrow> outbox_db" where
  "process_until env dies k [] db = db"
| "process_until env dies k (pk # pks) db =
     (case dies pk of
        Some BeforeClaim \<Rightarrow> db
      | Some BeforeMove \<Rightarrow> snd (process_one (env\<lparr>pe_dlq_fails := \<lambda>_. True\<rparr>) k pk db)
      | Some WhileDispatching \<Rightarrow>
          (case claim_event (pe_clock env k) pk db of
             (Some r, db1) \<Rightarrow> if ob_retries r < MAX_RETRIES then db1 else process_until env dies (k + 2) pks (snd (process_one env k pk db))
           | (None, db1) \<Rightarrow> process_until env dies (k + 2) pks db1)
      | None \<Rightarrow> process_until env dies (k + 2) pks (snd (process_one env k pk db)))"

definition poll_until :: "poll_env \<Rightarrow> (nat \<Rightarrow> interruption option) \<Rightarrow> bool \<Rightarrow> nat \<Rightarrow> outbox_db \<Rightarrow> outbox_db" where
  "poll_until env dies enforced batch db = process_until env dies 1 (list_candidates enforced (pe_clock env 0) batch db) db"

lemma process_until_alive: "process_until env (\<lambda>_. None) k pks db = snd (process_rows env k pks db)"
  by (induction pks arbitrary: k db) (simp_all split: prod.splits)

text \<open>A cycle in which the worker survives is the poll cycle of the code.\<close>

lemma poll_until_alive: "poll_until env (\<lambda>_. None) enforced batch db = snd (poll_and_dispatch env enforced batch db)"
  by (simp add: poll_until_def poll_and_dispatch_def process_until_alive)

text \<open>The tables after the first \<open>n\<close> cycles of an endless run.\<close>

fun polled :: "(nat \<Rightarrow> poll_env) \<Rightarrow> (nat \<Rightarrow> nat \<Rightarrow> interruption option) \<Rightarrow> bool \<Rightarrow> nat \<Rightarrow> outbox_db \<Rightarrow> nat \<Rightarrow> outbox_db" where
  "polled envs deaths enforced batch db 0 = db"
| "polled envs deaths enforced batch db (Suc n) = poll_until (envs n) (deaths n) enforced batch (polled envs deaths enforced batch db n)"

text \<open>A cycle whose moves to the dead letter queue succeed and in which only subscribers kill the worker.\<close>

definition moves_succeed :: "poll_env \<Rightarrow> (nat \<Rightarrow> interruption option) \<Rightarrow> bool" where
  "moves_succeed env dies \<longleftrightarrow> (\<forall>pk. \<not> pe_dlq_fails env pk \<and> dies pk \<noteq> Some BeforeClaim \<and> dies pk \<noteq> Some BeforeMove)"

lemma moves_succeedD:
  assumes "moves_succeed env dies"
  shows "\<not> pe_dlq_fails env pk" "dies pk = None \<or> dies pk = Some WhileDispatching"
proof -
  from assms have p: "\<not> pe_dlq_fails env pk \<and> dies pk \<noteq> Some BeforeClaim \<and> dies pk \<noteq> Some BeforeMove" unfolding moves_succeed_def ..
  then show "\<not> pe_dlq_fails env pk" ..
  show "dies pk = None \<or> dies pk = Some WhileDispatching"
  proof (cases "dies pk")
    case (Some i)
    with p show ?thesis by (cases i) simp_all
  qed simp
qed

subsection \<open>What every cycle keeps\<close>

text \<open>Events, keys, the tenants of rows, and that a published row stays published.\<close>

definition kept :: "outbox_db \<Rightarrow> outbox_db \<Rightarrow> bool" where
  "kept db db' \<longleftrightarrow> rows_distinct db' \<and> keeps_events db db' \<and>
     (\<forall>x\<in>set (od_outbox db'). \<exists>r\<in>set (od_outbox db). ob_tenant x = ob_tenant r \<and> (ob_published r \<longrightarrow> ob_published x))"

lemma keptI:
  assumes "rows_distinct db'" "keeps_events db db'"
    and "\<And>x. x \<in> set (od_outbox db') \<Longrightarrow> \<exists>r\<in>set (od_outbox db). ob_tenant x = ob_tenant r \<and> (ob_published r \<longrightarrow> ob_published x)"
  shows "kept db db'"
  unfolding kept_def using assms by blast

lemma keptD: "kept db db' \<Longrightarrow> rows_distinct db'" "kept db db' \<Longrightarrow> keeps_events db db'"
  unfolding kept_def by simp_all

lemma kept_refl: "rows_distinct db \<Longrightarrow> kept db db"
  by (rule keptI) (auto simp: keeps_events_refl)

lemma kept_trans:
  assumes "kept db db1" "kept db1 db2"
  shows "kept db db2"
proof (rule keptI)
  show "rows_distinct db2" "keeps_events db db2"
    using assms keeps_events_trans unfolding kept_def by blast+
  fix x
  assume "x \<in> set (od_outbox db2)"
  then obtain y where y: "y \<in> set (od_outbox db1)" "ob_tenant x = ob_tenant y" "ob_published y \<longrightarrow> ob_published x"
    using assms(2) unfolding kept_def by blast
  then obtain r where "r \<in> set (od_outbox db)" "ob_tenant y = ob_tenant r" "ob_published r \<longrightarrow> ob_published y"
    using assms(1) unfolding kept_def by blast
  with y show "\<exists>r\<in>set (od_outbox db). ob_tenant x = ob_tenant r \<and> (ob_published r \<longrightarrow> ob_published x)" by metis
qed

lemma update_row_kept:
  assumes "rows_distinct db" "r \<in> set (od_outbox db)" "row_ident r' = row_ident r" "ob_tenant r' = ob_tenant r" "ob_published r \<longrightarrow> ob_published r'"
  shows "kept db (update_row (ob_pk r) (\<lambda>_. r') db)"
proof (rule keptI)
  have s: "same_rows db (update_row (ob_pk r) (\<lambda>_. r') db)" by (rule update_row_same [OF assms(1-3)])
  show "rows_distinct (update_row (ob_pk r) (\<lambda>_. r') db)" "keeps_events db (update_row (ob_pk r) (\<lambda>_. r') db)"
    by (rule same_rows_distinct [OF s assms(1)], rule same_rows_keeps [OF s])
  have "ob_pk r' = ob_pk r" using assms(3) by (simp add: row_ident_eq)
  note set = update_row_set [OF assms(1,2) this]
  fix x
  assume "x \<in> set (od_outbox (update_row (ob_pk r) (\<lambda>_. r') db))"
  then consider "x = r'" | "x \<in> set (od_outbox db)" unfolding set by blast
  then show "\<exists>r\<in>set (od_outbox db). ob_tenant x = ob_tenant r \<and> (ob_published r \<longrightarrow> ob_published x)"
    by cases (use assms(2,4,5) in blast)+
qed

lemma move_kept:
  assumes "rows_distinct db" "r \<in> set (od_outbox db)" "row_ident r' = row_ident r"
  shows "kept db (move_to_dlq now failing r' msg db)"
proof (rule keptI)
  note m = move_rows [OF known_own_row [OF assms], of now failing msg]
  show "rows_distinct (move_to_dlq now failing r' msg db)" by (rule m(2) [OF assms(1)])
  show "keeps_events db (move_to_dlq now failing r' msg db)" using m(4) by (simp add: keeps_events_def)
  show "\<exists>r\<in>set (od_outbox db). ob_tenant x = ob_tenant r \<and> (ob_published r \<longrightarrow> ob_published x)"
    if "x \<in> set (od_outbox (move_to_dlq now failing r' msg db))" for x
    using that m(3) by blast
qed

subsection \<open>The weight of the backlog\<close>

text \<open>
  A row weighs more the more attempts it has left; of two rows with the same count the unclaimed one weighs more. A row at its limit
  still has to be moved.
\<close>

definition weight :: "outbox_row \<Rightarrow> nat" where
  "weight r = (if ob_published r then 0 else if ob_retries r \<ge> MAX_RETRIES then 1
     else 2 * (MAX_RETRIES - ob_retries r) + (if ob_claimed r = None then 1 else 0))"

definition backlog_weight :: "outbox_db \<Rightarrow> nat" where
  "backlog_weight db = (\<Sum>r\<in>set (od_outbox db). weight r)"

text \<open>The row \<open>r\<close> is gone or replaced by a lighter one, and no other row has changed or appeared.\<close>

definition lightened :: "outbox_row \<Rightarrow> outbox_db \<Rightarrow> outbox_db \<Rightarrow> bool" where
  "lightened r db db' \<longleftrightarrow> (\<exists>y. weight y < weight r \<and> set (od_outbox db') \<subseteq> insert y (set (od_outbox db) - {r}))"

lemma lightened_less:
  assumes "lightened r db db'" "r \<in> set (od_outbox db)"
  shows "backlog_weight db' < backlog_weight db"
proof -
  let ?rest = "set (od_outbox db) - {r}"
  obtain y where y: "weight y < weight r" "set (od_outbox db') \<subseteq> insert y ?rest" using assms(1) unfolding lightened_def by blast
  have "backlog_weight db' \<le> (\<Sum>x\<in>insert y ?rest. weight x)"
    unfolding backlog_weight_def by (rule sum_mono2) (use y(2) in simp_all)
  also have "\<dots> \<le> weight y + (\<Sum>x\<in>?rest. weight x)" by (simp add: sum.insert_if)
  also have "\<dots> < weight r + (\<Sum>x\<in>?rest. weight x)" using y(1) by simp
  also have "\<dots> = backlog_weight db" unfolding backlog_weight_def by (rule sum.remove [symmetric]) (use assms(2) in simp_all)
  finally show ?thesis .
qed

lemma lightened_update:
  assumes "rows_distinct db" "r \<in> set (od_outbox db)" "ob_pk r' = ob_pk r" "weight r' < weight r"
  shows "lightened r db (update_row (ob_pk r) (\<lambda>_. r') db)"
  unfolding lightened_def update_row_set [OF assms(1-3)] by (rule exI [of _ r']) (use assms(4) in auto)

lemma lightened_removed:
  assumes "set (od_outbox db') \<subseteq> {x \<in> set (od_outbox db). ob_pk x \<noteq> ob_pk r}" "\<not> ob_published r"
  shows "lightened r db db'"
proof -
  let ?y = "r\<lparr>ob_published := True\<rparr>"
  have "weight ?y < weight r" using assms(2) by (simp add: weight_def MAX_RETRIES_def)
  then show ?thesis unfolding lightened_def using assms(1) by (intro exI [of _ ?y]) auto
qed

subsection \<open>One row\<close>

text \<open>The row a claim takes: counted as one more attempt when its claim was abandoned.\<close>

lemma claim_claimable:
  assumes "rows_distinct db" "r \<in> set (od_outbox db)" "claimable now r"
  shows "claim_event now (ob_pk r) db = (Some (claimed_row now r), update_row (ob_pk r) (\<lambda>_. claimed_row now r) db)"
proof -
  have "find (\<lambda>x. ob_pk x = ob_pk r \<and> claimable now x) (od_outbox db) \<noteq> None"
    using assms(2,3) by (auto simp: find_None_iff)
  then obtain x where x: "find (\<lambda>x. ob_pk x = ob_pk r \<and> claimable now x) (od_outbox db) = Some x" by blast
  with rows_distinct_unique [OF assms(1) _ assms(2)] have "x = r" by (auto dest: find_SomeD)
  with x show ?thesis by (simp add: claim_event_def)
qed

lemma claim_unclaimable:
  assumes "claim_event now pk db = (None, db')"
  shows "db' = db"
  using assms by (simp add: claim_event_def split: option.splits)

lemma claimed_row_lighter:
  assumes "claimable now r" "ob_retries (claimed_row now r) < MAX_RETRIES"
  shows "weight (claimed_row now r) < weight r"
  using assms by (cases "ob_claimed r") (simp_all add: weight_def claimed_row_def claimable_def)

lemma failed_row_lighter:
  assumes "claimable now r" "Suc (ob_retries (claimed_row now r)) < MAX_RETRIES"
  shows "weight (failed_row (claimed_row now r)) < weight r"
  using assms by (cases "ob_claimed r") (simp_all add: weight_def claimed_row_def failed_row_def claimable_def)

text \<open>What one claimed row turns into, whether or not the move to the dead letter queue fails.\<close>

lemma process_one_claimed:
  assumes "rows_distinct db" "r \<in> set (od_outbox db)" "claimable (pe_clock env k) r"
  obtains (moved) x x' msg where "snd (process_one env k (ob_pk r) db) =
        move_to_dlq (pe_clock env (Suc k)) (pe_dlq_fails env (ob_pk r)) x' msg (update_row (ob_pk r) (\<lambda>_. x) db)"
      "row_ident x = row_ident r" "row_ident x' = row_ident r" "ob_tenant x = ob_tenant r" "\<not> ob_published x"
  | (replaced) x where "snd (process_one env k (ob_pk r) db) = update_row (ob_pk r) (\<lambda>_. x) db"
      "row_ident x = row_ident r" "ob_tenant x = ob_tenant r" "weight x < weight r"
proof -
  define r1 where "r1 = claimed_row (pe_clock env k) r"
  define d1 where "d1 = update_row (ob_pk r) (\<lambda>_. r1) db"
  have c: "claim_event (pe_clock env k) (ob_pk r) db = (Some r1, d1)"
    unfolding r1_def d1_def by (rule claim_claimable [OF assms])
  have u: "\<not> ob_published r" using assms(3) by (simp add: claimable_def)
  have r1: "ob_pk r1 = ob_pk r" "row_ident r1 = row_ident r" "\<not> ob_published r1" "ob_tenant r1 = ob_tenant r"
    using u by (simp_all add: r1_def)
  have d1: "rows_distinct d1" "r1 \<in> set (od_outbox d1)"
    unfolding d1_def using same_rows_distinct [OF update_row_same [OF assms(1,2) r1(2)] assms(1)] update_row_set [OF assms(1,2) r1(1)] by simp_all
  let ?msg = "join_errors (dispatch_to_subscribers (pe_registry env) (pe_behave env) (event_of_row r1))"
  let ?now = "pe_clock env (Suc k)"
  have twice: "update_row (ob_pk r) (\<lambda>_. y) d1 = update_row (ob_pk r) (\<lambda>_. y) db" for y
    unfolding d1_def by (rule update_row_twice [OF assms(1,2) r1(1)])
  have f: "row_ident (failed_row r1) = row_ident r" "\<not> ob_published (failed_row r1)" "ob_tenant (failed_row r1) = ob_tenant r"
    using r1 by simp_all
  consider (exhausted) "MAX_RETRIES \<le> ob_retries r1" | (failed) "ob_retries r1 < MAX_RETRIES" "?msg \<noteq> []" | (success) "ob_retries r1 < MAX_RETRIES" "?msg = []"
    by fastforce
  then show ?thesis
  proof cases
    case exhausted
    then have "snd (process_one env k (ob_pk r) db) = move_to_dlq ?now (pe_dlq_fails env (ob_pk r)) r1 STALE_CLAIM_MESSAGE d1"
      by (simp add: process_one_def c)
    then show ?thesis using r1 unfolding d1_def by (intro moved)
  next
    case failed
    have "record_failure (ob_pk r) d1 = (Some (failed_row r1), update_row (ob_pk r) (\<lambda>_. failed_row r1) db)"
      using record_own_failure [OF d1] twice by (simp add: r1(1))
    then have p: "snd (process_one env k (ob_pk r) db) = (if Suc (ob_retries r1) < MAX_RETRIES then update_row (ob_pk r) (\<lambda>_. failed_row r1) db
        else move_to_dlq ?now (pe_dlq_fails env (ob_pk r)) (failed_row r1) ?msg (update_row (ob_pk r) (\<lambda>_. failed_row r1) db))"
      using failed by (simp add: process_one_def c Let_def finalize_failure_def)
    show ?thesis
    proof (cases "Suc (ob_retries r1) < MAX_RETRIES")
      case True
      then have "weight (failed_row r1) < weight r" unfolding r1_def by (rule failed_row_lighter [OF assms(3)])
      with p True f show ?thesis by (intro replaced) simp_all
    next
      case False
      with p have q: "snd (process_one env k (ob_pk r) db) =
          move_to_dlq ?now (pe_dlq_fails env (ob_pk r)) (failed_row r1) ?msg (update_row (ob_pk r) (\<lambda>_. failed_row r1) db)" by simp
      show ?thesis by (rule moved [OF q f(1) f(1) f(3) f(2)])
    qed
  next
    case success
    let ?y = "r1\<lparr>ob_published := True, ob_published_at := Some ?now, ob_claimed := None\<rparr>"
    have "finalize_success ?now (ob_pk r) d1 = (True, update_row (ob_pk r) (\<lambda>_. ?y) db)"
      using finalize_own_success [OF d1 r1(3)] twice by (simp add: r1(1))
    then have p: "snd (process_one env k (ob_pk r) db) = update_row (ob_pk r) (\<lambda>_. ?y) db"
      using success by (simp add: process_one_def c Let_def)
    have "row_ident ?y = row_ident r" "ob_tenant ?y = ob_tenant r" "weight ?y < weight r"
      using r1 u by (simp_all add: row_ident_def weight_def MAX_RETRIES_def)
    then show ?thesis by (rule replaced [OF p])
  qed
qed

lemma process_one_unclaimed:
  assumes "fst (claim_event (pe_clock env k) pk db) = None"
  shows "snd (process_one env k pk db) = db"
proof -
  obtain db1 where c: "claim_event (pe_clock env k) pk db = (None, db1)" using assms by (metis prod.collapse)
  then show ?thesis using claim_unclaimable [OF c] by (simp add: process_one_def)
qed

lemma process_one_kept:
  assumes "rows_distinct db"
  shows "kept db (snd (process_one env k pk db))"
proof (cases "fst (claim_event (pe_clock env k) pk db)")
  case None
  then show ?thesis using process_one_unclaimed kept_refl [OF assms] by simp
next
  case (Some r')
  then obtain db1 where "claim_event (pe_clock env k) pk db = (Some r', db1)" by (metis prod.collapse)
  then obtain r where r: "r \<in> set (od_outbox db)" "ob_pk r = pk" "claimable (pe_clock env k) r" by (rule claim_event_Some)
  have u: "\<not> ob_published r" using r(3) by (simp add: claimable_def)
  have "kept db (snd (process_one env k (ob_pk r) db))"
    using assms r(1,3)
  proof (cases rule: process_one_claimed)
    case (moved x x' msg)
    let ?d = "update_row (ob_pk r) (\<lambda>_. x) db"
    have k: "kept db ?d" by (rule update_row_kept [OF assms r(1) moved(2,4)]) (use u in blast)
    have "ob_pk x = ob_pk r" using moved(2) by (simp add: row_ident_eq)
    then have "x \<in> set (od_outbox ?d)" using update_row_set [OF assms r(1)] by simp
    then have "kept ?d (snd (process_one env k (ob_pk r) db))"
      unfolding moved(1) by (rule move_kept [OF keptD(1) [OF k]]) (simp add: moved(2,3))
    then show ?thesis by (rule kept_trans [OF k])
  next
    case (replaced x)
    show ?thesis unfolding replaced(1) by (rule update_row_kept [OF assms r(1) replaced(2,3)]) (use u in blast)
  qed
  then show ?thesis by (simp add: r(2))
qed

lemma process_one_lightens:
  assumes "rows_distinct db" "r \<in> set (od_outbox db)" "claimable (pe_clock env k) r" "\<not> pe_dlq_fails env (ob_pk r)"
  shows "lightened r db (snd (process_one env k (ob_pk r) db))"
  using assms(1-3)
proof (cases rule: process_one_claimed)
  case (moved x x' msg)
  have "ob_pk x = ob_pk r" "ob_pk x' = ob_pk r" using moved(2,3) by (simp_all add: row_ident_eq)
  then have "set (od_outbox (snd (process_one env k (ob_pk r) db))) \<subseteq> {y \<in> set (od_outbox db). ob_pk y \<noteq> ob_pk r}"
    using update_row_set [OF assms(1,2)] assms(4) unfolding moved(1) by (auto simp: move_to_dlq_def)
  then show ?thesis by (rule lightened_removed) (use assms(3) in \<open>simp add: claimable_def\<close>)
next
  case (replaced x)
  have "ob_pk x = ob_pk r" using replaced(2) by (simp add: row_ident_eq)
  then show ?thesis unfolding replaced(1) by (rule lightened_update [OF assms(1,2) _ replaced(4)])
qed

text \<open>Whatever the key: nothing becomes heavier when moves succeed.\<close>

lemma process_one_weight:
  assumes "rows_distinct db" "\<not> pe_dlq_fails env pk"
  shows "backlog_weight (snd (process_one env k pk db)) \<le> backlog_weight db"
proof (cases "fst (claim_event (pe_clock env k) pk db)")
  case None
  then show ?thesis using process_one_unclaimed by simp
next
  case (Some r')
  then obtain db1 where "claim_event (pe_clock env k) pk db = (Some r', db1)" by (metis prod.collapse)
  then obtain r where r: "r \<in> set (od_outbox db)" "ob_pk r = pk" "claimable (pe_clock env k) r" by (rule claim_event_Some)
  have "lightened r db (snd (process_one env k (ob_pk r) db))"
    by (rule process_one_lightens [OF assms(1) r(1,3)]) (use assms(2) r(2) in simp)
  from lightened_less [OF this r(1)] show ?thesis by (simp add: r(2))
qed

subsection \<open>One cycle\<close>

lemma process_until_kept:
  assumes "rows_distinct db"
  shows "kept db (process_until env dies k pks db)"
  using assms
proof (induction pks arbitrary: db k)
  case Nil
  then show ?case by (simp add: kept_refl)
next
  case (Cons pk pks)
  have step: "kept db (process_until env dies (k + 2) pks db1)" if k: "kept db db1" for db1
    by (rule kept_trans [OF k Cons.IH [OF keptD(1) [OF k]]])
  have one: "kept db (snd (process_one env' k pk db))" for env' by (rule process_one_kept [OF Cons.prems])
  show ?case
  proof (cases "dies pk")
    case None
    then show ?thesis using step [OF one] by simp
  next
    case (Some i)
    show ?thesis
    proof (cases i)
      case BeforeClaim
      then show ?thesis using Some kept_refl [OF Cons.prems] by simp
    next
      case BeforeMove
      then show ?thesis using Some one by simp
    next
      case WhileDispatching
      obtain res db1 where c: "claim_event (pe_clock env k) pk db = (res, db1)" by (cases "claim_event (pe_clock env k) pk db")
      have "kept db db1"
      proof (cases res)
        case None
        with c claim_unclaimable kept_refl [OF Cons.prems] show ?thesis by metis
      next
        case (Some r')
        with c have "claim_event (pe_clock env k) pk db = (Some r', db1)" by simp
        then obtain r where r: "r \<in> set (od_outbox db)" "db1 = update_row (ob_pk r) (\<lambda>_. claimed_row (pe_clock env k) r) db"
          by (rule claim_event_Some)
        show ?thesis unfolding r(2) by (rule update_row_kept [OF Cons.prems r(1)]) simp_all
      qed
      then show ?thesis
        using Some WhileDispatching c step step [OF one] by (cases res) simp_all
    qed
  qed
qed

lemma process_until_weight:
  assumes "rows_distinct db" "moves_succeed env dies"
  shows "backlog_weight (process_until env dies k pks db) \<le> backlog_weight db"
  using assms(1)
proof (induction pks arbitrary: db k)
  case Nil
  then show ?case by simp
next
  case (Cons pk pks)
  note m = moves_succeedD [OF assms(2), of pk]
  have one: "backlog_weight (process_until env dies (k + 2) pks (snd (process_one env k pk db))) \<le> backlog_weight db"
    by (rule order_trans [OF Cons.IH [OF keptD(1) [OF process_one_kept [OF Cons.prems]]] process_one_weight [OF Cons.prems m(1)]])
  from m(2) show ?case
  proof
    assume "dies pk = None"
    then show ?thesis using one by simp
  next
    assume d: "dies pk = Some WhileDispatching"
    obtain res db1 where c: "claim_event (pe_clock env k) pk db = (res, db1)" by (cases "claim_event (pe_clock env k) pk db")
    show ?thesis
    proof (cases res)
      case None
      with c claim_unclaimable have "db1 = db" by metis
      then show ?thesis using d c None Cons.IH [OF Cons.prems] by simp
    next
      case (Some r')
      with c have c: "claim_event (pe_clock env k) pk db = (Some r', db1)" by simp
      then obtain r where r: "r \<in> set (od_outbox db)" "ob_pk r = pk" "claimable (pe_clock env k) r" "r' = claimed_row (pe_clock env k) r"
        "db1 = update_row (ob_pk r) (\<lambda>_. claimed_row (pe_clock env k) r) db" by (rule claim_event_Some)
      show ?thesis
      proof (cases "ob_retries r' < MAX_RETRIES")
        case True
        have "lightened r db db1"
          unfolding r(5) by (rule lightened_update [OF Cons.prems r(1)]) (use True r(3,4) claimed_row_lighter in simp_all)
        from lightened_less [OF this r(1)] show ?thesis using d c True by simp
      next
        case False
        then show ?thesis using d c one by simp
      qed
    qed
  qed
qed

text \<open>The first candidate makes the cycle count.\<close>

lemma process_until_progress:
  assumes "rows_distinct db" "moves_succeed env dies" "r \<in> set (od_outbox db)" "claimable (pe_clock env k) r"
  shows "backlog_weight (process_until env dies k (ob_pk r # pks) db) < backlog_weight db"
proof -
  note m = moves_succeedD [OF assms(2), of "ob_pk r"]
  have "backlog_weight (process_until env dies (k + 2) pks (snd (process_one env k (ob_pk r) db))) \<le> backlog_weight (snd (process_one env k (ob_pk r) db))"
    by (rule process_until_weight [OF keptD(1) [OF process_one_kept [OF assms(1)]] assms(2)])
  also have "\<dots> < backlog_weight db"
    by (rule lightened_less [OF process_one_lightens [OF assms(1,3,4) m(1)] assms(3)])
  finally have one: "backlog_weight (process_until env dies (k + 2) pks (snd (process_one env k (ob_pk r) db))) < backlog_weight db" .
  from m(2) show ?thesis
  proof
    assume "dies (ob_pk r) = None"
    then show ?thesis using one by simp
  next
    assume d: "dies (ob_pk r) = Some WhileDispatching"
    note c = claim_claimable [OF assms(1,3,4)]
    show ?thesis
    proof (cases "ob_retries (claimed_row (pe_clock env k) r) < MAX_RETRIES")
      case True
      have "lightened r db (update_row (ob_pk r) (\<lambda>_. claimed_row (pe_clock env k) r) db)"
        by (rule lightened_update [OF assms(1,3)]) (use True claimed_row_lighter [OF assms(4)] in simp_all)
      from lightened_less [OF this assms(3)] show ?thesis using d c True by simp
    next
      case False
      then show ?thesis using d c one by simp
    qed
  qed
qed

lemma claimable_later: "claimable now r \<Longrightarrow> now \<le> later \<Longrightarrow> claimable later r"
  by (auto simp: claimable_def reclaim_cutoff_def split: option.splits)

lemma candidate_rows:
  assumes "pk \<in> set (list_candidates enforced now batch db)"
  obtains r where "r \<in> set (od_outbox db)" "ob_pk r = pk" "claimable now r"
  using assms by (auto simp: list_candidates_def dest!: in_set_takeD)

lemma candidates_Nil:
  assumes "list_candidates enforced now batch db = []" "0 < batch" "r \<in> set (od_outbox db)" "enforced \<longrightarrow> ob_tenant r \<noteq> None"
  shows "\<not> claimable now r"
proof
  assume "claimable now r"
  with assms(3,4) have "r \<in> set (sort_key ob_created (filter (\<lambda>r. claimable now r \<and> (enforced \<longrightarrow> ob_tenant r \<noteq> None)) (od_outbox db)))" by simp
  with assms(1,2) show False by (auto simp: list_candidates_def simp del: set_sort)
qed

lemma poll_until_kept: "rows_distinct db \<Longrightarrow> kept db (poll_until env dies enforced batch db)"
  unfolding poll_until_def by (rule process_until_kept)

lemma poll_until_weight:
  "rows_distinct db \<Longrightarrow> moves_succeed env dies \<Longrightarrow> backlog_weight (poll_until env dies enforced batch db) \<le> backlog_weight db"
  unfolding poll_until_def by (rule process_until_weight)

text \<open>A cycle that leaves the weight alone has found no candidate, and has done nothing.\<close>

lemma poll_until_idle:
  assumes "rows_distinct db" "moves_succeed env dies" "mono (pe_clock env)"
    and "\<not> backlog_weight (poll_until env dies enforced batch db) < backlog_weight db"
  shows "list_candidates enforced (pe_clock env 0) batch db = []" "poll_until env dies enforced batch db = db"
proof -
  show e: "list_candidates enforced (pe_clock env 0) batch db = []"
  proof (cases "list_candidates enforced (pe_clock env 0) batch db")
    case (Cons pk pks)
    then have "pk \<in> set (list_candidates enforced (pe_clock env 0) batch db)" by simp
    then obtain r where r: "r \<in> set (od_outbox db)" "ob_pk r = pk" "claimable (pe_clock env 0) r" by (rule candidate_rows)
    have "claimable (pe_clock env 1) r" by (rule claimable_later [OF r(3)]) (use assms(3) in \<open>simp add: mono_def\<close>)
    from process_until_progress [OF assms(1,2) r(1) this, of pks] assms(4) show ?thesis by (simp add: poll_until_def Cons r(2))
  qed
  show "poll_until env dies enforced batch db = db" by (simp add: poll_until_def e)
qed

subsection \<open>An endless run\<close>

lemma polled_kept:
  assumes "rows_distinct db"
  shows "kept db (polled envs deaths enforced batch db n)"
proof (induction n)
  case (Suc n)
  show ?case using kept_trans [OF Suc poll_until_kept [OF keptD(1) [OF Suc]]] by simp
qed (simp add: kept_refl [OF assms])

lemma polled_weight:
  assumes "rows_distinct db" "\<And>m. n \<le> m \<Longrightarrow> moves_succeed (envs m) (deaths m)" "n \<le> m"
  shows "backlog_weight (polled envs deaths enforced batch db m) \<le> backlog_weight (polled envs deaths enforced batch db n)"
  using assms(3)
proof (induction m rule: dec_induct)
  case (step m)
  have "backlog_weight (polled envs deaths enforced batch db (Suc m)) \<le> backlog_weight (polled envs deaths enforced batch db m)"
    using poll_until_weight [OF keptD(1) [OF polled_kept [OF assms(1)]] assms(2) [OF step(1)]] by simp
  with step.IH show ?case by simp
qed simp

text \<open>When nothing gets lighter any more, the tables stay as they are, and there is no candidate.\<close>

lemma polled_stuck:
  assumes "rows_distinct db" "\<And>m. n \<le> m \<Longrightarrow> moves_succeed (envs m) (deaths m)" "\<And>m. mono (pe_clock (envs m))"
    and "\<And>m. n \<le> m \<Longrightarrow> \<not> backlog_weight (polled envs deaths enforced batch db (Suc m)) < backlog_weight (polled envs deaths enforced batch db m)"
    and "n \<le> m"
  shows "polled envs deaths enforced batch db m = polled envs deaths enforced batch db n"
    "list_candidates enforced (pe_clock (envs m) 0) batch (polled envs deaths enforced batch db n) = []"
proof -
  have idle: "list_candidates enforced (pe_clock (envs j) 0) batch (polled envs deaths enforced batch db j) = [] \<and>
      polled envs deaths enforced batch db (Suc j) = polled envs deaths enforced batch db j" if j: "n \<le> j" for j
    using poll_until_idle [OF keptD(1) [OF polled_kept [OF assms(1)]] assms(2) [OF j] assms(3)] assms(4) [OF j] by simp
  show same: "polled envs deaths enforced batch db m = polled envs deaths enforced batch db n"
    using assms(5)
  proof (induction m rule: dec_induct)
    case (step m)
    have "polled envs deaths enforced batch db (Suc m) = polled envs deaths enforced batch db m" using idle [OF step(1)] ..
    then show ?case by (rule trans [OF _ step.IH])
  qed (rule refl)
  show "list_candidates enforced (pe_clock (envs m) 0) batch (polled envs deaths enforced batch db n) = []"
    using idle [OF assms(5)] unfolding same ..
qed

text \<open>Every pending row becomes claimable.\<close>

lemma claimable_eventually:
  fixes envs :: "nat \<Rightarrow> poll_env"
  assumes "\<And>t. \<exists>n. \<forall>m\<ge>n. t < pe_clock (envs m) 0" "\<not> ob_published r"
  obtains m where "n \<le> m" "claimable (pe_clock (envs m) 0) r"
proof -
  define t where "t = (case ob_claimed r of None \<Rightarrow> 0 | Some s \<Rightarrow> s + CLAIM_TIMEOUT)"
  obtain j where j: "\<forall>m\<ge>j. t < pe_clock (envs m) 0" using assms(1) [of t] ..
  have l: "t < pe_clock (envs (max n j)) 0" by (rule j [rule_format, OF max.cobounded2])
  have "claimable (pe_clock (envs (max n j)) 0) r"
    using l assms(2) by (auto simp: t_def claimable_def reclaim_cutoff_def split: option.splits)
  then show ?thesis by (intro that [of "max n j"]) simp_all
qed

lemma pending_drains:
  assumes "rows_distinct db" "0 < batch" "\<And>m. mono (pe_clock (envs m))" "\<And>t. \<exists>n. \<forall>m\<ge>n. t < pe_clock (envs m) 0"
    and "\<And>m. start \<le> m \<Longrightarrow> moves_succeed (envs m) (deaths m)"
    and "enforced \<longrightarrow> list_all (\<lambda>r. ob_tenant r \<noteq> None) (pending db)"
  shows "start \<le> n \<Longrightarrow> \<exists>m\<ge>start. pending (polled envs deaths enforced batch db m) = []"
proof (induction "backlog_weight (polled envs deaths enforced batch db n)" arbitrary: n rule: less_induct)
  case less
  let ?d = "\<lambda>m. polled envs deaths enforced batch db m"
  have ms: "moves_succeed (envs m) (deaths m)" if "n \<le> m" for m using assms(5) less.prems that by simp
  show ?case
  proof (cases "pending (?d n) = []")
    case True
    with less.prems show ?thesis by blast
  next
    case False
    then obtain r where r: "r \<in> set (od_outbox (?d n))" "\<not> ob_published r" by (auto simp: pending_def filter_empty_conv)
    obtain r0 where "r0 \<in> set (od_outbox db)" "ob_tenant r = ob_tenant r0" "ob_published r0 \<longrightarrow> ob_published r"
      using polled_kept [OF assms(1)] r(1) unfolding kept_def by blast
    then have tenant: "enforced \<longrightarrow> ob_tenant r \<noteq> None" using assms(6) r(2) by (auto simp: pending_def list_all_iff)
    have "\<exists>m\<ge>n. backlog_weight (?d (Suc m)) < backlog_weight (?d m)"
    proof (rule ccontr)
      assume "\<not> (\<exists>m\<ge>n. backlog_weight (?d (Suc m)) < backlog_weight (?d m))"
      then have stuck: "\<not> backlog_weight (?d (Suc m)) < backlog_weight (?d m)" if "n \<le> m" for m using that by blast
      obtain m where m: "n \<le> m" "claimable (pe_clock (envs m) 0) r" by (rule claimable_eventually [OF assms(4) r(2)])
      note e = polled_stuck(2) [OF assms(1) ms assms(3) stuck m(1)]
      from candidates_Nil [OF e assms(2) r(1) tenant] m(2) show False ..
    qed
    then obtain m where m: "n \<le> m" "backlog_weight (?d (Suc m)) < backlog_weight (?d m)" by blast
    have "backlog_weight (?d (Suc m)) < backlog_weight (?d n)"
      by (rule less_le_trans [OF m(2) polled_weight [OF assms(1) ms m(1)]])
    then show ?thesis by (rule less.hyps) (use m(1) less.prems in simp)
  qed
qed

lemma pending_stays_empty:
  assumes "pending db = []"
  shows "poll_until env dies enforced batch db = db"
proof -
  have "list_candidates enforced (pe_clock env 0) batch db = []"
    using assms by (auto simp: list_candidates_def pending_def filter_empty_conv claimable_def)
  then show ?thesis by (simp add: poll_until_def)
qed

lemma drained_stays:
  assumes "pending (polled envs deaths enforced batch db n) = []" "n \<le> m"
  shows "polled envs deaths enforced batch db m = polled envs deaths enforced batch db n"
  using assms(2) by (induction m rule: dec_induct) (use pending_stays_empty [OF assms(1)] in simp_all)

text \<open>
  C25: the outbox drains. Take the tables left by any history of producers, concurrent workers, crashes and replays, and let one
  worker poll them for ever, with any batch size, with or without row-level security enforced, calling subscribers that return,
  raise, or kill the worker in mid-cycle however often. From some cycle on no row is pending: every event ever committed is marked
  published or lies in the dead letter queue. Assumed: nothing is published or replayed meanwhile, clocks do not run backwards
  within a cycle and grow beyond every bound, only finitely many cycles have a failing move to the dead letter queue or a worker
  killed outside the dispatch, and under enforcement every pending row has a tenant.
\<close>

theorem outbox_drains:
  assumes "(bus_step flag reg limit)\<^sup>*\<^sup>* (bus_start workspaces) b" "0 < batch"
    and "\<forall>m. mono (pe_clock (envs m))" "\<forall>t. \<exists>n. \<forall>m\<ge>n. t < pe_clock (envs m) 0"
    and "\<exists>n. \<forall>m\<ge>n. moves_succeed (envs m) (deaths m)"
    and "enforced \<longrightarrow> list_all (\<lambda>r. ob_tenant r \<noteq> None) (pending (bs_db b))"
  shows "\<exists>n. \<forall>m\<ge>n. pending (polled envs deaths enforced batch (bs_db b) m) = [] \<and>
    set (bs_emitted b) \<subseteq> ob_event ` {r \<in> set (od_outbox (polled envs deaths enforced batch (bs_db b) m)). ob_published r} \<union>
      dq_event ` set (od_dlq (polled envs deaths enforced batch (bs_db b) m))"
proof -
  let ?d = "\<lambda>m. polled envs deaths enforced batch (bs_db b) m"
  have ok: "rows_distinct (bs_db b)" "set (bs_emitted b) \<subseteq> ob_event ` set (od_outbox (bs_db b)) \<union> dq_event ` set (od_dlq (bs_db b))"
    using bus_reachable_ok [OF assms(1)] by (simp_all add: bus_ok_def)
  have mono: "mono (pe_clock (envs m))" for m using assms(3) ..
  have time: "\<exists>n. \<forall>m\<ge>n. t < pe_clock (envs m) 0" for t using assms(4) ..
  obtain start where start: "\<forall>m\<ge>start. moves_succeed (envs m) (deaths m)" using assms(5) ..
  then have "moves_succeed (envs m) (deaths m)" if "start \<le> m" for m using that by blast
  from pending_drains [OF ok(1) assms(2) mono time this assms(6) order_refl]
  obtain n where n: "pending (?d n) = []" by blast
  have pub: "\<forall>r\<in>set (od_outbox (?d n)). ob_published r" using n by (simp add: pending_def filter_empty_conv)
  have "set (bs_emitted b) \<subseteq> ob_event ` set (od_outbox (?d n)) \<union> dq_event ` set (od_dlq (?d n))"
    using ok(2) keptD(2) [OF polled_kept [OF ok(1)]] unfolding keeps_events_def by blast
  then have "set (bs_emitted b) \<subseteq> ob_event ` {r \<in> set (od_outbox (?d n)). ob_published r} \<union> dq_event ` set (od_dlq (?d n))"
    using pub by blast
  with n have n': "pending (?d n) = [] \<and> set (bs_emitted b) \<subseteq> ob_event ` {r \<in> set (od_outbox (?d n)). ob_published r} \<union> dq_event ` set (od_dlq (?d n))" ..
  show ?thesis
  proof (intro exI allI impI)
    fix m
    assume "n \<le> m"
    then have "?d m = ?d n" by (rule drained_stays [OF n])
    then show "pending (?d m) = [] \<and>
        set (bs_emitted b) \<subseteq> ob_event ` {r \<in> set (od_outbox (?d m)). ob_published r} \<union> dq_event ` set (od_dlq (?d m))"
      using n' by (simp only:)
  qed
qed

text \<open>A subscriber that kills its worker on the first event, every time: a cycle every 400 seconds.\<close>

definition killing_env :: "nat \<Rightarrow> poll_env" where
  "killing_env m =
     \<lparr>pe_registry = registry_example, pe_behave = (\<lambda>sub e. None), pe_clock = (\<lambda>k. int m * 400000000 + int k), pe_dlq_fails = (\<lambda>_. False)\<rparr>"

definition killed_on_first :: "nat \<Rightarrow> nat \<Rightarrow> interruption option" where
  "killed_on_first m pk = (if pk = 0 then Some WhileDispatching else None)"

lemma killing_example:
  "map (\<lambda>r. (ob_event r, ob_published r, ob_retries r)) (od_outbox (polled killing_env killed_on_first False 100 (bs_db bus_two) 5)) =
     [(''e1'', False, 4), (''e2'', False, 0)]"
  "map (\<lambda>d. (dq_event d, dq_retries d, dq_error d)) (od_dlq (polled killing_env killed_on_first False 100 (bs_db bus_two) 6)) =
     [(''e1'', 5, STALE_CLAIM_MESSAGE)]"
  "map (\<lambda>r. (ob_event r, ob_published r)) (od_outbox (polled killing_env killed_on_first False 100 (bs_db bus_two) 6)) = [(''e2'', True)]"
  by code_simp+

theorem outbox_drains_witness:
  "bs_emitted bus_two = [''e2'', ''e1''] \<and>
   (\<exists>n. \<forall>m\<ge>n. pending (polled killing_env killed_on_first False 100 (bs_db bus_two) m) = [] \<and>
     set (bs_emitted bus_two) \<subseteq> ob_event ` {r \<in> set (od_outbox (polled killing_env killed_on_first False 100 (bs_db bus_two) m)). ob_published r} \<union>
       dq_event ` set (od_dlq (polled killing_env killed_on_first False 100 (bs_db bus_two) m)))"
proof
  show "bs_emitted bus_two = [''e2'', ''e1'']" by code_simp
  have p: "(0::nat) < 100" by simp
  have m: "\<forall>m. mono (pe_clock (killing_env m))" by (simp add: killing_env_def mono_def)
  have "t < pe_clock (killing_env m) 0" if "nat t + 1 \<le> m" for t m using that by (simp add: killing_env_def)
  then have t: "\<forall>t. \<exists>n. \<forall>m\<ge>n. t < pe_clock (killing_env m) 0" by blast
  have s: "\<exists>n. \<forall>m\<ge>n. moves_succeed (killing_env m) (killed_on_first m)"
    by (simp add: moves_succeed_def killing_env_def killed_on_first_def)
  have e: "False \<longrightarrow> list_all (\<lambda>r. ob_tenant r \<noteq> None) (pending (bs_db bus_two))" by simp
  show "\<exists>n. \<forall>m\<ge>n. pending (polled killing_env killed_on_first False 100 (bs_db bus_two) m) = [] \<and>
     set (bs_emitted bus_two) \<subseteq> ob_event ` {r \<in> set (od_outbox (polled killing_env killed_on_first False 100 (bs_db bus_two) m)). ob_published r} \<union>
       dq_event ` set (od_dlq (polled killing_env killed_on_first False 100 (bs_db bus_two) m))"
    by (rule outbox_drains [OF bus_two_reachable p m t s e])
qed

subsection \<open>Tenants\<close>

definition own_tenant :: "(uuid \<times> uuid) list \<Rightarrow> outbox_row \<Rightarrow> bool" where
  "own_tenant workspaces r \<longleftrightarrow> (\<exists>t. ob_tenant r = Some t \<and> map_of workspaces (ob_workspace r) = Some t)"

fun phase_tenant :: "(uuid \<times> uuid) list \<Rightarrow> phase \<Rightarrow> bool" where
  "phase_tenant ws Idle = True"
| "phase_tenant ws (Moving r msg) = own_tenant ws r"
| "phase_tenant ws (Dispatching r t todo errs) = own_tenant ws r"

definition tenants_ok :: "(uuid \<times> uuid) list \<Rightarrow> bus \<Rightarrow> bool" where
  "tenants_ok ws b \<longleftrightarrow> od_workspaces (bs_db b) = ws \<and> list_all (own_tenant ws) (od_outbox (bs_db b)) \<and>
     list_all (\<lambda>d. \<exists>t. dq_tenant d = Some t \<and> map_of ws (dq_workspace d) = Some t) (od_dlq (bs_db b)) \<and> (\<forall>w. phase_tenant ws (bs_workers b w))"

lemma own_tenant_row [simp]: "own_tenant ws (claimed_row now r) = own_tenant ws r" "own_tenant ws (failed_row r) = own_tenant ws r"
  by (simp_all add: own_tenant_def)

lemma update_row_tenants:
  "list_all (own_tenant ws) (od_outbox db) \<Longrightarrow> own_tenant ws r \<Longrightarrow> list_all (own_tenant ws) (od_outbox (update_row pk (\<lambda>_. r) db))"
  by (auto simp: list_all_iff update_row_def)

lemma update_row_keeps [simp]: "od_dlq (update_row pk f db) = od_dlq db" "od_workspaces (update_row pk f db) = od_workspaces db"
  by (simp_all add: update_row_def)

lemma resolved_tenant:
  assumes "resolve_emission_tenant_id True armed db ws = Inr (Some t)"
  shows "map_of (od_workspaces db) ws = Some t"
  using assms by (auto simp: resolve_emission_tenant_id_def split: option.splits if_splits)

lemma tenants_okI:
  assumes "tenants_ok ws b" "od_workspaces (bs_db b') = ws" "list_all (own_tenant ws) (od_outbox (bs_db b'))"
    and "list_all (\<lambda>d. \<exists>t. dq_tenant d = Some t \<and> map_of ws (dq_workspace d) = Some t) (od_dlq (bs_db b'))"
    and "bs_workers b' = (bs_workers b)(w := ph)" "phase_tenant ws ph"
  shows "tenants_ok ws b'"
  using assms by (simp add: tenants_ok_def)

lemma tenants_ok_step:
  assumes "bus_step True reg limit b b'" "tenants_ok ws b" "rows_distinct (bs_db b)"
  shows "tenants_ok ws b'"
  using assms(1)
proof cases
  case (passes t)
  then show ?thesis using assms(2) by (simp add: tenants_ok_def)
next
  case (publishes armed e db)
  obtain r where r: "od_outbox db = od_outbox (bs_db b) @ [r]" "ob_workspace r = de_workspace e"
    "resolve_emission_tenant_id True armed (bs_db b) (de_workspace e) = Inr (ob_tenant r)" "ob_tenant r \<noteq> None"
    "od_dlq db = od_dlq (bs_db b)" "od_workspaces db = od_workspaces (bs_db b)"
    by (rule publish_Inr [OF publishes(2) assms(3)]) blast
  from r(4) obtain t where t: "ob_tenant r = Some t" by blast
  have "map_of (od_workspaces (bs_db b)) (ob_workspace r) = Some t" using resolved_tenant r(2,3) t by metis
  then show ?thesis
    using assms(2) r t by (auto simp: publishes tenants_ok_def own_tenant_def)
next
  case (claims w pk r db)
  obtain x where x: "x \<in> set (od_outbox (bs_db b))" "r = claimed_row (bs_now b) x"
    "db = update_row (ob_pk x) (\<lambda>_. claimed_row (bs_now b) x) (bs_db b)"
    by (rule claim_event_Some [OF claims(3)])
  have o: "own_tenant ws x" using assms(2) x(1) by (simp add: tenants_ok_def list_all_iff)
  then have "phase_tenant ws (start_dispatch reg (bs_now b) r)" by (simp add: start_dispatch_def x(2))
  then show ?thesis
    by (rule tenants_okI [OF assms(2), rotated -1]) (use assms(2) o in \<open>simp_all add: claims x(3) tenants_ok_def update_row_tenants\<close>)
next
  case (delivers w r t sub todo errs raised)
  have "phase_tenant ws (bs_workers b w)" using assms(2) by (simp add: tenants_ok_def)
  then have "phase_tenant ws (Dispatching r t todo (errs @ delivery_error sub raised))" by (simp add: delivers)
  then show ?thesis
    by (rule tenants_okI [OF assms(2), rotated -1]) (use assms(2) in \<open>simp_all add: delivers tenants_ok_def\<close>)
next
  case (succeeds w r t)
  have "list_all (own_tenant ws) (od_outbox (snd (finalize_success (bs_now b) (ob_pk r) (bs_db b))))"
    using assms(2) by (auto simp: tenants_ok_def list_all_iff finalize_success_def update_row_def own_tenant_def)
  then show ?thesis
    by (intro tenants_okI [OF assms(2), where ph = Idle and w = w]) (use assms(2) in \<open>simp_all add: succeeds tenants_ok_def finalize_success_def\<close>)
next
  case (fails w r t errs res db)
  show ?thesis
    using fails(5)
  proof (cases rule: record_failure_cases)
    case missing
    then show ?thesis
      by (intro tenants_okI [OF assms(2), where ph = Idle and w = w]) (use assms(2) in \<open>simp_all add: fails after_failure_def tenants_ok_def\<close>)
  next
    case (recorded x)
    have o: "own_tenant ws x" using assms(2) recorded(1) by (simp add: tenants_ok_def list_all_iff)
    then have "phase_tenant ws (after_failure res (join_errors errs))" by (simp add: after_failure_def recorded(3))
    then show ?thesis
      by (rule tenants_okI [OF assms(2), rotated -1]) (use assms(2) o in \<open>simp_all add: fails recorded(4) tenants_ok_def update_row_tenants\<close>)
  qed
next
  case (moves w r msg failing)
  have "phase_tenant ws (bs_workers b w)" using assms(2) by (simp add: tenants_ok_def)
  then have "own_tenant ws r" by (simp add: moves)
  then show ?thesis
    by (intro tenants_okI [OF assms(2), where ph = Idle and w = w])
      (use assms(2) in \<open>auto simp: moves tenants_ok_def move_to_dlq_def list_all_iff own_tenant_def\<close>)
next
  case (dies w)
  then show ?thesis using assms(2) by (intro tenants_okI [OF assms(2), where ph = Idle and w = w]) (simp_all add: tenants_ok_def)
next
  case (replays admin tenant e w d db)
  obtain r where r: "map_of (od_workspaces (bs_db b)) w = Some tenant" "od_outbox db = od_outbox (bs_db b) @ [r]" "ob_workspace r = w"
    "ob_tenant r = Some tenant" "od_dlq db = filter (\<lambda>x. dq_event x \<noteq> e) (od_dlq (bs_db b))" "od_workspaces db = od_workspaces (bs_db b)"
    by (rule replay_Inr [OF replays(2) assms(3)])
  then show ?thesis
    using assms(2) by (auto simp: replays tenants_ok_def own_tenant_def list_all_iff)
qed

text \<open>
  C26: with row-level security enforced, events stay with their tenant. Every row of the outbox and of the dead letter queue carries the
  tenant its workspace belongs to, whatever request published, moved or replayed it.
\<close>

theorem events_keep_tenant:
  assumes "(bus_step True reg limit)\<^sup>*\<^sup>* (bus_start workspaces) b"
  shows "(\<forall>r\<in>set (od_outbox (bs_db b)). \<exists>t. ob_tenant r = Some t \<and> map_of workspaces (ob_workspace r) = Some t) \<and>
    (\<forall>d\<in>set (od_dlq (bs_db b)). \<exists>t. dq_tenant d = Some t \<and> map_of workspaces (dq_workspace d) = Some t)"
proof -
  from assms have "tenants_ok workspaces b"
  proof (induction rule: rtranclp_induct)
    case base
    show ?case by (simp add: tenants_ok_def bus_start_def)
  next
    case (step b b')
    then show ?case using tenants_ok_step [OF step(2,3)] bus_reachable_ok [OF step(1)] by (simp add: bus_ok_def)
  qed
  then show ?thesis by (simp add: tenants_ok_def list_all_iff own_tenant_def)
qed

lemma publish_example:
  "\<not> isl (publish True None 0 (event_example ''e1'') (bs_db (bus_start [(''w'', ''t'')])))"
  "map ob_tenant (od_outbox (db_after db (publish True None 0 (event_example ''e1'') (bs_db (bus_start [(''w'', ''t'')]))))) = [Some ''t'']"
  by code_simp+

theorem events_keep_tenant_witness:
  "\<exists>b. (bus_step True [] 0)\<^sup>*\<^sup>* (bus_start [(''w'', ''t'')]) b \<and> map ob_tenant (od_outbox (bs_db b)) = [Some ''t''] \<and>
     (\<forall>r\<in>set (od_outbox (bs_db b)). \<exists>t. ob_tenant r = Some t \<and> map_of [(''w'', ''t'')] (ob_workspace r) = Some t)"
proof -
  let ?start = "bus_start [(''w'', ''t'')]"
  let ?db = "db_after (bs_db ?start) (publish True None 0 (event_example ''e1'') (bs_db ?start))"
  let ?later = "?start\<lparr>bs_db := ?db, bs_emitted := [''e1'']\<rparr>"
  have "publish True None 0 (event_example ''e1'') (bs_db ?start) = Inr ?db"
    using publish_example(1) by (simp add: db_after_def isl_def split: sum.splits)
  moreover have "bs_now ?start = 0" by (simp add: bus_start_def)
  ultimately have p: "publish True None (bs_now ?start) (event_example ''e1'') (bs_db ?start) = Inr ?db" by (simp only:)
  have "bus_step True [] 0 ?start ?later"
    using bus_step.publishes [where b = ?start, OF p] by (simp add: bus_start_def event_example_def)
  then have r: "(bus_step True [] 0)\<^sup>*\<^sup>* ?start ?later" by (rule r_into_rtranclp)
  have "map ob_tenant (od_outbox (bs_db ?later)) = [Some ''t'']" using publish_example(2) by simp
  note t = this conjunct1 [OF events_keep_tenant [OF r]]
  show ?thesis by (rule exI [of _ ?later]) (rule conjI [OF r conjI [OF t]])
qed

end
