(* ===== verification/Spec2Isabelle.thy ===== *)
theory Spec2Isabelle
  imports Policy_Engine Breaker_History Preset_Gate Workflow_Guarantees Worker_Caches Tier_Recompute Query_Engine Architecture_Tree Trace_Guarantees Outbox_Drain
begin

text \<open>
  \<^bold>\<open>ReqogniLoom, a requirements engineering server: the verified core.\<close>

  \<^bold>\<open>The program.\<close> ReqogniLoom is a multi-tenant Django backend (\<^verbatim>\<open>src/backend\<close>) for systems engineering: artifacts
  (requirements, architecture elements, test cases, ...) live in workspaces of tenants, carry a workflow state, are joined
  by typed trace links, and are edited by humans and by AI agents, whose contributions are proposals until a human decides.
  REST (\<^verbatim>\<open>rest_api\<close>) and MCP (\<^verbatim>\<open>mcp_server\<close>) are transports over one layer of services (\<^verbatim>\<open>application\<close>), which rests on
  the domain engines: presets, workflow, link types, traceability, resilience. The development models these engines and the
  services that carry their rules.

  \<^bold>\<open>How the code is modelled.\<close> Database tables are lists of records in insertion order; a query is a \<open>filter\<close>, \<open>find\<close> or
  \<open>sort_key\<close> over them; constraints of a table are functions that name the violated constraint. An operation takes the
  state and returns \<open>Inl error\<close> for a raise or \<open>Inr (result, state)\<close>; a transaction that raises leaves the state it started
  with. Python's dicts are association lists, where the later entry wins. The clock, new identifiers, password hashing, signing,
  the outbound calls of the resilience layer, the broker and the role check are arguments of the definitions. Every definition
  a witness evaluates is executable.

  \<^bold>\<open>The theories.\<close>
  \<^item> \<open>Loom_Prelude\<close>: identifiers, the result type and its \<open>bind\<close>, Python string operations, searching lists.
  \<^item> \<open>Circuit_Breaker\<close>, \<open>Breaker_History\<close>, \<open>Policy_Engine\<close> (\<^verbatim>\<open>resilience/\<close>): the breaker row with its persisted state machine (locale
    \<open>breaker_contract\<close>), retry with backoff, degradation, the dispatcher and its asynchronous task. Shown: the stored breaker decides
    as a specification over the history of calls says, per tenant and target, admits a single probe, recovers; the retry schedule;
    a lost probe locks a target out.
  \<^item> \<open>Presets\<close>, \<open>Preset_Gate\<close> (\<^verbatim>\<open>presets/\<close>, \<^verbatim>\<open>persistence/cache_generation.py\<close>): registry, terminology, the feature gate with its
    per-worker caches and generation counters. Shown: once a switch has invalidated and a worker's memo has expired, it serves no
    older preset, as long as the shared cache stays up.
  \<^item> \<open>Workflow_Schemas\<close>, \<open>Workflow_Store\<close>, \<open>Workflow_Global\<close>, \<open>Definition_Cache\<close> (\<^verbatim>\<open>workflow/definition_store.py\<close>,
    \<^verbatim>\<open>global_definition_store.py\<close>, \<^verbatim>\<open>transition_validator.py\<close>): preset graphs, custom definitions, the visual-editor edits,
    propagation of tenant-wide definitions, the definition cache (locale \<open>keyed_cache\<close>); the locales
    \<open>definition_edit\<close>, \<open>graph_edit\<close> and \<open>global_edit\<close> state what an edit promises and are interpreted on every edit. Shown: preset graphs are usable, edits strand no item, derived definitions mirror the global one.
  \<^item> \<open>State_Reader\<close>, \<open>Workflow_Rules\<close>, \<open>Workflow_Validator\<close>, \<open>Workflow_Lifecycle\<close>, \<open>Workflow_Services\<close>, \<open>Workflow_Engine\<close>,
    \<open>Workflow_Guarantees\<close> (\<^verbatim>\<open>workflow/\<close>): reading states, precondition rules 0 to 10, validation, the signature gate, transitions,
    soft deletion, the facade. Shown: what a transition requires and writes, history explains state, lost updates are
    prevented, only a human decides a proposal, verification needs passed evidence.
  \<^item> \<open>Worker_Caches\<close>: the same operations run by several worker processes, each with its own definition cache. Shown: what a worker
    validates with was stored at some moment since its own last change; an edit by another worker can be missed.
  \<^item> \<open>Link_Types\<close> (\<^verbatim>\<open>link_types/\<close>): validation of definitions, the built-in types, pair matching.
  \<^item> \<open>Graph_Search\<close>, \<open>Trace_Links\<close> (\<^verbatim>\<open>traceability/trace_link_manager.py\<close>, \<^verbatim>\<open>audit/hierarchy.py\<close>): path search, the recursive
    component search, link creation, batches and deletion over the link table. Shown: the graph of every type stays acyclic,
    creation is accepted exactly for admissible links, the component search decides acyclicity.
  \<^item> \<open>Requirement_Tiers\<close>, \<open>Tier_Recompute\<close> (\<^verbatim>\<open>application/tier_ladder_service.py\<close>, \<^verbatim>\<open>tier_compute.py\<close>): the ladder of a workspace and
    the derivation of tiers; the locale \<open>memo_recursion\<close> proves memoised recursion correct once and is interpreted for element
    heights and for tiers. Shown: recomputation returns, follows its rule, is idempotent, places requirements below parents.
  \<^item> \<open>Recursive_Query\<close>, \<open>Query_Engine\<close> (\<^verbatim>\<open>traceability/query_engine.py\<close>): the semantics of \<open>WITH RECURSIVE\<close>, direct neighbours and the
    transitive hull. Shown: the query ends on every table and returns exactly the reachable artifacts with shortest distances.
  \<^item> \<open>Architecture_Elements\<close>, \<open>Architecture_Tree\<close> (\<^verbatim>\<open>application/validators.py\<close>, \<^verbatim>\<open>architecture_service.py\<close>): the invariants of the
    element tree, the element service, levels and roles. Shown: the tree stays consistent over sequences of operations and
    under concurrent moves, three ways to compute a level agree; and where the tree still breaks.
  \<^item> \<open>Trace_Service\<close>, \<open>Trace_Guarantees\<close> (\<^verbatim>\<open>application/trace_link_service.py\<close>, \<^verbatim>\<open>artifact_freeze.py\<close>): the service over link manager,
    catalog, elements and tiers. Shown: what a created link has passed, that agents cannot settle proposals, which rows become
    suspect, allocation and its coverage; and that deallocation lets an agent erase a proposal after all.
  \<^item> \<open>Event_Outbox\<close>, \<open>Event_Delivery\<close>, \<open>Outbox_Drain\<close> (\<^verbatim>\<open>application/event_bus.py\<close>, \<^verbatim>\<open>dlq_service.py\<close>): the transactional outbox,
    its workers as interleaved transactions, the dead letter queue and replay. Shown: no committed event is lost, claims keep live
    workers apart as long as tasks are shorter than a claim, attempts are bounded, a worker that keeps polling drains the outbox
    even when its subscribers kill it, events keep their tenant; and the configuration in which claims fail.
  \<^bold>\<open>Bounds and fuel.\<close> Loops with a visited set are total functions with a measure. The workflow reachability loop also
  has a fuelled form, \<open>reach_fuel\<close>, with one step per state plus one, which is shown to be enough. Recursive Python
  functions (Tarjan, element heights, cycle search, tier derivation) take the number of interpreter frames left; running out is
  the error value of a \<open>RecursionError\<close>, and theorems say how many frames suffice (one per node, \<open>frames_needed\<close> for tiers).
  Loops that may not end are \<open>partial_function (option)\<close>, where \<open>None\<close> is a loop that never ends.

  \<^bold>\<open>Not modelled.\<close> The transports (\<^verbatim>\<open>rest_api\<close>, \<^verbatim>\<open>mcp_server\<close>: serialisation and dispatch), the LLM adapter, memory, interviews and
  other AI services (outbound calls and prompts), PDF and ReqIF output, the frontend, deployment, migrations of old data,
  Django's ORM itself and PostgreSQL's concurrency beyond the interleavings stated in a theorem. The manifest lists every part
  with its reason.
\<close>

end
